(* ===== verification/Prelude.thy ===== *)
theory Prelude
  imports Main "HOL-Library.State_Monad" "HOL-Library.AList" "HOL-Library.Sublist"
begin

text \<open>
  Shared by every component: the fact collections, the effect type of stateful Go code (the
  library's state monad), the frame rules for sequential code as a locale over a reflexive and
  transitive relation between states, and generic lemmas about association lists.
\<close>

section \<open>Fact collections\<close>

named_theorems os_defs \<open>definitions of the modelled system calls\<close>
named_theorems frame_intros \<open>frame rules: what a computation leaves alone\<close>
named_theorems run_simps \<open>running a computation from a state\<close>

section \<open>Effects\<close>

text \<open>
  A Go function that reads and writes shared state is a value of \<^typ>\<open>('s, 'a) state\<close>: it takes the
  state and returns its result and the new state. Go's \<open>x, err := f(); if err != nil\<close> is a case
  split on a sum, with the error on the left.
\<close>

abbreviation ret :: "'a \<Rightarrow> ('s, 'a) state" where
  "ret \<equiv> State_Monad.return"

lemma run_state_State [simp, run_simps]: "run_state (State f) s = f s"
  by simp

lemma state_io_rel_fst_snd: "state_io_rel R m \<longleftrightarrow> (\<forall>s. R s (snd (run_state m s)))"
  by (simp add: state_io_rel_def)

text \<open>
  A frame rule says which part of the state a computation cannot change. Every such rule is about
  one reflexive and transitive relation, and sequential composition, branching and returning
  preserve it whatever the relation is.
\<close>

locale step_order =
  fixes R :: "'s \<Rightarrow> 's \<Rightarrow> bool"
  assumes step_refl: "R s s"
    and step_trans: "R s t \<Longrightarrow> R t u \<Longrightarrow> R s u"
begin

lemma io_return: "state_io_rel R (ret x)"
  by (simp add: state_io_rel_def step_refl)

lemma io_bind:
  assumes "state_io_rel R m" and "\<And>x. state_io_rel R (f x)"
  shows "state_io_rel R (State_Monad.bind m f)"
proof (rule state_io_relI)
  fix b s u
  assume "run_state (State_Monad.bind m f) s = (b, u)"
  then obtain a t where m: "run_state m s = (a, t)" and f: "run_state (f a) t = (b, u)"
    by (auto split: prod.splits)
  from assms(1) m have "R s t" by (rule state_io_relD)
  moreover from assms(2) f have "R t u" by (rule state_io_relD)
  ultimately show "R s u" by (rule step_trans)
qed

lemma io_if:
  "(b \<Longrightarrow> state_io_rel R m) \<Longrightarrow> (\<not> b \<Longrightarrow> state_io_rel R n) \<Longrightarrow> state_io_rel R (if b then m else n)"
  by simp

lemma io_option:
  "(x = None \<Longrightarrow> state_io_rel R m) \<Longrightarrow> (\<And>a. x = Some a \<Longrightarrow> state_io_rel R (f a)) \<Longrightarrow>
    state_io_rel R (case x of None \<Rightarrow> m | Some a \<Rightarrow> f a)"
  by (simp split: option.split)

lemma io_sum:
  "(\<And>e. x = Inl e \<Longrightarrow> state_io_rel R (f e)) \<Longrightarrow> (\<And>a. x = Inr a \<Longrightarrow> state_io_rel R (g a)) \<Longrightarrow>
    state_io_rel R (case x of Inl e \<Rightarrow> f e | Inr a \<Rightarrow> g a)"
  by (simp split: sum.split)

lemma io_prod:
  "(\<And>a b. x = (a, b) \<Longrightarrow> state_io_rel R (f a b)) \<Longrightarrow> state_io_rel R (case x of (a, b) \<Rightarrow> f a b)"
  by (simp split: prod.split)

lemma io_list:
  "(x = [] \<Longrightarrow> state_io_rel R m) \<Longrightarrow> (\<And>a as. x = a # as \<Longrightarrow> state_io_rel R (f a as)) \<Longrightarrow>
    state_io_rel R (case x of [] \<Rightarrow> m | a # as \<Rightarrow> f a as)"
  by (simp split: list.split)

lemmas io_rules = io_return io_bind io_if io_option io_sum io_prod io_list

end

section \<open>Association lists\<close>

lemma map_of_filter_key:
  "map_of (filter (\<lambda>(k, v). P k) al) k = (if P k then map_of al k else None)"
  by (induction al) auto

lemma map_of_update_AList: "map_of (AList.update k v al) = (map_of al)(k \<mapsto> v)"
  by (rule ext) (simp add: update_conv)

lemma map_of_delete_AList: "map_of (AList.delete k al) = (map_of al)(k := None)"
  by (rule ext) (simp add: delete_conv)

lemma map_of_Some_in_keys: "map_of al k = Some v \<Longrightarrow> k \<in> set (map fst al)"
  by (metis image_set map_of_SomeD fst_conv image_eqI)

end
