(* ===== verification/GoPath.thy ===== *)
theory GoPath
  imports Prelude
begin

text \<open>
  The parts of Go's \<open>strings\<close>, \<open>path\<close> and \<open>path/filepath\<close> (with the Unix separator) that the
  repository uses, as functions on byte strings. A Go string is a sequence of bytes and an Isabelle
  \<^typ>\<open>char\<close> is a byte, so a string of the model is a string of the program.
\<close>

section \<open>strings\<close>

fun split_on :: "char \<Rightarrow> string \<Rightarrow> string list" where
  "split_on c [] = [[]]"
| "split_on c (x # xs) =
    (if x = c then [] # split_on c xs
     else (case split_on c xs of [] \<Rightarrow> [[x]] | y # ys \<Rightarrow> (x # y) # ys))"

fun join_on :: "char \<Rightarrow> string list \<Rightarrow> string" where
  "join_on c [] = []"
| "join_on c [x] = x"
| "join_on c (x # y # ys) = x @ c # join_on c (y # ys)"

definition HasPrefix :: "string \<Rightarrow> string \<Rightarrow> bool" where
  "HasPrefix s p = (take (length p) s = p)"

definition TrimPrefix :: "string \<Rightarrow> string \<Rightarrow> string" where
  "TrimPrefix s p = (if HasPrefix s p then drop (length p) s else s)"

definition TrimSuffix :: "string \<Rightarrow> string \<Rightarrow> string" where
  "TrimSuffix s p =
    (if length p \<le> length s \<and> drop (length s - length p) s = p
     then take (length s - length p) s else s)"

lemma HasPrefix_iff: "HasPrefix s p \<longleftrightarrow> prefix p s"
  by (metis HasPrefix_def append_eq_conv_conj append_take_drop_id prefix_def)

lemma split_on_not_Nil [simp]: "split_on c s \<noteq> []"
  by (induction s) (auto split: list.splits)

lemma join_split: "join_on c (split_on c s) = s"
proof (induction s)
  case (Cons x xs)
  then show ?case
    by (cases "split_on c xs"; cases "tl (split_on c xs)") auto
qed simp

lemma split_on_pieces: "p \<in> set (split_on c s) \<Longrightarrow> c \<notin> set p"
proof (induction s arbitrary: p)
  case (Cons x xs)
  then show ?case
    by (cases "split_on c xs") (auto split: if_splits)
qed simp

lemma split_on_no_sep: "c \<notin> set s \<Longrightarrow> split_on c s = [s]"
  by (induction s) auto

lemma split_on_append: "c \<notin> set s \<Longrightarrow> split_on c (s @ c # t) = s # split_on c t"
  by (induction s) auto

lemma split_join:
  "xs \<noteq> [] \<Longrightarrow> \<forall>x \<in> set xs. c \<notin> set x \<Longrightarrow> split_on c (join_on c xs) = xs"
  by (induction c xs rule: join_on.induct) (auto simp: split_on_no_sep split_on_append)

section \<open>path/filepath\<close>

abbreviation sep :: char where
  "sep \<equiv> CHR ''/''"

definition IsAbs :: "string \<Rightarrow> bool" where
  "IsAbs p = (p \<noteq> [] \<and> hd p = sep)"

text \<open>
  \<open>Clean\<close> drops empty and \<open>.\<close> elements, lets \<open>..\<close> remove the element before it, keeps a leading
  \<open>..\<close> of a relative path and drops it at the root. The accumulator is the reversed output.
\<close>

fun clean_comps :: "bool \<Rightarrow> string list \<Rightarrow> string list \<Rightarrow> string list" where
  "clean_comps rooted out [] = rev out"
| "clean_comps rooted out (c # cs) =
    (if c = '''' \<or> c = ''.'' then clean_comps rooted out cs
     else if c = ''..'' then
       (case out of
          [] \<Rightarrow> if rooted then clean_comps rooted [] cs else clean_comps rooted [''..''] cs
        | d # ds \<Rightarrow>
            if d = ''..'' then clean_comps rooted (''..'' # out) cs else clean_comps rooted ds cs)
     else clean_comps rooted (c # out) cs)"

definition Clean :: "string \<Rightarrow> string" where
  "Clean p =
    (if p = '''' then ''.''
     else if IsAbs p then sep # join_on sep (clean_comps True [] (split_on sep p))
     else (case clean_comps False [] (split_on sep p) of
             [] \<Rightarrow> ''.'' | cs \<Rightarrow> join_on sep cs))"

definition Join :: "string list \<Rightarrow> string" where
  "Join elems =
    (case dropWhile (\<lambda>e. e = '''') elems of [] \<Rightarrow> '''' | es \<Rightarrow> Clean (join_on sep es))"

text \<open>\<open>Split\<close> cuts just after the last separator; \<open>Base\<close> and \<open>Dir\<close> are built on it.\<close>

definition Split :: "string \<Rightarrow> string \<times> string" where
  "Split p =
    (let file = rev (takeWhile (\<lambda>c. c \<noteq> sep) (rev p)) in (take (length p - length file) p, file))"

definition strip_slashes :: "string \<Rightarrow> string" where
  "strip_slashes p = rev (dropWhile (\<lambda>c. c = sep) (rev p))"

definition Base :: "string \<Rightarrow> string" where
  "Base p =
    (if p = '''' then ''.''
     else let b = snd (Split (strip_slashes p)) in if b = '''' then ''/'' else b)"

definition Dir :: "string \<Rightarrow> string" where
  "Dir p = Clean (fst (Split p))"

lemma Split_append: "fst (Split p) @ snd (Split p) = p"
proof -
  have "rev p = takeWhile (\<lambda>c. c \<noteq> sep) (rev p) @ dropWhile (\<lambda>c. c \<noteq> sep) (rev p)"
    by simp
  then have "p = rev (dropWhile (\<lambda>c. c \<noteq> sep) (rev p)) @ rev (takeWhile (\<lambda>c. c \<noteq> sep) (rev p))"
    by (metis rev_append rev_rev_ident)
  then show ?thesis
    by (metis Split_def append_eq_conv_conj append_take_drop_id diff_diff_cancel fst_conv
        length_append length_rev add_diff_cancel_right' snd_conv)
qed

lemma Split_file_no_sep: "sep \<notin> set (snd (Split p))"
  by (auto simp: Split_def Let_def dest: set_takeWhileD)

text \<open>What \<open>Clean\<close> leaves: no empty and no \<open>.\<close> element, and no separator inside one.\<close>

definition plain_comp :: "string \<Rightarrow> bool" where
  "plain_comp c \<longleftrightarrow> c \<noteq> '''' \<and> c \<noteq> ''.'' \<and> sep \<notin> set c"

lemma plain_dotdot [simp]: "plain_comp ''..''"
  by (simp add: plain_comp_def)

lemma clean_comps_skip: "c = '''' \<or> c = ''.'' \<Longrightarrow> clean_comps r out (c # cs) = clean_comps r out cs"
  by simp

lemma clean_comps_back:
  "clean_comps r [] (''..'' # cs) = clean_comps r (if r then [] else [''..'']) cs"
  "clean_comps r (d # ds) (''..'' # cs) =
    clean_comps r (if d = ''..'' then ''..'' # d # ds else ds) cs"
  by simp_all

lemma clean_comps_keep:
  "plain_comp c \<Longrightarrow> c \<noteq> ''..'' \<Longrightarrow> clean_comps r out (c # cs) = clean_comps r (c # out) cs"
  by (simp add: plain_comp_def)

declare clean_comps.simps(2) [simp del]

lemma clean_comps_plain:
  assumes "list_all plain_comp out" and "list_all (\<lambda>c. sep \<notin> set c) cs"
  shows "list_all plain_comp (clean_comps rooted out cs)"
  using assms
proof (induction cs arbitrary: out)
  case (Cons c cs)
  note IH = Cons.IH and prems = Cons.prems
  consider "c = '''' \<or> c = ''.''" | "c = ''..''" | "plain_comp c" "c \<noteq> ''..''"
    using prems(2) by (auto simp: plain_comp_def)
  then show ?case
  proof cases
    case 1
    then show ?thesis using IH prems by (simp only: clean_comps_skip list.pred_inject)
  next
    case 2
    then show ?thesis
      using IH prems by (cases out) (simp_all add: clean_comps_back)
  next
    case 3
    then show ?thesis using IH [of "c # out"] prems by (simp add: clean_comps_keep)
  qed
qed simp

lemma clean_comps_no_dotdot:
  "''..'' \<notin> set cs \<Longrightarrow> clean_comps rooted out cs = rev out @ filter (\<lambda>c. c \<noteq> '''' \<and> c \<noteq> ''.'') cs"
  by (induction cs arbitrary: out) (auto simp: clean_comps.simps)

lemma clean_comps_rooted_no_dotdot:
  assumes "''..'' \<notin> set out"
  shows "''..'' \<notin> set (clean_comps True out cs)"
  using assms
proof (induction cs arbitrary: out)
  case (Cons c cs)
  note IH = Cons.IH and prems = Cons.prems
  consider "c = '''' \<or> c = ''.''" | "c = ''..''" | "c \<noteq> ''..''" "\<not> (c = '''' \<or> c = ''.'')"
    by blast
  then show ?case
  proof cases
    case 1
    then show ?thesis using IH prems by (simp only: clean_comps_skip not_False_eq_True)
  next
    case 2
    then show ?thesis
      using IH prems by (cases out) (auto simp: clean_comps_back)
  next
    case 3
    then show ?thesis using IH [of "c # out"] prems by (simp add: clean_comps.simps(2))
  qed
qed simp

lemma clean_comps_fixed:
  "list_all (\<lambda>c. plain_comp c \<and> c \<noteq> ''..'') cs \<Longrightarrow> clean_comps rooted out cs = rev out @ cs"
  by (induction cs arbitrary: out) (auto simp: clean_comps_keep)

end
