(* ===== verification/GoErrors.thy ===== *)
theory GoErrors
  imports GoPath
begin

text \<open>
  Go errors as values: operating-system error numbers, gRPC status errors, the \<open>os\<close> package's path
  and link errors, errors made by \<open>errors.New\<close> or \<open>fmt.Errorf\<close>, the package-level sentinel errors and
  errors that wrap another one with \<open>%w\<close>.
\<close>

section \<open>Error numbers\<close>

text \<open>
  The first seven constructors are answers that depend on what the file system holds. \<open>Fault\<close> is a
  failure of the device or of the process's rights, which can hit any system call.
\<close>

datatype io_fault = EIO | EACCES | ENOSPC | EBUSY | EROFS

datatype errno = ENOENT | EEXIST | ENOTDIR | EISDIR | ENOTEMPTY | ELOOP | EINVAL | Fault io_fault

fun errno_text :: "errno \<Rightarrow> string" where
  "errno_text ENOENT = ''no such file or directory''"
| "errno_text EEXIST = ''file exists''"
| "errno_text ENOTDIR = ''not a directory''"
| "errno_text EISDIR = ''is a directory''"
| "errno_text ENOTEMPTY = ''directory not empty''"
| "errno_text ELOOP = ''too many levels of symbolic links''"
| "errno_text EINVAL = ''invalid argument''"
| "errno_text (Fault EIO) = ''input/output error''"
| "errno_text (Fault EACCES) = ''permission denied''"
| "errno_text (Fault ENOSPC) = ''no space left on device''"
| "errno_text (Fault EBUSY) = ''device or resource busy''"
| "errno_text (Fault EROFS) = ''read-only file system''"

fun errno_num :: "errno \<Rightarrow> string" where
  "errno_num ENOENT = ''2''"
| "errno_num EEXIST = ''17''"
| "errno_num ENOTDIR = ''20''"
| "errno_num EISDIR = ''21''"
| "errno_num ENOTEMPTY = ''39''"
| "errno_num ELOOP = ''40''"
| "errno_num EINVAL = ''22''"
| "errno_num (Fault EIO) = ''5''"
| "errno_num (Fault EACCES) = ''13''"
| "errno_num (Fault ENOSPC) = ''28''"
| "errno_num (Fault EBUSY) = ''16''"
| "errno_num (Fault EROFS) = ''30''"

section \<open>gRPC codes and Go errors\<close>

datatype code =
  OK | Canceled | Unknown | InvalidArgument | DeadlineExceeded | NotFound | AlreadyExists
| PermissionDenied | ResourceExhausted | FailedPrecondition | Aborted | OutOfRange | Unimplemented
| Internal | Unavailable | DataLoss | Unauthenticated

fun code_text :: "code \<Rightarrow> string" where
  "code_text OK = ''OK''"
| "code_text Canceled = ''Canceled''"
| "code_text Unknown = ''Unknown''"
| "code_text InvalidArgument = ''InvalidArgument''"
| "code_text DeadlineExceeded = ''DeadlineExceeded''"
| "code_text NotFound = ''NotFound''"
| "code_text AlreadyExists = ''AlreadyExists''"
| "code_text PermissionDenied = ''PermissionDenied''"
| "code_text ResourceExhausted = ''ResourceExhausted''"
| "code_text FailedPrecondition = ''FailedPrecondition''"
| "code_text Aborted = ''Aborted''"
| "code_text OutOfRange = ''OutOfRange''"
| "code_text Unimplemented = ''Unimplemented''"
| "code_text Internal = ''Internal''"
| "code_text Unavailable = ''Unavailable''"
| "code_text DataLoss = ''DataLoss''"
| "code_text Unauthenticated = ''Unauthenticated''"

datatype goerror =
  StatusError code string
| PathError string string errno
| LinkError string string string errno
| ErrorString string
| Sentinel string
| WrapError string goerror
| NumError string string string

text \<open>
  \<open>strconv.Quote\<close>, the verb \<open>%q\<close>: quotes, backslashes and control characters are escaped. Bytes from
  0x80 on are copied, as Go does for the UTF-8 encoding of a printable character.
\<close>

definition hex_digit :: "nat \<Rightarrow> char" where
  "hex_digit n = (''0123456789abcdef'' ! n)"

definition quote_char :: "char \<Rightarrow> string" where
  "quote_char c =
    (let n = of_char c :: nat
     in if n = 34 then [CHR 0x5C, CHR 0x22] else if n = 92 then [CHR 0x5C, CHR 0x5C]
        else if n = 7 then CHR 0x5C # ''a'' else if n = 8 then CHR 0x5C # ''b''
        else if n = 12 then CHR 0x5C # ''f'' else if n = 10 then CHR 0x5C # ''n''
        else if n = 13 then CHR 0x5C # ''r'' else if n = 9 then CHR 0x5C # ''t''
        else if n = 11 then CHR 0x5C # ''v''
        else if n < 32 \<or> n = 127 then CHR 0x5C # ''x'' @ [hex_digit (n div 16), hex_digit (n mod 16)]
        else [c])"

definition Quote :: "string \<Rightarrow> string" where
  "Quote s = [CHR 0x22] @ concat (List.map quote_char s) @ [CHR 0x22]"

text \<open>The text an error prints with \<open>%v\<close>.\<close>

fun error_text :: "goerror \<Rightarrow> string" where
  "error_text (StatusError c m) = ''rpc error: code = '' @ code_text c @ '' desc = '' @ m"
| "error_text (PathError op p e) = op @ '' '' @ p @ '': '' @ errno_text e"
| "error_text (LinkError op a b e) = op @ '' '' @ a @ '' '' @ b @ '': '' @ errno_text e"
| "error_text (ErrorString m) = m"
| "error_text (Sentinel m) = m"
| "error_text (WrapError m e) = m"
| "error_text (NumError f s m) = ''strconv.'' @ f @ '': parsing '' @ Quote s @ '': '' @ m"

text \<open>
  \<open>os.IsNotExist\<close> looks through the \<open>os\<close> package's own error types only; \<open>errors.Is\<close> follows the chain
  of \<open>%w\<close> wrappers. Sentinels are pointers, so only the sentinel itself is equal to it.
\<close>

fun IsNotExist :: "goerror \<Rightarrow> bool" where
  "IsNotExist (PathError op p e) = (e = ENOENT)"
| "IsNotExist (LinkError op a b e) = (e = ENOENT)"
| "IsNotExist _ = False"

fun errors_Is :: "goerror \<Rightarrow> goerror \<Rightarrow> bool" where
  "errors_Is (WrapError m e) target = (WrapError m e = target \<or> errors_Is e target)"
| "errors_Is e target = (e = target)"

section \<open>Replies of an RPC handler\<close>

text \<open>
  A handler returns \<open>(*Response, error)\<close>. Both components are kept: \<open>fail\<close> is a nil response with a
  status error, \<open>answer\<close> a response with a nil error.
\<close>

type_synonym 'r reply = "'r option \<times> goerror option"

definition fail :: "code \<Rightarrow> string \<Rightarrow> 'r reply" where
  "fail c m = (None, Some (StatusError c m))"

definition fail_err :: "goerror \<Rightarrow> 'r reply" where
  "fail_err e = (None, Some e)"

definition answer :: "'r \<Rightarrow> 'r reply" where
  "answer r = (Some r, None)"

definition succeeded :: "'r reply \<Rightarrow> bool" where
  "succeeded r \<longleftrightarrow> snd r = None"

definition reply_code :: "'r reply \<Rightarrow> code option" where
  "reply_code r = (case snd r of Some (StatusError c m) \<Rightarrow> Some c | _ \<Rightarrow> None)"

lemma reply_simps [simp]:
  "succeeded (answer r)" "\<not> succeeded (fail c m)" "\<not> succeeded (fail_err e)"
  "reply_code (fail c m) = Some c" "reply_code (answer r) = None"
  "reply_code (fail_err (StatusError c m)) = Some c"
  "fst (fail c m) = None" "fst (fail_err e) = None" "fst (answer r) = Some r"
  "snd (fail c m) = Some (StatusError c m)" "snd (fail_err e) = Some e" "snd (answer r) = None"
  by (simp_all add: succeeded_def reply_code_def fail_def fail_err_def answer_def)

lemma reply_inject [simp]:
  "answer r = answer r' \<longleftrightarrow> r = r'" "answer r \<noteq> fail c m" "fail c m \<noteq> answer r"
  "answer r \<noteq> fail_err e" "fail_err e \<noteq> answer r" "fail c m = fail c' m' \<longleftrightarrow> c = c' \<and> m = m'"
  "fail_err e = fail_err e' \<longleftrightarrow> e = e'"
  by (auto simp: fail_def fail_err_def answer_def)

end
