(* ===== verification/FileSystem.thy ===== *)
theory FileSystem
  imports GoErrors "HOL-Library.Word"
begin

unbundle bit_operations_syntax

text \<open>
  The \<open>os\<close> package over a file system with directories, regular files, symbolic links and devices.
  A store maps canonical paths (lists of names from the root) to inodes; the root always exists.
  Every system call may fail: \<open>faults\<close> says for each call, by its number, whether the device or the
  process's rights make it fail, and a theorem for every \<open>faults\<close> is a theorem about every pattern
  of failures. The process runs with the root directory as its working directory.
\<close>

section \<open>Inodes, stores and worlds\<close>

datatype fkind = Regular string | Directory | Symlink string | BlockDevice | CharDevice

record inode =
  kind :: fkind
  perm :: "32 word"
  uid :: int
  gid :: int

type_synonym fstore = "(string list \<times> inode) list"

definition root_dir :: inode where
  "root_dir = \<lparr>kind = Directory, perm = 0x1ED, uid = 0, gid = 0\<rparr>"

definition lookup :: "fstore \<Rightarrow> string list \<Rightarrow> inode option" where
  "lookup st p = (if p = [] then Some root_dir else map_of st p)"

definition store_put :: "string list \<Rightarrow> inode \<Rightarrow> fstore \<Rightarrow> fstore" where
  "store_put p i st = AList.update p i st"

definition store_del :: "string list \<Rightarrow> fstore \<Rightarrow> fstore" where
  "store_del p st = AList.delete p st"

record 'x world =
  store :: fstore
  umask :: "32 word"
  faults :: "nat \<Rightarrow> io_fault option"
  calls :: nat
  ext :: 'x

text \<open>Go's \<open>os.FileMode\<close>: permission bits and one type bit.\<close>

definition ModeDir :: "32 word" where "ModeDir = push_bit 31 1"
definition ModeSymlink :: "32 word" where "ModeSymlink = push_bit 27 1"
definition ModeDevice :: "32 word" where "ModeDevice = push_bit 26 1"
definition ModeCharDevice :: "32 word" where "ModeCharDevice = push_bit 21 1"

definition type_bits :: "fkind \<Rightarrow> 32 word" where
  "type_bits k = (case k of Regular _ \<Rightarrow> 0 | Directory \<Rightarrow> ModeDir | Symlink _ \<Rightarrow> ModeSymlink
     | BlockDevice \<Rightarrow> ModeDevice | CharDevice \<Rightarrow> ModeDevice OR ModeCharDevice)"

definition Mode :: "inode \<Rightarrow> 32 word" where
  "Mode i = type_bits (kind i) OR (perm i AND 0x1FF)"

definition IsDir :: "inode \<Rightarrow> bool" where
  "IsDir i \<longleftrightarrow> Mode i AND ModeDir \<noteq> 0"

section \<open>Path resolution\<close>

text \<open>
  Resolution walks the components from a directory. \<open>fl\<close> says whether a symbolic link in the last
  component is followed, \<open>n\<close> how many links may still be followed. A missing last component is not an
  error here, so that calls that create a name can use its path; each caller looks the path up.
\<close>

definition link_base :: "string \<Rightarrow> string list \<Rightarrow> string list" where
  "link_base t cur = (if IsAbs t then [] else cur)"

function resolve ::
  "fstore \<Rightarrow> bool \<Rightarrow> nat \<Rightarrow> string list \<Rightarrow> string list \<Rightarrow> errno + string list" where
  "resolve st fl n cur [] = Inr cur"
| "resolve st fl n cur (c # cs) =
    (if c = '''' \<or> c = ''.'' then resolve st fl n cur cs
     else if c = ''..'' then resolve st fl n (butlast cur) cs
     else
       (case lookup st (cur @ [c]) of
          None \<Rightarrow> if cs = [] then Inr (cur @ [c]) else Inl ENOENT
        | Some i \<Rightarrow>
            (case kind i of
               Directory \<Rightarrow> resolve st fl n (cur @ [c]) cs
             | Symlink t \<Rightarrow>
                 if cs = [] \<and> \<not> fl then Inr (cur @ [c])
                 else (case n of
                         0 \<Rightarrow> Inl ELOOP
                       | Suc m \<Rightarrow>
                           resolve st fl m (link_base t cur) (split_on sep t @ cs))
             | _ \<Rightarrow> if cs = [] then Inr (cur @ [c]) else Inl ENOTDIR)))"
  by pat_completeness auto
termination
  by (relation "measures [\<lambda>(st, fl, n, cur, cs). n, \<lambda>(st, fl, n, cur, cs). length cs]") auto

declare resolve.simps(2) [simp del]

definition max_links :: nat where
  "max_links = 40"

definition namei :: "fstore \<Rightarrow> bool \<Rightarrow> string \<Rightarrow> errno + string list" where
  "namei st fl path =
    (if path = '''' then Inl ENOENT else resolve st fl max_links [] (split_on sep path))"

definition path_string :: "string list \<Rightarrow> string" where
  "path_string p = sep # join_on sep p"

text \<open>
  A path that resolves to an existing inode when links are followed also names one when the last
  link is not followed: the link itself, or the same inode.
\<close>

lemma resolve_nofollow_exists:
  assumes "resolve st True n cur cs = Inr p" and "lookup st p \<noteq> None"
  shows "\<exists>q. resolve st False n cur cs = Inr q \<and> lookup st q \<noteq> None"
  using assms
proof (induction st True n cur cs rule: resolve.induct)
  case (2 st n cur c cs)
  note IH = 2(1-4) and res = 2(5) and ex = 2(6)
  show ?case
  proof (cases "c = '''' \<or> c = ''.'' \<or> c = ''..''")
    case True
    then show ?thesis
      using IH(1,2) res ex by (auto simp: resolve.simps(2) [of st _ n cur c cs])
  next
    case False
    show ?thesis
    proof (cases "lookup st (cur @ [c])")
      case None
      then show ?thesis
        using False res ex by (auto simp: resolve.simps(2) [of st _ n cur c cs] split: if_splits)
    next
      case (Some i)
      then show ?thesis
        using False IH(3,4) res ex
        by (auto simp: resolve.simps(2) [of st _ n cur c cs]
            split: if_splits fkind.splits nat.splits)
    qed
  qed
qed simp

section \<open>Store operations behind the system calls\<close>

definition st_get :: "bool \<Rightarrow> string \<Rightarrow> fstore \<Rightarrow> errno + inode" where
  "st_get fl path st =
    (case namei st fl path of
       Inl e \<Rightarrow> Inl e
     | Inr p \<Rightarrow> (case lookup st p of None \<Rightarrow> Inl ENOENT | Some i \<Rightarrow> Inr i))"

text \<open>Creating a name: nothing may be there yet, not even a dangling link.\<close>

definition st_create :: "string \<Rightarrow> inode \<Rightarrow> fstore \<Rightarrow> errno + fstore" where
  "st_create path i st =
    (case namei st False path of
       Inl e \<Rightarrow> Inl e
     | Inr p \<Rightarrow> (case lookup st p of Some _ \<Rightarrow> Inl EEXIST | None \<Rightarrow> Inr (store_put p i st)))"

definition st_mkdir :: "32 word \<Rightarrow> string \<Rightarrow> fstore \<Rightarrow> errno + fstore" where
  "st_mkdir m path st =
    (let name = (if path \<noteq> '''' \<and> strip_slashes path = '''' then ''/'' else strip_slashes path)
     in st_create name \<lparr>kind = Directory, perm = m, uid = 0, gid = 0\<rparr> st)"

definition st_symlink :: "string \<Rightarrow> string \<Rightarrow> fstore \<Rightarrow> errno + fstore" where
  "st_symlink old new st =
    (if old = '''' then Inl ENOENT
     else st_create new \<lparr>kind = Symlink old, perm = 0x1FF, uid = 0, gid = 0\<rparr> st)"

definition has_entries :: "string list \<Rightarrow> fstore \<Rightarrow> bool" where
  "has_entries p st = list_ex (\<lambda>(k, _). strict_prefix p k) st"

definition st_unlink :: "string \<Rightarrow> fstore \<Rightarrow> errno + fstore" where
  "st_unlink path st =
    (case namei st False path of
       Inl e \<Rightarrow> Inl e
     | Inr p \<Rightarrow>
         (case lookup st p of
            None \<Rightarrow> Inl ENOENT
          | Some i \<Rightarrow> if kind i = Directory then Inl EISDIR else Inr (store_del p st)))"

definition rmdir_at :: "string list \<Rightarrow> fstore \<Rightarrow> errno + fstore" where
  "rmdir_at p st =
    (case lookup st p of
       None \<Rightarrow> Inl ENOENT
     | Some i \<Rightarrow>
         if kind i \<noteq> Directory then Inl ENOTDIR
         else if p = [] then Inl (Fault EBUSY)
         else if has_entries p st then Inl ENOTEMPTY
         else Inr (store_del p st))"

definition st_rmdir :: "string \<Rightarrow> fstore \<Rightarrow> errno + fstore" where
  "st_rmdir path st =
    (case namei st False path of Inl e \<Rightarrow> Inl e | Inr p \<Rightarrow> rmdir_at p st)"

section \<open>System calls\<close>

text \<open>
  \<open>sys_read\<close> runs a query, \<open>sys_write\<close> a change of the store; both count as one call, which
  \<open>faults\<close> may make fail, and then the store is unchanged.
\<close>

definition sys_read :: "(fstore \<Rightarrow> errno + 'a) \<Rightarrow> ('x world, errno + 'a) state" where
  "sys_read f = State (\<lambda>w.
    (case faults w (calls w) of Some e \<Rightarrow> Inl (Fault e) | None \<Rightarrow> f (store w),
     w\<lparr>calls := Suc (calls w)\<rparr>))"

definition sys_write :: "(fstore \<Rightarrow> errno + fstore) \<Rightarrow> ('x world, errno option) state" where
  "sys_write f = State (\<lambda>w.
    let w' = w\<lparr>calls := Suc (calls w)\<rparr>
    in (case faults w (calls w) of
          Some e \<Rightarrow> (Some (Fault e), w')
        | None \<Rightarrow> (case f (store w) of Inl e \<Rightarrow> (Some e, w') | Inr st \<Rightarrow> (None, w'\<lparr>store := st\<rparr>))))"

definition lift_err :: "('e \<Rightarrow> goerror) \<Rightarrow> 'e + 'a \<Rightarrow> goerror + 'a" where
  "lift_err f r = (case r of Inl e \<Rightarrow> Inl (f e) | Inr a \<Rightarrow> Inr a)"

definition os_Stat :: "string \<Rightarrow> ('x world, goerror + inode) state" where
  "os_Stat path = map_state (lift_err (PathError ''stat'' path)) (sys_read (st_get True path))"

definition os_Lstat :: "string \<Rightarrow> ('x world, goerror + inode) state" where
  "os_Lstat path = map_state (lift_err (PathError ''lstat'' path)) (sys_read (st_get False path))"

definition os_Readlink :: "string \<Rightarrow> ('x world, goerror + string) state" where
  "os_Readlink path = map_state (lift_err (PathError ''readlink'' path))
    (sys_read (\<lambda>st. case st_get False path st of
       Inl e \<Rightarrow> Inl e | Inr i \<Rightarrow> (case kind i of Symlink t \<Rightarrow> Inr t | _ \<Rightarrow> Inl EINVAL)))"

definition os_Symlink :: "string \<Rightarrow> string \<Rightarrow> ('x world, goerror option) state" where
  "os_Symlink old new =
    map_state (map_option (LinkError ''symlink'' old new)) (sys_write (st_symlink old new))"

definition os_Mkdir :: "string \<Rightarrow> 32 word \<Rightarrow> ('x world, goerror option) state" where
  "os_Mkdir path m = State (\<lambda>w.
    run_state (map_state (map_option (PathError ''mkdir'' path))
      (sys_write (st_mkdir (m AND NOT (umask w)) path))) w)"

text \<open>\<open>os.Remove\<close> tries \<open>unlink\<close> and then \<open>rmdir\<close>, and reports the second error unless it is ENOTDIR.\<close>

definition os_Remove :: "string \<Rightarrow> ('x world, goerror option) state" where
  "os_Remove path = do {
    r \<leftarrow> sys_write (st_unlink path);
    case r of
      None \<Rightarrow> ret None
    | Some e \<Rightarrow> do {
        r1 \<leftarrow> sys_write (st_rmdir path);
        ret (map_option (\<lambda>e1. PathError ''remove'' path (if e1 \<noteq> ENOTDIR then e1 else e)) r1)
      }
  }"

text \<open>
  \<open>os.RemoveAll\<close> deletes the entries below the path from the deepest up, carries on after an error
  and reports the first one.
\<close>

fun remove_keys :: "string list list \<Rightarrow> ('x world, errno option) state" where
  "remove_keys [] = ret None"
| "remove_keys (k # ks) = do {
    r \<leftarrow> sys_write (\<lambda>st. case lookup st k of
           None \<Rightarrow> Inr st
         | Some i \<Rightarrow> if kind i = Directory then rmdir_at k st else Inr (store_del k st));
    rs \<leftarrow> remove_keys ks;
    ret (case r of Some e \<Rightarrow> Some e | None \<Rightarrow> rs)
  }"

definition subtree_keys :: "fstore \<Rightarrow> string list \<Rightarrow> string list list" where
  "subtree_keys st p = rev (sort_key length (filter (prefix p) (map fst st)))"

definition ends_with_dot :: "string \<Rightarrow> bool" where
  "ends_with_dot path \<longleftrightarrow> path = ''.'' \<or> suffix ''/.'' path"

definition os_RemoveAll :: "string \<Rightarrow> ('x world, goerror option) state" where
  "os_RemoveAll path =
    (if path = '''' then ret None
     else if ends_with_dot path then ret (Some (PathError ''RemoveAll'' path EINVAL))
     else do {
       r \<leftarrow> os_Remove path;
       case r of
         None \<Rightarrow> ret None
       | Some e \<Rightarrow>
           if IsNotExist e then ret None
           else do {
             p \<leftarrow> sys_read (\<lambda>st. case namei st False path of
                    Inl e \<Rightarrow> Inl e | Inr p \<Rightarrow> Inr (subtree_keys st p));
             case p of
               Inl ENOENT \<Rightarrow> ret None
             | Inl e \<Rightarrow> ret (Some (PathError ''open'' path e))
             | Inr ks \<Rightarrow> map_state (map_option (PathError ''unlinkat'' path)) (remove_keys ks)
           }
     })"

text \<open>\<open>os.MkdirAll\<close> makes the parent first; it is no error when the directory is there already.\<close>

definition parent_path :: "string \<Rightarrow> string" where
  "parent_path path = butlast (fst (Split (strip_slashes path)))"

lemma Split_fst_length: "length (fst (Split p)) \<le> length p"
  by (simp add: Split_def Let_def)

lemma strip_slashes_length: "length (strip_slashes p) \<le> length p"
  by (simp add: strip_slashes_def) (metis length_dropWhile_le length_rev)

lemma parent_path_shorter: "parent_path path \<noteq> '''' \<Longrightarrow> length (parent_path path) < length path"
  using Split_fst_length [of "strip_slashes path"] strip_slashes_length [of path]
  by (cases "fst (Split (strip_slashes path))" rule: rev_cases) (auto simp: parent_path_def)

function os_MkdirAll :: "string \<Rightarrow> 32 word \<Rightarrow> ('x world, goerror option) state" where
  "os_MkdirAll path m = do {
    dir \<leftarrow> os_Stat path;
    case dir of
      Inr i \<Rightarrow> ret (if IsDir i then None else Some (PathError ''mkdir'' path ENOTDIR))
    | Inl _ \<Rightarrow> do {
        up \<leftarrow> (if parent_path path \<noteq> '''' then os_MkdirAll (parent_path path) m else ret None);
        case up of
          Some e \<Rightarrow> ret (Some e)
        | None \<Rightarrow> do {
            r \<leftarrow> os_Mkdir path m;
            case r of
              None \<Rightarrow> ret None
            | Some e \<Rightarrow> do {
                again \<leftarrow> os_Lstat path;
                case again of
                  Inr i \<Rightarrow> ret (if IsDir i then None else Some e)
                | Inl _ \<Rightarrow> ret (Some e)
              }
          }
      }
  }"
  by pat_completeness auto
termination
  by (relation "measure (\<lambda>(path, m). length path)") (auto simp: parent_path_shorter)

declare os_MkdirAll.simps [simp del]

lemmas store_defs = st_get_def st_create_def st_mkdir_def st_symlink_def st_unlink_def st_rmdir_def
  rmdir_at_def

section \<open>Frames of the system calls\<close>

text \<open>A system call changes nothing outside the store and the call counter; a query only counts.\<close>

definition same_env :: "'x world \<Rightarrow> 'x world \<Rightarrow> bool" where
  "same_env w w' \<longleftrightarrow> umask w' = umask w \<and> faults w' = faults w \<and> ext w' = ext w \<and> calls w \<le> calls w'"

definition same_store :: "'x world \<Rightarrow> 'x world \<Rightarrow> bool" where
  "same_store w w' \<longleftrightarrow> same_env w w' \<and> store w' = store w"

interpretation env: step_order same_env
  by unfold_locales (auto simp: same_env_def)

interpretation ro: step_order same_store
  by unfold_locales (auto simp: same_store_def same_env_def)

lemma same_store_imp_env: "same_store w w' \<Longrightarrow> same_env w w'"
  by (simp add: same_store_def)

lemma run_map_state [simp, run_simps]:
  "run_state (map_state f m) w = map_prod f id (run_state m w)"
  by (cases m) (simp add: state.map_sel)

lemma map_state_frame [frame_intros]: "state_io_rel R m \<Longrightarrow> state_io_rel R (map_state f m)"
  by (simp add: state_io_rel_def)

lemma sys_read_frame [frame_intros]: "state_io_rel same_store (sys_read f)"
  by (auto simp: sys_read_def same_store_def same_env_def state_io_rel_def)

lemma sys_write_frame [frame_intros]: "state_io_rel same_env (sys_write f)"
  by (auto simp: sys_write_def same_env_def state_io_rel_def Let_def split: option.splits sum.splits)

lemma ro_env: "state_io_rel same_store m \<Longrightarrow> state_io_rel same_env m"
  by (auto simp: state_io_rel_def same_store_def)

lemma os_Stat_ro [frame_intros]: "state_io_rel same_store (os_Stat path)"
  by (simp add: os_Stat_def frame_intros)

lemma os_Lstat_ro [frame_intros]: "state_io_rel same_store (os_Lstat path)"
  by (simp add: os_Lstat_def frame_intros)

lemma os_Readlink_ro [frame_intros]: "state_io_rel same_store (os_Readlink path)"
  by (simp add: os_Readlink_def frame_intros)

lemma os_Symlink_env [frame_intros]: "state_io_rel same_env (os_Symlink old new)"
  by (simp add: os_Symlink_def frame_intros)

lemma os_Mkdir_env [frame_intros]: "state_io_rel same_env (os_Mkdir path m)"
  using map_state_frame [OF sys_write_frame]
  by (auto simp: os_Mkdir_def state_io_rel_def)

lemma os_Remove_env [frame_intros]: "state_io_rel same_env (os_Remove path)"
  unfolding os_Remove_def by (intro env.io_rules frame_intros)

lemma remove_keys_env [frame_intros]: "state_io_rel same_env (remove_keys ks)"
proof (induction ks)
  case (Cons k ks)
  then show ?case unfolding remove_keys.simps by (intro env.io_rules frame_intros)
qed (simp add: env.io_return)

lemma os_RemoveAll_env [frame_intros]: "state_io_rel same_env (os_RemoveAll path)"
proof -
  have step: "state_io_rel same_env
      (case p of Inl ENOENT \<Rightarrow> ret None | Inl e \<Rightarrow> ret (Some (PathError ''open'' path e))
       | Inr ks \<Rightarrow> map_state (map_option (PathError ''unlinkat'' path)) (remove_keys ks))"
    for p :: "errno + string list list"
    by (simp add: env.io_return map_state_frame remove_keys_env split: sum.split errno.split)
  show ?thesis
    unfolding os_RemoveAll_def by (intro env.io_rules frame_intros step ro_env)
qed

lemma os_MkdirAll_env [frame_intros]: "state_io_rel same_env (os_MkdirAll path m)"
proof (induction path m rule: os_MkdirAll.induct)
  case (1 path m)
  then show ?case
    unfolding os_MkdirAll.simps [of path m]
    by (intro env.io_rules os_Stat_ro [THEN ro_env] os_Lstat_ro [THEN ro_env] os_Mkdir_env) auto
qed

text \<open>
  The consequence the callers use: whatever a computation of the \<open>os\<close> package does, the state outside
  the file system is as it was.
\<close>

lemma same_envD:
  "state_io_rel same_env m \<Longrightarrow> run_state m w = (a, w') \<Longrightarrow>
    ext w' = ext w \<and> umask w' = umask w \<and> faults w' = faults w"
  by (auto simp: same_env_def dest: state_io_relD)

lemma same_storeD:
  "state_io_rel same_store m \<Longrightarrow> run_state m w = (a, w') \<Longrightarrow> store w' = store w \<and> ext w' = ext w"
  by (auto simp: same_env_def same_store_def dest: state_io_relD)

section \<open>What the calls tell and do\<close>

lemma sys_read_result:
  "run_state (sys_read f) w = (r, w') \<Longrightarrow>
    w' = w\<lparr>calls := Suc (calls w)\<rparr> \<and>
    ((\<exists>e. faults w (calls w) = Some e \<and> r = Inl (Fault e)) \<or> (faults w (calls w) = None \<and> r = f (store w)))"
  by (auto simp: sys_read_def split: option.splits)

lemma os_Stat_Inr:
  "run_state (os_Stat path) w = (Inr i, w') \<Longrightarrow>
    st_get True path (store w) = Inr i \<and> store w' = store w \<and> ext w' = ext w"
  by (auto simp: os_Stat_def sys_read_def lift_err_def split: option.splits sum.splits)

text \<open>A name that a link-following query finds cannot be created again.\<close>

lemma st_get_follow_nofollow:
  assumes "st_get True path st = Inr i"
  shows "\<exists>p j. namei st False path = Inr p \<and> lookup st p = Some j"
proof -
  from assms obtain p where ne: "path \<noteq> ''''"
    and p: "resolve st True max_links [] (split_on sep path) = Inr p" "lookup st p = Some i"
    by (auto simp: st_get_def namei_def split: if_splits sum.splits option.splits)
  from resolve_nofollow_exists [OF p(1)] p(2) obtain q where
    "resolve st False max_links [] (split_on sep path) = Inr q" "lookup st q \<noteq> None"
    by auto
  with ne show ?thesis by (auto simp: namei_def)
qed

lemma st_symlink_existing:
  "st_get True path st = Inr i \<Longrightarrow> \<exists>e. st_symlink old path st = Inl e"
  by (auto simp: st_symlink_def st_create_def dest!: st_get_follow_nofollow)

lemma os_Symlink_existing:
  assumes "st_get True new (store w) = Inr i"
  shows "\<exists>e w'. run_state (os_Symlink old new) w = (Some e, w') \<and> store w' = store w"
  using st_symlink_existing [OF assms, of old]
  by (auto simp: os_Symlink_def sys_write_def Let_def split: option.splits)

text \<open>Deleting a name makes every path that led to it lead nowhere.\<close>

lemma lookup_del: "lookup (store_del p st) q = (if q = p \<and> p \<noteq> [] then None else lookup st q)"
  by (auto simp: lookup_def store_del_def map_of_delete_AList)

lemma lookup_put:
  "p \<noteq> [] \<Longrightarrow> lookup (store_put p i st) q = (if q = p then Some i else lookup st q)"
  by (auto simp: lookup_def store_put_def map_of_update_AList)

lemma resolve_after_del:
  assumes "resolve st fl n cur cs = Inr p" and "p \<noteq> []"
  shows "resolve (store_del p st) fl n cur cs = Inr p \<or>
    resolve (store_del p st) fl n cur cs = Inl ENOENT"
  using assms
proof (induction st fl n cur cs rule: resolve.induct)
  case (2 st fl n cur c cs)
  note IH = 2(1-4) and res = 2(5) and ne = 2(6)
  note unf = resolve.simps(2) [of _ fl n cur c cs]
  show ?case
  proof (cases "c = '''' \<or> c = ''.'' \<or> c = ''..''")
    case True
    then show ?thesis
      using IH(1,2) res ne by (auto simp: unf)
  next
    case False
    show ?thesis
    proof (cases "cur @ [c] = p")
      case True
      then have "lookup (store_del p st) (cur @ [c]) = None"
        by (auto simp: lookup_del)
      then show ?thesis using False True by (auto simp: unf)
    next
      case other: False
      have same: "lookup (store_del p st) (cur @ [c]) = lookup st (cur @ [c])"
        using other by (simp add: lookup_del)
      show ?thesis
      proof (cases "lookup st (cur @ [c])")
        case None
        then show ?thesis using same False res by (auto simp: unf split: if_splits)
      next
        case (Some i)
        then show ?thesis
          using same False IH(3,4) res ne
          by (auto simp: unf split: if_splits fkind.splits nat.splits)
      qed
    qed
  qed
qed simp

lemma st_get_after_del:
  assumes "namei st False path = Inr p" and "p \<noteq> []"
  shows "st_get False path (store_del p st) = Inl ENOENT"
proof -
  have "namei (store_del p st) False path = Inr p \<or> namei (store_del p st) False path = Inl ENOENT"
    using assms resolve_after_del by (auto simp: namei_def split: if_splits)
  then show ?thesis
    using assms(2) by (auto simp: st_get_def lookup_del)
qed

lemma st_unlink_gone: "st_unlink path st = Inr st' \<Longrightarrow> st_get False path st' = Inl ENOENT"
  by (auto simp: st_unlink_def root_dir_def lookup_def st_get_after_del
      split: sum.splits option.splits if_splits)

lemma st_rmdir_gone: "st_rmdir path st = Inr st' \<Longrightarrow> st_get False path st' = Inl ENOENT"
  by (auto simp: st_rmdir_def rmdir_at_def st_get_after_del
      split: sum.splits option.splits if_splits)

lemma os_Remove_gone:
  "run_state (os_Remove path) w = (None, w') \<Longrightarrow> st_get False path (store w') = Inl ENOENT"
  by (auto simp: os_Remove_def sys_write_def Let_def st_unlink_gone st_rmdir_gone
      split: option.splits sum.splits)

section \<open>File modes\<close>

lemma type_bits_low: "type_bits k AND 0x1FF = 0"
  by (cases k) (simp_all add: type_bits_def ModeDir_def ModeSymlink_def ModeDevice_def ModeCharDevice_def)

lemma Mode_low: "Mode i AND 0x1FF = perm i AND 0x1FF"
  by (simp add: Mode_def bit.conj_disj_distrib2 type_bits_low and.assoc)

lemma IsDir_iff: "IsDir i \<longleftrightarrow> kind i = Directory"
proof -
  have p: "(perm i AND 0x1FF) AND ModeDir = 0"
    by (simp add: ModeDir_def and.assoc)
  then have "Mode i AND ModeDir = type_bits (kind i) AND ModeDir"
    by (simp add: Mode_def bit.conj_disj_distrib2)
  then show ?thesis
    by (cases "kind i")
      (simp_all add: IsDir_def type_bits_def ModeDir_def ModeSymlink_def ModeDevice_def ModeCharDevice_def)
qed

end
