(* ===== verification/VolumeLock.thy ===== *)
theory VolumeLock
  imports FileSystem
begin

text \<open>
  \<open>utils/volume_lock.go\<close>: the set of volume IDs with an operation in progress. \<open>sets.String\<close> is used as
  the finite set its documentation describes; the mutex makes \<open>TryAcquire\<close> and \<open>Release\<close> atomic, so
  each is one step of the state.
\<close>

section \<open>The lock table\<close>

record VolumeLocks =
  locks :: "string set"

definition NewVolumeLocks :: VolumeLocks where
  "NewVolumeLocks = \<lparr>locks = {}\<rparr>"

definition TryAcquire :: "string \<Rightarrow> (VolumeLocks, bool) state" where
  "TryAcquire volumeID = State (\<lambda>vl.
    if volumeID \<in> locks vl then (False, vl)
    else (True, vl\<lparr>locks := insert volumeID (locks vl)\<rparr>))"

definition Release :: "string \<Rightarrow> (VolumeLocks, unit) state" where
  "Release volumeID = State (\<lambda>vl. ((), vl\<lparr>locks := locks vl - {volumeID}\<rparr>))"

definition VolumeOperationAlreadyExists :: "string \<Rightarrow> string" where
  "VolumeOperationAlreadyExists volumeID =
    ''An operation with the given Volume ID '' @ volumeID @ '' already exists''"

section \<open>What a user of the table relies on\<close>

text \<open>
  The contract of a lock table: \<open>acquire\<close> answers whether the volume was free and marks it as held,
  \<open>release\<close> frees it, and neither touches another volume.
\<close>

locale lock_table =
  fixes held :: "'t \<Rightarrow> string set"
    and acquire :: "string \<Rightarrow> ('t, bool) state"
    and release :: "string \<Rightarrow> ('t, unit) state"
  assumes acquire_spec:
    "run_state (acquire v) t = (b, t') \<Longrightarrow> b = (v \<notin> held t) \<and> held t' = insert v (held t)"
    and acquire_refused: "v \<in> held t \<Longrightarrow> run_state (acquire v) t = (False, t)"
    and release_spec: "run_state (release v) t = (u, t') \<Longrightarrow> held t' = held t - {v}"
begin

text \<open>The bracket every handler uses: acquire, run the body, release on every path out of it.\<close>

lemma bracket_taken:
  assumes "v \<in> held t"
  shows "run_state (do { b \<leftarrow> acquire v;
      if b then do { r \<leftarrow> m; _ \<leftarrow> release v; ret (Inr r) } else ret (Inl no) }) t = (Inl no, t)"
  using acquire_refused [OF assms] by simp

lemma bracket_free:
  assumes free: "v \<notin> held t"
    and body: "\<And>t a t'. run_state m t = (a, t') \<Longrightarrow> held t' = held t"
    and run: "run_state (do { b \<leftarrow> acquire v;
      if b then do { r \<leftarrow> m; _ \<leftarrow> release v; ret (Inr r) } else ret (Inl no) }) t = (res, t')"
  shows "held t' = held t \<and> (\<exists>r. res = Inr r)"
proof -
  obtain b t1 where a: "run_state (acquire v) t = (b, t1)" by fastforce
  from acquire_spec [OF a] free have b: "b" and h1: "held t1 = insert v (held t)" by auto
  obtain r t2 where m: "run_state m t1 = (r, t2)" by fastforce
  from body [OF m] h1 have h2: "held t2 = insert v (held t)" by simp
  obtain t3 where rel: "run_state (release v) t2 = ((), t3)"
    by (cases "run_state (release v) t2") auto
  from release_spec [OF rel] h2 free have "held t3 = held t" by auto
  moreover from run a b m rel have "t' = t3" "res = Inr r" by auto
  ultimately show ?thesis by simp
qed

lemma bracket_balanced:
  assumes "\<And>t a t'. run_state m t = (a, t') \<Longrightarrow> held t' = held t"
    and "run_state (do { b \<leftarrow> acquire v;
      if b then do { r \<leftarrow> m; _ \<leftarrow> release v; ret (Inr r) } else ret (Inl no) }) t = (res, t')"
  shows "held t' = held t"
proof (cases "v \<in> held t")
  case True
  from bracket_taken [OF this, of m no] assms(2) show ?thesis by simp
next
  case False
  from bracket_free [OF False assms] show ?thesis by simp
qed

lemma acquire_twice:
  assumes "run_state (acquire v) t = (b, t1)"
  shows "fst (run_state (acquire v) t1) = False"
  using acquire_spec [OF assms] acquire_refused [of v t1] by simp

lemma acquire_other:
  assumes "run_state (acquire v) t = (b, t1)" and "w \<noteq> v"
  shows "fst (run_state (acquire w) t1) = fst (run_state (acquire w) t)"
  using acquire_spec [OF assms(1)] acquire_spec [of w t1] acquire_spec [of w t] assms(2)
  by (metis insert_iff prod.collapse)

end

interpretation vl: lock_table locks TryAcquire Release
  by unfold_locales (auto simp: TryAcquire_def Release_def split: if_splits)

section \<open>Requests that run concurrently\<close>

text \<open>
  Any number of requests, numbered by \<^typ>\<open>nat\<close>: idle, about to operate on a volume, operating on it,
  or refused. A step is one request calling \<open>TryAcquire\<close> or \<open>Release\<close>; which one moves is open.
\<close>

datatype phase = Idle | Asking string | Operating string | Refused string

record lock_system =
  table :: VolumeLocks
  phases :: "nat \<Rightarrow> phase"

definition init_lock_system :: lock_system where
  "init_lock_system = \<lparr>table = NewVolumeLocks, phases = (\<lambda>_. Idle)\<rparr>"

inductive lock_step :: "lock_system \<Rightarrow> lock_system \<Rightarrow> bool" where
  arrive: "phases s i = Idle \<Longrightarrow> lock_step s (s\<lparr>phases := (phases s)(i := Asking v)\<rparr>)"
| enter: "phases s i = Asking v \<Longrightarrow> run_state (TryAcquire v) (table s) = (True, t) \<Longrightarrow>
    lock_step s \<lparr>table = t, phases = (phases s)(i := Operating v)\<rparr>"
| refuse: "phases s i = Asking v \<Longrightarrow> run_state (TryAcquire v) (table s) = (False, t) \<Longrightarrow>
    lock_step s \<lparr>table = t, phases = (phases s)(i := Refused v)\<rparr>"
| leave: "phases s i = Operating v \<Longrightarrow> run_state (Release v) (table s) = ((), t) \<Longrightarrow>
    lock_step s \<lparr>table = t, phases = (phases s)(i := Idle)\<rparr>"
| abort: "phases s i = Refused v \<Longrightarrow> lock_step s (s\<lparr>phases := (phases s)(i := Idle)\<rparr>)"

inductive_cases lock_stepE: "lock_step s t"

inductive lock_reachable :: "lock_system \<Rightarrow> bool" where
  init: "lock_reachable init_lock_system"
| step: "lock_reachable s \<Longrightarrow> lock_step s t \<Longrightarrow> lock_reachable t"

text \<open>
  The invariant ties the table to the requests: a volume is locked exactly when one request operates
  on it, and then only one. Mutual exclusion alone is not kept by the steps.
\<close>

definition lock_inv :: "lock_system \<Rightarrow> bool" where
  "lock_inv s \<longleftrightarrow>
    (\<forall>v. v \<in> locks (table s) \<longleftrightarrow> (\<exists>i. phases s i = Operating v)) \<and>
    (\<forall>i j v. phases s i = Operating v \<and> phases s j = Operating v \<longrightarrow> i = j)"

lemma lock_inv_init: "lock_inv init_lock_system"
  by (simp add: lock_inv_def init_lock_system_def NewVolumeLocks_def)

lemma lock_inv_quiet:
  assumes inv: "lock_inv s" and i: "\<And>v. phases s i \<noteq> Operating v" and p: "\<And>v. p \<noteq> Operating v"
  shows "lock_inv (s\<lparr>phases := (phases s)(i := p)\<rparr>)"
proof -
  have same: "((phases s)(i := p)) k = Operating v \<longleftrightarrow> phases s k = Operating v" for k v
    using i p by auto
  show ?thesis using inv by (simp add: lock_inv_def same del: fun_upd_apply)
qed

lemma lock_step_inv: "lock_step s t \<Longrightarrow> lock_inv s \<Longrightarrow> lock_inv t"
proof (induction rule: lock_step.induct)
  case (arrive s i v)
  then show ?case by (intro lock_inv_quiet) auto
next
  case (enter s i v t)
  then have "v \<notin> locks (table s)" "locks t = insert v (locks (table s))"
    using vl.acquire_spec by auto
  moreover have "phases s k = Operating u \<Longrightarrow> k \<noteq> i" for k u
    using enter by auto
  ultimately show ?case using enter by (simp add: lock_inv_def) metis
next
  case (refuse s i v t)
  then have "t = table s" by (auto simp: TryAcquire_def split: if_splits)
  with refuse lock_inv_quiet [of s i "Refused v"] show ?case by (cases s) simp
next
  case (leave s i v t)
  then have "locks t = locks (table s) - {v}"
    using vl.release_spec by blast
  with leave show ?case by (simp add: lock_inv_def) (metis phase.inject(2))
next
  case (abort s i v)
  then show ?case by (intro lock_inv_quiet) auto
qed

lemma lock_reachable_inv: "lock_reachable s \<Longrightarrow> lock_inv s"
  by (induction rule: lock_reachable.induct) (auto intro: lock_inv_init lock_step_inv)

end
