(* ===== verification/Symlinks.thy ===== *)
theory Symlinks
  imports FileSystem
begin

text \<open>
  \<open>filepath.EvalSymlinks\<close> of Go's standard library, which \<open>utils/mount.go\<close> and
  \<open>mount-manager/device-utils.go\<close> call. It walks the path component by component, asks \<open>Lstat\<close> for every prefix
  and \<open>Readlink\<close> for every link, follows at most 255 links and cleans the result, which stays relative for a
  relative path that meets no absolute link.
\<close>

section \<open>The walk\<close>

text \<open>
  \<open>dest\<close> is the resolved part; its first \<open>vol\<close> characters, the leading slash if there is one, are never
  given up. \<open>slash_after\<close> is the text before and after the last slash beyond them.
\<close>

definition slash_after :: "nat \<Rightarrow> string \<Rightarrow> (string \<times> string) option" where
  "slash_after vol dest =
    (let (d, file) = Split (drop vol dest)
     in if d = '''' then None else Some (take vol dest @ butlast d, file))"

definition walk_up :: "nat \<Rightarrow> string \<Rightarrow> string" where
  "walk_up vol dest =
    (case slash_after vol dest of
       Some (front, last_comp) \<Rightarrow>
         if last_comp \<noteq> ''..'' then front
         else (if vol < length dest then dest @ [sep] else dest) @ ''..''
     | None \<Rightarrow> (if vol < length dest then dest @ [sep] else dest) @ ''..'')"

definition walk_into :: "string \<Rightarrow> string \<Rightarrow> string" where
  "walk_into dest piece = (if dest \<noteq> '''' \<and> last dest \<noteq> sep then dest @ [sep] else dest) @ piece"

text \<open>Where a link with the target \<open>link\<close> at \<open>dest\<close> leads: the new \<open>vol\<close>, \<open>dest\<close> and start of the path.\<close>

definition walk_link :: "nat \<Rightarrow> string \<Rightarrow> string \<Rightarrow> nat \<times> string \<times> string" where
  "walk_link vol dest link =
    (if IsAbs link then (1, ''/'', drop 1 link)
     else (vol, case slash_after vol dest of Some (front, _) \<Rightarrow> front | None \<Rightarrow> take vol dest, link))"

definition is_symlink :: "inode \<Rightarrow> bool" where
  "is_symlink i \<longleftrightarrow> (case kind i of Symlink _ \<Rightarrow> True | _ \<Rightarrow> False)"

lemma walk_shorter:
  assumes "takeWhile ((\<noteq>) sep) (dropWhile ((=) sep) path) \<noteq> ''''"
  shows "length (dropWhile ((\<noteq>) sep) (dropWhile ((=) sep) path)) < length path"
proof -
  have "length (takeWhile ((\<noteq>) sep) r) + length (dropWhile ((\<noteq>) sep) r) = length r" for r
    by (metis length_append takeWhile_dropWhile_id)
  from this [of "dropWhile ((=) sep) path"] assms length_dropWhile_le [of "(=) sep" path] show ?thesis
    by (cases "takeWhile ((\<noteq>) sep) (dropWhile ((=) sep) path)") auto
qed

function walkSymlinks :: "nat \<Rightarrow> nat \<Rightarrow> string \<Rightarrow> string \<Rightarrow> ('x world, goerror + string) state" where
  "walkSymlinks links vol dest path =
    (let rest = dropWhile ((=) sep) path;
         piece = takeWhile ((\<noteq>) sep) rest;
         path' = dropWhile ((\<noteq>) sep) rest
     in if piece = '''' then ret (Inr (Clean dest))
        else if piece = ''.'' then walkSymlinks links vol dest path'
        else if piece = ''..'' then walkSymlinks links vol (walk_up vol dest) path'
        else do {
          r \<leftarrow> os_Lstat (walk_into dest piece);
          case r of
            Inl err \<Rightarrow> ret (Inl err)
          | Inr fi \<Rightarrow>
              if \<not> is_symlink fi then
                (if \<not> IsDir fi \<and> path' \<noteq> '''' then ret (Inl (ErrorString (errno_text ENOTDIR)))
                 else walkSymlinks links vol (walk_into dest piece) path')
              else
                (case links of
                   0 \<Rightarrow> ret (Inl (ErrorString ''EvalSymlinks: too many links''))
                 | Suc left \<Rightarrow> do {
                     l \<leftarrow> os_Readlink (walk_into dest piece);
                     case l of
                       Inl err \<Rightarrow> ret (Inl err)
                     | Inr link \<Rightarrow>
                         walkSymlinks left (fst (walk_link vol (walk_into dest piece) link))
                           (fst (snd (walk_link vol (walk_into dest piece) link)))
                           (snd (snd (walk_link vol (walk_into dest piece) link)) @ path')
                   })
        })"
  by pat_completeness auto

termination
  by (relation "measures [\<lambda>(links, vol, dest, path). links, \<lambda>(links, vol, dest, path). length path]")
    (auto intro: walk_shorter simp: walk_shorter)

declare walkSymlinks.simps [simp del]

definition EvalSymlinks :: "string \<Rightarrow> ('x world, goerror + string) state" where
  "EvalSymlinks path =
    (if IsAbs path then walkSymlinks 255 1 ''/'' (drop 1 path) else walkSymlinks 255 0 '''' path)"

section \<open>It only reads\<close>

lemma walkSymlinks_ro [frame_intros]: "state_io_rel same_store (walkSymlinks links vol dest path)"
proof (induction links vol dest path rule: walkSymlinks.induct)
  case (1 links vol dest path)
  have links: "state_io_rel same_store m \<Longrightarrow> (\<And>k. links = Suc k \<Longrightarrow> state_io_rel same_store (f k)) \<Longrightarrow>
      state_io_rel same_store (case links of 0 \<Rightarrow> m | Suc k \<Rightarrow> f k)" for m f
    by (simp split: nat.split)

  show ?case
    unfolding walkSymlinks.simps [of links vol dest path] Let_def
    by (intro ro.io_rules frame_intros links 1) auto
qed

lemma EvalSymlinks_ro [frame_intros]: "state_io_rel same_store (EvalSymlinks path)"
  by (simp add: EvalSymlinks_def walkSymlinks_ro)

section \<open>Paths without links\<close>

text \<open>A relative name that is not a link is its own result: it is not made absolute.\<close>

lemma plain_comp_walk:
  assumes "plain_comp c"
  shows "dropWhile ((=) sep) c = c" "takeWhile ((\<noteq>) sep) c = c" "dropWhile ((\<noteq>) sep) c = []"
  using assms by (cases c; auto simp: plain_comp_def takeWhile_eq_all_conv dropWhile_eq_Nil_conv)+

lemma EvalSymlinks_relative_name:
  assumes "plain_comp c" and "c \<noteq> ''..''" and "faults w (calls w) = None"
    and "st_get False c (store w) = Inr i" and "\<not> is_symlink i"
  shows "run_state (EvalSymlinks c) w = (Inr c, w\<lparr>calls := Suc (calls w)\<rparr>)"
proof -
  have c: "c \<noteq> ''''" "c \<noteq> ''.''" "\<not> IsAbs c" "sep \<notin> set c"
    using assms(1) by (auto simp: plain_comp_def IsAbs_def) (metis list.set_sel(1))
  have lstat: "run_state (os_Lstat c) w = (Inr i, w\<lparr>calls := Suc (calls w)\<rparr>)"
    using assms(3,4) by (simp add: os_Lstat_def sys_read_def lift_err_def)
  have "Clean c = c"
    using c assms(2) clean_comps.simps by (simp add: Clean_def split_on_no_sep)
  with lstat c assms(2,5) show ?thesis
    by (simp add: EvalSymlinks_def walkSymlinks.simps [of _ _ _ c] walkSymlinks.simps [of _ _ _ "''''"]
        plain_comp_walk [OF assms(1)] walk_into_def)
qed

end
