(* ===== verification/MountUtils.thy ===== *)
theory MountUtils
  imports Symlinks
begin

unbundle bit_operations_syntax

text \<open>
  \<open>utils/mount.go\<close>: finding the device behind a path and bind mounting. The mounter is the interface
  \<open>mount.Interface\<close> of \<open>k8s.io/mount-utils\<close>, code outside the repository: it is a record of operations on
  the world, given as a parameter. On Windows the operations are the repository's own CSI proxy mounters.
\<close>

section \<open>The mounter interface\<close>

record mount_point =
  mp_Device :: string
  mp_Path :: string

record 'x mounter =
  IsLikelyNotMountPoint :: "string \<Rightarrow> ('x world, goerror + bool) state"
  ListMounts :: "('x world, goerror + mount_point list) state"
  Unmount :: "string \<Rightarrow> ('x world, goerror option) state"
  MountSensitive ::
    "string \<Rightarrow> string \<Rightarrow> string \<Rightarrow> string list \<Rightarrow> string list \<Rightarrow> ('x world, goerror option) state"
  MountSensitiveWithoutSystemd ::
    "string \<Rightarrow> string \<Rightarrow> string \<Rightarrow> string list \<Rightarrow> string list \<Rightarrow> ('x world, goerror option) state"
  FormatAndMountSensitive ::
    "string \<Rightarrow> string \<Rightarrow> string \<Rightarrow> string list \<Rightarrow> string list \<Rightarrow> ('x world, goerror option) state"

section \<open>Operations\<close>

definition GetDeviceFromPath :: "string \<Rightarrow> ('x world, goerror + string) state" where
  "GetDeviceFromPath mountPath = do {
    r \<leftarrow> EvalSymlinks mountPath;
    case r of
      Inl err \<Rightarrow> ret (Inl err)
    | Inr slTarget \<Rightarrow> do {
        f \<leftarrow> os_Stat slTarget;
        case f of
          Inl err \<Rightarrow> ret (Inl err)
        | Inr file \<Rightarrow> ret (Inr (if Mode file = ModeDevice then slTarget else ''''))
      }
  }"

definition first_device :: "mount_point list \<Rightarrow> string \<Rightarrow> string" where
  "first_device mps path =
    (case find (\<lambda>mp. mp_Path mp = path) mps of None \<Rightarrow> '''' | Some mp \<Rightarrow> mp_Device mp)"

definition GetDeviceFromMount :: "'x mounter \<Rightarrow> string \<Rightarrow> ('x world, goerror + string) state" where
  "GetDeviceFromMount mounter mountPath = do {
    r \<leftarrow> EvalSymlinks mountPath;
    case r of
      Inl err \<Rightarrow> ret (Inl err)
    | Inr slTarget \<Rightarrow> do {
        nm \<leftarrow> IsLikelyNotMountPoint mounter slTarget;
        case nm of
          Inl err \<Rightarrow> ret (Inl err)
        | Inr notMnt \<Rightarrow>
            if notMnt then ret (Inr '''')
            else do {
              l \<leftarrow> ListMounts mounter;
              case l of
                Inl err \<Rightarrow> ret (Inl err)
              | Inr mps \<Rightarrow> ret (Inr (first_device mps slTarget))
            }
      }
  }"

definition BindMount ::
  "string \<Rightarrow> string \<Rightarrow> bool \<Rightarrow> 'x mounter \<Rightarrow> ('x world, goerror option) state" where
  "BindMount source destination readOnly mounter =
    (let fstype = ''''; options = [''bind''] @ (if readOnly then [''ro''] else [])
     in MountSensitiveWithoutSystemd mounter source destination fstype options [])"

section \<open>File modes\<close>

lemma Mode_eq_ModeDevice:
  "Mode i = ModeDevice \<longleftrightarrow> kind i = BlockDevice \<and> perm i AND 0x1FF = 0"
proof
  assume m: "Mode i = ModeDevice"
  have low: "perm i AND 0x1FF = 0"
    using Mode_low [of i] type_bits_low [of BlockDevice] by (simp add: m type_bits_def)
  then have "type_bits (kind i) = ModeDevice"
    using m by (simp add: Mode_def)
  then have "kind i = BlockDevice"
    by (cases "kind i")
      (simp_all add: type_bits_def ModeDir_def ModeSymlink_def ModeDevice_def ModeCharDevice_def)
  with low show "kind i = BlockDevice \<and> perm i AND 0x1FF = 0" by simp
qed (simp add: Mode_def type_bits_def)

section \<open>What the operations return\<close>

lemma GetDeviceFromPath_ro [frame_intros]: "state_io_rel same_store (GetDeviceFromPath p)"
  unfolding GetDeviceFromPath_def by (intro ro.io_rules frame_intros)

text \<open>
  The path is reported as a device only when it ends at a block device none of whose permission bits
  is set, because the whole mode is compared with the type bit.
\<close>

lemma GetDeviceFromPath_device:
  assumes "run_state (GetDeviceFromPath p) w = (Inr d, w')" and "d \<noteq> ''''"
  shows "\<exists>i. st_get True d (store w) = Inr i \<and> kind i = BlockDevice \<and> perm i AND 0x1FF = 0"
proof -
  from assms obtain w1 i where e: "run_state (EvalSymlinks p) w = (Inr d, w1)"
    and s: "run_state (os_Stat d) w1 = (Inr i, w')" and m: "Mode i = ModeDevice"
    by (auto simp: GetDeviceFromPath_def split: prod.splits sum.splits if_splits)
  from same_storeD [OF EvalSymlinks_ro e] os_Stat_Inr [OF s]
  have "st_get True d (store w) = Inr i" by simp
  with m show ?thesis by (auto simp: Mode_eq_ModeDevice)
qed

lemma first_device_cases:
  "first_device mps path = '''' \<or> (\<exists>mp \<in> set mps. mp_Path mp = path \<and> mp_Device mp = first_device mps path)"
  by (auto simp: first_device_def find_Some_iff split: option.split dest: nth_mem)

lemma first_device_none: "path \<notin> mp_Path ` set mps \<Longrightarrow> first_device mps path = ''''"
  by (auto simp: first_device_def find_Some_iff split: option.split)

end
