(* ===== verification/Libraries.thy ===== *)
theory Libraries
  imports GoErrors
begin

text \<open>
  Third-party libraries that several services call, as a record of functions given as a parameter:
  \<open>google.golang.org/grpc/status\<close> and \<open>github.com/duke-git/lancet/slice\<close>, with the laws their
  documentation states, and the reply that a service makes from an error of a manager.
\<close>

type_synonym grpc_status = "code \<times> string"

record libraries =
  status_FromError :: "goerror \<Rightarrow> grpc_status \<times> bool"
  status_Err :: "grpc_status \<Rightarrow> goerror option"
  slice_Union :: "string list \<Rightarrow> string list \<Rightarrow> string list"
  slice_Difference :: "string list \<Rightarrow> string list \<Rightarrow> string list"
  slice_AppendIfAbsent :: "string list \<Rightarrow> string \<Rightarrow> string list"

text \<open>What the documentation of the two libraries says of the functions the code calls.\<close>

definition status_laws :: "libraries \<Rightarrow> bool" where
  "status_laws lib \<longleftrightarrow>
    (\<forall>c m. status_FromError lib (StatusError c m) = ((c, m), True)) \<and>
    (\<forall>c m. status_Err lib (c, m) = (if c = OK then None else Some (StatusError c m)))"

definition slice_laws :: "libraries \<Rightarrow> bool" where
  "slice_laws lib \<longleftrightarrow>
    (\<forall>xs ys. set (slice_Union lib xs ys) = set xs \<union> set ys) \<and>
    (\<forall>xs ys. set (slice_Difference lib xs ys) = set xs - set ys) \<and>
    (\<forall>xs x. set (slice_AppendIfAbsent lib xs x) = insert x (set xs))"

text \<open>The operating systems the program is built for, Go's \<open>runtime.GOOS\<close>.\<close>

datatype goos = Linux | Windows

text \<open>
  An error of a manager becomes a reply: one that is a status error is passed on, for any other error
  the service makes a reply of its own.
\<close>

definition status_or :: "libraries \<Rightarrow> goerror \<Rightarrow> 'r reply \<Rightarrow> 'r reply" where
  "status_or lib err other =
    (case status_FromError lib err of (st, ok) \<Rightarrow> if ok then (None, status_Err lib st) else other)"

abbreviation status_or_internal :: "libraries \<Rightarrow> goerror \<Rightarrow> 'r reply" where
  "status_or_internal lib err \<equiv> status_or lib err (fail Internal (error_text err))"

end
