(* ===== verification/NodeServer.thy ===== *)
theory NodeServer
  imports VolumeLock MountUtils Libraries
begin

text \<open>
  The CSI node service, \<open>node/nodeserver.go\<close>, \<open>node/interface.go\<close>, \<open>node/utils.go\<close> and the constants of
  \<open>node/utils_linux.go\<close> and \<open>node/utils_windows.go\<close>. A handler is a computation on the lock table and
  the world. The part of a handler under the volume lock is a computation on the world alone, so it
  cannot touch the lock table by its type. The driver author's manager, the mounter and the libraries
  \<open>google.golang.org/grpc/status\<close> and \<open>lancet/slice\<close> are parameters.
\<close>

section \<open>Requests\<close>

datatype access_mode =
  UNKNOWN_MODE | SINGLE_NODE_WRITER | SINGLE_NODE_READER_ONLY | MULTI_NODE_READER_ONLY
| MULTI_NODE_SINGLE_WRITER | MULTI_NODE_MULTI_WRITER | SINGLE_NODE_SINGLE_WRITER
| SINGLE_NODE_MULTI_WRITER

record mount_volume =
  FsType :: string
  MountFlags :: "string list"

text \<open>The \<open>oneof\<close> of a capability holds a pointer, which can be nil on either side.\<close>

datatype access_type = AccessBlock "unit option" | AccessMount "mount_volume option"

record volume_capability =
  AccessMode :: "access_mode option"
  AccessType :: "access_type option"

definition GetBlock :: "volume_capability \<Rightarrow> unit option" where
  "GetBlock vc = (case AccessType vc of Some (AccessBlock b) \<Rightarrow> b | _ \<Rightarrow> None)"

definition GetMount :: "volume_capability \<Rightarrow> mount_volume option" where
  "GetMount vc = (case AccessType vc of Some (AccessMount m) \<Rightarrow> m | _ \<Rightarrow> None)"

type_synonym smap = "string \<rightharpoonup> string"

record NodePublishVolumeRequest =
  pub_VolumeId :: string
  pub_StagingTargetPath :: string
  pub_TargetPath :: string
  pub_VolumeCapability :: "volume_capability option"
  pub_Readonly :: bool

record NodeStageVolumeRequest =
  stg_VolumeId :: string
  stg_StagingTargetPath :: string
  stg_VolumeCapability :: "volume_capability option"
  stg_PublishContext :: smap
  stg_Secrets :: smap
  stg_VolumeContext :: smap

record NodeUnstageVolumeRequest =
  ust_VolumeId :: string
  ust_StagingTargetPath :: string

record NodeUnpublishVolumeRequest =
  upb_VolumeId :: string
  upb_TargetPath :: string

section \<open>The manager, the libraries and the server\<close>

record MountResponse =
  mr_Source :: string
  mr_Fstype :: string
  mr_Options :: "string list"
  mr_SensitiveOptions :: "string list"
  mr_Format :: bool

text \<open>
  A manager implements any of five interfaces; a type assertion on it is a test of an option. The
  context argument is left out, the manager reads what it needs from the world.
\<close>

record 'x manager =
  Validate :: "(volume_capability \<Rightarrow> ('x world, goerror option) state) option"
  MountI :: "(string \<Rightarrow> string \<Rightarrow> smap \<Rightarrow> smap \<Rightarrow> smap \<Rightarrow>
    ('x world, goerror + MountResponse option) state) option"
  Populate :: "(string \<Rightarrow> smap \<Rightarrow> smap \<Rightarrow> smap \<Rightarrow> ('x world, goerror option) state) option"
  Block :: "((smap \<Rightarrow> smap \<Rightarrow> smap \<Rightarrow> ('x world, goerror + string) state) \<times>
    (string \<Rightarrow> ('x world, goerror option) state)) option"
  Expand :: bool

definition defaultFsType :: "goos \<Rightarrow> string" where
  "defaultFsType os = (case os of Linux \<Rightarrow> ''ext4'' | Windows \<Rightarrow> ''ntfs'')"

definition fsTypeXFS :: string where
  "fsTypeXFS = ''xfs''"

record 'x Server =
  nodeID :: string
  manager :: "'x manager"
  mounter :: "'x mounter"
  maxVolumesPerNode :: "64 word"
  segments :: "smap option"
  timeout_ns :: "64 word"
  platform :: goos
  library :: libraries

text \<open>
  \<open>New\<close>: the mounter is made first; a manager that implements none of \<open>Mount\<close>, \<open>Populate\<close> and \<open>Block\<close>
  is refused. The lock table, which the handlers change, is kept in the state.
\<close>

definition ErrNoImplementation :: goerror where
  "ErrNoImplementation = Sentinel ''no implementation''"

definition New ::
  "goos \<Rightarrow> libraries \<Rightarrow> goerror + 'x mounter \<Rightarrow> string \<Rightarrow> 64 word \<Rightarrow> 'x manager \<Rightarrow>
    goerror + ('x Server \<times> VolumeLocks)" where
  "New os lib NewSafeMounter nID maxVolumes mgr =
    (case NewSafeMounter of
       Inl err \<Rightarrow> Inl (WrapError (''can't create safe mounter: '' @ error_text err) err)
     | Inr mnt \<Rightarrow>
         if MountI mgr \<noteq> None \<or> Populate mgr \<noteq> None \<or> Block mgr \<noteq> None
         then Inr (\<lparr>nodeID = nID, manager = mgr, mounter = mnt, maxVolumesPerNode = maxVolumes,
                    segments = None, timeout_ns = 60000000000, platform = os, library = lib\<rparr>,
                   NewVolumeLocks)
         else Inl ErrNoImplementation)"

record 'x node_state =
  volumeLocks :: VolumeLocks
  wld :: "'x world"

definition on_world :: "('x world, 'a) state \<Rightarrow> ('x node_state, 'a) state" where
  "on_world m = State (\<lambda>s. let (a, w) = run_state m (wld s) in (a, s\<lparr>wld := w\<rparr>))"

definition on_locks :: "(VolumeLocks, 'a) state \<Rightarrow> ('x node_state, 'a) state" where
  "on_locks m = State (\<lambda>s. let (a, l) = run_state m (volumeLocks s) in (a, s\<lparr>volumeLocks := l\<rparr>))"

text \<open>
  \<open>if acquired := ns.volumeLocks.TryAcquire(id); !acquired \<dots>; defer ns.volumeLocks.Release(id)\<close>: every
  handler takes the lock with these lines, and the deferred release runs on every return.
\<close>

definition with_volume_lock ::
  "string \<Rightarrow> ('x world, 'r reply) state \<Rightarrow> ('x node_state, 'r reply) state" where
  "with_volume_lock volumeID body = do {
    acquired \<leftarrow> on_locks (TryAcquire volumeID);
    if \<not> acquired then ret (fail Aborted (VolumeOperationAlreadyExists volumeID))
    else do {
      r \<leftarrow> on_world body;
      _ \<leftarrow> on_locks (Release volumeID);
      ret r
    }
  }"

text \<open>A handler runs its checks on the world first; \<open>None\<close> lets it go on to the lock.\<close>

definition checked_then_locked ::
  "('x world, 'r reply option) state \<Rightarrow> string \<Rightarrow> ('x world, 'r reply) state \<Rightarrow>
    ('x node_state, 'r reply) state" where
  "checked_then_locked checks volumeID body = do {
    c \<leftarrow> on_world checks;
    case c of Some r \<Rightarrow> ret r | None \<Rightarrow> with_volume_lock volumeID body
  }"

section \<open>Capabilities\<close>

definition validateAccessMode :: "access_mode option \<Rightarrow> goerror option" where
  "validateAccessMode am =
    (if am = None then Some (ErrorString ''access mode is nil'') else None)"

definition validateVolumeCapability :: "volume_capability \<Rightarrow> goerror option" where
  "validateVolumeCapability vc =
    (case validateAccessMode (AccessMode vc) of
       Some err \<Rightarrow> Some err
     | None \<Rightarrow>
         let blk = GetBlock vc; mnt = GetMount vc
         in if mnt = None \<and> blk = None then Some (ErrorString ''must specify an access type'')
            else if mnt \<noteq> None \<and> blk \<noteq> None
              then Some (ErrorString ''specified both mount and block access types'')
            else None)"

definition Readonly :: "volume_capability \<Rightarrow> bool" where
  "Readonly vc =
    (case AccessMode vc of
       None \<Rightarrow> False
     | Some mode \<Rightarrow> mode = MULTI_NODE_READER_ONLY \<or> mode = SINGLE_NODE_READER_ONLY)"

definition run_validate ::
  "'x Server \<Rightarrow> volume_capability \<Rightarrow> ('x world, goerror option) state" where
  "run_validate ns vc = (case Validate (manager ns) of None \<Rightarrow> ret None | Some mv \<Rightarrow> mv vc)"

definition quoted :: "string \<Rightarrow> string" where
  "quoted s = CHR 0x27 # s @ [CHR 0x27]"

definition invalid_capability :: "goerror \<Rightarrow> 'r reply" where
  "invalid_capability err = fail InvalidArgument (''VolumeCapability is invalid: '' @ error_text err)"

section \<open>NodePublishVolume\<close>

definition publish_checks ::
  "'x Server \<Rightarrow> NodePublishVolumeRequest \<Rightarrow> ('x world, unit reply option) state" where
  "publish_checks ns req =
    (if pub_VolumeId req = '''' then
       ret (Some (fail InvalidArgument ''NodePublishVolume Volume ID must be provided''))
     else if pub_StagingTargetPath req = '''' then
       ret (Some (fail InvalidArgument ''NodePublishVolume Staging Target Path must be provided''))
     else if pub_StagingTargetPath req = '''' then
       ret (Some (fail InvalidArgument ''NodePublishVolume Target Path must be provided''))
     else
       (case pub_VolumeCapability req of
          None \<Rightarrow>
            ret (Some (fail InvalidArgument ''NodePublishVolume Volume Capability must be provided''))
        | Some vc \<Rightarrow>
            (case validateVolumeCapability vc of
               Some err \<Rightarrow> ret (Some (invalid_capability err))
             | None \<Rightarrow> do {
                 v \<leftarrow> run_validate ns vc;
                 case v of
                   Some err \<Rightarrow> ret (Some (invalid_capability err))
                 | None \<Rightarrow> do {
                     targetFile \<leftarrow> os_Stat (pub_TargetPath req);
                     case targetFile of
                       Inl err \<Rightarrow> ret (Some (fail FailedPrecondition
                         (''Can't stat target path '' @ quoted (pub_TargetPath req) @ '': '' @ error_text err)))
                     | Inr f \<Rightarrow>
                         if \<not> IsDir f then ret (Some (fail FailedPrecondition
                           (''staging target path '' @ quoted (pub_StagingTargetPath req) @
                            '' isn't a directory'')))
                         else ret None
                   }
               })))"

definition isVolumePathMounted :: "'x Server \<Rightarrow> string \<Rightarrow> ('x world, bool) state" where
  "isVolumePathMounted ns path = do {
    r \<leftarrow> IsLikelyNotMountPoint (mounter ns) path;
    ret (case r of Inl err \<Rightarrow> False | Inr notMnt \<Rightarrow> \<not> notMnt)
  }"

definition publish_block ::
  "'x Server \<Rightarrow> NodePublishVolumeRequest \<Rightarrow> ('x world, unit reply) state" where
  "publish_block ns req = do {
    r \<leftarrow> GetDeviceFromPath (pub_StagingTargetPath req);
    case r of
      Inl err \<Rightarrow> ret (fail_err err)
    | Inr blockPath \<Rightarrow> do {
        e \<leftarrow> os_Symlink blockPath (pub_TargetPath req);
        case e of
          Some err \<Rightarrow> ret (fail Internal (''can't create symlink: '' @ error_text err))
        | None \<Rightarrow> ret (answer ())
      }
  }"

definition publish_mount ::
  "'x Server \<Rightarrow> NodePublishVolumeRequest \<Rightarrow> ('x world, unit reply) state" where
  "publish_mount ns req = do {
    mounted \<leftarrow> isVolumePathMounted ns (pub_TargetPath req);
    if mounted then ret (answer ())
    else do {
      file \<leftarrow> os_Stat (pub_StagingTargetPath req);
      if (case file of Inl err \<Rightarrow> True | Inr f \<Rightarrow> \<not> IsDir f)
      then ret (fail FailedPrecondition ''can't stat staging file'')
      else do {
        e \<leftarrow> BindMount (pub_StagingTargetPath req) (pub_TargetPath req) (pub_Readonly req) (mounter ns);
        case e of
          Some err \<Rightarrow>
            ret (fail Internal (''NodePublishVolume mount of disk failed: '' @ error_text err))
        | None \<Rightarrow> ret (answer ())
      }
    }
  }"

definition access_of :: "volume_capability option \<Rightarrow> access_type option" where
  "access_of vc = Option.bind vc AccessType"

definition publish_body ::
  "'x Server \<Rightarrow> NodePublishVolumeRequest \<Rightarrow> ('x world, unit reply) state" where
  "publish_body ns req =
    (case access_of (pub_VolumeCapability req) of
       Some (AccessBlock _) \<Rightarrow> publish_block ns req
     | Some (AccessMount _) \<Rightarrow> publish_mount ns req
     | None \<Rightarrow> ret (answer ()))"

definition NodePublishVolume ::
  "'x Server \<Rightarrow> NodePublishVolumeRequest \<Rightarrow> ('x node_state, unit reply) state" where
  "NodePublishVolume ns req =
    checked_then_locked (publish_checks ns req) (pub_VolumeId req) (publish_body ns req)"

section \<open>NodeStageVolume\<close>

definition stage_checks ::
  "'x Server \<Rightarrow> NodeStageVolumeRequest \<Rightarrow> ('x world, unit reply option) state" where
  "stage_checks ns req =
    (if stg_VolumeId req = '''' then
       ret (Some (fail InvalidArgument ''NodeStageVolume Volume ID must be provided''))
     else if stg_StagingTargetPath req = '''' then
       ret (Some (fail InvalidArgument ''NodeStageVolume Staging Target Path must be provided''))
     else if stg_StagingTargetPath req = '''' then
       ret (Some (fail InvalidArgument ''NodeStageVolume Target Path must be provided''))
     else
       (case stg_VolumeCapability req of
          None \<Rightarrow>
            ret (Some (fail InvalidArgument ''NodeStageVolume Volume Capability must be provided''))
        | Some vc \<Rightarrow>
            (case validateVolumeCapability vc of
               Some err \<Rightarrow> ret (Some (invalid_capability err))
             | None \<Rightarrow> do {
                 v \<leftarrow> run_validate ns vc;
                 case v of
                   Some err \<Rightarrow> ret (Some (status_or (library ns) err (invalid_capability err)))
                 | None \<Rightarrow> do {
                     targetFile \<leftarrow> os_Stat (stg_StagingTargetPath req);
                     case targetFile of
                       Inl err \<Rightarrow> ret (Some (fail FailedPrecondition
                         (''Can't stat staging target path '' @ quoted (stg_StagingTargetPath req) @
                          '': '' @ error_text err)))
                     | Inr f \<Rightarrow>
                         if \<not> IsDir f then ret (Some (fail FailedPrecondition
                           (''staging target path '' @ quoted (stg_StagingTargetPath req) @
                            '' isn't a directory'')))
                         else ret None
                   }
               })))"

definition stage_attach ::
  "'x Server \<Rightarrow> NodeStageVolumeRequest \<Rightarrow> ('x world, goerror + string) state" where
  "stage_attach ns req =
    (case Block (manager ns) of
       None \<Rightarrow> ret (Inr '''')
     | Some (AttachBlock, DetachBlock) \<Rightarrow>
         AttachBlock (stg_VolumeContext req) (stg_PublishContext req) (stg_Secrets req))"

definition stage_block ::
  "NodeStageVolumeRequest \<Rightarrow> string \<Rightarrow> ('x world, unit reply) state" where
  "stage_block req blockPath =
    (if blockPath = '''' then ret (fail Unimplemented ''Block not implemented'')
     else do {
       e \<leftarrow> os_Symlink blockPath (stg_StagingTargetPath req);
       case e of
         Some err \<Rightarrow> ret (fail Internal (''can't create symlink: '' @ error_text err))
       | None \<Rightarrow> ret (answer ())
     })"

text \<open>The file system type the manager is asked for: the request's, or the platform's default.\<close>

definition requested_fs_type :: "goos \<Rightarrow> volume_capability \<Rightarrow> string" where
  "requested_fs_type os vc =
    (case GetMount vc of
       Some mnt \<Rightarrow> if FsType mnt \<noteq> '''' then FsType mnt else defaultFsType os
     | None \<Rightarrow> defaultFsType os)"

text \<open>The type mounted in the end: the request's, else the manager's, else the one asked for.\<close>

definition mount_fs_type :: "goos \<Rightarrow> volume_capability \<Rightarrow> MountResponse \<Rightarrow> string" where
  "mount_fs_type os vc m =
    (let fsType = (if mr_Fstype m \<noteq> '''' then mr_Fstype m else requested_fs_type os vc)
     in case GetMount vc of
          Some mnt \<Rightarrow> if FsType mnt \<noteq> '''' then FsType mnt else fsType
        | None \<Rightarrow> fsType)"

definition mount_options ::
  "'x Server \<Rightarrow> volume_capability \<Rightarrow> MountResponse \<Rightarrow> string list" where
  "mount_options ns vc m =
    (let lib = library ns;
         options = (case GetMount vc of Some mnt \<Rightarrow> slice_Union lib [] (MountFlags mnt) | None \<Rightarrow> []);
         options = (if mount_fs_type (platform ns) vc m = fsTypeXFS
                    then slice_AppendIfAbsent lib options ''nouuid'' else options)
     in if Readonly vc then slice_AppendIfAbsent lib options ''ro'' else options)"

definition stage_do_mount ::
  "'x Server \<Rightarrow> volume_capability \<Rightarrow> string \<Rightarrow> MountResponse \<Rightarrow> ('x world, unit reply option) state"
where
  "stage_do_mount ns vc stagingTargetPath m =
    (let options = mount_options ns vc m;
         localOptions = slice_Union (library ns) options (mr_Options m);
         localSensitiveOptions = slice_Difference (library ns) (mr_SensitiveOptions m) options
     in if mr_Format m then do {
          e \<leftarrow> FormatAndMountSensitive (mounter ns) (mr_Source m) stagingTargetPath (mr_Fstype m)
                 localOptions localSensitiveOptions;
          ret (map_option (\<lambda>err. fail Internal (''fail to format and mount: '' @ error_text err)) e)
        }
        else do {
          e \<leftarrow> MountSensitive (mounter ns) (mr_Source m) stagingTargetPath
                 (mount_fs_type (platform ns) vc m) localOptions localSensitiveOptions;
          ret (map_option (\<lambda>err. fail Internal
            (''fail to mount '' @ quoted stagingTargetPath @ '': '' @ error_text err)) e)
        })"

text \<open>The \<open>Mount\<close> part yields an error reply, or whether something was provisioned.\<close>

definition stage_mount_part ::
  "'x Server \<Rightarrow> NodeStageVolumeRequest \<Rightarrow> volume_capability \<Rightarrow> ('x world, unit reply + bool) state"
where
  "stage_mount_part ns req vc =
    (case MountI (manager ns) of
       None \<Rightarrow> ret (Inr False)
     | Some mm \<Rightarrow> do {
         mountResponse \<leftarrow> mm (stg_StagingTargetPath req) (requested_fs_type (platform ns) vc)
           (stg_VolumeContext req) (stg_PublishContext req) (stg_Secrets req);
         case mountResponse of
           Inl err \<Rightarrow> ret (Inl (status_or_internal (library ns) err))
         | Inr None \<Rightarrow> ret (Inr False)
         | Inr (Some m) \<Rightarrow> do {
             e \<leftarrow> stage_do_mount ns vc (stg_StagingTargetPath req) m;
             ret (case e of Some r \<Rightarrow> Inl r | None \<Rightarrow> Inr True)
           }
       })"

definition stage_populate_part ::
  "'x Server \<Rightarrow> NodeStageVolumeRequest \<Rightarrow> bool \<Rightarrow> ('x world, unit reply + bool) state" where
  "stage_populate_part ns req provisionned =
    (case Populate (manager ns) of
       None \<Rightarrow> ret (Inr provisionned)
     | Some mm \<Rightarrow> do {
         e \<leftarrow> mm (stg_StagingTargetPath req) (stg_VolumeContext req) (stg_PublishContext req)
           (stg_Secrets req);
         ret (case e of Some err \<Rightarrow> Inl (status_or_internal (library ns) err) | None \<Rightarrow> Inr True)
       })"

definition stage_mount ::
  "'x Server \<Rightarrow> NodeStageVolumeRequest \<Rightarrow> volume_capability \<Rightarrow> ('x world, unit reply) state" where
  "stage_mount ns req vc = do {
    m \<leftarrow> stage_mount_part ns req vc;
    case m of
      Inl r \<Rightarrow> ret r
    | Inr provisionned \<Rightarrow> do {
        p \<leftarrow> stage_populate_part ns req provisionned;
        case p of
          Inl r \<Rightarrow> ret r
        | Inr provisionned \<Rightarrow>
            if \<not> provisionned then ret (fail Unimplemented ''Mount not implemented'')
            else ret (answer ())
      }
  }"

definition stage_body ::
  "'x Server \<Rightarrow> NodeStageVolumeRequest \<Rightarrow> ('x world, unit reply) state" where
  "stage_body ns req = do {
    a \<leftarrow> stage_attach ns req;
    case a of
      Inl err \<Rightarrow> ret (status_or_internal (library ns) err)
    | Inr blockPath \<Rightarrow>
        (case stg_VolumeCapability req of
           None \<Rightarrow> ret (answer ())
         | Some vc \<Rightarrow>
             (case AccessType vc of
                Some (AccessBlock _) \<Rightarrow> stage_block req blockPath
              | Some (AccessMount _) \<Rightarrow> stage_mount ns req vc
              | None \<Rightarrow> ret (answer ())))
  }"

definition NodeStageVolume ::
  "'x Server \<Rightarrow> NodeStageVolumeRequest \<Rightarrow> ('x node_state, unit reply) state" where
  "NodeStageVolume ns req =
    checked_then_locked (stage_checks ns req) (stg_VolumeId req) (stage_body ns req)"

section \<open>NodeUnstageVolume and NodeUnpublishVolume\<close>

definition unstage_checks :: "NodeUnstageVolumeRequest \<Rightarrow> ('x world, unit reply option) state" where
  "unstage_checks req =
    (if ust_VolumeId req = '''' then
       ret (Some (fail InvalidArgument ''NodeUnstageVolume Volume ID must be provided''))
     else if ust_StagingTargetPath req = '''' then
       ret (Some (fail InvalidArgument ''NodeUnstageVolume Staging Target Path must be provided''))
     else ret None)"

definition unstage_detach :: "'x Server \<Rightarrow> string \<Rightarrow> ('x world, unit reply) state" where
  "unstage_detach ns blockPath =
    (case Block (manager ns) of
       None \<Rightarrow> ret (answer ())
     | Some (AttachBlock, DetachBlock) \<Rightarrow> do {
         e \<leftarrow> DetachBlock blockPath;
         ret (case e of Some err \<Rightarrow> fail_err err | None \<Rightarrow> answer ())
       })"

definition unstage_body ::
  "'x Server \<Rightarrow> NodeUnstageVolumeRequest \<Rightarrow> ('x world, unit reply) state" where
  "unstage_body ns req = do {
    d \<leftarrow> GetDeviceFromPath (ust_StagingTargetPath req);
    case d of
      Inl err \<Rightarrow> ret (fail_err err)
    | Inr blockPath \<Rightarrow>
        if blockPath \<noteq> '''' then do {
          e \<leftarrow> os_Remove (ust_StagingTargetPath req);
          ret (case e of Some err \<Rightarrow> fail_err err | None \<Rightarrow> answer ())
        }
        else do {
          m \<leftarrow> GetDeviceFromMount (mounter ns) (ust_StagingTargetPath req);
          case m of
            Inl err \<Rightarrow> ret (fail_err err)
          | Inr blockPath \<Rightarrow> do {
              e \<leftarrow> (if blockPath \<noteq> '''' then Unmount (mounter ns) (ust_StagingTargetPath req)
                    else os_RemoveAll (ust_StagingTargetPath req));
              case e of
                Some err \<Rightarrow> ret (fail_err err)
              | None \<Rightarrow> unstage_detach ns blockPath
            }
        }
  }"

definition NodeUnstageVolume ::
  "'x Server \<Rightarrow> NodeUnstageVolumeRequest \<Rightarrow> ('x node_state, unit reply) state" where
  "NodeUnstageVolume ns req =
    checked_then_locked (unstage_checks req) (ust_VolumeId req) (unstage_body ns req)"

definition unpublish_checks ::
  "NodeUnpublishVolumeRequest \<Rightarrow> ('x world, unit reply option) state" where
  "unpublish_checks req =
    (if upb_VolumeId req = '''' then
       ret (Some (fail InvalidArgument ''NodeUnpublishVolume Volume ID must be provided''))
     else if upb_TargetPath req = '''' then
       ret (Some (fail InvalidArgument ''NodeUnpublishVolume Target Path must be provided''))
     else ret None)"

text \<open>
  \<open>status.Errorf\<close> formats with \<open>Sprintf\<close>, which has no \<open>%w\<close>: it prints the bad-verb form of the
  \<open>*fs.PathError\<close> that \<open>os.Remove\<close> returns.
\<close>

fun bad_verb :: "goerror \<Rightarrow> string" where
  "bad_verb (PathError op p e) =
    ''%!w(*fs.PathError=&{'' @ op @ '' '' @ p @ '' '' @ errno_num e @ ''})''"
| "bad_verb e = ''%!w('' @ error_text e @ '')''"

definition unpublish_body ::
  "'x Server \<Rightarrow> NodeUnpublishVolumeRequest \<Rightarrow> ('x world, unit reply) state" where
  "unpublish_body ns req = do {
    u \<leftarrow> Unmount (mounter ns) (upb_TargetPath req);
    case u of
      Some err \<Rightarrow> ret (fail Internal (''Unmount failed: '' @ error_text err @
        ''\<newline>Unmounting arguments: '' @ upb_TargetPath req @ ''\<newline>''))
    | None \<Rightarrow> do {
        e \<leftarrow> os_Remove (upb_TargetPath req);
        case e of
          Some err \<Rightarrow> ret (fail Internal (''cleanup failed: '' @ bad_verb err))
        | None \<Rightarrow> ret (answer ())
      }
  }"

definition NodeUnpublishVolume ::
  "'x Server \<Rightarrow> NodeUnpublishVolumeRequest \<Rightarrow> ('x node_state, unit reply) state" where
  "NodeUnpublishVolume ns req =
    checked_then_locked (unpublish_checks req) (upb_VolumeId req) (unpublish_body ns req)"

section \<open>The stateless calls\<close>

datatype NodeServiceCapability_RPC =
  NodeRPC_UNKNOWN | NodeRPC_STAGE_UNSTAGE_VOLUME | NodeRPC_GET_VOLUME_STATS | NodeRPC_EXPAND_VOLUME
| NodeRPC_VOLUME_CONDITION | NodeRPC_SINGLE_NODE_MULTI_WRITER | NodeRPC_VOLUME_MOUNT_GROUP

record NodeGetInfoResponse =
  NodeId :: string
  MaxVolumesPerNode :: "64 word"
  AccessibleTopology :: "smap option"

definition NodeGetVolumeStats :: "'x Server \<Rightarrow> unit reply" where
  "NodeGetVolumeStats ns = fail Unimplemented ''NodeGetVolumeStats not implemented''"

definition NodeExpandVolume :: "'x Server \<Rightarrow> unit reply" where
  "NodeExpandVolume ns = fail Unimplemented ''NodeExpandVolume not implemented''"

definition NodeGetCapabilities :: "'x Server \<Rightarrow> NodeServiceCapability_RPC list reply" where
  "NodeGetCapabilities ns =
    answer ([NodeRPC_STAGE_UNSTAGE_VOLUME] @
            (if Expand (manager ns) then [NodeRPC_EXPAND_VOLUME] else []))"

definition NodeGetInfo :: "'x Server \<Rightarrow> NodeGetInfoResponse reply" where
  "NodeGetInfo ns =
    answer \<lparr>NodeId = nodeID ns, MaxVolumesPerNode = maxVolumesPerNode ns,
            AccessibleTopology = segments ns\<rparr>"

section \<open>The lock discipline\<close>

lemma run_on_world [simp]:
  "run_state (on_world m) s = (fst (run_state m (wld s)), s\<lparr>wld := snd (run_state m (wld s))\<rparr>)"
  by (simp add: on_world_def case_prod_beta Let_def)

lemma run_on_locks [simp]:
  "run_state (on_locks m) s =
    (fst (run_state m (volumeLocks s)), s\<lparr>volumeLocks := snd (run_state m (volumeLocks s))\<rparr>)"
  by (simp add: on_locks_def case_prod_beta Let_def)

text \<open>The node server's lock table is a lock table of its state.\<close>

interpretation nl: lock_table
    "\<lambda>s. locks (volumeLocks s)" "\<lambda>v. on_locks (TryAcquire v)" "\<lambda>v. on_locks (Release v)"
proof unfold_locales
  fix v and t t' :: "'x node_state" and b
  assume "run_state (on_locks (TryAcquire v)) t = (b, t')"
  then show "b = (v \<notin> locks (volumeLocks t)) \<and>
      locks (volumeLocks t') = insert v (locks (volumeLocks t))"
    using vl.acquire_spec [of v "volumeLocks t" b "volumeLocks t'"]
    by (cases "run_state (TryAcquire v) (volumeLocks t)") auto
next
  fix v and t :: "'x node_state"
  assume "v \<in> locks (volumeLocks t)"
  then show "run_state (on_locks (TryAcquire v)) t = (False, t)"
    using vl.acquire_refused [of v "volumeLocks t"] by simp
next
  fix v and t t' :: "'x node_state" and u
  assume "run_state (on_locks (Release v)) t = (u, t')"
  then show "locks (volumeLocks t') = locks (volumeLocks t) - {v}"
    by (auto simp: Release_def)
qed

lemma with_volume_lock_bracket:
  "run_state (with_volume_lock v body) s =
    map_prod (case_sum id id) id
      (run_state (do { b \<leftarrow> on_locks (TryAcquire v);
         if b then do { r \<leftarrow> on_world body; _ \<leftarrow> on_locks (Release v); ret (Inr r) }
         else ret (Inl (fail Aborted (VolumeOperationAlreadyExists v))) }) s)"
  by (simp add: with_volume_lock_def)

lemma VolumeLocks_eqI: "locks a = locks b \<Longrightarrow> a = (b :: VolumeLocks)"
  by (cases a; cases b) simp

lemma with_volume_lock_balanced:
  fixes body :: "('x world, 'r reply) state"
  shows "volumeLocks (snd (run_state (with_volume_lock v body) s)) = volumeLocks s"
proof (rule VolumeLocks_eqI)
  let ?m = "do { b \<leftarrow> on_locks (TryAcquire v);
         if b then do { r \<leftarrow> on_world body; _ \<leftarrow> on_locks (Release v); ret (Inr r) }
         else ret (Inl (fail Aborted (VolumeOperationAlreadyExists v) :: 'r reply)) }"
  obtain res s' where run: "run_state ?m s = (res, s')" by fastforce
  have "locks (volumeLocks s') = locks (volumeLocks s)"
    by (rule nl.bracket_balanced [OF _ run]) auto
  moreover have "run_state (with_volume_lock v body) s = map_prod (case_sum id id) id (res, s')"
    by (simp only: with_volume_lock_bracket run)
  ultimately show "locks (volumeLocks (snd (run_state (with_volume_lock v body) s))) =
      locks (volumeLocks s)"
    by simp
qed

lemma checked_then_locked_balanced:
  "volumeLocks (snd (run_state (checked_then_locked c v body) s)) = volumeLocks s"
  by (simp add: checked_then_locked_def with_volume_lock_balanced split: option.split)

lemma checked_then_locked_busy:
  assumes "v \<in> locks (volumeLocks s)"
  shows "run_state (checked_then_locked c v body) s =
    (case fst (run_state c (wld s)) of
       Some r \<Rightarrow> r | None \<Rightarrow> fail Aborted (VolumeOperationAlreadyExists v),
     s\<lparr>wld := snd (run_state c (wld s))\<rparr>)"
  using assms vl.acquire_refused [of v "volumeLocks s"]
  by (simp add: checked_then_locked_def with_volume_lock_def split: option.split)

lemma checked_then_locked_early:
  "fst (run_state c (wld s)) = Some r \<Longrightarrow>
    run_state (checked_then_locked c v body) s = (r, s\<lparr>wld := snd (run_state c (wld s))\<rparr>)"
  by (simp add: checked_then_locked_def)

lemma checked_then_locked_free:
  assumes "v \<notin> locks (volumeLocks s)" and "run_state c (wld s) = (None, w)"
    and "run_state body w = (r, w')"
  shows "run_state (checked_then_locked c v body) s = (r, s\<lparr>wld := w'\<rparr>)"
  using assms
  by (cases "volumeLocks s")
    (simp add: checked_then_locked_def with_volume_lock_def TryAcquire_def Release_def)

lemma checked_then_locked_cases:
  assumes "run_state (checked_then_locked c v body) s = (r, s')"
  obtains (early) "fst (run_state c (wld s)) = Some r" "s' = s\<lparr>wld := snd (run_state c (wld s))\<rparr>"
  | (busy) w where "run_state c (wld s) = (None, w)" "v \<in> locks (volumeLocks s)"
      "r = fail Aborted (VolumeOperationAlreadyExists v)" "s' = s\<lparr>wld := w\<rparr>"
  | (ran) w w' where "run_state c (wld s) = (None, w)" "v \<notin> locks (volumeLocks s)"
      "run_state body w = (r, w')" "s' = s\<lparr>wld := w'\<rparr>"
proof -
  obtain x w where c: "run_state c (wld s) = (x, w)" by fastforce
  show thesis
  proof (cases x)
    case (Some y)
    then show thesis using early assms c checked_then_locked_early [of c s y v body] by simp
  next
    case None
    show thesis
    proof (cases "v \<in> locks (volumeLocks s)")
      case True
      then show thesis using busy assms c None checked_then_locked_busy [of v s c body] by simp
    next
      case False
      obtain y w' where "run_state body w = (y, w')" by fastforce
      then show thesis using ran assms c None False checked_then_locked_free [of v s c w body y w'] by simp
    qed
  qed
qed

end
