(* ===== verification/NodeProps.thy ===== *)
theory NodeProps
  imports NodeServer
begin

unbundle bit_operations_syntax

text \<open>
  What the node service's handlers do: validation, publishing, staging, unstaging, unpublishing and
  the stateless calls. Every theorem is for every manager, every mounter and every pattern of failing
  system calls unless its hypotheses say otherwise.
\<close>

section \<open>Concrete parties for the witnesses\<close>

text \<open>A library that behaves as documented, a world with two directories, and silent parties.\<close>

definition demo_lib :: libraries where
  "demo_lib = \<lparr>status_FromError = (\<lambda>e. case e of StatusError c m \<Rightarrow> ((c, m), True)
                                    | _ \<Rightarrow> ((Unknown, error_text e), False)),
     status_Err = (\<lambda>(c, m). if c = OK then None else Some (StatusError c m)),
     slice_Union = (\<lambda>xs ys. remdups (xs @ ys)),
     slice_Difference = (\<lambda>xs ys. filter (\<lambda>x. x \<notin> set ys) xs),
     slice_AppendIfAbsent = (\<lambda>xs x. if x \<in> set xs then xs else xs @ [x])\<rparr>"

definition plain_dir :: inode where
  "plain_dir = \<lparr>kind = Directory, perm = 0x1ED, uid = 0, gid = 0\<rparr>"

definition demo_world :: "unit world" where
  "demo_world = \<lparr>store = [([''s''], plain_dir), ([''t''], plain_dir)], umask = 0,
     faults = (\<lambda>_. None), calls = 0, ext = ()\<rparr>"

definition demo_mounter :: "unit mounter" where
  "demo_mounter = \<lparr>IsLikelyNotMountPoint = (\<lambda>_. ret (Inr True)), ListMounts = ret (Inr []),
     Unmount = (\<lambda>_. ret None), MountSensitive = (\<lambda>_ _ _ _ _. ret None),
     MountSensitiveWithoutSystemd = (\<lambda>_ _ _ _ _. ret None),
     FormatAndMountSensitive = (\<lambda>_ _ _ _ _. ret None)\<rparr>"

definition demo_manager :: "unit manager" where
  "demo_manager = \<lparr>Validate = None, MountI = None, Populate = None,
     Block = Some ((\<lambda>_ _ _. ret (Inr ''/dev/sdb'')), (\<lambda>_. ret None)), Expand = True\<rparr>"

definition demo_server :: "unit Server" where
  "demo_server = \<lparr>nodeID = ''node-1'', manager = demo_manager, mounter = demo_mounter,
     maxVolumesPerNode = 16, segments = None, timeout_ns = 60000000000, platform = Linux,
     library = demo_lib\<rparr>"

definition demo_state :: "unit node_state" where
  "demo_state = \<lparr>volumeLocks = NewVolumeLocks, wld = demo_world\<rparr>"

definition block_cap :: volume_capability where
  "block_cap = \<lparr>AccessMode = Some SINGLE_NODE_WRITER, AccessType = Some (AccessBlock (Some ()))\<rparr>"

definition mount_cap :: volume_capability where
  "mount_cap = \<lparr>AccessMode = Some SINGLE_NODE_READER_ONLY,
     AccessType = Some (AccessMount (Some \<lparr>FsType = ''xfs'', MountFlags = [''noatime'']\<rparr>))\<rparr>"

lemmas demo_defs = demo_lib_def plain_dir_def demo_world_def demo_mounter_def demo_manager_def
  demo_server_def demo_state_def block_cap_def mount_cap_def

lemma demo_lib_laws: "status_laws demo_lib" "slice_laws demo_lib"
  by (auto simp: status_laws_def slice_laws_def demo_lib_def)

section \<open>Validation\<close>

lemma capability_one_access: "GetMount vc = None \<or> GetBlock vc = None"
  by (simp add: GetMount_def GetBlock_def split: option.split access_type.split)

text \<open>
  A volume capability is accepted exactly when it has an access mode and a non-nil block or mount
  access type. The code's error for both types at once is never returned, since the access type is
  a protobuf oneof.
\<close>

theorem validateVolumeCapability_iff:
  "(validateVolumeCapability vc = None \<longleftrightarrow>
     AccessMode vc \<noteq> None \<and>
     ((\<exists>b. GetBlock vc = Some b) \<or> (\<exists>mnt. GetMount vc = Some mnt))) \<and>
   validateVolumeCapability vc \<noteq> Some (ErrorString ''specified both mount and block access types'')"
  using capability_one_access [of vc]
  by (auto simp: validateVolumeCapability_def validateAccessMode_def Let_def)

text \<open>A request that the specification calls malformed.\<close>

definition malformed_stage :: "NodeStageVolumeRequest \<Rightarrow> bool" where
  "malformed_stage req \<longleftrightarrow> stg_VolumeId req = '''' \<or> stg_StagingTargetPath req = '''' \<or>
     (case stg_VolumeCapability req of
        None \<Rightarrow> True | Some vc \<Rightarrow> validateVolumeCapability vc \<noteq> None)"

text \<open>
  The handler tests the staging path twice where the target path is meant, so an empty target path is the
  one malformed publish request that its argument checks let through.
\<close>

definition rejected_publish :: "NodePublishVolumeRequest \<Rightarrow> bool" where
  "rejected_publish req \<longleftrightarrow> pub_VolumeId req = '''' \<or> pub_StagingTargetPath req = '''' \<or>
     (case pub_VolumeCapability req of
        None \<Rightarrow> True | Some vc \<Rightarrow> validateVolumeCapability vc \<noteq> None)"

definition malformed_publish :: "NodePublishVolumeRequest \<Rightarrow> bool" where
  "malformed_publish req \<longleftrightarrow> rejected_publish req \<or> pub_TargetPath req = ''''"

lemma stage_checks_malformed:
  "malformed_stage req \<Longrightarrow> \<exists>m. run_state (stage_checks ns req) w = (Some (fail InvalidArgument m), w)"
  by (auto simp: malformed_stage_def stage_checks_def invalid_capability_def
      split: option.splits)

lemma publish_checks_rejected:
  "rejected_publish req \<Longrightarrow>
    \<exists>m. run_state (publish_checks ns req) w = (Some (fail InvalidArgument m), w)"
  by (auto simp: rejected_publish_def publish_checks_def invalid_capability_def
      split: option.splits)

lemma os_Stat_empty:
  "\<exists>e. run_state (os_Stat '''') w = (Inl (PathError ''stat'' '''' e), w\<lparr>calls := Suc (calls w)\<rparr>)"
  by (simp add: os_Stat_def sys_read_def lift_err_def st_get_def namei_def split: option.split)

lemma publish_checks_no_target:
  assumes "pub_TargetPath req = ''''" and "\<not> rejected_publish req"
  shows "\<exists>c m. c \<in> {InvalidArgument, FailedPrecondition} \<and>
    fst (run_state (publish_checks ns req) w) = Some (fail c m) \<and>
    (Validate (manager ns) = None \<longrightarrow> c = FailedPrecondition \<and>
      snd (run_state (publish_checks ns req) w) = w\<lparr>calls := Suc (calls w)\<rparr>)"
proof -
  from assms(2) obtain vc where ok: "pub_VolumeId req \<noteq> ''''" "pub_StagingTargetPath req \<noteq> ''''"
    "pub_VolumeCapability req = Some vc" "validateVolumeCapability vc = None"
    by (auto simp: rejected_publish_def split: option.splits)
  obtain v w1 where v: "run_state (run_validate ns vc) w = (v, w1)" by fastforce
  obtain e where "run_state (os_Stat '''') w1 = (Inl (PathError ''stat'' '''' e), w1\<lparr>calls := Suc (calls w1)\<rparr>)"
    using os_Stat_empty by blast
  moreover have "Validate (manager ns) = None \<Longrightarrow> v = None \<and> w1 = w"
    using v by (simp add: run_validate_def)
  ultimately show ?thesis
    using ok assms(1) v
    by (cases v) (auto simp: publish_checks_def invalid_capability_def)
qed

text \<open>
  C34. A malformed stage or publish request is refused before anything happens: no lock is taken and neither
  the mounter nor any manager operation but \<open>Validate\<close> is called. The answer is InvalidArgument and the state is
  as it was, except for a publish request whose only fault is an empty target path: that one goes on to
  \<open>Validate\<close> and a stat of the empty path, and without \<open>Validate\<close> is answered FailedPrecondition.
\<close>

theorem malformed_requests_no_effect:
  assumes "malformed_stage req" and "malformed_publish req'"
  shows "(\<exists>m. run_state (NodeStageVolume ns req) s = (fail InvalidArgument m, s)) \<and>
    (if rejected_publish req' then \<exists>m. run_state (NodePublishVolume ns req') s = (fail InvalidArgument m, s)
     else \<exists>c m. c \<in> {InvalidArgument, FailedPrecondition} \<and>
       run_state (NodePublishVolume ns req') s =
         (fail c m, s\<lparr>wld := snd (run_state (publish_checks ns req') (wld s))\<rparr>) \<and>
       (Validate (manager ns) = None \<longrightarrow> c = FailedPrecondition \<and>
         snd (run_state (publish_checks ns req') (wld s)) = (wld s)\<lparr>calls := Suc (calls (wld s))\<rparr>))"
proof (rule conjI)
  obtain m where "run_state (stage_checks ns req) (wld s) = (Some (fail InvalidArgument m), wld s)"
    using stage_checks_malformed [OF assms(1)] by blast
  then show "\<exists>m. run_state (NodeStageVolume ns req) s = (fail InvalidArgument m, s)"
    by (simp add: NodeStageVolume_def checked_then_locked_early)
  show "if rejected_publish req' then \<exists>m. run_state (NodePublishVolume ns req') s = (fail InvalidArgument m, s)
     else \<exists>c m. c \<in> {InvalidArgument, FailedPrecondition} \<and>
       run_state (NodePublishVolume ns req') s =
         (fail c m, s\<lparr>wld := snd (run_state (publish_checks ns req') (wld s))\<rparr>) \<and>
       (Validate (manager ns) = None \<longrightarrow> c = FailedPrecondition \<and>
         snd (run_state (publish_checks ns req') (wld s)) = (wld s)\<lparr>calls := Suc (calls (wld s))\<rparr>)"
  proof (cases "rejected_publish req'")
    case True
    with publish_checks_rejected [OF True, of ns "wld s"] show ?thesis
      by (auto simp: NodePublishVolume_def checked_then_locked_early)
  next
    case False
    with assms(2) have "pub_TargetPath req' = ''''" by (simp add: malformed_publish_def)
    from publish_checks_no_target [OF this False, of ns "wld s"] False show ?thesis
      by (auto simp: NodePublishVolume_def checked_then_locked_early)
  qed
qed

definition empty_stage_req :: NodeStageVolumeRequest where
  "empty_stage_req = \<lparr>stg_VolumeId = ''vol'', stg_StagingTargetPath = ''/s'',
     stg_VolumeCapability = None, stg_PublishContext = Map.empty, stg_Secrets = Map.empty,
     stg_VolumeContext = Map.empty\<rparr>"

definition empty_publish_req :: NodePublishVolumeRequest where
  "empty_publish_req = \<lparr>pub_VolumeId = ''vol'', pub_StagingTargetPath = ''/s'', pub_TargetPath = '''',
     pub_VolumeCapability = Some block_cap, pub_Readonly = False\<rparr>"

theorem malformed_requests_no_effect_witness:
  "(\<exists>m. run_state (NodeStageVolume demo_server empty_stage_req) demo_state
      = (fail InvalidArgument m, demo_state)) \<and>
   (\<exists>m. run_state (NodePublishVolume demo_server empty_publish_req) demo_state
      = (fail FailedPrecondition m, demo_state\<lparr>wld := demo_world\<lparr>calls := 1\<rparr>\<rparr>))"
proof -
  have 1: "malformed_stage empty_stage_req" by (simp add: malformed_stage_def empty_stage_req_def)
  have 2: "malformed_publish empty_publish_req" by (simp add: malformed_publish_def empty_publish_req_def)
  have 3: "\<not> rejected_publish empty_publish_req"
    by (simp add: rejected_publish_def empty_publish_req_def validateVolumeCapability_def
        validateAccessMode_def block_cap_def GetMount_def GetBlock_def)
  have 4: "Validate (manager demo_server) = None" by (simp add: demo_server_def demo_manager_def)
  show ?thesis
    using malformed_requests_no_effect [OF 1 2, of demo_server demo_state] 3 4
    by (auto simp: demo_state_def demo_world_def)
qed

section \<open>NodePublishVolume\<close>

lemma publish_checks_None:
  assumes "run_state (publish_checks ns req) w = (None, w')"
  shows "\<exists>i. st_get True (pub_TargetPath req) (store w') = Inr i \<and> kind i = Directory"
  using assms os_Stat_Inr [of "pub_TargetPath req"]
  by (fastforce simp: publish_checks_def IsDir_iff split: if_splits option.splits prod.splits sum.splits)

lemma publish_block_fails:
  assumes "st_get True (pub_TargetPath req) (store w) = Inr i"
  shows "\<not> succeeded (fst (run_state (publish_block ns req) w))"
proof -
  obtain r w1 where g: "run_state (GetDeviceFromPath (pub_StagingTargetPath req)) w = (r, w1)"
    by fastforce
  have "store w1 = store w"
    using same_storeD [OF GetDeviceFromPath_ro g] by simp
  with assms have st: "st_get True (pub_TargetPath req) (store w1) = Inr i" by simp
  show ?thesis
  proof (cases r)
    case (Inr dev)
    obtain e w2 where "run_state (os_Symlink dev (pub_TargetPath req)) w1 = (Some e, w2)"
      using os_Symlink_existing [OF st] by blast
    with g Inr show ?thesis by (simp add: publish_block_def)
  qed (use g in \<open>simp add: publish_block_def\<close>)
qed

text \<open>
  C3. Publishing a volume with block access never succeeds, whatever the state, the manager and the
  mounter: the handler requires the target path to be an existing directory and then creates a
  symbolic link at the same path, which the file system refuses.
\<close>

theorem publish_block_never_succeeds:
  assumes "access_of (pub_VolumeCapability req) = Some (AccessBlock b)"
  shows "\<not> succeeded (fst (run_state (NodePublishVolume ns req) s))"
proof -
  obtain r s' where run: "run_state (NodePublishVolume ns req) s = (r, s')" by fastforce
  from run have "run_state (checked_then_locked (publish_checks ns req) (pub_VolumeId req)
      (publish_body ns req)) s = (r, s')"
    by (simp add: NodePublishVolume_def)
  then show ?thesis
  proof (cases rule: checked_then_locked_cases)
    case early
    then have "\<exists>c m. r = fail c m"
      by (auto simp: publish_checks_def invalid_capability_def
          split: if_splits option.splits prod.splits sum.splits)
    with run show ?thesis by auto
  next
    case busy
    with run show ?thesis by simp
  next
    case (ran w w')
    from publish_checks_None [OF ran(1)] obtain i where
      "st_get True (pub_TargetPath req) (store w) = Inr i" by blast
    from publish_block_fails [OF this, of ns] ran assms run show ?thesis
      by (simp add: publish_body_def)
  qed
qed

definition block_publish_req :: NodePublishVolumeRequest where
  "block_publish_req = \<lparr>pub_VolumeId = ''vol'', pub_StagingTargetPath = ''/s'', pub_TargetPath = ''/t'',
     pub_VolumeCapability = Some block_cap, pub_Readonly = False\<rparr>"

theorem publish_block_never_succeeds_witness:
  "\<not> succeeded (fst (run_state (NodePublishVolume demo_server block_publish_req) demo_state))"
  by (rule publish_block_never_succeeds)
    (simp add: access_of_def block_publish_req_def block_cap_def)

lemma publish_mounted:
  assumes "access_of (pub_VolumeCapability req) = Some (AccessMount m)"
    and "pub_VolumeId req \<notin> locks (volumeLocks s)"
    and "run_state (publish_checks ns req) (wld s) = (None, w1)"
    and "run_state (IsLikelyNotMountPoint (mounter ns) (pub_TargetPath req)) w1 = (Inr False, w2)"
  shows "run_state (NodePublishVolume ns req) s = (answer (), s\<lparr>wld := w2\<rparr>)"
proof -
  have "run_state (publish_body ns req) w1 = (answer (), w2)"
    using assms(1,4) by (simp add: publish_body_def publish_mount_def isVolumePathMounted_def)
  with checked_then_locked_free [OF assms(2,3)] show ?thesis
    by (simp add: NodePublishVolume_def)
qed

text \<open>
  C29. A target path that is a mount point already is answered with success whatever is mounted there: two
  publish requests for the same target, which may differ in the volume, the staging path, the read-only flag
  and the capability, both succeed, and neither mounts anything. The specification asks for ALREADY_EXISTS when
  the request is not compatible with the published volume.
\<close>

theorem mounted_target_not_compared:
  assumes "pub_TargetPath req' = pub_TargetPath req"
    and "\<forall>q \<in> {req, req'}. (\<exists>m. access_of (pub_VolumeCapability q) = Some (AccessMount m)) \<and>
      pub_VolumeId q \<notin> locks (volumeLocks s) \<and> run_state (publish_checks ns q) (wld s) = (None, w1)"
    and "run_state (IsLikelyNotMountPoint (mounter ns) (pub_TargetPath req)) w1 = (Inr False, w2)"
  shows "run_state (NodePublishVolume ns req) s = (answer (), s\<lparr>wld := w2\<rparr>) \<and>
    run_state (NodePublishVolume ns req') s = (answer (), s\<lparr>wld := w2\<rparr>)"
  using assms publish_mounted [of req _ s ns w1 w2] publish_mounted [of req' _ s ns w1 w2] by auto

definition mounted_server :: "unit Server" where
  "mounted_server = demo_server\<lparr>mounter := demo_mounter\<lparr>IsLikelyNotMountPoint := (\<lambda>_. ret (Inr False))\<rparr>\<rparr>"

definition mount_publish_req :: NodePublishVolumeRequest where
  "mount_publish_req = block_publish_req\<lparr>pub_VolumeCapability := Some mount_cap\<rparr>"

definition demo_world1 :: "unit world" where
  "demo_world1 = demo_world\<lparr>calls := 1\<rparr>"

text \<open>The other request: another volume, read-write instead of read-only, with other flags.\<close>

definition other_publish_req :: NodePublishVolumeRequest where
  "other_publish_req = \<lparr>pub_VolumeId = ''other'', pub_StagingTargetPath = ''/x'', pub_TargetPath = ''/t'',
     pub_VolumeCapability = Some \<lparr>AccessMode = Some MULTI_NODE_MULTI_WRITER,
       AccessType = Some (AccessMount (Some \<lparr>FsType = ''ext4'', MountFlags = []\<rparr>))\<rparr>, pub_Readonly = True\<rparr>"

lemma demo_publish_checks:
  "run_state (publish_checks mounted_server mount_publish_req) demo_world = (None, demo_world1)"
  "run_state (publish_checks mounted_server other_publish_req) demo_world = (None, demo_world1)"
  by (simp_all add: publish_checks_def mount_publish_req_def other_publish_req_def block_publish_req_def
      mounted_server_def demo_defs demo_world1_def validateVolumeCapability_def validateAccessMode_def
      GetMount_def GetBlock_def run_validate_def os_Stat_def sys_read_def lift_err_def st_get_def namei_def
      resolve.simps(2) lookup_def IsDir_iff max_links_def)

theorem mounted_target_not_compared_witness:
  "run_state (NodePublishVolume mounted_server mount_publish_req) demo_state =
      (answer (), demo_state\<lparr>wld := demo_world1\<rparr>) \<and>
    run_state (NodePublishVolume mounted_server other_publish_req) demo_state =
      (answer (), demo_state\<lparr>wld := demo_world1\<rparr>)"
proof (rule mounted_target_not_compared)
  show "pub_TargetPath other_publish_req = pub_TargetPath mount_publish_req"
    by (simp add: other_publish_req_def mount_publish_req_def block_publish_req_def)
  show "\<forall>q \<in> {mount_publish_req, other_publish_req}.
      (\<exists>m. access_of (pub_VolumeCapability q) = Some (AccessMount m)) \<and>
      pub_VolumeId q \<notin> locks (volumeLocks demo_state) \<and>
      run_state (publish_checks mounted_server q) (wld demo_state) = (None, demo_world1)"
    using demo_publish_checks
    by (simp add: access_of_def mount_publish_req_def other_publish_req_def mount_cap_def demo_state_def
        NewVolumeLocks_def)
  show "run_state (IsLikelyNotMountPoint (mounter mounted_server) (pub_TargetPath mount_publish_req))
      demo_world1 = (Inr False, demo_world1)"
    by (simp add: mounted_server_def)
qed

section \<open>NodeStageVolume\<close>

lemma stage_checks_None:
  assumes "run_state (stage_checks ns req) w = (None, w')"
  shows "\<exists>i. st_get True (stg_StagingTargetPath req) (store w') = Inr i \<and> kind i = Directory"
  using assms os_Stat_Inr [of "stg_StagingTargetPath req"]
  by (fastforce simp: stage_checks_def IsDir_iff split: if_splits option.splits prod.splits sum.splits)

lemma stage_checks_no_response:
  "run_state (stage_checks ns req) w = (Some r, w') \<Longrightarrow> fst r = None"
  by (auto simp: stage_checks_def invalid_capability_def status_or_def
      split: if_splits option.splits prod.splits sum.splits)

lemma os_Symlink_None:
  "run_state (os_Symlink old new) w = (None, w') \<Longrightarrow> st_get False new (store w) = Inl ENOENT"
  by (auto simp: os_Symlink_def sys_write_def st_symlink_def st_create_def st_get_def Let_def
      split: option.splits sum.splits if_splits)

text \<open>
  C4. Staging a volume with block access returns a response only if the manager's own \<open>AttachBlock\<close> has made
  the staging path vanish: the handler requires the staging path to be an existing directory, calls
  \<open>AttachBlock\<close>, and then creates a symbolic link at the same path, which the file system refuses while
  anything is there. With a manager that leaves the path alone the call never succeeds.
\<close>

theorem stage_block_needs_removal:
  assumes "stg_VolumeCapability req = Some vc" and "AccessType vc = Some (AccessBlock b)"
    and "run_state (NodeStageVolume ns req) s = (r, s')" and "fst r \<noteq> None"
  shows "\<exists>AttachBlock DetachBlock w w1 i dev. Block (manager ns) = Some (AttachBlock, DetachBlock) \<and>
    run_state (stage_checks ns req) (wld s) = (None, w) \<and>
    st_get True (stg_StagingTargetPath req) (store w) = Inr i \<and> kind i = Directory \<and>
    run_state (AttachBlock (stg_VolumeContext req) (stg_PublishContext req) (stg_Secrets req)) w =
      (Inr dev, w1) \<and>
    st_get False (stg_StagingTargetPath req) (store w1) = Inl ENOENT"
proof -
  from assms(3) have "run_state (checked_then_locked (stage_checks ns req) (stg_VolumeId req)
      (stage_body ns req)) s = (r, s')"
    by (simp add: NodeStageVolume_def)
  then show ?thesis
  proof (cases rule: checked_then_locked_cases)
    case early
    then show ?thesis
      using stage_checks_no_response [of ns req "wld s" r] assms(4)
      by (cases "run_state (stage_checks ns req) (wld s)") auto
  next
    case busy
    with assms(4) show ?thesis by simp
  next
    case (ran w w')
    from stage_checks_None [OF ran(1)] obtain i where
      st: "st_get True (stg_StagingTargetPath req) (store w) = Inr i" "kind i = Directory" by blast
    obtain a w1 where att: "run_state (stage_attach ns req) w = (a, w1)" by fastforce
    obtain dev where a: "a = Inr dev"
      using ran(3) att assms(4) by (cases a) (auto simp: stage_body_def status_or_def split: prod.splits if_splits)
    with ran(3) att assms(1,2) have blk: "run_state (stage_block req dev) w1 = (r, w')"
      by (simp add: stage_body_def)
    with assms(4) have ne: "dev \<noteq> ''''" by (auto simp: stage_block_def)
    then obtain ops where "Block (manager ns) = Some ops"
      using att a by (cases "Block (manager ns)") (auto simp: stage_attach_def)
    then obtain at det where ops: "Block (manager ns) = Some (at, det)" by (cases ops) auto
    have "st_get False (stg_StagingTargetPath req) (store w1) = Inl ENOENT"
      using blk assms(4) ne
      by (auto simp: stage_block_def intro!: os_Symlink_None split: prod.splits option.splits)
    with ops ran(1) st att a show ?thesis by (auto simp: stage_attach_def)
  qed
qed

definition block_stage_req :: NodeStageVolumeRequest where
  "block_stage_req = empty_stage_req\<lparr>stg_VolumeCapability := Some block_cap\<rparr>"

text \<open>A manager that removes the staging directory itself, and with it a staging that succeeds.\<close>

definition removing_server :: "unit Server" where
  "removing_server = demo_server\<lparr>manager := demo_manager\<lparr>Block := Some
     ((\<lambda>_ _ _. do { _ \<leftarrow> os_Remove ''/s''; ret (Inr ''/dev/sdb'') }), (\<lambda>_. ret None))\<rparr>\<rparr>"

lemma removing_stage:
  "\<exists>s'. run_state (NodeStageVolume removing_server block_stage_req) demo_state = (answer (), s')"
proof -
  have free: "stg_VolumeId block_stage_req \<notin> locks (volumeLocks demo_state)"
    by (simp add: demo_state_def NewVolumeLocks_def)
  have checks: "run_state (stage_checks removing_server block_stage_req) (wld demo_state) =
      (None, demo_world1)"
    by (simp add: stage_checks_def block_stage_req_def empty_stage_req_def removing_server_def
      demo_defs demo_world1_def validateVolumeCapability_def validateAccessMode_def
      GetMount_def GetBlock_def run_validate_def os_Stat_def sys_read_def lift_err_def st_get_def namei_def
      resolve.simps(2) lookup_def IsDir_iff max_links_def)
  obtain w' where "run_state (stage_body removing_server block_stage_req) demo_world1 = (answer (), w')"
    by (simp add: stage_body_def stage_attach_def stage_block_def block_stage_req_def empty_stage_req_def
      removing_server_def demo_defs demo_world1_def os_Remove_def os_Symlink_def sys_write_def st_unlink_def
      st_rmdir_def rmdir_at_def st_symlink_def st_create_def st_get_def namei_def has_entries_def
      resolve.simps(2) lookup_def max_links_def store_del_def store_put_def)
  from checked_then_locked_free [OF free checks this] show ?thesis
    by (auto simp: NodeStageVolume_def)
qed

theorem stage_block_needs_removal_witness:
  "\<exists>AttachBlock DetachBlock w w1 i dev.
    Block (manager removing_server) = Some (AttachBlock, DetachBlock) \<and>
    run_state (stage_checks removing_server block_stage_req) (wld demo_state) = (None, w) \<and>
    st_get True ''/s'' (store w) = Inr i \<and> kind i = Directory \<and>
    run_state (AttachBlock Map.empty Map.empty Map.empty) w = (Inr dev, w1) \<and>
    st_get False ''/s'' (store w1) = Inl ENOENT"
proof -
  obtain s' where run: "run_state (NodeStageVolume removing_server block_stage_req) demo_state =
      (answer (), s')"
    using removing_stage by blast
  have 1: "stg_VolumeCapability block_stage_req = Some block_cap" by (simp add: block_stage_req_def)
  have 2: "AccessType block_cap = Some (AccessBlock (Some ()))" by (simp add: block_cap_def)
  have 3: "fst (answer ()) \<noteq> None" by (simp add: answer_def)
  from stage_block_needs_removal [OF 1 2 run 3] show ?thesis
    by (simp add: block_stage_req_def empty_stage_req_def)
qed

text \<open>
  C30. The options a staged file system is mounted with: the request's mount flags, \<open>nouuid\<close> for xfs,
  \<open>ro\<close> for a read-only access mode and the manager's options, and no others; the sensitive options
  are exactly the manager's that are not among the first three. The file system type is the request's, else
  the manager's, else the platform's default. All of it reaches the mounter in one call, with the manager's
  source and the staging path; only a manager that asks for formatting gets its own type instead.
\<close>

theorem stage_mount_options:
  assumes "slice_laws (library ns)"
  shows "\<exists>opts sens.
    (let asked = (case GetMount vc of Some mnt \<Rightarrow> FsType mnt | None \<Rightarrow> '''');
         fs = (if asked \<noteq> '''' then asked else if mr_Fstype m \<noteq> '''' then mr_Fstype m
               else defaultFsType (platform ns));
         base = (case GetMount vc of Some mnt \<Rightarrow> set (MountFlags mnt) | None \<Rightarrow> {}) \<union>
           (if fs = ''xfs'' then {''nouuid''} else {}) \<union>
           (if AccessMode vc \<in> {Some MULTI_NODE_READER_ONLY, Some SINGLE_NODE_READER_ONLY}
            then {''ro''} else {})
     in set opts = base \<union> set (mr_Options m) \<and> set sens = set (mr_SensitiveOptions m) - base \<and>
        run_state (stage_do_mount ns vc path m) w =
          (if mr_Format m then
             map_prod (map_option (\<lambda>err. fail Internal (''fail to format and mount: '' @ error_text err))) id
               (run_state (FormatAndMountSensitive (mounter ns) (mr_Source m) path (mr_Fstype m) opts sens) w)
           else
             map_prod (map_option (\<lambda>err. fail Internal
                 (''fail to mount '' @ quoted path @ '': '' @ error_text err))) id
               (run_state (MountSensitive (mounter ns) (mr_Source m) path fs opts sens) w)))"
proof -
  let ?fs = "mount_fs_type (platform ns) vc m" and ?mo = "mount_options ns vc m"
  let ?opts = "slice_Union (library ns) ?mo (mr_Options m)"
  let ?sens = "slice_Difference (library ns) (mr_SensitiveOptions m) ?mo"
  have fs: "(let asked = (case GetMount vc of Some mnt \<Rightarrow> FsType mnt | None \<Rightarrow> '''')
      in if asked \<noteq> '''' then asked else if mr_Fstype m \<noteq> '''' then mr_Fstype m
         else defaultFsType (platform ns)) = ?fs"
    by (simp add: mount_fs_type_def requested_fs_type_def Let_def split: option.split)
  have base: "set ?mo = (case GetMount vc of Some mnt \<Rightarrow> set (MountFlags mnt) | None \<Rightarrow> {}) \<union>
      (if ?fs = ''xfs'' then {''nouuid''} else {}) \<union>
      (if AccessMode vc \<in> {Some MULTI_NODE_READER_ONLY, Some SINGLE_NODE_READER_ONLY} then {''ro''} else {})"
    using assms
    by (auto simp: mount_options_def slice_laws_def Let_def Readonly_def fsTypeXFS_def split: option.splits)
  have "set ?opts = set ?mo \<union> set (mr_Options m)" "set ?sens = set (mr_SensitiveOptions m) - set ?mo"
    using assms by (simp_all add: slice_laws_def)
  moreover have "run_state (stage_do_mount ns vc path m) w =
      (if mr_Format m then
         map_prod (map_option (\<lambda>err. fail Internal (''fail to format and mount: '' @ error_text err))) id
           (run_state (FormatAndMountSensitive (mounter ns) (mr_Source m) path (mr_Fstype m) ?opts ?sens) w)
       else
         map_prod (map_option (\<lambda>err. fail Internal
             (''fail to mount '' @ quoted path @ '': '' @ error_text err))) id
           (run_state (MountSensitive (mounter ns) (mr_Source m) path ?fs ?opts ?sens) w))"
    by (simp add: stage_do_mount_def Let_def case_prod_beta map_prod_def)
  ultimately show ?thesis
    unfolding base [symmetric] Let_def fs [unfolded Let_def]
    by (intro exI [of _ ?opts] exI [of _ ?sens] conjI)
qed

definition demo_response :: MountResponse where
  "demo_response = \<lparr>mr_Source = ''/dev/sdb'', mr_Fstype = '''', mr_Options = [''discard''],
     mr_SensitiveOptions = [''ro'', ''key=1''], mr_Format = False\<rparr>"

theorem stage_mount_options_witness:
  "\<exists>opts sens. set opts = {''noatime'', ''nouuid'', ''ro'', ''discard''} \<and> set sens = {''key=1''} \<and>
    run_state (stage_do_mount demo_server mount_cap ''/s'' demo_response) demo_world =
      map_prod (map_option (\<lambda>err. fail Internal
          (''fail to mount '' @ quoted ''/s'' @ '': '' @ error_text err))) id
        (run_state (MountSensitive (mounter demo_server) ''/dev/sdb'' ''/s'' ''xfs'' opts sens) demo_world)"
proof -
  have "slice_laws (library demo_server)" by (simp add: demo_server_def demo_lib_laws)
  from stage_mount_options [OF this, of mount_cap demo_response "''/s''" demo_world] show ?thesis
    by (simp add: mount_cap_def GetMount_def demo_response_def Let_def insert_commute insert_Diff_if)
qed

text \<open>
  When the manager asks for formatting, the file system type handed to the mounter is the one the
  manager answered, even an empty one: neither the request's type nor the platform's default, which
  the code has computed by then, is used.
\<close>

theorem format_ignores_requested_type:
  assumes "mr_Format m"
  shows "\<exists>opts sens. run_state (stage_do_mount ns vc path m) w =
    map_prod (map_option (\<lambda>err. fail Internal (''fail to format and mount: '' @ error_text err))) id
      (run_state (FormatAndMountSensitive (mounter ns) (mr_Source m) path (mr_Fstype m) opts sens) w)"
  using assms by (auto simp: stage_do_mount_def Let_def case_prod_beta map_prod_def)

theorem format_ignores_requested_type_witness:
  "mount_fs_type Linux mount_cap (demo_response\<lparr>mr_Format := True\<rparr>) = ''xfs'' \<and>
   (\<exists>opts sens. run_state (stage_do_mount demo_server mount_cap ''/s'' (demo_response\<lparr>mr_Format := True\<rparr>))
       demo_world =
     map_prod (map_option (\<lambda>err. fail Internal (''fail to format and mount: '' @ error_text err))) id
      (run_state (FormatAndMountSensitive (mounter demo_server)
        (mr_Source (demo_response\<lparr>mr_Format := True\<rparr>)) ''/s'' '''' opts sens) demo_world))"
proof -
  have "mr_Format (demo_response\<lparr>mr_Format := True\<rparr>)" by simp
  from format_ignores_requested_type [OF this, of demo_server mount_cap "''/s''" demo_world]
  have "\<exists>opts sens. run_state (stage_do_mount demo_server mount_cap ''/s''
       (demo_response\<lparr>mr_Format := True\<rparr>)) demo_world =
     map_prod (map_option (\<lambda>err. fail Internal (''fail to format and mount: '' @ error_text err))) id
      (run_state (FormatAndMountSensitive (mounter demo_server)
        (mr_Source (demo_response\<lparr>mr_Format := True\<rparr>)) ''/s'' '''' opts sens) demo_world)"
    by (simp add: demo_response_def)
  then show ?thesis
    by (simp add: mount_fs_type_def mount_cap_def GetMount_def demo_response_def Let_def)
qed

lemma status_or_not_answer: "status_or lib err (fail c m) \<noteq> answer r"
  by (auto simp: status_or_def answer_def fail_def split: prod.splits)

lemma stage_do_mount_no_answer:
  "run_state (stage_do_mount ns vc p m) w = (Some r, w') \<Longrightarrow> r \<noteq> answer x"
  by (auto simp: stage_do_mount_def Let_def split: if_splits prod.splits)

lemma stage_mount_part_no_answer:
  assumes "run_state (stage_mount_part ns req vc) w = (Inl r, w')"
  shows "r \<noteq> answer x"
proof (cases "MountI (manager ns)")
  case (Some mm)
  obtain q w1 where "run_state (mm (stg_StagingTargetPath req) (requested_fs_type (platform ns) vc)
      (stg_VolumeContext req) (stg_PublishContext req) (stg_Secrets req)) w = (q, w1)"
    by fastforce
  with assms Some show ?thesis
    using stage_do_mount_no_answer [of ns vc "stg_StagingTargetPath req" _ w1 r w' x]
      status_or_not_answer [of "library ns" _ Internal _ x]
    by (auto simp: stage_mount_part_def split: sum.splits option.splits prod.splits)
qed (use assms in \<open>simp add: stage_mount_part_def\<close>)

lemma stage_populate_part_no_answer:
  "run_state (stage_populate_part ns req b) w = (Inl r, w') \<Longrightarrow> r \<noteq> answer x"
  using status_or_not_answer [of "library ns" _ Internal _ x]
  by (auto simp: stage_populate_part_def split: option.splits prod.splits)

lemma stage_mount_answer:
  assumes "run_state (stage_mount ns req vc) w = (answer x, w')"
  shows "\<exists>b w1. run_state (stage_mount_part ns req vc) w = (Inr b, w1) \<and>
    run_state (stage_populate_part ns req b) w1 = (Inr True, w')"
proof -
  obtain m w1 where m: "run_state (stage_mount_part ns req vc) w = (m, w1)" by fastforce
  with assms stage_mount_part_no_answer [of ns req vc w _ w1 x] obtain b where b: "m = Inr b"
    by (cases m) (auto simp: stage_mount_def)
  obtain p w2 where p: "run_state (stage_populate_part ns req b) w1 = (p, w2)" by fastforce
  with assms m b stage_populate_part_no_answer [of ns req b w1 _ w2 x] have "p = Inr True \<and> w2 = w'"
    by (cases p) (auto simp: stage_mount_def split: if_splits)
  with m b p show ?thesis by blast
qed

text \<open>
  A mount volume is reported as staged only when something was provisioned: the manager answered a
  mount response and the mounter mounted it without an error, or the manager populated the path
  without an error.
\<close>

theorem stage_mount_success:
  assumes "run_state (stage_mount ns req vc) w = (answer (), w')"
  shows "(\<exists>mm m w1 w2. MountI (manager ns) = Some mm \<and>
      run_state (mm (stg_StagingTargetPath req) (requested_fs_type (platform ns) vc)
        (stg_VolumeContext req) (stg_PublishContext req) (stg_Secrets req)) w = (Inr (Some m), w1) \<and>
      run_state (stage_do_mount ns vc (stg_StagingTargetPath req) m) w1 = (None, w2)) \<or>
    (\<exists>mm w1. Populate (manager ns) = Some mm \<and>
      run_state (mm (stg_StagingTargetPath req) (stg_VolumeContext req) (stg_PublishContext req)
        (stg_Secrets req)) w1 = (None, w'))"
proof -
  from stage_mount_answer [OF assms] obtain b w1 where
    m: "run_state (stage_mount_part ns req vc) w = (Inr b, w1)"
    and p: "run_state (stage_populate_part ns req b) w1 = (Inr True, w')" by blast
  show ?thesis
  proof (cases "Populate (manager ns)")
    case (Some mm)
    with p have "run_state (mm (stg_StagingTargetPath req) (stg_VolumeContext req)
        (stg_PublishContext req) (stg_Secrets req)) w1 = (None, w')"
      by (auto simp: stage_populate_part_def split: prod.splits option.splits)
    with Some show ?thesis by blast
  next
    case None
    with p have b: b by (simp add: stage_populate_part_def)
    with m show ?thesis
      by (auto simp: stage_mount_part_def split: prod.splits sum.splits option.splits)
  qed
qed

definition populate_server :: "unit Server" where
  "populate_server = demo_server\<lparr>manager := demo_manager\<lparr>Populate := Some (\<lambda>_ _ _ _. ret None)\<rparr>\<rparr>"

theorem stage_mount_success_witness:
  "(\<exists>mm m w1 w2. MountI (manager populate_server) = Some mm \<and>
      run_state (mm (stg_StagingTargetPath empty_stage_req)
        (requested_fs_type (platform populate_server) mount_cap) (stg_VolumeContext empty_stage_req)
        (stg_PublishContext empty_stage_req) (stg_Secrets empty_stage_req)) demo_world =
        (Inr (Some m), w1) \<and>
      run_state (stage_do_mount populate_server mount_cap (stg_StagingTargetPath empty_stage_req) m)
        w1 = (None, w2)) \<or>
    (\<exists>mm w1. Populate (manager populate_server) = Some mm \<and>
      run_state (mm (stg_StagingTargetPath empty_stage_req) (stg_VolumeContext empty_stage_req)
        (stg_PublishContext empty_stage_req) (stg_Secrets empty_stage_req)) w1 = (None, demo_world))"
  by (rule stage_mount_success)
    (simp add: stage_mount_def stage_mount_part_def stage_populate_part_def populate_server_def
      demo_server_def demo_manager_def)

section \<open>NodeUnstageVolume\<close>

text \<open>
  C33. Unstaging a path that is recognised as a device removes the path and touches neither the
  mounter nor the manager: \<open>DetachBlock\<close> is not called for it.
\<close>

theorem unstage_device_not_detached:
  assumes "run_state (GetDeviceFromPath (ust_StagingTargetPath req)) w = (Inr d, w1)" and "d \<noteq> ''''"
    and "run_state (unstage_body ns req) w = (r, w')"
  shows "ext w' = ext w \<and>
    run_state (unstage_body ns req) w =
      map_prod (\<lambda>e. case e of Some err \<Rightarrow> fail_err err | None \<Rightarrow> answer ()) id
        (run_state (os_Remove (ust_StagingTargetPath req)) w1)"
proof -
  have eq: "run_state (unstage_body ns req) w =
      map_prod (\<lambda>e. case e of Some err \<Rightarrow> fail_err err | None \<Rightarrow> answer ()) id
        (run_state (os_Remove (ust_StagingTargetPath req)) w1)"
    using assms(1,2) by (simp add: unstage_body_def case_prod_beta map_prod_def)
  obtain e w2 where rem: "run_state (os_Remove (ust_StagingTargetPath req)) w1 = (e, w2)" by fastforce
  have "ext w2 = ext w1" using same_envD [OF os_Remove_env rem] by simp
  moreover have "ext w1 = ext w" using same_storeD [OF GetDeviceFromPath_ro assms(1)] by simp
  moreover have "w' = w2" using eq rem assms(3) by simp
  ultimately show ?thesis using eq by simp
qed

definition bare_device :: inode where
  "bare_device = \<lparr>kind = BlockDevice, perm = 0, uid = 0, gid = 0\<rparr>"

definition staged_block_world :: "inode \<Rightarrow> unit world" where
  "staged_block_world dev =
     demo_world\<lparr>store := [([''d''], dev), ([''s''], plain_dir\<lparr>kind := Symlink ''/d''\<rparr>)]\<rparr>"

definition unstage_req :: NodeUnstageVolumeRequest where
  "unstage_req = \<lparr>ust_VolumeId = ''vol'', ust_StagingTargetPath = ''/s''\<rparr>"

lemmas fs_eval = os_Stat_def os_Lstat_def os_Readlink_def sys_read_def lift_err_def st_get_def namei_def
  resolve.simps(2) lookup_def max_links_def link_base_def IsAbs_def

lemmas walk_s = walkSymlinks.simps [of 255 "Suc 0" "''/''" "''s''"]
  walkSymlinks.simps [of 254 "Suc 0" "''/''" "''d''"] walkSymlinks.simps [of 254 "Suc 0" "''/d''" "''''"]

lemma eval_s:
  "run_state (EvalSymlinks ''/s'') ((staged_block_world dev)\<lparr>calls := n\<rparr>) =
    (Inr ''/d'', (staged_block_world dev)\<lparr>calls := n + 3\<rparr>)"
  if "kind dev = BlockDevice"
  using that
  by (simp add: EvalSymlinks_def walk_s Let_def walk_into_def walk_link_def is_symlink_def fs_eval Clean_def
      clean_comps.simps
      staged_block_world_def demo_world_def plain_dir_def)

lemma stat_d:
  "run_state (os_Stat ''/d'') ((staged_block_world dev)\<lparr>calls := n\<rparr>) =
    (Inr dev, (staged_block_world dev)\<lparr>calls := n + 1\<rparr>)"
  if "kind dev = BlockDevice"
  using that by (simp add: fs_eval staged_block_world_def demo_world_def)

lemma staged_block_calls: "(staged_block_world dev)\<lparr>calls := 0\<rparr> = staged_block_world dev"
  by (simp add: staged_block_world_def demo_world_def)

theorem unstage_device_not_detached_witness:
  "\<exists>r w'. ext w' = ext (staged_block_world bare_device) \<and>
    run_state (unstage_body demo_server unstage_req) (staged_block_world bare_device) = (r, w')"
proof -
  have d: "run_state (GetDeviceFromPath (ust_StagingTargetPath unstage_req))
      (staged_block_world bare_device) = (Inr ''/d'', (staged_block_world bare_device)\<lparr>calls := 4\<rparr>)"
    using eval_s [of bare_device 0] stat_d [of bare_device 3]
    by (simp add: staged_block_calls GetDeviceFromPath_def unstage_req_def bare_device_def Mode_eq_ModeDevice)
  obtain r w' where run: "run_state (unstage_body demo_server unstage_req)
      (staged_block_world bare_device) = (r, w')" by fastforce
  have ne: "''/d'' \<noteq> ''''" by simp
  from unstage_device_not_detached [OF d ne run] run show ?thesis by blast
qed

text \<open>
  A staging path that leads to a block device with any permission bit set is not recognised as a
  device: the handler removes the path as if it had been populated and calls \<open>DetachBlock\<close> with the
  empty path.
\<close>

theorem unstage_device_detach_empty:
  assumes "run_state (EvalSymlinks (ust_StagingTargetPath req)) w = (Inr d, w1)"
    and "run_state (os_Stat d) w1 = (Inr i, w2)" and "kind i = BlockDevice"
    and "perm i AND 0x1FF \<noteq> 0"
    and "run_state (GetDeviceFromMount (mounter ns) (ust_StagingTargetPath req)) w2 = (Inr '''', w3)"
    and "run_state (os_RemoveAll (ust_StagingTargetPath req)) w3 = (None, w4)"
    and "Block (manager ns) = Some (AttachBlock, DetachBlock)"
  shows "run_state (unstage_body ns req) w =
    map_prod (\<lambda>e. case e of Some err \<Rightarrow> fail_err err | None \<Rightarrow> answer ()) id
      (run_state (DetachBlock '''') w4)"
proof -
  have "run_state (GetDeviceFromPath (ust_StagingTargetPath req)) w = (Inr '''', w2)"
    using assms(1,2,4) by (simp add: GetDeviceFromPath_def Mode_eq_ModeDevice)
  with assms(5-7) show ?thesis
    by (simp add: unstage_body_def unstage_detach_def case_prod_beta map_prod_def)
qed

definition usual_device :: inode where
  "usual_device = bare_device\<lparr>perm := 0x1B0\<rparr>"

theorem unstage_device_detach_empty_witness:
  "run_state (unstage_body demo_server unstage_req) (staged_block_world usual_device) =
    map_prod (\<lambda>e. case e of Some err \<Rightarrow> fail_err err | None \<Rightarrow> answer ()) id
      (run_state (snd (the (Block (manager demo_server))) '''')
        ((staged_block_world usual_device)\<lparr>calls := 8, store := [([''d''], usual_device)]\<rparr>))"
proof (rule unstage_device_detach_empty)
  let ?w = "staged_block_world usual_device"
  have k: "kind usual_device = BlockDevice" by (simp add: usual_device_def bare_device_def)
  show "run_state (EvalSymlinks (ust_StagingTargetPath unstage_req)) ?w = (Inr ''/d'', ?w\<lparr>calls := 3\<rparr>)"
    using eval_s [OF k, of 0] by (simp add: unstage_req_def staged_block_calls)
  show "run_state (os_Stat ''/d'') (?w\<lparr>calls := 3\<rparr>) = (Inr usual_device, ?w\<lparr>calls := 4\<rparr>)"
    using stat_d [OF k, of 3] by simp
  show "kind usual_device = BlockDevice" by (rule k)
  show "perm usual_device AND 0x1FF \<noteq> 0" by (simp add: usual_device_def bare_device_def)
  show "run_state (GetDeviceFromMount (mounter demo_server) (ust_StagingTargetPath unstage_req))
      (?w\<lparr>calls := 4\<rparr>) = (Inr '''', ?w\<lparr>calls := 7\<rparr>)"
    using eval_s [OF k, of 4]
    by (simp add: GetDeviceFromMount_def unstage_req_def demo_server_def demo_mounter_def)
  show "run_state (os_RemoveAll (ust_StagingTargetPath unstage_req)) (?w\<lparr>calls := 7\<rparr>) =
      (None, ?w\<lparr>calls := 8, store := [([''d''], usual_device)]\<rparr>)"
    by (simp add: os_RemoveAll_def os_Remove_def sys_write_def st_unlink_def ends_with_dot_def
        suffix_def unstage_req_def fs_eval staged_block_world_def demo_world_def plain_dir_def
        store_del_def)
  show "Block (manager demo_server) =
      Some (fst (the (Block (manager demo_server))), snd (the (Block (manager demo_server))))"
    by (simp add: demo_server_def demo_manager_def)
qed

section \<open>NodeUnpublishVolume\<close>

text \<open>
  C32. A successful unpublish has unmounted the target path and left no file, directory or link at it.
\<close>

theorem unpublish_success:
  assumes "run_state (NodeUnpublishVolume ns req) s = (r, s')" and "succeeded r"
  shows "\<exists>w1. run_state (Unmount (mounter ns) (upb_TargetPath req)) (wld s) = (None, w1) \<and>
    st_get False (upb_TargetPath req) (store (wld s')) = Inl ENOENT"
proof -
  from assms(1) have "run_state (checked_then_locked (unpublish_checks req) (upb_VolumeId req)
      (unpublish_body ns req)) s = (r, s')"
    by (simp add: NodeUnpublishVolume_def)
  then show ?thesis
  proof (cases rule: checked_then_locked_cases)
    case early
    with assms(2) show ?thesis by (auto simp: unpublish_checks_def split: if_splits)
  next
    case busy
    with assms(2) show ?thesis by simp
  next
    case (ran w w')
    then have "w = wld s" by (auto simp: unpublish_checks_def split: if_splits)
    with ran assms(2) show ?thesis
      by (auto simp: unpublish_body_def os_Remove_gone split: prod.splits option.splits)
  qed
qed

definition unpublish_req :: NodeUnpublishVolumeRequest where
  "unpublish_req = \<lparr>upb_VolumeId = ''vol'', upb_TargetPath = ''/t''\<rparr>"

lemma demo_unpublish:
  "run_state (NodeUnpublishVolume demo_server unpublish_req) demo_state =
    (answer (), demo_state\<lparr>wld := demo_world\<lparr>calls := 2, store := [([''s''], plain_dir)]\<rparr>\<rparr>)"
  unfolding NodeUnpublishVolume_def
  by (rule checked_then_locked_free [of _ _ _ demo_world])
    (simp_all add: unpublish_checks_def unpublish_body_def unpublish_req_def demo_defs NewVolumeLocks_def
      os_Remove_def sys_write_def st_unlink_def st_rmdir_def rmdir_at_def fs_eval store_del_def
      has_entries_def)

theorem unpublish_success_witness:
  "\<exists>w1. run_state (Unmount (mounter demo_server) ''/t'') demo_world = (None, w1) \<and>
    st_get False ''/t'' [([''s''], plain_dir)] = Inl ENOENT"
proof -
  have "succeeded (answer ())" by simp
  from unpublish_success [OF demo_unpublish this] show ?thesis
    by (simp add: unpublish_req_def demo_state_def)
qed

lemma os_Remove_missing:
  assumes "st_get False path (store w) = Inl e0"
  shows "\<exists>e w'. run_state (os_Remove path) w = (Some (PathError ''remove'' path e), w')"
proof -
  have "\<exists>e. st_unlink path (store w) = Inl e" "\<exists>e. st_rmdir path (store w) = Inl e"
    using assms by (auto simp: st_get_def st_unlink_def st_rmdir_def rmdir_at_def
        split: sum.splits option.splits)
  then show ?thesis
    by (auto simp: os_Remove_def sys_write_def Let_def split: option.splits)
qed

text \<open>
  C31. Unpublishing is not idempotent: when nothing is at the target path after the call of \<open>Unmount\<close>, as after
  a successful unpublish, the answer is an Internal error. If \<open>Unmount\<close> reports an error, the text is that
  error; if not, it shows the failed removal through the verb \<open>%w\<close>, which \<open>status.Errorf\<close> does not know.
\<close>

theorem unpublish_not_idempotent:
  assumes "upb_VolumeId req \<noteq> ''''" and "upb_TargetPath req \<noteq> ''''"
    and "upb_VolumeId req \<notin> locks (volumeLocks s)"
    and "run_state (Unmount (mounter ns) (upb_TargetPath req)) (wld s) = (ue, u)"
    and "st_get False (upb_TargetPath req) (store u) = Inl ENOENT"
  shows "\<exists>m. fst (run_state (NodeUnpublishVolume ns req) s) = fail Internal m \<and>
    (case ue of
       Some err \<Rightarrow> m = ''Unmount failed: '' @ error_text err @ ''\<newline>Unmounting arguments: '' @
         upb_TargetPath req @ ''\<newline>''
     | None \<Rightarrow> \<exists>e. m = ''cleanup failed: %!w(*fs.PathError=&{remove '' @ upb_TargetPath req @ '' '' @
         errno_num e @ ''})'')"
proof -
  obtain e w2 where rem: "run_state (os_Remove (upb_TargetPath req)) u =
      (Some (PathError ''remove'' (upb_TargetPath req) e), w2)"
    using os_Remove_missing [OF assms(5)] by blast
  have checks: "run_state (unpublish_checks req) (wld s) = (None, wld s)"
    using assms(1,2) by (simp add: unpublish_checks_def)
  let ?r = "case ue of
      Some err \<Rightarrow> fail Internal (''Unmount failed: '' @ error_text err @ ''\<newline>Unmounting arguments: '' @
        upb_TargetPath req @ ''\<newline>'')
    | None \<Rightarrow> fail Internal (''cleanup failed: '' @ bad_verb (PathError ''remove'' (upb_TargetPath req) e))"
  obtain w' where "run_state (unpublish_body ns req) (wld s) = (?r, w')"
    using assms(4) rem by (cases ue) (simp_all add: unpublish_body_def)
  from checked_then_locked_free [OF assms(3) checks this] show ?thesis
    by (auto simp: NodeUnpublishVolume_def split: option.splits)
qed

theorem unpublish_not_idempotent_witness:
  "\<exists>e. fst (run_state (NodeUnpublishVolume demo_server unpublish_req)
      (demo_state\<lparr>wld := demo_world\<lparr>calls := 2, store := [([''s''], plain_dir)]\<rparr>\<rparr>)) =
    fail Internal (''cleanup failed: %!w(*fs.PathError=&{remove /t '' @ errno_num e @ ''})'')"
proof -
  let ?w = "demo_world\<lparr>calls := 2, store := [([''s''], plain_dir)]\<rparr>"
  let ?s = "demo_state\<lparr>wld := ?w\<rparr>"
  have "upb_VolumeId unpublish_req \<noteq> ''''" "upb_TargetPath unpublish_req \<noteq> ''''"
    "upb_VolumeId unpublish_req \<notin> locks (volumeLocks ?s)"
    by (simp_all add: unpublish_req_def demo_state_def NewVolumeLocks_def)
  moreover have "run_state (Unmount (mounter demo_server) (upb_TargetPath unpublish_req)) (wld ?s) = (None, ?w)"
    by (simp add: demo_server_def demo_mounter_def)
  moreover have "st_get False (upb_TargetPath unpublish_req) (store ?w) = Inl ENOENT"
    by (simp add: unpublish_req_def st_get_def namei_def resolve.simps(2) lookup_def)
  ultimately have "\<exists>m. fst (run_state (NodeUnpublishVolume demo_server unpublish_req) ?s) = fail Internal m \<and>
      (case None of
         Some err \<Rightarrow> m = ''Unmount failed: '' @ error_text err @ ''\<newline>Unmounting arguments: '' @
           upb_TargetPath unpublish_req @ ''\<newline>''
       | None \<Rightarrow> \<exists>e. m = ''cleanup failed: %!w(*fs.PathError=&{remove '' @ upb_TargetPath unpublish_req @
           '' '' @ errno_num e @ ''})'')"
    by (rule unpublish_not_idempotent)
  then show ?thesis by (auto simp: unpublish_req_def)
qed

section \<open>The stateless calls and the constructor\<close>

text \<open>
  \<open>New\<close> refuses exactly the managers that implement none of \<open>Mount\<close>, \<open>Populate\<close> and \<open>Block\<close>, once
  the safe mounter exists; a server it makes starts with no volume locked and answers \<open>NodeGetInfo\<close>
  with its arguments and without a topology.
\<close>

theorem New_spec:
  "(New os lib (Inr mnt) nID mx mgr = Inl ErrNoImplementation \<longleftrightarrow>
      MountI mgr = None \<and> Populate mgr = None \<and> Block mgr = None) \<and>
   (case New os lib (Inr mnt) nID mx mgr of
      Inl e \<Rightarrow> e = ErrNoImplementation
    | Inr (ns, vl) \<Rightarrow> locks vl = {} \<and> manager ns = mgr \<and>
        NodeGetInfo ns = answer \<lparr>NodeId = nID, MaxVolumesPerNode = mx, AccessibleTopology = None\<rparr>)"
  by (cases "Block mgr") (simp_all add: New_def NodeGetInfo_def NewVolumeLocks_def)

text \<open>
  The server always announces staging. It announces volume expansion when the manager implements
  \<open>Expand\<close>, and yet \<open>NodeExpandVolume\<close> is Unimplemented for every manager.
\<close>

theorem expand_announced_not_served:
  "(\<exists>caps. NodeGetCapabilities ns = answer caps \<and> NodeRPC_STAGE_UNSTAGE_VOLUME \<in> set caps \<and>
      (NodeRPC_EXPAND_VOLUME \<in> set caps \<longleftrightarrow> Expand (manager ns)) \<and> distinct caps) \<and>
   reply_code (NodeExpandVolume ns) = Some Unimplemented"
  by (simp add: NodeGetCapabilities_def NodeExpandVolume_def)

end
