(* ===== verification/NodeConcurrent.thy ===== *)
theory NodeConcurrent
  imports NodeProps
begin

text \<open>
  The node service as gRPC runs it: any number of requests at once, each in its own goroutine, over one
  lock table and one world. A request's checks, its \<open>TryAcquire\<close>, its body and its \<open>Release\<close> are steps
  that steps of other requests may come between. The system keeps the invariant of the lock protocol of
  \<open>VolumeLock\<close>, and its exclusion property follows from that; its traces are those of a specification
  in which every volume has at most one owner.
\<close>

section \<open>Requests\<close>

datatype rpc =
  RPublish NodePublishVolumeRequest
| RStage NodeStageVolumeRequest
| RUnstage NodeUnstageVolumeRequest
| RUnpublish NodeUnpublishVolumeRequest

fun rpc_volume :: "rpc \<Rightarrow> string" where
  "rpc_volume (RPublish q) = pub_VolumeId q"
| "rpc_volume (RStage q) = stg_VolumeId q"
| "rpc_volume (RUnstage q) = ust_VolumeId q"
| "rpc_volume (RUnpublish q) = upb_VolumeId q"

fun rpc_checks :: "'x Server \<Rightarrow> rpc \<Rightarrow> ('x world, unit reply option) state" where
  "rpc_checks ns (RPublish q) = publish_checks ns q"
| "rpc_checks ns (RStage q) = stage_checks ns q"
| "rpc_checks ns (RUnstage q) = unstage_checks q"
| "rpc_checks ns (RUnpublish q) = unpublish_checks q"

fun rpc_body :: "'x Server \<Rightarrow> rpc \<Rightarrow> ('x world, unit reply) state" where
  "rpc_body ns (RPublish q) = publish_body ns q"
| "rpc_body ns (RStage q) = stage_body ns q"
| "rpc_body ns (RUnstage q) = unstage_body ns q"
| "rpc_body ns (RUnpublish q) = unpublish_body ns q"

fun rpc_handle :: "'x Server \<Rightarrow> rpc \<Rightarrow> ('x node_state, unit reply) state" where
  "rpc_handle ns (RPublish q) = NodePublishVolume ns q"
| "rpc_handle ns (RStage q) = NodeStageVolume ns q"
| "rpc_handle ns (RUnstage q) = NodeUnstageVolume ns q"
| "rpc_handle ns (RUnpublish q) = NodeUnpublishVolume ns q"

lemma rpc_handle_eq:
  "rpc_handle ns r = checked_then_locked (rpc_checks ns r) (rpc_volume r) (rpc_body ns r)"
  by (cases r)
    (simp_all add: NodePublishVolume_def NodeStageVolume_def NodeUnstageVolume_def NodeUnpublishVolume_def)

text \<open>
  C5. Every handler leaves the lock table as it found it, on every path: success, each error, a
  refused lock, and whatever the manager, the mounter and the file system do.
\<close>

theorem handlers_release_lock:
  "volumeLocks (snd (run_state (rpc_handle ns r) s)) = volumeLocks s"
  by (simp add: rpc_handle_eq checked_then_locked_balanced)

text \<open>
  While a volume is locked, a request for it does nothing beyond its checks: its reply is the
  checks' error or Aborted, and the body, with every call that mounts, attaches or removes, is not run.
\<close>

theorem busy_volume_aborted:
  assumes "rpc_volume r \<in> locks (volumeLocks s)"
  shows "run_state (rpc_handle ns r) s =
    (case fst (run_state (rpc_checks ns r) (wld s)) of
       Some e \<Rightarrow> e | None \<Rightarrow> fail Aborted (VolumeOperationAlreadyExists (rpc_volume r)),
     s\<lparr>wld := snd (run_state (rpc_checks ns r) (wld s))\<rparr>)"
  by (simp add: rpc_handle_eq checked_then_locked_busy [OF assms])

theorem busy_volume_aborted_witness:
  "fst (run_state (rpc_handle demo_server (RUnpublish unpublish_req))
      (demo_state\<lparr>volumeLocks := \<lparr>locks = {''vol''}\<rparr>\<rparr>)) =
    fail Aborted (VolumeOperationAlreadyExists ''vol'')"
proof -
  have "rpc_volume (RUnpublish unpublish_req) \<in>
      locks (volumeLocks (demo_state\<lparr>volumeLocks := \<lparr>locks = {''vol''}\<rparr>\<rparr>))"
    by (simp add: unpublish_req_def)
  from busy_volume_aborted [OF this, of demo_server] show ?thesis
    by (simp add: unpublish_checks_def unpublish_req_def demo_state_def)
qed

section \<open>Interleaved execution\<close>

datatype goroutine =
  GIdle | GReceived rpc | GChecked rpc | GInside rpc | GLeaving rpc "unit reply"
| GDone rpc "unit reply"

record 'x node_system =
  shared :: "'x node_state"
  goroutines :: "nat \<Rightarrow> goroutine"

abbreviation move :: "'x node_system \<Rightarrow> nat \<Rightarrow> goroutine \<Rightarrow> 'x node_state \<Rightarrow> 'x node_system" where
  "move s i g sh \<equiv> s\<lparr>shared := sh, goroutines := (goroutines s)(i := g)\<rparr>"

inductive node_step :: "'x Server \<Rightarrow> 'x node_system \<Rightarrow> 'x node_system \<Rightarrow> bool" for ns where
  receive: "goroutines s i = GIdle \<Longrightarrow> node_step ns s (move s i (GReceived r) (shared s))"
| check_stop: "goroutines s i = GReceived r \<Longrightarrow>
    run_state (rpc_checks ns r) (wld (shared s)) = (Some e, w) \<Longrightarrow>
    node_step ns s (move s i (GDone r e) ((shared s)\<lparr>wld := w\<rparr>))"
| check_pass: "goroutines s i = GReceived r \<Longrightarrow>
    run_state (rpc_checks ns r) (wld (shared s)) = (None, w) \<Longrightarrow>
    node_step ns s (move s i (GChecked r) ((shared s)\<lparr>wld := w\<rparr>))"
| lock: "goroutines s i = GChecked r \<Longrightarrow>
    run_state (on_locks (TryAcquire (rpc_volume r))) (shared s) = (True, sh) \<Longrightarrow>
    node_step ns s (move s i (GInside r) sh)"
| abort: "goroutines s i = GChecked r \<Longrightarrow>
    run_state (on_locks (TryAcquire (rpc_volume r))) (shared s) = (False, sh) \<Longrightarrow>
    node_step ns s (move s i
      (GDone r (fail Aborted (VolumeOperationAlreadyExists (rpc_volume r)))) sh)"
| body: "goroutines s i = GInside r \<Longrightarrow>
    run_state (rpc_body ns r) (wld (shared s)) = (e, w) \<Longrightarrow>
    node_step ns s (move s i (GLeaving r e) ((shared s)\<lparr>wld := w\<rparr>))"
| unlock: "goroutines s i = GLeaving r e \<Longrightarrow>
    run_state (on_locks (Release (rpc_volume r))) (shared s) = ((), sh) \<Longrightarrow>
    node_step ns s (move s i (GDone r e) sh)"
| reply: "goroutines s i = GDone r e \<Longrightarrow> node_step ns s (move s i GIdle (shared s))"

inductive node_reachable :: "'x Server \<Rightarrow> 'x world \<Rightarrow> 'x node_system \<Rightarrow> bool" for ns w0 where
  start: "node_reachable ns w0
    \<lparr>shared = \<lparr>volumeLocks = NewVolumeLocks, wld = w0\<rparr>, goroutines = (\<lambda>_. GIdle)\<rparr>"
| step: "node_reachable ns w0 s \<Longrightarrow> node_step ns s t \<Longrightarrow> node_reachable ns w0 t"

text \<open>
  The abstraction forgets the world and the parts of a handler that do not concern the lock.
\<close>

fun phase_of :: "goroutine \<Rightarrow> phase" where
  "phase_of (GChecked r) = Asking (rpc_volume r)"
| "phase_of (GInside r) = Operating (rpc_volume r)"
| "phase_of (GLeaving r e) = Operating (rpc_volume r)"
| "phase_of _ = Idle"

definition abs_system :: "'x node_system \<Rightarrow> lock_system" where
  "abs_system s = \<lparr>table = volumeLocks (shared s), phases = phase_of \<circ> goroutines s\<rparr>"

lemma phase_of_upd:
  "phase_of \<circ> (goroutines s)(i := g) = (phase_of \<circ> goroutines s)(i := phase_of g)"
  by (rule ext) simp

lemma abs_move:
  "abs_system (move s i g sh) =
    \<lparr>table = volumeLocks sh, phases = (phases (abs_system s))(i := phase_of g)\<rparr>"
  by (simp add: abs_system_def phase_of_upd)

lemma abs_stutter:
  "phase_of g = phase_of (goroutines s i) \<Longrightarrow> volumeLocks sh = volumeLocks (shared s) \<Longrightarrow>
    abs_system (move s i g sh) = abs_system s"
  by (auto simp: abs_system_def phase_of_upd fun_eq_iff)

text \<open>
  Every step of a handler is a step of the protocol, two of them (a refused request asks and gives up)
  or none.
\<close>

lemma node_step_abs:
  assumes "node_step ns s t"
  shows "lock_step\<^sup>*\<^sup>* (abs_system s) (abs_system t)"
  using assms
proof (cases rule: node_step.cases)
  case (receive i r)
  have "abs_system t = abs_system s"
    unfolding receive(1) by (rule abs_stutter) (simp_all add: receive(2))
  then show ?thesis by simp
next
  case (check_stop i r e w)
  have "abs_system t = abs_system s"
    unfolding check_stop(1) by (rule abs_stutter) (simp_all add: check_stop(2))
  then show ?thesis by simp
next
  case (check_pass i r w)
  have "phases (abs_system s) i = Idle" using check_pass by (simp add: abs_system_def)
  from lock_step.arrive [OF this, of "rpc_volume r"] check_pass
  show ?thesis by (simp add: abs_move) (simp add: abs_system_def r_into_rtranclp)
next
  case (lock i r sh)
  have "phases (abs_system s) i = Asking (rpc_volume r)" using lock by (simp add: abs_system_def)
  moreover have "run_state (TryAcquire (rpc_volume r)) (table (abs_system s)) = (True, volumeLocks sh)"
    using lock by (cases "run_state (TryAcquire (rpc_volume r)) (volumeLocks (shared s))")
      (auto simp: abs_system_def)
  ultimately show ?thesis using lock lock_step.enter by (simp add: abs_move r_into_rtranclp)
next
  case (abort i r sh)
  let ?a = "\<lparr>table = volumeLocks sh, phases = (phases (abs_system s))(i := Refused (rpc_volume r))\<rparr>"
  have "phases (abs_system s) i = Asking (rpc_volume r)" using abort by (simp add: abs_system_def)
  moreover have "run_state (TryAcquire (rpc_volume r)) (table (abs_system s)) = (False, volumeLocks sh)"
    using abort by (cases "run_state (TryAcquire (rpc_volume r)) (volumeLocks (shared s))")
      (auto simp: abs_system_def)
  ultimately have "lock_step (abs_system s) ?a" by (rule lock_step.refuse)
  moreover have "lock_step ?a (?a\<lparr>phases := (phases ?a)(i := Idle)\<rparr>)"
    by (rule lock_step.abort [of _ _ "rpc_volume r"]) simp
  ultimately show ?thesis using abort by (simp add: abs_move)
next
  case (body i r e w)
  have "abs_system t = abs_system s"
    unfolding body(1) by (rule abs_stutter) (simp_all add: body(2))
  then show ?thesis by simp
next
  case (unlock i r e sh)
  have "phases (abs_system s) i = Operating (rpc_volume r)" using unlock by (simp add: abs_system_def)
  moreover have "run_state (Release (rpc_volume r)) (table (abs_system s)) = ((), volumeLocks sh)"
    using unlock by (cases "run_state (Release (rpc_volume r)) (volumeLocks (shared s))")
      (auto simp: abs_system_def)
  ultimately show ?thesis using unlock lock_step.leave by (simp add: abs_move r_into_rtranclp)
next
  case (reply i r e)
  have "abs_system t = abs_system s"
    unfolding reply(1) by (rule abs_stutter) (simp_all add: reply(2))
  then show ?thesis by simp
qed

lemma lock_reachable_steps:
  "lock_step\<^sup>*\<^sup>* a b \<Longrightarrow> lock_reachable a \<Longrightarrow> lock_reachable b"
  by (induction rule: rtranclp_induct) (auto intro: lock_reachable.step)

lemma node_reachable_abs: "node_reachable ns w0 s \<Longrightarrow> lock_reachable (abs_system s)"
proof (induction rule: node_reachable.induct)
  case start
  have "abs_system \<lparr>shared = \<lparr>volumeLocks = NewVolumeLocks, wld = w0\<rparr>, goroutines = (\<lambda>_. GIdle)\<rparr>
      = init_lock_system"
    by (simp add: abs_system_def init_lock_system_def fun_eq_iff)
  then show ?case by (simp add: lock_reachable.init)
next
  case (step s t)
  then show ?case using node_step_abs lock_reachable_steps by blast
qed

lemma node_reachable_inv: "node_reachable ns w0 s \<Longrightarrow> lock_inv (abs_system s)"
  by (intro lock_reachable_inv node_reachable_abs)

section \<open>What an observer of the requests sees\<close>

text \<open>
  A specification of the service that knows neither the table nor \<open>TryAcquire\<close>: each volume has at
  most one owner. A request enters a volume only if it has no owner, is refused only if another request
  owns it, and only its owner leaves it. \<open>owner_run\<close> accepts the sequences of events that keep to this
  and answers who owns what after them.
\<close>

datatype lock_event = Enter nat string | Refuse nat string | Leave nat string

fun owner_after :: "lock_event \<Rightarrow> (string \<rightharpoonup> nat) \<Rightarrow> (string \<rightharpoonup> nat) option" where
  "owner_after (Enter i v) a = (if a v = None then Some (a(v \<mapsto> i)) else None)"
| "owner_after (Refuse i v) a = (case a v of Some j \<Rightarrow> if j \<noteq> i then Some a else None | None \<Rightarrow> None)"
| "owner_after (Leave i v) a = (if a v = Some i then Some (a(v := None)) else None)"

fun owner_run :: "lock_event list \<Rightarrow> (string \<rightharpoonup> nat) \<Rightarrow> (string \<rightharpoonup> nat) option" where
  "owner_run [] a = Some a"
| "owner_run (e # es) a = (case owner_after e a of Some b \<Rightarrow> owner_run es b | None \<Rightarrow> None)"

lemma owner_run_append:
  "owner_run (es @ es') a = (case owner_run es a of Some b \<Rightarrow> owner_run es' b | None \<Rightarrow> None)"
  by (induction es arbitrary: a) (simp_all split: option.splits)

text \<open>
  The events of a run: a request enters its volume when it starts its body, is refused when it is
  answered right after its checks, and leaves when it is answered after its body.
\<close>

fun event_of :: "nat \<Rightarrow> goroutine \<Rightarrow> goroutine \<Rightarrow> lock_event list" where
  "event_of i (GChecked r) (GInside r') = [Enter i (rpc_volume r)]"
| "event_of i (GChecked r) (GDone r' e) = [Refuse i (rpc_volume r)]"
| "event_of i (GLeaving r e) (GDone r' e') = [Leave i (rpc_volume r)]"
| "event_of i g g' = []"

inductive node_trace :: "'x Server \<Rightarrow> 'x world \<Rightarrow> lock_event list \<Rightarrow> 'x node_system \<Rightarrow> bool"
  for ns w0 where
  trace_start: "node_trace ns w0 []
    \<lparr>shared = \<lparr>volumeLocks = NewVolumeLocks, wld = w0\<rparr>, goroutines = (\<lambda>_. GIdle)\<rparr>"
| trace_step: "node_trace ns w0 es s \<Longrightarrow> node_step ns s t \<Longrightarrow> goroutines t i \<noteq> goroutines s i \<Longrightarrow>
    node_trace ns w0 (es @ event_of i (goroutines s i) (goroutines t i)) t"

lemma node_trace_reachable: "node_trace ns w0 es s \<Longrightarrow> node_reachable ns w0 s"
  by (induction rule: node_trace.induct) (auto intro: node_reachable.intros)

definition owned_by :: "(string \<rightharpoonup> nat) \<Rightarrow> 'x node_system \<Rightarrow> bool" where
  "owned_by a s \<longleftrightarrow> (\<forall>v i. a v = Some i \<longleftrightarrow> phase_of (goroutines s i) = Operating v)"

lemma owned_by_quiet:
  assumes "owned_by a s" and "\<And>v. phase_of g = Operating v \<longleftrightarrow> phase_of (goroutines s i) = Operating v"
  shows "owned_by a (move s i g sh)"
  using assms by (simp add: owned_by_def)

lemma owned_by_table:
  assumes "node_reachable ns w0 s" and "owned_by a s"
  shows "locks (volumeLocks (shared s)) = dom a"
  using node_reachable_inv [OF assms(1)] assms(2)
  by (auto simp: lock_inv_def abs_system_def owned_by_def dom_def)

lemma node_step_owner:
  assumes reach: "node_reachable ns w0 s" and own: "owned_by a s" and st: "node_step ns s t"
    and ch: "goroutines t i \<noteq> goroutines s i"
  shows "\<exists>b. owner_run (event_of i (goroutines s i) (goroutines t i)) a = Some b \<and> owned_by b t"
  using st
proof (cases rule: node_step.cases)
  case (lock k r sh)
  with ch have k: "k = i" by (auto split: if_splits)
  from lock(3) have "rpc_volume r \<notin> locks (volumeLocks (shared s))"
    using nl.acquire_spec by blast
  with owned_by_table [OF reach own] have free: "a (rpc_volume r) = None" by auto
  have "phase_of (goroutines s j) \<noteq> Operating (rpc_volume r)" for j
    using own free by (metis option.simps(3) owned_by_def)
  with own lock(2) have "owned_by (a(rpc_volume r \<mapsto> i)) t"
    unfolding lock(1) k owned_by_def by auto
  with free lock k show ?thesis by simp
next
  case (abort k r sh)
  with ch have k: "k = i" by (auto split: if_splits)
  from abort(3) have "rpc_volume r \<in> locks (volumeLocks (shared s))"
    using nl.acquire_spec by fastforce
  with owned_by_table [OF reach own] obtain j where j: "a (rpc_volume r) = Some j" by auto
  with own have "phase_of (goroutines s j) = Operating (rpc_volume r)" by (simp add: owned_by_def)
  with abort(2) k have "j \<noteq> i" by auto
  moreover have "owned_by a t" unfolding abort(1) by (rule owned_by_quiet [OF own]) (simp add: abort(2))
  ultimately show ?thesis using j abort k by simp
next
  case (unlock k r e sh)
  with ch have k: "k = i" by (auto split: if_splits)
  from own unlock(2) k have mine: "a (rpc_volume r) = Some i" by (simp add: owned_by_def)
  have "j = i" if "phase_of (goroutines s j) = Operating (rpc_volume r)" for j
    using own mine that by (metis option.inject owned_by_def)
  with own unlock(2) have "owned_by (a(rpc_volume r := None)) t"
    unfolding unlock(1) k owned_by_def by auto
  with mine unlock k show ?thesis by simp
qed (use ch own in \<open>auto simp: owned_by_def split: if_splits\<close>)

lemma node_trace_owner:
  "node_trace ns w0 es s \<Longrightarrow> \<exists>a. owner_run es Map.empty = Some a \<and> owned_by a s"
proof (induction rule: node_trace.induct)
  case trace_start
  then show ?case by (simp add: owned_by_def)
next
  case (trace_step es s t i)
  then obtain a where "owner_run es Map.empty = Some a" "owned_by a s" by blast
  with node_step_owner [OF node_trace_reachable this(2)] trace_step show ?case
    by (fastforce simp: owner_run_append)
qed

text \<open>A run of the concrete parties to the point where one request is inside its body.\<close>

definition demo_start :: "unit node_system" where
  "demo_start = \<lparr>shared = demo_state, goroutines = (\<lambda>_. GIdle)\<rparr>"

definition demo_inside :: "unit node_system" where
  "demo_inside = \<lparr>shared = demo_state\<lparr>volumeLocks := \<lparr>locks = {''vol''}\<rparr>\<rparr>,
     goroutines = (\<lambda>_. GIdle)(0 := GInside (RUnpublish unpublish_req))\<rparr>"

lemma demo_trace: "node_trace demo_server demo_world [Enter 0 ''vol''] demo_inside"
proof -
  let ?r = "RUnpublish unpublish_req"
  have 0: "node_trace demo_server demo_world [] demo_start"
    using node_trace.trace_start [of demo_server demo_world]
    by (simp add: demo_start_def demo_state_def)
  have "goroutines demo_start 0 = GIdle" by (simp add: demo_start_def)
  note st1 = node_step.receive [OF this, of demo_server ?r]
  let ?s1 = "move demo_start 0 (GReceived ?r) (shared demo_start)"
  have 1: "node_trace demo_server demo_world [] ?s1"
    using node_trace.trace_step [OF 0 st1, of 0] by (simp add: demo_start_def)
  have g1: "goroutines ?s1 0 = GReceived ?r" by simp
  have c1: "run_state (rpc_checks demo_server ?r) (wld (shared ?s1)) = (None, demo_world)"
    by (simp add: unpublish_checks_def unpublish_req_def demo_start_def demo_state_def)
  let ?s2 = "move ?s1 0 (GChecked ?r) ((shared ?s1)\<lparr>wld := demo_world\<rparr>)"
  have 2: "node_trace demo_server demo_world [] ?s2"
    using node_trace.trace_step [OF 1 node_step.check_pass [OF g1 c1], of 0] by simp
  have g2: "goroutines ?s2 0 = GChecked ?r" by simp
  have c2: "run_state (on_locks (TryAcquire (rpc_volume ?r))) (shared ?s2) =
      (True, shared demo_inside)"
    by (simp add: TryAcquire_def unpublish_req_def demo_start_def demo_state_def NewVolumeLocks_def
        demo_inside_def)
  have "move ?s2 0 (GInside ?r) (shared demo_inside) = demo_inside"
    by (simp add: demo_inside_def demo_start_def fun_eq_iff)
  with node_trace.trace_step [OF 2 node_step.lock [OF g2 c2], of 0] show ?thesis
    by (simp add: unpublish_req_def)
qed

lemma demo_reachable: "node_reachable demo_server demo_world demo_inside"
  using demo_trace by (rule node_trace_reachable)


definition demo_contended :: "unit node_system" where
  "demo_contended = move demo_inside 1 (GChecked (RUnpublish unpublish_req)) (shared demo_inside)"

lemma demo_contended_trace: "node_trace demo_server demo_world [Enter 0 ''vol''] demo_contended"
proof -
  let ?r = "RUnpublish unpublish_req"
  let ?s1 = "move demo_inside 1 (GReceived ?r) (shared demo_inside)"
  have "goroutines demo_inside 1 = GIdle" by (simp add: demo_inside_def)
  note st1 = node_step.receive [OF this, of demo_server ?r]
  have 1: "node_trace demo_server demo_world [Enter 0 ''vol''] ?s1"
    using node_trace.trace_step [OF demo_trace st1, of 1] by (simp add: demo_inside_def)
  have g1: "goroutines ?s1 1 = GReceived ?r" by simp
  have c1: "run_state (rpc_checks demo_server ?r) (wld (shared ?s1)) = (None, wld (shared ?s1))"
    by (simp add: unpublish_checks_def unpublish_req_def)
  have "node_trace demo_server demo_world [Enter 0 ''vol'']
      (move ?s1 1 (GChecked ?r) ((shared ?s1)\<lparr>wld := wld (shared ?s1)\<rparr>))"
    using node_trace.trace_step [OF 1 node_step.check_pass [OF g1 c1], of 1] by simp
  moreover have "move ?s1 1 (GChecked ?r) ((shared ?s1)\<lparr>wld := wld (shared ?s1)\<rparr>) = demo_contended"
    by (simp add: demo_contended_def)
  ultimately show ?thesis by simp
qed

definition demo_refused :: "unit node_system" where
  "demo_refused = move demo_contended 1 (GDone (RUnpublish unpublish_req)
     (fail Aborted (VolumeOperationAlreadyExists ''vol''))) (shared demo_contended)"

lemma demo_refused_trace:
  "node_trace demo_server demo_world [Enter 0 ''vol'', Refuse 1 ''vol''] demo_refused"
proof -
  let ?r = "RUnpublish unpublish_req"
  have g: "goroutines demo_contended 1 = GChecked ?r" by (simp add: demo_contended_def)
  have c: "run_state (on_locks (TryAcquire (rpc_volume ?r))) (shared demo_contended) =
      (False, shared demo_contended)"
    by (simp add: demo_contended_def demo_inside_def TryAcquire_def unpublish_req_def)
  from node_trace.trace_step [OF demo_contended_trace node_step.abort [OF g c], of 1] g show ?thesis
    by (simp add: demo_refused_def unpublish_req_def)
qed

text \<open>
  C2. The concurrent node service refines the specification in which every volume has at most one
  owner: in whatever order the goroutines move, the events of the run are accepted by \<open>owner_run\<close>
  (a request starts its body only on a volume without an owner, is answered Aborted only while another
  request owns the volume, and only the owner frees it), its owners are the goroutines between
  \<open>TryAcquire\<close> and \<open>Release\<close>, and the lock table holds the owned volumes.
\<close>

theorem node_refines_lock_protocol:
  assumes "node_trace ns w0 es s"
  shows "\<exists>a. owner_run es Map.empty = Some a \<and>
    (\<forall>v i. a v = Some i \<longleftrightarrow> phase_of (goroutines s i) = Operating v) \<and>
    locks (volumeLocks (shared s)) = dom a"
  using node_trace_owner [OF assms] owned_by_table [OF node_trace_reachable [OF assms]]
  unfolding owned_by_def by blast

theorem node_refines_lock_protocol_witness:
  "\<exists>a. owner_run [Enter 0 ''vol'', Refuse 1 ''vol''] Map.empty = Some a \<and> a ''vol'' = Some 0 \<and>
    locks (volumeLocks (shared demo_refused)) = dom a"
  using node_refines_lock_protocol [OF demo_refused_trace] by auto

text \<open>
  C1. Mutual exclusion: two goroutines are never between taking and releasing the lock of the same
  volume, and a volume is marked as locked exactly while some goroutine is.
\<close>

theorem node_mutual_exclusion:
  assumes "node_reachable ns w0 s"
  shows "(\<forall>i j v. phase_of (goroutines s i) = Operating v \<and> phase_of (goroutines s j) = Operating v
      \<longrightarrow> i = j) \<and>
    (\<forall>v. v \<in> locks (volumeLocks (shared s)) \<longleftrightarrow> (\<exists>i. phase_of (goroutines s i) = Operating v))"
  using node_reachable_inv [OF assms] by (simp add: lock_inv_def abs_system_def)

theorem node_mutual_exclusion_witness:
  "''vol'' \<in> locks (volumeLocks (shared demo_inside)) \<and>
    {i. phase_of (goroutines demo_inside i) = Operating ''vol''} = {0}"
proof -
  have "phase_of (goroutines demo_inside 0) = Operating ''vol''"
    by (simp add: demo_inside_def unpublish_req_def)
  with node_mutual_exclusion [OF demo_reachable] show ?thesis by blast
qed

text \<open>
  A request that has passed its checks is refused only if another goroutine operates on the same
  volume at that moment; otherwise its next step takes the lock. \<open>TryAcquire\<close> never blocks.
\<close>

theorem refused_only_if_contended:
  assumes "node_reachable ns w0 s" and "goroutines s i = GChecked r"
  shows "(\<exists>j. j \<noteq> i \<and> phase_of (goroutines s j) = Operating (rpc_volume r)) \<and>
      run_state (on_locks (TryAcquire (rpc_volume r))) (shared s) = (False, shared s) \<or>
    (\<exists>sh. run_state (on_locks (TryAcquire (rpc_volume r))) (shared s) = (True, sh) \<and>
      node_step ns s (move s i (GInside r) sh))"
proof (cases "rpc_volume r \<in> locks (volumeLocks (shared s))")
  case True
  with node_reachable_inv [OF assms(1)] obtain j where
    j: "phase_of (goroutines s j) = Operating (rpc_volume r)"
    by (auto simp: lock_inv_def abs_system_def)
  with assms(2) have "j \<noteq> i" by auto
  with j nl.acquire_refused [of "rpc_volume r" "shared s"] True show ?thesis by blast
next
  case False
  obtain b sh where run: "run_state (on_locks (TryAcquire (rpc_volume r))) (shared s) = (b, sh)"
    by fastforce
  from nl.acquire_spec [OF run] False have "b" by simp
  with run node_step.lock [OF assms(2)] show ?thesis by auto
qed

theorem refused_only_if_contended_witness:
  "\<exists>j. j \<noteq> 1 \<and> phase_of (goroutines demo_contended j) = Operating ''vol''"
proof -
  have g: "goroutines demo_contended 1 = GChecked (RUnpublish unpublish_req)"
    by (simp add: demo_contended_def)
  have "fst (run_state (on_locks (TryAcquire ''vol'')) (shared demo_contended)) = False"
    by (simp add: demo_contended_def demo_inside_def TryAcquire_def)
  with refused_only_if_contended [OF node_trace_reachable [OF demo_contended_trace] g] show ?thesis
    by (auto simp: unpublish_req_def)
qed





end
