(* ===== verification/NodeReplies.thy ===== *)
theory NodeReplies
  imports NodeProps
begin

text \<open>
  The form of the replies of the node service: each call answers with a response or with an error, never
  both, and which status codes it uses. Errors that the code passes on as they are are traced to the call
  that returned them.
\<close>

section \<open>Results in every state\<close>

text \<open>\<open>yields P m\<close>: the result of \<open>m\<close> has \<open>P\<close>, whatever the state.\<close>

definition yields :: "('a \<Rightarrow> bool) \<Rightarrow> ('s, 'a) state \<Rightarrow> bool" where
  "yields P m \<longleftrightarrow> (\<forall>s. P (fst (run_state m s)))"

lemma yields_ret: "P x \<Longrightarrow> yields P (ret x)"
  by (simp add: yields_def)

lemma yields_bind: "(\<And>a. yields P (f a)) \<Longrightarrow> yields P (State_Monad.bind m f)"
  by (simp add: yields_def case_prod_beta)

lemma yields_if: "(b \<Longrightarrow> yields P m) \<Longrightarrow> (\<not> b \<Longrightarrow> yields P n) \<Longrightarrow> yields P (if b then m else n)"
  by simp

lemma yields_option:
  "(x = None \<Longrightarrow> yields P m) \<Longrightarrow> (\<And>a. x = Some a \<Longrightarrow> yields P (f a)) \<Longrightarrow>
    yields P (case x of None \<Rightarrow> m | Some a \<Rightarrow> f a)"
  by (simp split: option.split)

lemma yields_sum:
  "(\<And>e. x = Inl e \<Longrightarrow> yields P (f e)) \<Longrightarrow> (\<And>a. x = Inr a \<Longrightarrow> yields P (g a)) \<Longrightarrow>
    yields P (case x of Inl e \<Rightarrow> f e | Inr a \<Rightarrow> g a)"
  by (simp split: sum.split)

lemma yields_access:
  "(x = None \<Longrightarrow> yields P l) \<Longrightarrow> (\<And>b. x = Some (AccessBlock b) \<Longrightarrow> yields P (f b)) \<Longrightarrow>
    (\<And>b. x = Some (AccessMount b) \<Longrightarrow> yields P (g b)) \<Longrightarrow>
    yields P (case x of None \<Rightarrow> l | Some (AccessBlock b) \<Rightarrow> f b | Some (AccessMount b) \<Rightarrow> g b)"
  by (simp split: option.split access_type.split)

lemma yields_prod: "(\<And>a b. x = (a, b) \<Longrightarrow> yields P (f a b)) \<Longrightarrow> yields P (case x of (a, b) \<Rightarrow> f a b)"
  by (simp split: prod.split)

lemmas yields_rules = yields_ret yields_bind yields_if yields_option yields_sum yields_prod

text \<open>Two steps of which the second depends on what the first one yields.\<close>

lemma yields_then:
  "yields R m \<Longrightarrow> (\<And>a. R a \<Longrightarrow> yields P (f a)) \<Longrightarrow> yields P (State_Monad.bind m f)"
  by (simp add: yields_def case_prod_beta)

section \<open>Forms of replies\<close>

definition coded :: "code set \<Rightarrow> unit reply \<Rightarrow> bool" where
  "coded C r \<longleftrightarrow> r = answer () \<or> (\<exists>c m. c \<in> C \<and> r = fail c m)"

text \<open>
  An error that is passed on as it is, and where it may come from: a call of the file system, which has no
  status, the mounter, the manager's \<open>DetachBlock\<close>.
\<close>

definition passed_on :: "(goerror \<Rightarrow> bool) \<Rightarrow> unit reply \<Rightarrow> bool" where
  "passed_on E r \<longleftrightarrow> (\<exists>e. E e \<and> r = fail_err e)"

definition fs_error :: "goerror \<Rightarrow> bool" where
  "fs_error e \<longleftrightarrow> (\<exists>op p n. e = PathError op p n) \<or> (\<exists>m. e = ErrorString m)"

definition mounter_error :: "'x mounter \<Rightarrow> goerror \<Rightarrow> bool" where
  "mounter_error mnt e \<longleftrightarrow> (\<exists>w w'. (\<exists>p. run_state (IsLikelyNotMountPoint mnt p) w = (Inl e, w')) \<or>
     run_state (ListMounts mnt) w = (Inl e, w') \<or> (\<exists>p. run_state (Unmount mnt p) w = (Some e, w')))"

definition detach_error :: "'x manager \<Rightarrow> goerror \<Rightarrow> bool" where
  "detach_error mgr e \<longleftrightarrow> (\<exists>AttachBlock DetachBlock d w w'.
     Block mgr = Some (AttachBlock, DetachBlock) \<and> run_state (DetachBlock d) w = (Some e, w'))"

text \<open>The errors of the manager's operations that staging calls.\<close>

definition manager_error :: "'x manager \<Rightarrow> goerror \<Rightarrow> bool" where
  "manager_error mgr e \<longleftrightarrow> (\<exists>w w'.
     (\<exists>f vc. Validate mgr = Some f \<and> run_state (f vc) w = (Some e, w')) \<or>
     (\<exists>att det a b c. Block mgr = Some (att, det) \<and> run_state (att a b c) w = (Inl e, w')) \<or>
     (\<exists>f p t a b c. MountI mgr = Some f \<and> run_state (f p t a b c) w = (Inl e, w')) \<or>
     (\<exists>f p a b c. Populate mgr = Some f \<and> run_state (f p a b c) w = (Some e, w')))"

text \<open>A status that the manager answered, as a reply: the status OK is no error, and no response either.\<close>

definition relayed :: "'x Server \<Rightarrow> unit reply \<Rightarrow> bool" where
  "relayed ns r \<longleftrightarrow> (\<exists>e c m. manager_error (manager ns) e \<and>
     status_FromError (library ns) e = ((c, m), True) \<and> r = (if c = OK then (None, None) else fail c m))"

lemma passed_on_mono: "passed_on E r \<Longrightarrow> (\<And>e. E e \<Longrightarrow> E' e) \<Longrightarrow> passed_on E' r"
  by (auto simp: passed_on_def)

lemma passed_on_fail_err: "E e \<Longrightarrow> passed_on E (fail_err e)"
  by (auto simp: passed_on_def)

text \<open>Where errors come from: the calls whose result is an error or a value, and those that only may fail.\<close>

abbreviation errs :: "(goerror \<Rightarrow> bool) \<Rightarrow> ('s, goerror + 'a) state \<Rightarrow> bool" where
  "errs E \<equiv> yields (\<lambda>r. case r of Inl e \<Rightarrow> E e | Inr _ \<Rightarrow> True)"

abbreviation fails_with :: "(goerror \<Rightarrow> bool) \<Rightarrow> ('s, goerror option) state \<Rightarrow> bool" where
  "fails_with E \<equiv> yields (\<lambda>r. case r of Some e \<Rightarrow> E e | None \<Rightarrow> True)"

lemma yields_map_state: "yields (\<lambda>a. P (f a)) m \<Longrightarrow> yields P (map_state f m)"
  by (simp add: yields_def)

lemma yields_True: "(\<And>a. P a) \<Longrightarrow> yields P m"
  by (simp add: yields_def)

lemma os_Stat_errs: "errs fs_error (os_Stat p)"
  unfolding os_Stat_def
  by (intro yields_map_state yields_True) (simp add: lift_err_def fs_error_def split: sum.split)

lemma os_Lstat_errs: "errs fs_error (os_Lstat p)"
  unfolding os_Lstat_def
  by (intro yields_map_state yields_True) (simp add: lift_err_def fs_error_def split: sum.split)

lemma os_Readlink_errs: "errs fs_error (os_Readlink p)"
  unfolding os_Readlink_def
  by (intro yields_map_state yields_True) (simp add: lift_err_def fs_error_def split: sum.split)

lemma os_Remove_fails: "fails_with fs_error (os_Remove p)"
  unfolding os_Remove_def
  by (intro yields_bind yields_option yields_ret) (simp_all add: fs_error_def split: option.split)

lemma os_RemoveAll_fails: "fails_with fs_error (os_RemoveAll p)"
proof -
  have named: "fails_with fs_error (map_state (map_option (PathError op p)) m)" for op m
    by (intro yields_map_state yields_True) (simp add: fs_error_def split: option.split)
  have tail: "fails_with fs_error
      (case q of Inl ENOENT \<Rightarrow> ret None | Inl e \<Rightarrow> ret (Some (PathError ''open'' p e))
       | Inr ks \<Rightarrow> map_state (map_option (PathError ''unlinkat'' p)) (remove_keys ks))" for q
    using named by (auto simp: fs_error_def intro!: yields_ret split: sum.split errno.split)
  show ?thesis
    unfolding os_RemoveAll_def
    by (intro yields_if yields_ret yields_then [OF os_Remove_fails] yields_option yields_bind tail)
      (simp_all add: fs_error_def)
qed

lemma walkSymlinks_errs: "errs fs_error (walkSymlinks links vol dest path)"
proof (induction links vol dest path rule: walkSymlinks.induct)
  case (1 links vol dest path)
  have links: "errs fs_error m \<Longrightarrow> (\<And>k. links = Suc k \<Longrightarrow> errs fs_error (f k)) \<Longrightarrow>
      errs fs_error (case links of 0 \<Rightarrow> m | Suc k \<Rightarrow> f k)" for m f
    by (simp split: nat.split)
  show ?case
    unfolding walkSymlinks.simps [of links vol dest path] Let_def
    by (intro yields_if yields_ret yields_then [OF os_Lstat_errs] yields_then [OF os_Readlink_errs] yields_sum
        links 1) (auto simp: fs_error_def)
qed

lemma EvalSymlinks_errs: "errs fs_error (EvalSymlinks p)"
  by (simp add: EvalSymlinks_def walkSymlinks_errs)

lemma GetDeviceFromPath_errs: "errs fs_error (GetDeviceFromPath p)"
  unfolding GetDeviceFromPath_def
  by (intro yields_then [OF EvalSymlinks_errs] yields_then [OF os_Stat_errs] yields_sum yields_ret) auto

lemma mounter_errs:
  "errs (mounter_error mnt) (IsLikelyNotMountPoint mnt p)" "errs (mounter_error mnt) (ListMounts mnt)"
  "fails_with (mounter_error mnt) (Unmount mnt p)"
  by (auto simp: yields_def mounter_error_def split: sum.split option.split) (metis prod.collapse)+

lemma GetDeviceFromMount_errs: "errs (\<lambda>e. fs_error e \<or> mounter_error mnt e) (GetDeviceFromMount mnt p)"
  unfolding GetDeviceFromMount_def
  by (intro yields_then [OF EvalSymlinks_errs] yields_then [OF mounter_errs(1)] yields_then [OF mounter_errs(2)]
      yields_sum yields_if yields_ret) auto

lemma coded_intros: "coded C (answer ())" "c \<in> C \<Longrightarrow> coded C (fail c m)"
  by (auto simp: coded_def)

lemma coded_mono: "coded C r \<Longrightarrow> C \<subseteq> C' \<Longrightarrow> coded C' r"
  by (auto simp: coded_def)

lemma invalid_capability_coded: "InvalidArgument \<in> C \<Longrightarrow> coded C (invalid_capability err)"
  by (simp add: invalid_capability_def coded_intros)

text \<open>A handler is its checks, the refusal of a volume that is in use, and its body.\<close>

lemma checked_then_locked_reply:
  assumes "yields (\<lambda>r. case r of None \<Rightarrow> True | Some r \<Rightarrow> P r) checks" and "yields P body"
    and "P (fail Aborted (VolumeOperationAlreadyExists v))"
  shows "P (fst (run_state (checked_then_locked checks v body) s))"
proof -
  obtain r s' where run: "run_state (checked_then_locked checks v body) s = (r, s')" by fastforce
  from run have "P r"
  proof (cases rule: checked_then_locked_cases)
    case early
    then show ?thesis using assms(1) [unfolded yields_def, rule_format, of "wld s"] by simp
  next
    case (ran w w')
    then show ?thesis using assms(2) [unfolded yields_def, rule_format, of w] by simp
  qed (use assms(3) in simp)
  with run show ?thesis by simp
qed

abbreviation checks_coded :: "code set \<Rightarrow> ('s, unit reply option) state \<Rightarrow> bool" where
  "checks_coded C \<equiv> yields (\<lambda>r. case r of None \<Rightarrow> True | Some r \<Rightarrow> coded C r)"

lemma publish_checks_coded: "checks_coded {InvalidArgument, FailedPrecondition} (publish_checks ns req)"
  unfolding publish_checks_def by (intro yields_rules) (simp_all add: coded_intros invalid_capability_coded)

lemma unstage_checks_coded: "checks_coded {InvalidArgument} (unstage_checks req)"
  unfolding unstage_checks_def by (intro yields_rules) (simp_all add: coded_intros)

lemma unpublish_checks_coded: "checks_coded {InvalidArgument} (unpublish_checks req)"
  unfolding unpublish_checks_def by (intro yields_rules) (simp_all add: coded_intros)

lemma publish_mount_coded: "yields (coded {Internal, FailedPrecondition}) (publish_mount ns req)"
  unfolding publish_mount_def by (intro yields_rules) (simp_all add: coded_intros)

lemma publish_block_form: "yields (\<lambda>r. coded {Internal} r \<or> passed_on fs_error r) (publish_block ns req)"
  unfolding publish_block_def
  by (intro yields_then [OF GetDeviceFromPath_errs] yields_sum yields_bind yields_option yields_ret)
    (auto simp: coded_intros passed_on_fail_err)

lemma unpublish_body_coded: "yields (coded {Internal}) (unpublish_body ns req)"
  unfolding unpublish_body_def by (intro yields_rules) (simp_all add: coded_intros)

text \<open>What unstaging may pass on.\<close>

definition unstage_error :: "'x Server \<Rightarrow> goerror \<Rightarrow> bool" where
  "unstage_error ns e \<longleftrightarrow>
     fs_error e \<or> mounter_error (mounter ns) e \<or> detach_error (manager ns) e"

lemma unstage_detach_form: "yields (\<lambda>r. coded {} r \<or> passed_on (unstage_error ns) r) (unstage_detach ns d)"
proof (cases "Block (manager ns)")
  case (Some ops)
  then obtain att det where b: "Block (manager ns) = Some (att, det)" by (cases ops) auto
  then have "fails_with (detach_error (manager ns)) (det d)"
    by (auto simp: yields_def detach_error_def split: option.split) (metis prod.collapse)
  then show ?thesis
    unfolding unstage_detach_def b
    by (auto intro!: yields_then yields_ret passed_on_fail_err
        simp: coded_intros unstage_error_def split: option.split)
qed (simp add: unstage_detach_def yields_ret coded_intros)

lemma unstage_body_form: "yields (\<lambda>r. coded {} r \<or> passed_on (unstage_error ns) r) (unstage_body ns req)"
proof -
  have drop: "fails_with (unstage_error ns)
      (if d \<noteq> '''' then Unmount (mounter ns) p else os_RemoveAll p)" for d p
    using mounter_errs(3) [of "mounter ns" p] os_RemoveAll_fails [of p]
    by (auto simp: yields_def unstage_error_def split: option.splits)
  show ?thesis
    unfolding unstage_body_def
    by (intro yields_then [OF GetDeviceFromPath_errs] yields_then [OF GetDeviceFromMount_errs]
        yields_then [OF os_Remove_fails] yields_then [OF drop] unstage_detach_form yields_sum yields_if
        yields_option yields_ret)
      (auto simp: coded_intros unstage_error_def intro!: passed_on_fail_err split: option.split)
qed

text \<open>What becomes of a manager's error: a relayed status, or a reply of the service's own.\<close>

lemma status_or_form:
  assumes "status_laws (library ns)" and "manager_error (manager ns) err" and "coded C other"
  shows "coded C (status_or (library ns) err other) \<or> relayed ns (status_or (library ns) err other)"
proof -
  obtain c m ok where f: "status_FromError (library ns) err = ((c, m), ok)" by (metis prod.exhaust)
  show ?thesis
  proof (cases ok)
    case True
    with f assms(1) have "status_or (library ns) err other = (if c = OK then (None, None) else fail c m)"
      by (simp add: status_or_def status_laws_def fail_def)
    with f True assms(2) have "relayed ns (status_or (library ns) err other)"
      unfolding relayed_def by (intro exI [of _ err] exI [of _ c] exI [of _ m]) simp
    then show ?thesis ..
  qed (use f assms(3) in \<open>simp add: status_or_def\<close>)
qed

definition stage_form :: "'x Server \<Rightarrow> unit reply \<Rightarrow> bool" where
  "stage_form ns r \<longleftrightarrow>
    coded {InvalidArgument, FailedPrecondition, Aborted, Internal, Unimplemented} r \<or> relayed ns r"

lemma stage_coded:
  "stage_form ns (answer ())"
  "c \<in> {InvalidArgument, FailedPrecondition, Aborted, Internal, Unimplemented} \<Longrightarrow> stage_form ns (fail c m)"
  by (simp_all add: stage_form_def coded_intros)

lemma status_or_stage:
  "status_laws (library ns) \<Longrightarrow> manager_error (manager ns) err \<Longrightarrow> coded {InvalidArgument, Internal} other \<Longrightarrow>
    stage_form ns (status_or (library ns) err other)"
  using status_or_form [of ns err "{InvalidArgument, Internal}" other] by (auto simp: stage_form_def intro: coded_mono)

lemma manager_errs:
  "fails_with (manager_error (manager ns)) (run_validate ns vc)"
  "errs (manager_error (manager ns)) (stage_attach ns req)"
  "MountI (manager ns) = Some f \<Longrightarrow> errs (manager_error (manager ns)) (f p t a b c)"
  "Populate (manager ns) = Some g \<Longrightarrow> fails_with (manager_error (manager ns)) (g p a b c)"
  by (auto simp: yields_def manager_error_def run_validate_def stage_attach_def split: sum.split option.split)
    (metis prod.collapse)+

lemma stage_checks_form:
  assumes "status_laws (library ns)"
  shows "yields (\<lambda>r. case r of None \<Rightarrow> True | Some r \<Rightarrow> stage_form ns r) (stage_checks ns req)"
  unfolding stage_checks_def
  by (intro yields_then [OF manager_errs(1)] yields_bind yields_if yields_option yields_sum yields_ret)
    (auto simp: stage_coded coded_intros invalid_capability_coded invalid_capability_def
      intro!: status_or_stage [OF assms])

lemma stage_mount_part_form:
  assumes "status_laws (library ns)"
  shows "yields (\<lambda>r. case r of Inl r \<Rightarrow> stage_form ns r | Inr _ \<Rightarrow> True) (stage_mount_part ns req vc)"
proof -
  have m: "yields (\<lambda>r. case r of None \<Rightarrow> True | Some r \<Rightarrow> stage_form ns r) (stage_do_mount ns vc p m)" for p m
    unfolding stage_do_mount_def Let_def
    by (intro yields_rules) (auto simp: stage_coded coded_intros split: option.split)
  show ?thesis
    unfolding stage_mount_part_def
    by (intro yields_then [OF m] yields_then [OF manager_errs(3)] yields_option yields_sum yields_ret)
      (auto simp: stage_coded coded_intros intro!: status_or_stage [OF assms] split: option.split)
qed

lemma stage_populate_part_form:
  assumes "status_laws (library ns)"
  shows "yields (\<lambda>r. case r of Inl r \<Rightarrow> stage_form ns r | Inr _ \<Rightarrow> True) (stage_populate_part ns req b)"
  unfolding stage_populate_part_def
  by (intro yields_then [OF manager_errs(4)] yields_option yields_ret)
    (auto simp: stage_coded coded_intros intro!: status_or_stage [OF assms] split: option.split)

lemma stage_body_form:
  assumes "status_laws (library ns)"
  shows "yields (stage_form ns) (stage_body ns req)"
proof -
  have blk: "yields (stage_form ns) (stage_block req d)" for d
    unfolding stage_block_def by (intro yields_rules) (simp_all add: stage_coded)
  have mnt: "yields (stage_form ns) (stage_mount ns req vc)" for vc
    unfolding stage_mount_def
    by (intro yields_then [OF stage_mount_part_form [OF assms]]
        yields_then [OF stage_populate_part_form [OF assms]] yields_sum yields_if yields_ret)
      (auto simp: stage_coded coded_intros)
  show ?thesis
    unfolding stage_body_def
    by (intro yields_then [OF manager_errs(2)] yields_sum yields_access yields_option yields_ret blk mnt)
      (auto simp: stage_coded coded_intros intro!: status_or_stage [OF assms])
qed

lemma checks_widen:
  "yields (\<lambda>r. case r of None \<Rightarrow> True | Some r \<Rightarrow> P r) m \<Longrightarrow> (\<And>r. P r \<Longrightarrow> Q r) \<Longrightarrow>
    yields (\<lambda>r. case r of None \<Rightarrow> True | Some r \<Rightarrow> Q r) m"
  by (simp add: yields_def split: option.splits)

lemma yields_widen: "yields P m \<Longrightarrow> (\<And>r. P r \<Longrightarrow> Q r) \<Longrightarrow> yields Q m"
  by (simp add: yields_def)

text \<open>What the four handlers reply.\<close>

abbreviation publish_form :: "NodePublishVolumeRequest \<Rightarrow> unit reply \<Rightarrow> bool" where
  "publish_form req r \<equiv> coded {InvalidArgument, FailedPrecondition, Aborted, Internal} r \<or>
    (passed_on fs_error r \<and> (\<exists>b. access_of (pub_VolumeCapability req) = Some (AccessBlock b)))"

lemma publish_body_form: "yields (publish_form req) (publish_body ns req)"
  unfolding publish_body_def
proof (rule yields_access)
  fix b
  assume "access_of (pub_VolumeCapability req) = Some (AccessBlock b)"
  then show "yields (publish_form req) (publish_block ns req)"
    by (intro yields_widen [OF publish_block_form]) (auto intro: coded_mono)
next
  show "yields (publish_form req) (publish_mount ns req)"
    by (rule yields_widen [OF publish_mount_coded]) (auto intro: coded_mono)
qed (simp add: yields_ret coded_intros)

lemma publish_reply: "publish_form req (fst (run_state (NodePublishVolume ns req) s))"
  unfolding NodePublishVolume_def
proof (rule checked_then_locked_reply [of "publish_form req"])
  show "yields (\<lambda>r. case r of None \<Rightarrow> True | Some r \<Rightarrow> publish_form req r) (publish_checks ns req)"
    by (rule checks_widen [OF publish_checks_coded]) (auto intro: coded_mono)
qed (simp_all add: publish_body_form coded_intros)

lemma unpublish_reply:
  "coded {InvalidArgument, Aborted, Internal} (fst (run_state (NodeUnpublishVolume ns req) s))"
  unfolding NodeUnpublishVolume_def
proof (rule checked_then_locked_reply)
  show "checks_coded {InvalidArgument, Aborted, Internal} (unpublish_checks req)"
    by (rule checks_widen [OF unpublish_checks_coded]) (auto intro: coded_mono)
  show "yields (coded {InvalidArgument, Aborted, Internal}) (unpublish_body ns req)"
    by (rule yields_widen [OF unpublish_body_coded]) (auto intro: coded_mono)
qed (simp add: coded_intros)

lemma stage_reply:
  "status_laws (library ns) \<Longrightarrow> stage_form ns (fst (run_state (NodeStageVolume ns req) s))"
  unfolding NodeStageVolume_def
  by (rule checked_then_locked_reply [of "stage_form ns", OF stage_checks_form stage_body_form])
    (simp_all add: stage_coded)

lemma unstage_reply:
  "coded {InvalidArgument, Aborted} (fst (run_state (NodeUnstageVolume ns req) s)) \<or>
    passed_on (unstage_error ns) (fst (run_state (NodeUnstageVolume ns req) s))"
  unfolding NodeUnstageVolume_def
proof (rule checked_then_locked_reply
    [of "\<lambda>r. coded {InvalidArgument, Aborted} r \<or> passed_on (unstage_error ns) r"])
  show "yields (\<lambda>r. case r of None \<Rightarrow> True
      | Some r \<Rightarrow> coded {InvalidArgument, Aborted} r \<or> passed_on (unstage_error ns) r) (unstage_checks req)"
    by (rule checks_widen [OF unstage_checks_coded]) (auto intro: coded_mono)
  show "yields (\<lambda>r. coded {InvalidArgument, Aborted} r \<or> passed_on (unstage_error ns) r) (unstage_body ns req)"
    by (rule yields_widen [OF unstage_body_form]) (auto intro: coded_mono)
qed (simp add: coded_intros)

text \<open>
  C28. What the eight calls of the node service answer. Publishing answers with a response or an error with
  one of the codes InvalidArgument, FailedPrecondition, Internal and Aborted, and only for block volumes it may
  pass on an error of a file system call, which has no status. Unpublishing uses InvalidArgument, Internal and
  Aborted. Staging also uses Unimplemented, and any other code of its answer is the status of an error that the
  manager returned, where a status OK gives neither a response nor an error. Unstaging uses InvalidArgument and
  Aborted, and every other error is one of the file system, the mounter or the manager's \<open>DetachBlock\<close>,
  passed on as it is. Statistics and expansion are Unimplemented, the two queries always answer.
\<close>

theorem node_reply_forms:
  fixes ns :: "'x Server"
  assumes "status_laws (library ns)"
  shows "(let r = fst (run_state (NodePublishVolume ns pub) s) in
      coded {InvalidArgument, FailedPrecondition, Aborted, Internal} r \<or>
      (passed_on fs_error r \<and> (\<exists>b. access_of (pub_VolumeCapability pub) = Some (AccessBlock b)))) \<and>
    coded {InvalidArgument, Aborted, Internal} (fst (run_state (NodeUnpublishVolume ns upb) s)) \<and>
    (let r = fst (run_state (NodeStageVolume ns stg) s) in
      coded {InvalidArgument, FailedPrecondition, Aborted, Internal, Unimplemented} r \<or> relayed ns r) \<and>
    (let r = fst (run_state (NodeUnstageVolume ns ust) s) in
      coded {InvalidArgument, Aborted} r \<or>
      passed_on (\<lambda>e. fs_error e \<or> mounter_error (mounter ns) e \<or> detach_error (manager ns) e) r) \<and>
    reply_code (NodeGetVolumeStats ns) = Some Unimplemented \<and>
    reply_code (NodeExpandVolume ns) = Some Unimplemented \<and>
    succeeded (NodeGetInfo ns) \<and> succeeded (NodeGetCapabilities ns)"
  using publish_reply [where req = pub and ns = ns and s = s]
    unpublish_reply [of ns upb s] stage_reply [OF assms, of stg s]
    unstage_reply [of ns ust s]
  by (simp add: stage_form_def unstage_error_def [abs_def] NodeGetVolumeStats_def NodeExpandVolume_def NodeGetInfo_def
      NodeGetCapabilities_def)

theorem node_reply_forms_witness:
  "coded {InvalidArgument, Aborted, Internal}
    (fst (run_state (NodeUnpublishVolume demo_server \<lparr>upb_VolumeId = ''v'', upb_TargetPath = ''/t''\<rparr>) demo_state))"
proof -
  have "status_laws (library demo_server)" by (auto simp: demo_defs status_laws_def split: goerror.splits)
  from node_reply_forms [OF this] show ?thesis by blast
qed

end
