(* ===== verification/Identity.thy ===== *)
theory Identity
  imports Libraries
begin

text \<open>
  The CSI identity service, \<open>identity/identityserver.go\<close> and \<open>identity/interfaces.go\<close>. The manager may
  implement \<open>Probe\<close>; the state \<open>'s\<close> is whatever that method reads and changes.
\<close>

section \<open>The server\<close>

record 's identity_manager =
  Probe_impl :: "('s, goerror + bool) state option"

record 's IdentityServer =
  ids_name :: string
  ids_version :: string
  ids_controller :: bool
  ids_manager :: "'s identity_manager"

definition NewIdentity ::
  "string \<Rightarrow> string \<Rightarrow> bool \<Rightarrow> 's identity_manager \<Rightarrow> 's IdentityServer" where
  "NewIdentity name version controller mgr =
    \<lparr>ids_name = name, ids_version = version, ids_controller = controller, ids_manager = mgr\<rparr>"

record GetPluginInfoResponse =
  gpi_Name :: string
  gpi_VendorVersion :: string

datatype PluginCapability_Service =
  Service_UNKNOWN | Service_CONTROLLER_SERVICE | Service_VOLUME_ACCESSIBILITY_CONSTRAINTS

definition GetPluginInfo :: "'s IdentityServer \<Rightarrow> GetPluginInfoResponse reply" where
  "GetPluginInfo ids =
    (if ids_name ids = '''' then fail Unavailable ''driver name not configured''
     else if ids_version ids = '''' then fail Unavailable ''driver is missing version''
     else answer \<lparr>gpi_Name = ids_name ids, gpi_VendorVersion = ids_version ids\<rparr>)"

text \<open>The response of \<open>Probe\<close> is the value in its \<open>Ready\<close> field.\<close>

definition Probe :: "libraries \<Rightarrow> 's IdentityServer \<Rightarrow> ('s, bool reply) state" where
  "Probe lib ids =
    (case Probe_impl (ids_manager ids) of
       Some p \<Rightarrow> do {
         r \<leftarrow> p;
         ret (case r of Inl err \<Rightarrow> status_or_internal lib err | Inr ready \<Rightarrow> answer ready)
       }
     | None \<Rightarrow> ret (answer True))"

definition GetPluginCapabilities :: "'s IdentityServer \<Rightarrow> PluginCapability_Service list reply" where
  "GetPluginCapabilities ids =
    answer (if ids_controller ids then [Service_CONTROLLER_SERVICE] else [])"

section \<open>Properties\<close>

text \<open>
  What \<open>Probe\<close> answers: ready when the manager has no \<open>Probe\<close> of its own, the manager's verdict when
  it has, the manager's status when it fails with a status error other than OK, and Internal with the
  error's text when it fails with an error that is not a status.
\<close>

theorem probe_spec:
  assumes laws: "status_laws lib"
    and other: "status_FromError lib (ErrorString m) = (st, False)"
  shows "(Probe_impl mgr = None \<longrightarrow> run_state (Probe lib (NewIdentity n v c mgr)) s = (answer True, s)) \<and>
    (\<forall>p r t. Probe_impl mgr = Some p \<and> run_state p s = (r, t) \<longrightarrow>
      (\<forall>b. r = Inr b \<longrightarrow> run_state (Probe lib (NewIdentity n v c mgr)) s = (answer b, t)) \<and>
      (\<forall>cd msg. r = Inl (StatusError cd msg) \<and> cd \<noteq> OK \<longrightarrow>
        run_state (Probe lib (NewIdentity n v c mgr)) s = (fail cd msg, t)) \<and>
      (r = Inl (ErrorString m) \<longrightarrow>
        run_state (Probe lib (NewIdentity n v c mgr)) s = (fail Internal m, t)))"
  using laws other
  by (auto simp: Probe_def NewIdentity_def status_laws_def status_or_def fail_def)

definition probe_lib :: libraries where
  "probe_lib = \<lparr>status_FromError = (\<lambda>e. case e of StatusError c m \<Rightarrow> ((c, m), True)
                                     | _ \<Rightarrow> ((Unknown, error_text e), False)),
     status_Err = (\<lambda>(c, m). if c = OK then None else Some (StatusError c m)),
     slice_Union = (\<lambda>xs ys. remdups (xs @ ys)),
     slice_Difference = (\<lambda>xs ys. filter (\<lambda>x. x \<notin> set ys) xs),
     slice_AppendIfAbsent = (\<lambda>xs x. if x \<in> set xs then xs else xs @ [x])\<rparr>"

definition failing_probe :: "nat identity_manager" where
  "failing_probe = \<lparr>Probe_impl = Some (State (\<lambda>n. (Inl (ErrorString ''down''), Suc n)))\<rparr>"

theorem probe_spec_witness:
  "run_state (Probe probe_lib (NewIdentity ''d'' ''1'' True failing_probe)) 4 = (fail Internal ''down'', 5)"
proof -
  have "status_laws probe_lib" by (auto simp: status_laws_def probe_lib_def)
  moreover have "status_FromError probe_lib (ErrorString ''down'') = ((Unknown, ''down''), False)"
    by (simp add: probe_lib_def)
  ultimately show ?thesis
    using probe_spec [of probe_lib "''down''" "(Unknown, ''down'')" failing_probe "''d''" "''1''" True 4]
    by (simp add: failing_probe_def)
qed

end
