(* ===== verification/Controller.thy ===== *)
theory Controller
  imports GoErrors
begin

text \<open>
  The CSI controller service, \<open>controller/controllerserver.go\<close> and \<open>controller/interface.go\<close>. The driver
  author's manager implements any of nine interfaces; a type assertion on it is a test of an option,
  and a nil manager implements none. Requests and responses are passed through unread, so they are
  type parameters: \<open>'q\<close> for the requests and \<open>'p\<close> for the responses.
\<close>

section \<open>The manager\<close>

datatype ControllerServiceCapability_RPC =
  ControllerRPC_UNKNOWN | ControllerRPC_CREATE_DELETE_VOLUME
| ControllerRPC_PUBLISH_UNPUBLISH_VOLUME | ControllerRPC_LIST_VOLUMES | ControllerRPC_GET_CAPACITY
| ControllerRPC_CREATE_DELETE_SNAPSHOT | ControllerRPC_LIST_SNAPSHOTS | ControllerRPC_CLONE_VOLUME
| ControllerRPC_PUBLISH_READONLY | ControllerRPC_EXPAND_VOLUME
| ControllerRPC_LIST_VOLUMES_PUBLISHED_NODES | ControllerRPC_VOLUME_CONDITION
| ControllerRPC_GET_VOLUME | ControllerRPC_SINGLE_NODE_MULTI_WRITER

type_synonym ('s, 'q, 'p) call = "'q \<Rightarrow> ('s, 'p reply) state"

record ('s, 'q, 'p) controller_manager =
  CREATE_DELETE_VOLUME :: "(('s, 'q, 'p) call \<times> ('s, 'q, 'p) call) option"
  CREATE_DELETE_SNAPSHOT :: "(('s, 'q, 'p) call \<times> ('s, 'q, 'p) call) option"
  LIST_SNAPSHOT :: "('s, 'q, 'p) call option"
  LIST_VOLUME :: "('s, 'q, 'p) call option"
  EXPAND_VOLUME :: "('s, 'q, 'p) call option"
  GET_CAPACITY :: "('s, 'q, 'p) call option"
  PUBLISH_UNPUBLISH_VOLUME :: "(('s, 'q, 'p) call \<times> ('s, 'q, 'p) call) option"
  GET_VOLUME :: "('s, 'q, 'p) call option"
  Capabilities :: "('q \<Rightarrow> ('s, goerror + ControllerServiceCapability_RPC list) state) option"

definition nil_manager :: "('s, 'q, 'p) controller_manager" where
  "nil_manager = \<lparr>CREATE_DELETE_VOLUME = None, CREATE_DELETE_SNAPSHOT = None, LIST_SNAPSHOT = None,
     LIST_VOLUME = None, EXPAND_VOLUME = None, GET_CAPACITY = None, PUBLISH_UNPUBLISH_VOLUME = None,
     GET_VOLUME = None, Capabilities = None\<rparr>"

section \<open>The server\<close>

record ('s, 'q, 'p) ControllerServer =
  controller_manager_of :: "('s, 'q, 'p) controller_manager"

definition NewController :: "('s, 'q, 'p) controller_manager \<Rightarrow> ('s, 'q, 'p) ControllerServer" where
  "NewController m = \<lparr>controller_manager_of = m\<rparr>"

definition forward_or :: "('s, 'q, 'p) call option \<Rightarrow> string \<Rightarrow> ('s, 'q, 'p) call" where
  "forward_or s msg req = (case s of Some f \<Rightarrow> f req | None \<Rightarrow> ret (fail Unimplemented msg))"

definition ControllerGetVolume :: "('s, 'q, 'p) ControllerServer \<Rightarrow> ('s, 'q, 'p) call" where
  "ControllerGetVolume cs =
    forward_or (GET_VOLUME (controller_manager_of cs)) ''ControllerGetVolume not implemented''"

definition CreateVolume :: "('s, 'q, 'p) ControllerServer \<Rightarrow> ('s, 'q, 'p) call" where
  "CreateVolume cs = forward_or (map_option fst (CREATE_DELETE_VOLUME (controller_manager_of cs)))
    ''CreateVolume not implemented''"

definition DeleteVolume :: "('s, 'q, 'p) ControllerServer \<Rightarrow> ('s, 'q, 'p) call" where
  "DeleteVolume cs = forward_or (map_option snd (CREATE_DELETE_VOLUME (controller_manager_of cs)))
    ''DeleteVolume not implemented''"

definition ControllerPublishVolume :: "('s, 'q, 'p) ControllerServer \<Rightarrow> ('s, 'q, 'p) call" where
  "ControllerPublishVolume cs =
    forward_or (map_option fst (PUBLISH_UNPUBLISH_VOLUME (controller_manager_of cs)))
    ''ControllerPublishVolume not implemented''"

definition ControllerUnpublishVolume :: "('s, 'q, 'p) ControllerServer \<Rightarrow> ('s, 'q, 'p) call" where
  "ControllerUnpublishVolume cs =
    forward_or (map_option snd (PUBLISH_UNPUBLISH_VOLUME (controller_manager_of cs)))
    ''ControllerUnpublishVolume not implemented''"

definition ValidateVolumeCapabilities :: "('s, 'q, 'p) ControllerServer \<Rightarrow> ('s, 'q, 'p) call" where
  "ValidateVolumeCapabilities cs req =
    ret (fail Unimplemented ''ValidateVolumeCapabilities not implemented'')"

definition ListVolumes :: "('s, 'q, 'p) ControllerServer \<Rightarrow> ('s, 'q, 'p) call" where
  "ListVolumes cs = forward_or (LIST_VOLUME (controller_manager_of cs)) ''ListVolumes not implemented''"

definition GetCapacity :: "('s, 'q, 'p) ControllerServer \<Rightarrow> ('s, 'q, 'p) call" where
  "GetCapacity cs = forward_or (GET_CAPACITY (controller_manager_of cs)) ''GetCapacity not implemented''"

definition CreateSnapshot :: "('s, 'q, 'p) ControllerServer \<Rightarrow> ('s, 'q, 'p) call" where
  "CreateSnapshot cs = forward_or (map_option fst (CREATE_DELETE_SNAPSHOT (controller_manager_of cs)))
    ''CreateSnapshot not implemented''"

definition DeleteSnapshot :: "('s, 'q, 'p) ControllerServer \<Rightarrow> ('s, 'q, 'p) call" where
  "DeleteSnapshot cs = forward_or (map_option snd (CREATE_DELETE_SNAPSHOT (controller_manager_of cs)))
    ''DeleteSnapshot not implemented''"

definition ListSnapshots :: "('s, 'q, 'p) ControllerServer \<Rightarrow> ('s, 'q, 'p) call" where
  "ListSnapshots cs =
    forward_or (LIST_SNAPSHOT (controller_manager_of cs)) ''ListSnapshots not implemented''"

definition ControllerExpandVolume :: "('s, 'q, 'p) ControllerServer \<Rightarrow> ('s, 'q, 'p) call" where
  "ControllerExpandVolume cs =
    forward_or (EXPAND_VOLUME (controller_manager_of cs)) ''ControllerExpandVolume not implemented''"

text \<open>The capabilities that follow from the interfaces the manager implements, in the code's order.\<close>

definition interface_caps ::
  "('s, 'q, 'p) controller_manager \<Rightarrow> ControllerServiceCapability_RPC list" where
  "interface_caps m =
    (if CREATE_DELETE_VOLUME m \<noteq> None then [ControllerRPC_CREATE_DELETE_VOLUME] else []) @
    (if PUBLISH_UNPUBLISH_VOLUME m \<noteq> None then [ControllerRPC_PUBLISH_UNPUBLISH_VOLUME] else []) @
    (if LIST_VOLUME m \<noteq> None then [ControllerRPC_LIST_VOLUMES] else []) @
    (if GET_CAPACITY m \<noteq> None then [ControllerRPC_GET_CAPACITY] else []) @
    (if CREATE_DELETE_SNAPSHOT m \<noteq> None then [ControllerRPC_CREATE_DELETE_SNAPSHOT] else []) @
    (if LIST_SNAPSHOT m \<noteq> None then [ControllerRPC_LIST_SNAPSHOTS] else []) @
    (if EXPAND_VOLUME m \<noteq> None then [ControllerRPC_EXPAND_VOLUME] else []) @
    (if GET_VOLUME m \<noteq> None then [ControllerRPC_GET_VOLUME] else [])"

definition ControllerGetCapabilities ::
  "('s, 'q, 'p) ControllerServer \<Rightarrow> 'q \<Rightarrow> ('s, ControllerServiceCapability_RPC list reply) state"
where
  "ControllerGetCapabilities cs req =
    (case Capabilities (controller_manager_of cs) of
       None \<Rightarrow> ret (answer (interface_caps (controller_manager_of cs)))
     | Some s \<Rightarrow> do {
         addCaps \<leftarrow> s req;
         ret (case addCaps of
                Inl err \<Rightarrow> fail_err err
              | Inr cs' \<Rightarrow> answer (cs' @ interface_caps (controller_manager_of cs)))
       })"

section \<open>Announced and served\<close>

text \<open>
  Which calls the CSI specification ties to a capability. The capabilities that only refine other
  calls have none.
\<close>

fun calls_of ::
  "('s, 'q, 'p) ControllerServer \<Rightarrow> ControllerServiceCapability_RPC \<Rightarrow> ('s, 'q, 'p) call list" where
  "calls_of cs ControllerRPC_CREATE_DELETE_VOLUME = [CreateVolume cs, DeleteVolume cs]"
| "calls_of cs ControllerRPC_PUBLISH_UNPUBLISH_VOLUME =
     [ControllerPublishVolume cs, ControllerUnpublishVolume cs]"
| "calls_of cs ControllerRPC_LIST_VOLUMES = [ListVolumes cs]"
| "calls_of cs ControllerRPC_GET_CAPACITY = [GetCapacity cs]"
| "calls_of cs ControllerRPC_CREATE_DELETE_SNAPSHOT = [CreateSnapshot cs, DeleteSnapshot cs]"
| "calls_of cs ControllerRPC_LIST_SNAPSHOTS = [ListSnapshots cs]"
| "calls_of cs ControllerRPC_EXPAND_VOLUME = [ControllerExpandVolume cs]"
| "calls_of cs ControllerRPC_GET_VOLUME = [ControllerGetVolume cs]"
| "calls_of cs _ = []"

text \<open>A call that the server does not forward: Unimplemented for every request, in every state.\<close>

definition unserved :: "('s, 'q, 'p) call \<Rightarrow> bool" where
  "unserved f \<longleftrightarrow> (\<exists>m. \<forall>q. f q = ret (fail Unimplemented m))"

fun methods_of ::
  "('s, 'q, 'p) controller_manager \<Rightarrow> ControllerServiceCapability_RPC \<Rightarrow> ('s, 'q, 'p) call list option"
where
  "methods_of m ControllerRPC_CREATE_DELETE_VOLUME =
     map_option (\<lambda>(f, g). [f, g]) (CREATE_DELETE_VOLUME m)"
| "methods_of m ControllerRPC_PUBLISH_UNPUBLISH_VOLUME =
     map_option (\<lambda>(f, g). [f, g]) (PUBLISH_UNPUBLISH_VOLUME m)"
| "methods_of m ControllerRPC_LIST_VOLUMES = map_option (\<lambda>f. [f]) (LIST_VOLUME m)"
| "methods_of m ControllerRPC_GET_CAPACITY = map_option (\<lambda>f. [f]) (GET_CAPACITY m)"
| "methods_of m ControllerRPC_CREATE_DELETE_SNAPSHOT =
     map_option (\<lambda>(f, g). [f, g]) (CREATE_DELETE_SNAPSHOT m)"
| "methods_of m ControllerRPC_LIST_SNAPSHOTS = map_option (\<lambda>f. [f]) (LIST_SNAPSHOT m)"
| "methods_of m ControllerRPC_EXPAND_VOLUME = map_option (\<lambda>f. [f]) (EXPAND_VOLUME m)"
| "methods_of m ControllerRPC_GET_VOLUME = map_option (\<lambda>f. [f]) (GET_VOLUME m)"
| "methods_of m _ = None"

lemmas controller_calls = CreateVolume_def DeleteVolume_def ControllerPublishVolume_def
  ControllerUnpublishVolume_def ListVolumes_def GetCapacity_def CreateSnapshot_def DeleteSnapshot_def
  ListSnapshots_def ControllerExpandVolume_def ControllerGetVolume_def

lemma forward_or_Some [simp]: "forward_or (Some f) msg = f"
  by (simp add: forward_or_def fun_eq_iff)

lemma unserved_None [simp]: "unserved (forward_or None msg)"
  by (auto simp: unserved_def forward_or_def)

lemma interface_caps_iff: "c \<in> set (interface_caps m) \<longleftrightarrow> methods_of m c \<noteq> None"
  by (cases c) (auto simp: interface_caps_def)

lemma interface_caps_distinct: "distinct (interface_caps m)"
  by (simp add: interface_caps_def)

lemma calls_of_methods: "methods_of m c = Some fs \<Longrightarrow> calls_of (NewController m) c = fs"
  by (cases c) (auto simp: controller_calls NewController_def)

lemma calls_of_no_methods: "methods_of m c = None \<Longrightarrow> list_all unserved (calls_of (NewController m) c)"
  by (cases c) (auto simp: controller_calls NewController_def)

text \<open>
  C36. The controller service announces what it serves, for every manager. The answer lists the capabilities
  that the manager's \<open>GetCapabilities\<close> adds, if it has one, and then the service's own, each once; an error of
  \<open>GetCapabilities\<close> is passed on instead. A capability is among the service's own exactly when the manager
  implements its interface, and then every call of the capability is the manager's method, unchanged; for any
  other capability all calls answer Unimplemented and touch nothing.
\<close>

theorem controller_announces_served:
  "\<exists>own. distinct own \<and>
    (\<forall>c. if c \<in> set own
         then \<exists>fs. methods_of m c = Some fs \<and> calls_of (NewController m) c = fs
         else list_all unserved (calls_of (NewController m) c)) \<and>
    (\<forall>req s. run_state (ControllerGetCapabilities (NewController m) req) s =
      (case Capabilities m of
         None \<Rightarrow> (answer own, s)
       | Some g \<Rightarrow> (case run_state (g req) s of
             (Inl err, s') \<Rightarrow> (fail_err err, s')
           | (Inr added, s') \<Rightarrow> (answer (added @ own), s'))))"
proof (intro exI [of _ "interface_caps m"] conjI allI)
  fix c
  show "if c \<in> set (interface_caps m)
      then \<exists>fs. methods_of m c = Some fs \<and> calls_of (NewController m) c = fs
      else list_all unserved (calls_of (NewController m) c)"
    using calls_of_methods [of m c] calls_of_no_methods [of m c]
    by (cases "methods_of m c") (simp_all add: interface_caps_iff)
next
  fix req s
  show "run_state (ControllerGetCapabilities (NewController m) req) s =
      (case Capabilities m of
         None \<Rightarrow> (answer (interface_caps m), s)
       | Some g \<Rightarrow> (case run_state (g req) s of
             (Inl err, s') \<Rightarrow> (fail_err err, s')
           | (Inr added, s') \<Rightarrow> (answer (added @ interface_caps m), s')))"
    by (simp add: ControllerGetCapabilities_def NewController_def split: option.split prod.split sum.split)
qed (rule interface_caps_distinct)

definition demo_controller :: "(nat, string, string) controller_manager" where
  "demo_controller = nil_manager\<lparr>LIST_VOLUME := Some (\<lambda>q. ret (answer q)),
     Capabilities := Some (\<lambda>q. ret (Inr [ControllerRPC_PUBLISH_READONLY]))\<rparr>"

theorem controller_announces_served_witness:
  "\<exists>own. run_state (ControllerGetCapabilities (NewController demo_controller) ''q'') 0 =
      (answer (ControllerRPC_PUBLISH_READONLY # own), 0) \<and>
    ControllerRPC_CREATE_DELETE_VOLUME \<notin> set own"
proof -
  obtain own where own: "\<forall>c. if c \<in> set own
      then \<exists>fs. methods_of demo_controller c = Some fs \<and> calls_of (NewController demo_controller) c = fs
      else list_all unserved (calls_of (NewController demo_controller) c)"
    and run: "\<forall>req s. run_state (ControllerGetCapabilities (NewController demo_controller) req) s =
      (case Capabilities demo_controller of
         None \<Rightarrow> (answer own, s)
       | Some g \<Rightarrow> (case run_state (g req) s of
             (Inl err, s') \<Rightarrow> (fail_err err, s')
           | (Inr added, s') \<Rightarrow> (answer (added @ own), s')))"
    using controller_announces_served [of demo_controller] by blast
  from own [rule_format, of ControllerRPC_CREATE_DELETE_VOLUME]
  have "ControllerRPC_CREATE_DELETE_VOLUME \<notin> set own"
    by (auto simp: demo_controller_def nil_manager_def split: if_splits)
  moreover from run have "run_state (ControllerGetCapabilities (NewController demo_controller) ''q'') 0 =
      (answer (ControllerRPC_PUBLISH_READONLY # own), 0)"
    by (simp add: demo_controller_def)
  ultimately show ?thesis by blast
qed

end
