(* ===== verification/Listener.thy ===== *)
theory Listener
  imports GoErrors
begin

text \<open>
  \<open>utils/net.go\<close>: the listener for an endpoint URL. \<open>net/url\<close> of the standard library is modelled, as far as
  \<open>url.Parse\<close> computes the scheme, host and path and decides about errors; \<open>net.ListenConfig.Listen\<close> is the
  network, and a parameter.
\<close>

section \<open>Characters\<close>

definition byte :: "char \<Rightarrow> nat" where
  "byte c = of_char c"

definition is_letter :: "char \<Rightarrow> bool" where
  "is_letter c \<longleftrightarrow> 65 \<le> byte c \<and> byte c \<le> 90 \<or> 97 \<le> byte c \<and> byte c \<le> 122"

definition is_digit :: "char \<Rightarrow> bool" where
  "is_digit c \<longleftrightarrow> 48 \<le> byte c \<and> byte c \<le> 57"

definition lower :: "char \<Rightarrow> char" where
  "lower c = (if 65 \<le> byte c \<and> byte c \<le> 90 then char_of (byte c + 32) else c)"

definition hex_value :: "char \<Rightarrow> nat option" where
  "hex_value c =
    (if is_digit c then Some (byte c - 48)
     else if 97 \<le> byte c \<and> byte c \<le> 102 then Some (byte c - 87)
     else if 65 \<le> byte c \<and> byte c \<le> 70 then Some (byte c - 55)
     else None)"

definition is_control :: "char \<Rightarrow> bool" where
  "is_control c \<longleftrightarrow> byte c < 32 \<or> byte c = 127"

text \<open>\<open>strings.Cut\<close>: the text before the first separator and the text after it.\<close>

fun Cut :: "char \<Rightarrow> string \<Rightarrow> string \<times> string" where
  "Cut x [] = ([], [])"
| "Cut x (c # cs) = (if c = x then ([], cs) else (case Cut x cs of (a, b) \<Rightarrow> (c # a, b)))"

text \<open>The text before the last separator and the text from it on, when there is one.\<close>

definition last_cut :: "char \<Rightarrow> string \<Rightarrow> (string \<times> string) option" where
  "last_cut x s =
    (if x \<in> set s
     then let tail = takeWhile (\<lambda>c. c \<noteq> x) (rev s)
          in Some (take (length s - Suc (length tail)) s, x # rev tail)
     else None)"

section \<open>Escapes\<close>

datatype encoding = encodePath | encodeHost | encodeZone | encodeUserPassword | encodeFragment

text \<open>\<open>shouldEscape\<close> for a byte of a host or zone.\<close>

definition host_char :: "char \<Rightarrow> bool" where
  "host_char c \<longleftrightarrow> is_letter c \<or> is_digit c \<or> c \<in> set (''!$&()*+,;=:[]<>-_.~'' @ [CHR 0x22, CHR 0x27])"

text \<open>The escape as Go reports it: at most three bytes.\<close>

definition escape_error :: "string \<Rightarrow> goerror" where
  "escape_error s = ErrorString (''invalid URL escape '' @ Quote (take 3 s))"

fun unescape :: "encoding \<Rightarrow> string \<Rightarrow> goerror + string" where
  "unescape mode [] = Inr []"
| "unescape mode (c # cs) =
    (if c = CHR ''%'' then
       (case cs of
          h # l # rest \<Rightarrow>
            (case (hex_value h, hex_value l) of
               (Some x, Some y) \<Rightarrow>
                 let v = char_of (16 * x + y)
                 in if mode = encodeHost \<and> x < 8 \<and> \<not> (x = 2 \<and> y = 5) then Inl (escape_error [c, h, l])
                    else if mode = encodeZone \<and> \<not> (x = 2 \<and> y = 5) \<and> v \<noteq> CHR '' '' \<and> \<not> host_char v
                    then Inl (escape_error [c, h, l])
                    else map_sum id ((#) v) (unescape mode rest)
             | _ \<Rightarrow> Inl (escape_error (c # cs)))
        | _ \<Rightarrow> Inl (escape_error (c # cs)))
     else if (mode = encodeHost \<or> mode = encodeZone) \<and> byte c < 128 \<and> \<not> host_char c
     then Inl (ErrorString (''invalid character '' @ Quote [c] @ '' in host name''))
     else map_sum id ((#) c) (unescape mode cs))"

section \<open>The parts of a URL\<close>

definition validOptionalPort :: "string \<Rightarrow> bool" where
  "validOptionalPort port \<longleftrightarrow> port = '''' \<or> hd port = CHR '':'' \<and> list_all is_digit (tl port)"

definition port_error :: "string \<Rightarrow> goerror" where
  "port_error p = ErrorString (''invalid port '' @ Quote p @ '' after host'')"

text \<open>The first place of a text in another one.\<close>

fun index_of :: "string \<Rightarrow> string \<Rightarrow> nat option" where
  "index_of p [] = (if p = [] then Some 0 else None)"
| "index_of p (c # cs) = (if prefix p (c # cs) then Some 0 else map_option Suc (index_of p cs))"

definition parseHost :: "string \<Rightarrow> goerror + string" where
  "parseHost host =
    (if HasPrefix host ''['' then
       (case last_cut (CHR '']'') host of
          None \<Rightarrow> Inl (ErrorString ''missing ']' in host'')
        | Some (literal, rest) \<Rightarrow>
            if \<not> validOptionalPort (tl rest) then Inl (port_error (tl rest))
            else
              (case index_of ''%25'' literal of
                 None \<Rightarrow> unescape encodeHost host
               | Some zone \<Rightarrow>
                   (case unescape encodeHost (take zone host) of
                      Inl e \<Rightarrow> Inl e
                    | Inr host1 \<Rightarrow>
                        (case unescape encodeZone (drop zone literal) of
                           Inl e \<Rightarrow> Inl e
                         | Inr host2 \<Rightarrow> map_sum id (\<lambda>host3. host1 @ host2 @ host3) (unescape encodeHost rest)))))
     else
       (case last_cut (CHR '':'') host of
          Some (_, colonPort) \<Rightarrow>
            if \<not> validOptionalPort colonPort then Inl (port_error colonPort) else unescape encodeHost host
        | None \<Rightarrow> unescape encodeHost host))"

definition validUserinfo :: "string \<Rightarrow> bool" where
  "validUserinfo s \<longleftrightarrow>
     list_all (\<lambda>c. is_letter c \<or> is_digit c \<or> c \<in> set (''-._:~!$&()*+,;=%@'' @ [CHR 0x27])) s"

text \<open>The user is checked after the host, and is not kept.\<close>

definition parseAuthority :: "string \<Rightarrow> goerror + string" where
  "parseAuthority authority =
    (case last_cut (CHR ''@'') authority of
       None \<Rightarrow> parseHost authority
     | Some (userinfo, rest) \<Rightarrow>
         (case parseHost (tl rest) of
            Inl e \<Rightarrow> Inl e
          | Inr host \<Rightarrow>
              if \<not> validUserinfo userinfo then Inl (ErrorString ''net/url: invalid userinfo'')
              else
                (case unescape encodeUserPassword (fst (Cut (CHR '':'') userinfo)) of
                   Inl e \<Rightarrow> Inl e
                 | Inr _ \<Rightarrow>
                     (case unescape encodeUserPassword (snd (Cut (CHR '':'') userinfo)) of
                        Inl e \<Rightarrow> Inl e
                      | Inr _ \<Rightarrow> Inr host))))"

fun get_scheme :: "bool \<Rightarrow> string \<Rightarrow> string \<Rightarrow> goerror + (string \<times> string) option" where
  "get_scheme start seen [] = Inr None"
| "get_scheme start seen (c # cs) =
    (if is_letter c then get_scheme False (seen @ [c]) cs
     else if is_digit c \<or> c \<in> set ''+-.'' then (if start then Inr None else get_scheme False (seen @ [c]) cs)
     else if c = CHR '':'' then
       (if start then Inl (ErrorString ''missing protocol scheme'') else Inr (Some (seen, cs)))
     else Inr None)"

definition getScheme :: "string \<Rightarrow> goerror + string \<times> string" where
  "getScheme rawURL =
    (case get_scheme True [] rawURL of
       Inl e \<Rightarrow> Inl e
     | Inr None \<Rightarrow> Inr ('''', rawURL)
     | Inr (Some (scheme, rest)) \<Rightarrow> Inr (scheme, rest))"

record URL =
  Scheme :: string
  Host :: string
  Path :: string

definition parse_url :: "string \<Rightarrow> goerror + URL" where
  "parse_url rawURL =
    (if list_ex is_control rawURL then Inl (ErrorString ''net/url: invalid control character in URL'')
     else if rawURL = ''*'' then Inr \<lparr>Scheme = '''', Host = '''', Path = ''*''\<rparr>
     else
       (case getScheme rawURL of
          Inl e \<Rightarrow> Inl e
        | Inr (scheme0, rest0) \<Rightarrow>
            let scheme = List.map lower scheme0; rest = fst (Cut (CHR ''?'') rest0)
            in if \<not> HasPrefix rest ''/'' \<and> scheme \<noteq> '''' then Inr \<lparr>Scheme = scheme, Host = '''', Path = ''''\<rparr>
               else if \<not> HasPrefix rest ''/'' \<and> CHR '':'' \<in> set (fst (Cut (CHR ''/'') rest))
               then Inl (ErrorString ''first path segment in URL cannot contain colon'')
               else
                 let authority = (scheme \<noteq> '''' \<or> \<not> HasPrefix rest ''///'') \<and> HasPrefix rest ''//'';
                     rest1 = (if authority then dropWhile (\<lambda>c. c \<noteq> CHR ''/'') (drop 2 rest) else rest)
                 in (case (if authority then parseAuthority (takeWhile (\<lambda>c. c \<noteq> CHR ''/'') (drop 2 rest))
                           else Inr '''') of
                       Inl e \<Rightarrow> Inl e
                     | Inr host \<Rightarrow>
                         (case unescape encodePath rest1 of
                            Inl e \<Rightarrow> Inl e
                          | Inr path \<Rightarrow> Inr \<lparr>Scheme = scheme, Host = host, Path = path\<rparr>))))"

text \<open>The error of \<open>url.Error\<close>.\<close>

definition url_error :: "string \<Rightarrow> goerror \<Rightarrow> goerror" where
  "url_error u e = WrapError (''parse '' @ Quote u @ '': '' @ error_text e) e"

definition url_Parse :: "string \<Rightarrow> goerror + URL" where
  "url_Parse rawURL =
    (case Cut (CHR ''#'') rawURL of
       (u, frag) \<Rightarrow>
         (case parse_url u of
            Inl e \<Rightarrow> Inl (url_error u e)
          | Inr url \<Rightarrow>
              (case unescape encodeFragment frag of
                 Inl e \<Rightarrow> Inl (url_error rawURL e)
               | Inr _ \<Rightarrow> Inr url)))"

section \<open>The listener\<close>

definition ListenerFromUrl :: "(string \<Rightarrow> string \<Rightarrow> goerror + 'l) \<Rightarrow> string \<Rightarrow> goerror + 'l" where
  "ListenerFromUrl Listen endpoint =
    (case url_Parse endpoint of
       Inl err \<Rightarrow> Inl err
     | Inr u \<Rightarrow>
         if Scheme u \<in> set [''tcp'', ''tcp4'', ''tcp6'', ''unix'', ''unixpacket'']
         then Listen (Scheme u) (Join [Host u, Path u])
         else Inl (ErrorString ''Can't listen''))"

section \<open>Addresses\<close>

lemma Cut_absent: "x \<notin> set s \<Longrightarrow> Cut x s = (s, [])"
  by (induction s) auto

lemma unescape_plain:
  "CHR ''%'' \<notin> set s \<Longrightarrow> mode = encodeHost \<or> mode = encodeZone \<Longrightarrow> list_all host_char s \<Longrightarrow>
    unescape mode s = Inr s"
  "CHR ''%'' \<notin> set s \<Longrightarrow> mode \<noteq> encodeHost \<Longrightarrow> mode \<noteq> encodeZone \<Longrightarrow> unescape mode s = Inr s"
  by (induction s) auto

text \<open>Characters that have no meaning of their own in a URL.\<close>

definition plain_url :: "string \<Rightarrow> bool" where
  "plain_url s \<longleftrightarrow> list_all (\<lambda>c. \<not> is_control c \<and> c \<notin> set ''%?#'') s"

lemma plain_url_absent:
  "plain_url s \<Longrightarrow> CHR ''%'' \<notin> set s \<and> CHR ''?'' \<notin> set s \<and> CHR ''#'' \<notin> set s \<and> \<not> list_ex is_control s"
  by (auto simp: plain_url_def list_all_iff list_ex_iff)

definition plain_host :: "string \<Rightarrow> bool" where
  "plain_host s \<longleftrightarrow> s \<noteq> '''' \<and> list_all (\<lambda>c. is_letter c \<or> is_digit c \<or> c \<in> set ''.-'') s"

lemmas scheme_eval = getScheme_def is_letter_def is_digit_def byte_def lower_def HasPrefix_def

lemma parse_unix:
  assumes "plain_url p" and "IsAbs p"
  shows "url_Parse (''unix://'' @ p) = Inr \<lparr>Scheme = ''unix'', Host = '''', Path = p\<rparr>"
proof -
  note a = plain_url_absent [OF assms(1)]
  obtain q where q: "p = sep # q" using assms(2) by (cases p) (auto simp: IsAbs_def)
  have n: "CHR ''#'' \<notin> set (''unix://'' @ p)" "CHR ''?'' \<notin> set (''//'' @ p)" using a by auto
  have c: "\<not> list_ex is_control (''unix://'' @ p)" using a by (simp add: is_control_def byte_def)
  have g: "getScheme (''unix://'' @ p) = Inr (''unix'', ''//'' @ p)" by (simp add: scheme_eval)
  have l: "List.map lower ''unix'' = ''unix''" by (simp add: lower_def byte_def)
  have au: "parseAuthority '''' = Inr ''''" by (simp add: parseAuthority_def last_cut_def parseHost_def HasPrefix_def)
  have h: "HasPrefix (''//'' @ p) ''/''" "HasPrefix (''//'' @ p) ''//''" by (simp_all add: HasPrefix_def)
  have "parse_url (''unix://'' @ p) = Inr \<lparr>Scheme = ''unix'', Host = '''', Path = p\<rparr>"
    unfolding parse_url_def
    using c g l au h Cut_absent [OF n(2)] unescape_plain(2) [of p encodePath] a q by simp
  then show ?thesis
    unfolding url_Parse_def Cut_absent [OF n(1)] by simp
qed

lemma plain_host_chars:
  assumes "plain_host h"
  shows "list_all host_char h" and "CHR ''%'' \<notin> set h" and "CHR '':'' \<notin> set h" and "CHR ''@'' \<notin> set h"
    and "CHR ''['' \<notin> set h" and "CHR ''?'' \<notin> set h" and "CHR ''#'' \<notin> set h" and "sep \<notin> set h"
    and "\<not> list_ex is_control h"
proof -
  have c: "is_letter x \<or> is_digit x \<or> x = CHR ''.'' \<or> x = CHR ''-''" if "x \<in> set h" for x
    using assms that by (auto simp: plain_host_def list_all_iff)
  have "host_char x" if "x \<in> set h" for x using c [OF that] by (elim disjE) (simp_all add: host_char_def)
  then show "list_all host_char h" by (simp add: list_all_iff)
  have other: "x \<notin> set h" if "\<not> (is_letter x \<or> is_digit x \<or> x = CHR ''.'' \<or> x = CHR ''-'')" for x
    using c that by blast
  show "CHR ''%'' \<notin> set h" "CHR '':'' \<notin> set h" "CHR ''@'' \<notin> set h" "CHR ''['' \<notin> set h"
    "CHR ''?'' \<notin> set h" "CHR ''#'' \<notin> set h" "sep \<notin> set h"
    by (rule other; simp add: is_letter_def is_digit_def byte_def)+
  have "\<not> is_control x" if "x \<in> set h" for x
    using c [OF that] by (auto simp: is_control_def is_letter_def is_digit_def byte_def)
  then show "\<not> list_ex is_control h" by (simp add: list_ex_iff)
qed

lemma digits_chars:
  assumes "list_all is_digit q"
  shows "list_all host_char q" and "CHR ''%'' \<notin> set q" and "CHR '':'' \<notin> set q" and "CHR ''@'' \<notin> set q"
    and "CHR ''?'' \<notin> set q" and "CHR ''#'' \<notin> set q" and "sep \<notin> set q" and "\<not> list_ex is_control q"
proof -
  have c: "is_digit x" if "x \<in> set q" for x using assms that by (simp add: list_all_iff)
  then show "list_all host_char q" by (simp add: list_all_iff host_char_def)
  have other: "x \<notin> set q" if "\<not> is_digit x" for x using c that by blast
  show "CHR ''%'' \<notin> set q" "CHR '':'' \<notin> set q" "CHR ''@'' \<notin> set q" "CHR ''?'' \<notin> set q"
    "CHR ''#'' \<notin> set q" "sep \<notin> set q"
    by (rule other; simp add: is_digit_def byte_def)+
  have "\<not> is_control x" if "x \<in> set q" for x
    using c [OF that] by (auto simp: is_control_def is_digit_def byte_def)
  then show "\<not> list_ex is_control q" by (simp add: list_ex_iff)
qed

lemma last_cut_here: "x \<notin> set b \<Longrightarrow> last_cut x (a @ x # b) = Some (a, x # b)"
  by (simp add: last_cut_def Let_def takeWhile_append)

lemma last_cut_none: "x \<notin> set s \<Longrightarrow> last_cut x s = None"
  by (simp add: last_cut_def)

lemma parse_host_port:
  assumes "plain_host h" and "list_all is_digit port"
  shows "parseAuthority (h @ CHR '':'' # port) = Inr (h @ CHR '':'' # port)"
proof -
  note ph = plain_host_chars [OF assms(1)] and pp = digits_chars [OF assms(2)]
  have n: "last_cut (CHR ''@'') (h @ CHR '':'' # port) = None"
    using ph pp by (intro last_cut_none) auto
  have b: "\<not> HasPrefix (h @ CHR '':'' # port) ''[''"
    using ph(5) assms(1) by (cases h) (auto simp: HasPrefix_def plain_host_def)
  have u: "unescape encodeHost (h @ CHR '':'' # port) = Inr (h @ CHR '':'' # port)"
    using ph pp by (intro unescape_plain(1)) (auto simp: host_char_def)
  have "validOptionalPort (CHR '':'' # port)" using assms(2) by (simp add: validOptionalPort_def)
  then show ?thesis
    unfolding parseAuthority_def n parseHost_def by (simp add: b u last_cut_here pp(3))
qed

lemma parse_tcp_authority:
  assumes a: "CHR ''#'' \<notin> set a" "CHR ''?'' \<notin> set a" "sep \<notin> set a" "\<not> list_ex is_control a"
    and p: "parseAuthority a = Inr h"
  shows "url_Parse (''tcp://'' @ a) = Inr \<lparr>Scheme = ''tcp'', Host = h, Path = ''''\<rparr>"
proof -
  have n: "CHR ''#'' \<notin> set (''tcp://'' @ a)" "CHR ''?'' \<notin> set (''//'' @ a)" using a by auto
  have c: "\<not> list_ex is_control (''tcp://'' @ a)" using a by (simp add: is_control_def byte_def)
  have g: "getScheme (''tcp://'' @ a) = Inr (''tcp'', ''//'' @ a)" by (simp add: scheme_eval)
  have l: "List.map lower ''tcp'' = ''tcp''" by (simp add: lower_def byte_def)
  have h: "HasPrefix (''//'' @ a) ''/''" "HasPrefix (''//'' @ a) ''//''" by (simp_all add: HasPrefix_def)
  have s: "\<forall>c \<in> set a. c \<noteq> sep" using a(3) by auto
  have t: "takeWhile (\<lambda>c. c \<noteq> sep) a = a" "dropWhile (\<lambda>c. c \<noteq> sep) a = ''''"
    using s by (simp_all only: takeWhile_eq_all_conv dropWhile_eq_Nil_conv)
  have "parse_url (''tcp://'' @ a) = Inr \<lparr>Scheme = ''tcp'', Host = h, Path = ''''\<rparr>"
    unfolding parse_url_def using c g h
    by (simp add: Let_def Cut_absent a t p lower_def byte_def)
  then show ?thesis
    unfolding url_Parse_def Cut_absent [OF n(1)] by simp
qed

lemma parse_tcp:
  assumes "plain_host h" and "list_all is_digit port"
  shows "url_Parse (''tcp://'' @ h @ CHR '':'' # port) =
    Inr \<lparr>Scheme = ''tcp'', Host = h @ CHR '':'' # port, Path = ''''\<rparr>"
proof (rule parse_tcp_authority)
  note ph = plain_host_chars [OF assms(1)] and pp = digits_chars [OF assms(2)]
  show "CHR ''#'' \<notin> set (h @ CHR '':'' # port)" "CHR ''?'' \<notin> set (h @ CHR '':'' # port)"
    "sep \<notin> set (h @ CHR '':'' # port)"
    using ph pp by simp_all
  show "\<not> list_ex is_control (h @ CHR '':'' # port)"
    using ph pp by (simp add: is_control_def byte_def)
qed (rule parse_host_port [OF assms])

lemma Clean_name_slash: "plain_comp c \<Longrightarrow> c \<noteq> ''..'' \<Longrightarrow> Clean (c @ [sep]) = c"
proof -
  assume c: "plain_comp c" "c \<noteq> ''..''"
  then have s: "split_on sep (c @ [sep]) = [c, '''']"
    using split_on_append [of sep c "''''"] by (simp add: plain_comp_def)
  have "\<not> IsAbs (c @ [sep])" using c(1) by (cases c) (auto simp: IsAbs_def plain_comp_def)
  then show ?thesis
    unfolding Clean_def s using clean_comps_keep [OF c] by (simp add: clean_comps_skip)
qed

lemma Join_host:
  assumes "plain_host h" and "list_all is_digit port"
  shows "Join [h @ CHR '':'' # port, ''''] = h @ CHR '':'' # port"
proof -
  have "sep \<notin> set (h @ CHR '':'' # port)"
    using plain_host_chars(8) [OF assms(1)] digits_chars(7) [OF assms(2)] by auto
  moreover have "x \<noteq> ''.''" "x \<noteq> ''..''" if "CHR '':'' \<in> set x" for x using that by auto
  ultimately have "plain_comp (h @ CHR '':'' # port)" "h @ CHR '':'' # port \<noteq> ''..''"
    by (auto simp: plain_comp_def)
  then have "Clean ((h @ CHR '':'' # port) @ [sep]) = h @ CHR '':'' # port" by (rule Clean_name_slash)
  then show ?thesis by (simp add: Join_def)
qed

text \<open>
  Which address is listened on: for \<open>unix://\<close> and an absolute path, the cleaned path, and for \<open>tcp://\<close> with
  host and port, both together. An endpoint with another scheme, or none, is refused without listening.
\<close>

theorem listen_address:
  assumes "plain_url p" and "IsAbs p" and "plain_host h" and "list_all is_digit port"
    and "url_Parse e = Inr u" and "Scheme u \<notin> set [''tcp'', ''tcp4'', ''tcp6'', ''unix'', ''unixpacket'']"
  shows "ListenerFromUrl Listen (''unix://'' @ p) = Listen ''unix'' (Clean p) \<and>
    ListenerFromUrl Listen (''tcp://'' @ h @ CHR '':'' # port) = Listen ''tcp'' (h @ CHR '':'' # port) \<and>
    ListenerFromUrl Listen e = Inl (ErrorString ''Can't listen'')"
proof -
  have "p \<noteq> ''''" using assms(2) by (simp add: IsAbs_def)
  then have "Join ['''', p] = Clean p" by (simp add: Join_def)
  then show ?thesis
    using parse_unix [OF assms(1,2)] parse_tcp [OF assms(3,4)] Join_host [OF assms(3,4)] assms(5,6)
    by (simp add: ListenerFromUrl_def)
qed

theorem listen_address_witness:
  "ListenerFromUrl (\<lambda>net addr. Inr (net, addr)) ''unix:///run/csi.sock'' = Inr (''unix'', ''/run/csi.sock'')"
proof -
  have p: "plain_url ''/run/csi.sock''" "IsAbs ''/run/csi.sock''"
    by (simp_all add: plain_url_def IsAbs_def is_control_def byte_def)
  have h: "plain_host ''localhost''" "list_all is_digit ''80''"
    by (simp_all add: plain_host_def is_letter_def is_digit_def byte_def)
  have u: "url_Parse ''http:'' = Inr \<lparr>Scheme = ''http'', Host = '''', Path = ''''\<rparr>" by code_simp
  have "Clean ''/run/csi.sock'' = ''/run/csi.sock''" by code_simp
  then show ?thesis
    using listen_address [OF p h u, of "\<lambda>net addr. Inr (net, addr)"] by simp
qed

text \<open>Two slashes and a relative path give a relative address, whose first name is parsed as a host.\<close>

lemma relative_socket: "ListenerFromUrl Listen ''unix://run/csi.sock'' = Listen ''unix'' ''run/csi.sock''"
proof -
  have "url_Parse ''unix://run/csi.sock'' = Inr \<lparr>Scheme = ''unix'', Host = ''run'', Path = ''/csi.sock''\<rparr>"
    by code_simp
  moreover have "Join [''run'', ''/csi.sock''] = ''run/csi.sock''" by code_simp
  ultimately show ?thesis by (simp add: ListenerFromUrl_def)
qed

end
