(* ===== verification/Driver.thy ===== *)
theory Driver
  imports Identity Controller NodeServer Listener
begin

text \<open>
  \<open>driver/driver.go\<close> and \<open>server/server.go\<close>: how the three services are put together into one gRPC
  server, the logging interceptor around every call, and the life of the server between \<open>Start\<close> and
  \<open>Stop\<close>. The gRPC library is a parameter.
\<close>

section \<open>Assembly\<close>

text \<open>\<open>server.New\<close> registers the three services, whatever their managers implement.\<close>

record ('l, 's, 'q, 'p, 'x) grpc_services =
  srv_lis :: 'l
  srv_identity :: "'s IdentityServer"
  srv_controller :: "('s, 'q, 'p) ControllerServer"
  srv_node :: "'x Server"

definition server_New ::
  "'l \<Rightarrow> 's IdentityServer \<Rightarrow> ('s, 'q, 'p) ControllerServer \<Rightarrow> 'x Server \<Rightarrow>
    ('l, 's, 'q, 'p, 'x) grpc_services" where
  "server_New lis ids cs ns =
    \<lparr>srv_lis = lis, srv_identity = ids, srv_controller = cs, srv_node = ns\<rparr>"

text \<open>A controller manager is an interface value and may be nil; \<open>controller.New\<close> is called all the same.\<close>

definition NewWithListener ::
  "'l \<Rightarrow> string \<Rightarrow> string \<Rightarrow> 's identity_manager \<Rightarrow> ('s, 'q, 'p) controller_manager option \<Rightarrow>
    'x Server \<Rightarrow> ('l, 's, 'q, 'p, 'x) grpc_services" where
  "NewWithListener lis name version idm cm ns =
    (let ids = NewIdentity name version (cm \<noteq> None) idm;
         cs = NewController (case cm of None \<Rightarrow> nil_manager | Some m \<Rightarrow> m)
     in server_New lis ids cs ns)"

definition driver_New ::
  "(string \<Rightarrow> string \<Rightarrow> goerror + 'l) \<Rightarrow> string \<Rightarrow> string \<Rightarrow> string \<Rightarrow> 's identity_manager \<Rightarrow>
    ('s, 'q, 'p) controller_manager option \<Rightarrow> 'x Server \<Rightarrow> goerror + ('l, 's, 'q, 'p, 'x) grpc_services" where
  "driver_New Listen endpoint name version idm cm ns =
    (case ListenerFromUrl Listen endpoint of
       Inl err \<Rightarrow> Inl err
     | Inr lis \<Rightarrow> Inr (NewWithListener lis name version idm cm ns))"

text \<open>
  C35. The driver announces the controller service exactly when it is given a controller manager. The
  service is registered in any case: without a manager \<open>ControllerGetCapabilities\<close> answers an empty list and
  every other of its calls is Unimplemented. \<open>ValidateVolumeCapabilities\<close> is Unimplemented with a manager, too.
\<close>

theorem driver_controller_optional:
  fixes cm :: "('s, 'q, 'p) controller_manager option"
  assumes "d = NewWithListener lis name version idm cm ns" and "cs = srv_controller d"
  shows "(\<exists>l. GetPluginCapabilities (srv_identity d) = answer l \<and>
      (Service_CONTROLLER_SERVICE \<in> set l \<longleftrightarrow> cm \<noteq> None)) \<and>
    (cm = None \<longrightarrow> list_all unserved
        [CreateVolume cs, DeleteVolume cs, ControllerPublishVolume cs, ControllerUnpublishVolume cs,
         ValidateVolumeCapabilities cs, ListVolumes cs, GetCapacity cs, CreateSnapshot cs,
         DeleteSnapshot cs, ListSnapshots cs, ControllerExpandVolume cs, ControllerGetVolume cs] \<and>
      ControllerGetCapabilities cs q = ret (answer [])) \<and>
    unserved (ValidateVolumeCapabilities cs)"
proof -
  have v: "unserved (ValidateVolumeCapabilities c)" for c :: "('s, 'q, 'p) ControllerServer"
    by (auto simp: unserved_def ValidateVolumeCapabilities_def)
  have d: "srv_identity d = NewIdentity name version (cm \<noteq> None) idm"
    "cs = NewController (case cm of None \<Rightarrow> nil_manager | Some m \<Rightarrow> m)"
    using assms by (simp_all add: NewWithListener_def server_New_def)
  then show ?thesis
    by (simp add: v GetPluginCapabilities_def NewIdentity_def NewController_def nil_manager_def
        controller_calls ControllerGetCapabilities_def interface_caps_def)
qed

definition demo_driver :: "(unit, nat, string, string, unit) grpc_services" where
  "demo_driver = NewWithListener () ''csi.example'' ''1'' \<lparr>Probe_impl = None\<rparr> None
     \<lparr>nodeID = ''n'', manager = \<lparr>Validate = None, MountI = None, Populate = None, Block = None,
        Expand = False\<rparr>,
      mounter = \<lparr>IsLikelyNotMountPoint = (\<lambda>_. ret (Inr True)), ListMounts = ret (Inr []),
        Unmount = (\<lambda>_. ret None), MountSensitive = (\<lambda>_ _ _ _ _. ret None),
        MountSensitiveWithoutSystemd = (\<lambda>_ _ _ _ _. ret None),
        FormatAndMountSensitive = (\<lambda>_ _ _ _ _. ret None)\<rparr>,
      maxVolumesPerNode = 1, segments = None, timeout_ns = 0, platform = Linux, library = probe_lib\<rparr>"

theorem driver_controller_optional_witness:
  "GetPluginCapabilities (srv_identity demo_driver) = answer [] \<and>
   unserved (CreateVolume (srv_controller demo_driver))"
  using driver_controller_optional [OF demo_driver_def refl, of "''q''"]
  by (auto simp: GetPluginCapabilities_def)

section \<open>The logging interceptor\<close>

text \<open>
  Requests and responses are protobuf messages; \<open>protosanitizer.StripSecrets\<close> is a parameter. What is
  logged is kept as a list of entries, newest first. The context is left out.
\<close>

datatype 'm log_entry =
  LogHandling string 'm
| LogFailed string 'm goerror
| LogCompleted string 'm 'm

record ('s, 'm) logged =
  lg_state :: 's
  lg_entries :: "'m log_entry list"

definition loggingInterceptor ::
  "('p \<Rightarrow> 'm) \<Rightarrow> ('p option \<Rightarrow> 'm) \<Rightarrow> string \<Rightarrow> ('p \<Rightarrow> ('s, 'p reply) state) \<Rightarrow> 'p \<Rightarrow>
    (('s, 'm) logged, 'p reply) state" where
  "loggingInterceptor StripReq StripResp fullMethod handler req = State (\<lambda>s.
    let r = StripReq req;
        s1 = s\<lparr>lg_entries := LogHandling fullMethod r # lg_entries s\<rparr>;
        ((resp, err), t) = run_state (handler req) (lg_state s1);
        entry = (case err of Some e \<Rightarrow> LogFailed fullMethod r e
                 | None \<Rightarrow> LogCompleted fullMethod r (StripResp resp))
    in ((resp, err), s1\<lparr>lg_state := t, lg_entries := entry # lg_entries s1\<rparr>))"

text \<open>
  The interceptor is transparent: the reply and the state are the handler's, and it logs exactly two
  entries whose messages have been through \<open>StripSecrets\<close>, the second saying whether the call failed.
\<close>

theorem interceptor_transparent:
  "run_state (loggingInterceptor f g m handler req) s =
    (fst (run_state (handler req) (lg_state s)),
     \<lparr>lg_state = snd (run_state (handler req) (lg_state s)),
      lg_entries =
        (case snd (fst (run_state (handler req) (lg_state s))) of
           Some e \<Rightarrow> LogFailed m (f req) e
         | None \<Rightarrow> LogCompleted m (f req) (g (fst (fst (run_state (handler req) (lg_state s)))))) #
        LogHandling m (f req) # lg_entries s\<rparr>)"
  by (cases s) (simp add: loggingInterceptor_def Let_def case_prod_beta split: option.split)

section \<open>Start and Stop\<close>

text \<open>
  What the driver uses of \<open>*grpc.Server\<close>: the server's own activity, \<open>Serve\<close> returning with an error or
  none, and \<open>GracefulStop\<close> returning. The library documents that \<open>GracefulStop\<close> stops the server from
  accepting connections and returns when all pending calls are finished; \<open>quiet\<close> stands for that. \<open>hard_stop\<close> is
  the return of the library's \<open>Stop\<close>.
\<close>

record 'g grpc_lib =
  activity :: "'g \<Rightarrow> 'g \<Rightarrow> bool"
  serve_returns :: "'g \<Rightarrow> goerror option \<Rightarrow> 'g \<Rightarrow> bool"
  graceful_stop :: "'g \<Rightarrow> 'g \<Rightarrow> bool"
  hard_stop :: "'g \<Rightarrow> 'g \<Rightarrow> bool"
  quiet :: "'g \<Rightarrow> bool"

text \<open>
  The three methods of \<open>NonBlockingGRPCServer\<close>, by what their return does to the server of the library. The driver
  uses the first two.
\<close>

definition server_Start :: "'g grpc_lib \<Rightarrow> 'g \<Rightarrow> goerror option \<Rightarrow> 'g \<Rightarrow> bool" where
  "server_Start lib = serve_returns lib"

definition server_Stop :: "'g grpc_lib \<Rightarrow> 'g \<Rightarrow> 'g \<Rightarrow> bool" where
  "server_Stop lib = graceful_stop lib"

definition server_ForceStop :: "'g grpc_lib \<Rightarrow> 'g \<Rightarrow> 'g \<Rightarrow> bool" where
  "server_ForceStop lib = hard_stop lib"

definition grpc_laws :: "'g grpc_lib \<Rightarrow> bool" where
  "grpc_laws lib \<longleftrightarrow>
    (\<forall>g g'. graceful_stop lib g g' \<longrightarrow> quiet lib g') \<and>
    (\<forall>g g'. activity lib g g' \<longrightarrow> quiet lib g \<longrightarrow> quiet lib g') \<and>
    (\<forall>g e g'. serve_returns lib g e g' \<longrightarrow> quiet lib g \<longrightarrow> quiet lib g')"

text \<open>
  \<open>Driver.Start\<close> is two threads: the goroutine that serves, logs an error and closes \<open>done\<close>, and the
  caller, which waits for the context or \<open>done\<close> and then stops the server.
\<close>

datatype serve_phase = InServe | ServeLogged | DoneClosed

datatype start_phase = Selecting | CallingStop | StartReturned

record 'g driver_run =
  grpc :: 'g
  serve_at :: serve_phase
  start_at :: start_phase
  ctx_done :: bool
  printed :: "goerror list"

definition driver_init :: "'g \<Rightarrow> 'g driver_run" where
  "driver_init g = \<lparr>grpc = g, serve_at = InServe, start_at = Selecting, ctx_done = False, printed = []\<rparr>"

inductive driver_step :: "'g grpc_lib \<Rightarrow> 'g driver_run \<Rightarrow> 'g driver_run \<Rightarrow> bool" for lib where
  grpc_moves: "activity lib (grpc d) g \<Longrightarrow> driver_step lib d (d\<lparr>grpc := g\<rparr>)"
| cancelled: "driver_step lib d (d\<lparr>ctx_done := True\<rparr>)"
| serve_end: "serve_at d = InServe \<Longrightarrow> server_Start lib (grpc d) e g \<Longrightarrow>
    driver_step lib d (d\<lparr>grpc := g, serve_at := ServeLogged,
      printed := (case e of None \<Rightarrow> printed d | Some err \<Rightarrow> err # printed d)\<rparr>)"
| close_done: "serve_at d = ServeLogged \<Longrightarrow> driver_step lib d (d\<lparr>serve_at := DoneClosed\<rparr>)"
| select_ctx: "start_at d = Selecting \<Longrightarrow> ctx_done d \<Longrightarrow> driver_step lib d (d\<lparr>start_at := CallingStop\<rparr>)"
| select_done: "start_at d = Selecting \<Longrightarrow> serve_at d = DoneClosed \<Longrightarrow>
    driver_step lib d (d\<lparr>start_at := CallingStop\<rparr>)"
| start_stops: "start_at d = CallingStop \<Longrightarrow> server_Stop lib (grpc d) g \<Longrightarrow>
    driver_step lib d (d\<lparr>grpc := g, start_at := StartReturned\<rparr>)"
| other_stop: "server_Stop lib (grpc d) g \<Longrightarrow> driver_step lib d (d\<lparr>grpc := g\<rparr>)"

inductive_simps driver_step_iff: "driver_step lib d d'"

definition driver_reachable :: "'g grpc_lib \<Rightarrow> 'g \<Rightarrow> 'g driver_run \<Rightarrow> bool" where
  "driver_reachable lib g0 d \<longleftrightarrow> (driver_step lib)\<^sup>*\<^sup>* (driver_init g0) d"

definition driver_inv :: "'g grpc_lib \<Rightarrow> 'g driver_run \<Rightarrow> bool" where
  "driver_inv lib d \<longleftrightarrow>
    (start_at d = StartReturned \<longrightarrow> quiet lib (grpc d)) \<and>
    (start_at d \<noteq> Selecting \<longrightarrow> ctx_done d \<or> serve_at d = DoneClosed) \<and>
    length (printed d) \<le> (if serve_at d = InServe then 0 else 1)"

lemma driver_inv_init: "driver_inv lib (driver_init g)"
  by (simp add: driver_inv_def driver_init_def)

lemma driver_inv_step:
  assumes laws: "grpc_laws lib" and step: "driver_step lib d d'" and inv: "driver_inv lib d"
  shows "driver_inv lib d'"
  using step laws inv
  by (cases rule: driver_step.cases)
    (auto simp: driver_inv_def grpc_laws_def server_Start_def server_Stop_def split: option.splits if_splits)

lemma driver_reachable_inv:
  assumes "grpc_laws lib" and "driver_reachable lib g0 d"
  shows "driver_inv lib d"
proof -
  from assms(2) have "(driver_step lib)\<^sup>*\<^sup>* (driver_init g0) d"
    by (simp add: driver_reachable_def)
  then show ?thesis
    by (induction rule: rtranclp_induct) (auto intro: driver_inv_init driver_inv_step [OF assms(1)])
qed

text \<open>
  C37. \<open>Start\<close> returns only after the context was cancelled or the server stopped serving; when it has
  returned, no call is in progress, and none will be, whatever the server, the serving goroutine and
  other callers of \<open>Stop\<close> do afterwards. The serving error is printed at most once.
\<close>

theorem start_returns_quiet:
  assumes "grpc_laws lib" and "driver_reachable lib g0 d" and "start_at d = StartReturned"
    and "(driver_step lib)\<^sup>*\<^sup>* d d'"
  shows "(ctx_done d \<or> serve_at d = DoneClosed) \<and> start_at d' = StartReturned \<and>
    quiet lib (grpc d') \<and> length (printed d') \<le> 1"
proof -
  have stays: "start_at d' = StartReturned"
    using assms(4,3)
  proof (induction rule: rtranclp_induct)
    case (step y z)
    then show ?case by (auto elim: driver_step.cases)
  qed simp
  have "driver_reachable lib g0 d'"
    using assms(2,4) by (simp add: driver_reachable_def)
  from driver_reachable_inv [OF assms(1) this] driver_reachable_inv [OF assms(1,2)] stays assms(3)
  show ?thesis by (auto simp: driver_inv_def split: if_splits)
qed

definition demo_grpc :: "bool grpc_lib" where
  "demo_grpc = \<lparr>activity = (\<lambda>g g'. g' = g), serve_returns = (\<lambda>g e g'. g \<and> e = None \<and> g' = g),
     graceful_stop = (\<lambda>g g'. g'), hard_stop = (\<lambda>g g'. g'), quiet = (\<lambda>g. g)\<rparr>"

theorem start_returns_quiet_witness:
  "quiet demo_grpc (grpc \<lparr>grpc = True, serve_at = InServe, start_at = StartReturned,
     ctx_done = True, printed = []\<rparr>)"
proof -
  let ?a = "(driver_init False)\<lparr>ctx_done := True\<rparr>"
  let ?b = "?a\<lparr>start_at := CallingStop\<rparr>"
  let ?c = "?b\<lparr>grpc := True, start_at := StartReturned\<rparr>"
  have laws: "grpc_laws demo_grpc" by (simp add: grpc_laws_def demo_grpc_def)
  have "driver_step demo_grpc (driver_init False) ?a" by (rule driver_step.cancelled)
  moreover have "driver_step demo_grpc ?a ?b"
    by (rule driver_step.select_ctx) (simp_all add: driver_init_def)
  moreover have "driver_step demo_grpc ?b ?c"
    by (rule driver_step.start_stops) (simp_all add: demo_grpc_def server_Stop_def)
  ultimately have "driver_reachable demo_grpc False ?c"
    unfolding driver_reachable_def by (meson rtranclp.rtrancl_into_rtrancl rtranclp.rtrancl_refl)
  moreover have "start_at ?c = StartReturned" by simp
  ultimately have "quiet demo_grpc (grpc ?c)"
    using start_returns_quiet [OF laws, of False ?c ?c] by blast
  then show ?thesis by (simp add: driver_init_def)
qed

end
