(* ===== verification/Strconv.thy ===== *)
theory Strconv
  imports GoErrors
begin

text \<open>
  The parts of \<open>strconv\<close> and of number formatting that the repository uses: decimal printing, zero
  padding, \<open>ParseUint\<close> and \<open>ParseInt\<close> in base 10 with 64 bits, and \<open>strings.TrimSpace\<close> and
  \<open>strings.Fields\<close> for ASCII white space.
\<close>

section \<open>Printing\<close>

definition digit_char :: "nat \<Rightarrow> char" where
  "digit_char d = char_of (48 + d)"

fun show_nat :: "nat \<Rightarrow> string" where
  "show_nat n = (if n < 10 then [digit_char n] else show_nat (n div 10) @ [digit_char (n mod 10)])"

declare show_nat.simps [simp del]

definition show_int :: "int \<Rightarrow> string" where
  "show_int z = (if z < 0 then CHR ''-'' # show_nat (nat (- z)) else show_nat (nat z))"

text \<open>\<open>%0wd\<close> for a number that is not negative.\<close>

definition zero_pad :: "nat \<Rightarrow> nat \<Rightarrow> string" where
  "zero_pad w n = (let s = show_nat n in replicate (w - length s) (CHR ''0'') @ s)"

section \<open>Parsing\<close>

definition digit_val :: "char \<Rightarrow> nat option" where
  "digit_val c = (let n = of_char c :: nat in if 48 \<le> n \<and> n \<le> 57 then Some (n - 48) else None)"

datatype num_fault = ErrSyntax | ErrRange

definition fault_text :: "num_fault \<Rightarrow> string" where
  "fault_text f = (case f of ErrSyntax \<Rightarrow> ''invalid syntax'' | ErrRange \<Rightarrow> ''value out of range'')"

text \<open>The digits are read from the left; the first fault found is the one reported.\<close>

fun read_digits :: "nat \<Rightarrow> nat \<Rightarrow> string \<Rightarrow> num_fault + nat" where
  "read_digits bound n [] = Inr n"
| "read_digits bound n (c # cs) =
    (case digit_val c of
       None \<Rightarrow> Inl ErrSyntax
     | Some d \<Rightarrow> if 10 * n + d \<ge> bound then Inl ErrRange else read_digits bound (10 * n + d) cs)"

definition read_uint :: "string \<Rightarrow> num_fault + nat" where
  "read_uint s = (if s = '''' then Inl ErrSyntax else read_digits 18446744073709551616 0 s)"

definition ParseUint :: "string \<Rightarrow> goerror + nat" where
  "ParseUint s =
    (case read_uint s of Inl f \<Rightarrow> Inl (NumError ''ParseUint'' s (fault_text f)) | Inr n \<Rightarrow> Inr n)"

definition read_int :: "string \<Rightarrow> num_fault + int" where
  "read_int s =
    (let neg = (s \<noteq> '''' \<and> hd s = CHR ''-'');
         body = (if s \<noteq> '''' \<and> (hd s = CHR ''-'' \<or> hd s = CHR ''+'') then tl s else s)
     in if s = '''' then Inl ErrSyntax
        else (case read_uint body of
                Inl f \<Rightarrow> Inl f
              | Inr n \<Rightarrow>
                  if \<not> neg \<and> n \<ge> 9223372036854775808 then Inl ErrRange
                  else if neg \<and> n > 9223372036854775808 then Inl ErrRange
                  else Inr (if neg then - int n else int n)))"

definition ParseInt :: "string \<Rightarrow> goerror + int" where
  "ParseInt s =
    (case read_int s of Inl f \<Rightarrow> Inl (NumError ''ParseInt'' s (fault_text f)) | Inr n \<Rightarrow> Inr n)"

section \<open>White space\<close>

definition is_space :: "char \<Rightarrow> bool" where
  "is_space c = (let n = of_char c :: nat in n = 32 \<or> (9 \<le> n \<and> n \<le> 13))"

definition TrimSpace :: "string \<Rightarrow> string" where
  "TrimSpace s = rev (dropWhile is_space (rev (dropWhile is_space s)))"

lemma Fields_shorter:
  "dropWhile is_space s \<noteq> [] \<Longrightarrow>
    length (dropWhile (\<lambda>c. \<not> is_space c) (dropWhile is_space s)) < length s"
proof -
  assume "dropWhile is_space s \<noteq> []"
  then obtain c cs where t: "dropWhile is_space s = c # cs" by (cases "dropWhile is_space s") auto
  then have "\<not> is_space c" by (metis dropWhile_eq_Cons_conv)
  with t have "length (dropWhile (\<lambda>c. \<not> is_space c) (dropWhile is_space s)) < length (c # cs)"
    by (simp add: length_dropWhile_le less_Suc_eq_le)
  also have "length (c # cs) \<le> length s" using t length_dropWhile_le by metis
  finally show ?thesis .
qed

function Fields :: "string \<Rightarrow> string list" where
  "Fields s =
    (let t = dropWhile is_space s
     in if t = '''' then []
        else takeWhile (\<lambda>c. \<not> is_space c) t # Fields (dropWhile (\<lambda>c. \<not> is_space c) t))"
  by pat_completeness auto
termination
  by (relation "measure length") (simp_all add: Fields_shorter)

declare Fields.simps [simp del]

section \<open>Round trips and bounds\<close>

lemma digit_val_char: "d < 10 \<Longrightarrow> digit_val (digit_char d) = Some d"
  by (simp add: digit_val_def digit_char_def)

lemma read_digits_append:
  "read_digits b n (xs @ ys) = (case read_digits b n xs of Inl f \<Rightarrow> Inl f | Inr m \<Rightarrow> read_digits b m ys)"
  by (induction xs arbitrary: n) (auto split: option.split)

lemma read_show_nat:
  "n < b \<Longrightarrow> read_digits b 0 (show_nat n) = Inr n"
proof (induction n rule: show_nat.induct)
  case (1 n)
  show ?case
  proof (cases "n < 10")
    case True
    then show ?thesis using 1(2) by (simp add: show_nat.simps [of n] digit_val_char)
  next
    case False
    then have "read_digits b 0 (show_nat (n div 10)) = Inr (n div 10)"
      using 1 by (simp add: div_le_dividend le_less_trans)
    with False 1(2) show ?thesis
      by (simp add: show_nat.simps [of n] read_digits_append digit_val_char mod_less_divisor)
  qed
qed

lemma show_nat_not_Nil [simp]: "show_nat n \<noteq> ''''"
  by (simp add: show_nat.simps [of n])

lemma show_nat_digits: "c \<in> set (show_nat n) \<Longrightarrow> digit_val c \<noteq> None"
proof (induction n rule: show_nat.induct)
  case (1 n)
  then show ?case
    by (cases "n < 10") (auto simp: show_nat.simps [of n] digit_val_char)
qed

lemma ParseUint_show: "n < 2 ^ 64 \<Longrightarrow> ParseUint (show_nat n) = Inr n"
  by (simp add: ParseUint_def read_uint_def read_show_nat)

lemma read_digits_bound: "read_digits b n s = Inr m \<Longrightarrow> n < b \<Longrightarrow> m < b"
  by (induction s arbitrary: n) (auto split: option.splits if_splits)

lemma ParseUint_bound: "ParseUint s = Inr n \<Longrightarrow> n < 2 ^ 64"
  using read_digits_bound [of 18446744073709551616 0 s n]
  by (auto simp: ParseUint_def read_uint_def split: sum.splits if_splits)

lemma ParseInt_bound: "ParseInt s = Inr z \<Longrightarrow> - (2 ^ 63) \<le> z \<and> z < 2 ^ 63"
  by (auto simp: ParseInt_def read_int_def Let_def split: sum.splits if_splits)

lemma digit_not_sign: "digit_val c \<noteq> None \<Longrightarrow> c \<noteq> CHR ''-'' \<and> c \<noteq> CHR ''+''"
  by (auto simp: digit_val_def)

lemma ParseInt_show: "- (2 ^ 63) \<le> z \<Longrightarrow> z < 2 ^ 63 \<Longrightarrow> ParseInt (show_int z) = Inr z"
proof -
  assume b: "- (2 ^ 63) \<le> z" "z < 2 ^ 63"
  show ?thesis
  proof (cases "z < 0")
    case True
    then have "read_digits 18446744073709551616 0 (show_nat (nat (- z))) = Inr (nat (- z))"
      using b by (intro read_show_nat) auto
    with True b show ?thesis
      by (simp add: ParseInt_def read_int_def show_int_def read_uint_def Let_def)
  next
    case False
    then have "read_digits 18446744073709551616 0 (show_nat (nat z)) = Inr (nat z)"
      using b by (intro read_show_nat) auto
    moreover have "hd (show_nat (nat z)) \<noteq> CHR ''-''" "hd (show_nat (nat z)) \<noteq> CHR ''+''"
      using digit_not_sign [OF show_nat_digits [of "hd (show_nat (nat z))" "nat z"]] by auto
    ultimately show ?thesis
      using False b by (simp add: ParseInt_def read_int_def show_int_def read_uint_def Let_def)
  qed
qed

end
