(* ===== verification/Json.thy ===== *)
theory Json
  imports Strconv "HOL-Library.List_Lexorder" "HOL-Library.Char_ord"
begin

text \<open>
  \<open>encoding/json\<close> as far as the storage code uses it: writing strings and objects the way \<open>json.Marshal\<close>
  does, and reading any JSON text into a value. Strings are lists of bytes, as in Go. A text that is not
  JSON is the value \<open>None\<close>; the wording of the decoder's errors is left out.
\<close>

section \<open>UTF-8\<close>

abbreviation byte :: "char \<Rightarrow> nat" where
  "byte c \<equiv> of_char c"

definition starts_in :: "nat \<Rightarrow> nat \<Rightarrow> string \<Rightarrow> bool" where
  "starts_in lo hi s = (case s of [] \<Rightarrow> False | c # _ \<Rightarrow> lo \<le> byte c \<and> byte c \<le> hi)"

text \<open>The number of bytes of the first character, or 0 when the bytes are not UTF-8.\<close>

fun utf8_len :: "string \<Rightarrow> nat" where
  "utf8_len [] = 0"
| "utf8_len (c # cs) =
    (let n = byte c in
     if n < 0x80 then 1
     else if 0xC2 \<le> n \<and> n \<le> 0xDF then (if starts_in 0x80 0xBF cs then 2 else 0)
     else if 0xE0 \<le> n \<and> n \<le> 0xEF then
       (if starts_in (if n = 0xE0 then 0xA0 else 0x80) (if n = 0xED then 0x9F else 0xBF) cs \<and>
           starts_in 0x80 0xBF (drop 1 cs) then 3 else 0)
     else if 0xF0 \<le> n \<and> n \<le> 0xF4 then
       (if starts_in (if n = 0xF0 then 0x90 else 0x80) (if n = 0xF4 then 0x8F else 0xBF) cs \<and>
           starts_in 0x80 0xBF (drop 1 cs) \<and> starts_in 0x80 0xBF (drop 2 cs) then 4 else 0)
     else 0)"

lemma utf8_len_le: "utf8_len s \<le> length s"
  by (cases s; cases "tl s"; cases "tl (tl s)"; cases "tl (tl (tl s))")
    (auto simp: starts_in_def Let_def)

function valid_utf8 :: "string \<Rightarrow> bool" where
  "valid_utf8 s =
    (if s = '''' then True else if utf8_len s = 0 then False else valid_utf8 (drop (utf8_len s) s))"
  by pat_completeness auto
termination
  by (relation "measure length") auto

declare valid_utf8.simps [simp del]

lemma starts_in_append: "starts_in lo hi s \<Longrightarrow> starts_in lo hi (s @ t)"
  by (cases s) (simp_all add: starts_in_def)

lemma starts_in_take: "starts_in lo hi s \<Longrightarrow> 0 < n \<Longrightarrow> starts_in lo hi (take n s)"
  by (cases s; cases n) (simp_all add: starts_in_def)

text \<open>The length depends on the bytes of the first character only.\<close>

lemma utf8_len_take: "utf8_len s = k \<Longrightarrow> 0 < k \<Longrightarrow> utf8_len (take k s @ t) = k"
  by (cases s; cases "tl s"; cases "tl (tl s)"; cases "tl (tl (tl s))")
    (auto simp: starts_in_def Let_def split: if_splits)

definition utf8_char :: "nat \<Rightarrow> string" where
  "utf8_char r =
    List.map char_of
      (if r < 0x80 then [r]
       else if r < 0x800 then [0xC0 + r div 64, 0x80 + r mod 64]
       else if r < 0x10000 then [0xE0 + r div 4096, 0x80 + r div 64 mod 64, 0x80 + r mod 64]
       else [0xF0 + r div 262144, 0x80 + r div 4096 mod 64, 0x80 + r div 64 mod 64, 0x80 + r mod 64])"

definition utf8_error :: string where
  "utf8_error = utf8_char 0xFFFD"

section \<open>Strings\<close>

definition esc :: "string \<Rightarrow> string" where
  "esc s = CHR 0x5C # s"

text \<open>One character and how it is written: \<open>json.Marshal\<close> also escapes \<open><\<close>, \<open>>\<close>, \<open>&\<close> and the separators U+2028 and U+2029.\<close>

definition write_char :: "string \<Rightarrow> string \<times> string" where
  "write_char s =
    (let c = hd s; n = byte c; k = utf8_len s in
     if n < 0x80 then
       (if n = 0x22 \<or> n = 0x5C then esc [c]
        else if n = 10 then esc ''n'' else if n = 13 then esc ''r'' else if n = 9 then esc ''t''
        else if n < 0x20 \<or> n = 0x26 \<or> n = 0x3C \<or> n = 0x3E then
          esc (''u00'' @ [hex_digit (n div 16), hex_digit (n mod 16)])
        else [c], tl s)
     else if k = 0 then (esc ''ufffd'', tl s)
     else if take k s = utf8_char 0x2028 then (esc ''u2028'', drop k s)
     else if take k s = utf8_char 0x2029 then (esc ''u2029'', drop k s)
     else (take k s, drop k s))"

lemma write_char_shorter: "s \<noteq> '''' \<Longrightarrow> length (snd (write_char s)) < length s"
  by (auto simp: write_char_def Let_def)

function write_chars :: "string \<Rightarrow> string" where
  "write_chars s =
    (if s = '''' then '''' else (case write_char s of (out, rest) \<Rightarrow> out @ write_chars rest))"
  by pat_completeness auto
termination
proof (relation "measure length")
  fix s out rest
  assume "s \<noteq> ''''" and "(out, rest) = write_char s"
  then show "(rest, s) \<in> measure length"
    using write_char_shorter [of s] by (metis in_measure snd_conv)
qed simp

declare write_chars.simps [simp del]

definition print_string :: "string \<Rightarrow> string" where
  "print_string s = CHR 0x22 # write_chars s @ [CHR 0x22]"

text \<open>Reading: four hexadecimal digits, one escape, one character, and the characters up to the quote.\<close>

definition hex_val :: "char \<Rightarrow> nat option" where
  "hex_val c = (let n = byte c in
     if 48 \<le> n \<and> n \<le> 57 then Some (n - 48)
     else if 97 \<le> n \<and> n \<le> 102 then Some (n - 87)
     else if 65 \<le> n \<and> n \<le> 70 then Some (n - 55) else None)"

fun read_hex4 :: "string \<Rightarrow> (nat \<times> string) option" where
  "read_hex4 (a # b # c # d # s) =
    (case (hex_val a, hex_val b, hex_val c, hex_val d) of
       (Some w, Some x, Some y, Some z) \<Rightarrow> Some (((w * 16 + x) * 16 + y) * 16 + z, s)
     | _ \<Rightarrow> None)"
| "read_hex4 _ = None"

text \<open>A surrogate must be the first of a pair; one that is alone is replaced.\<close>

definition read_rune :: "string \<Rightarrow> (string \<times> string) option" where
  "read_rune s =
    (case read_hex4 s of
       None \<Rightarrow> None
     | Some (r, s1) \<Rightarrow>
         if r < 0xD800 \<or> 0xDFFF < r then Some (utf8_char r, s1)
         else
           (case (if take 2 s1 = esc ''u'' then read_hex4 (drop 2 s1) else None) of
              Some (r2, s2) \<Rightarrow>
                if r \<le> 0xDBFF \<and> 0xDC00 \<le> r2 \<and> r2 \<le> 0xDFFF
                then Some (utf8_char (0x10000 + (r - 0xD800) * 1024 + (r2 - 0xDC00)), s2)
                else Some (utf8_error, s1)
            | None \<Rightarrow> Some (utf8_error, s1)))"

definition read_escape :: "string \<Rightarrow> (string \<times> string) option" where
  "read_escape s =
    (case s of
       [] \<Rightarrow> None
     | c # cs \<Rightarrow>
         (let n = byte c in
          if n = 0x22 \<or> n = 0x5C \<or> n = 0x2F then Some ([c], cs)
          else if c = CHR ''b'' then Some ([char_of (8 :: nat)], cs)
          else if c = CHR ''f'' then Some ([char_of (12 :: nat)], cs)
          else if c = CHR ''n'' then Some ([char_of (10 :: nat)], cs)
          else if c = CHR ''r'' then Some ([char_of (13 :: nat)], cs)
          else if c = CHR ''t'' then Some ([char_of (9 :: nat)], cs)
          else if c = CHR ''u'' then read_rune cs
          else None))"

definition read_char :: "string \<Rightarrow> (string \<times> string) option" where
  "read_char s =
    (let c = hd s; n = byte c; k = utf8_len s in
     if n = 0x5C then read_escape (tl s)
     else if n < 0x20 then None
     else if n < 0x80 then Some ([c], tl s)
     else if k = 0 then Some (utf8_error, tl s)
     else Some (take k s, drop k s))"

lemma read_hex4_shorter: "read_hex4 s = Some (r, t) \<Longrightarrow> length t < length s"
  by (cases s rule: read_hex4.cases) (auto split: option.splits)

lemma read_rune_shorter: "read_rune s = Some (b, t) \<Longrightarrow> length t < length s"
  unfolding read_rune_def
  by (fastforce dest: read_hex4_shorter split: option.splits if_splits prod.splits)

lemma read_char_shorter: "s \<noteq> '''' \<Longrightarrow> read_char s = Some (b, t) \<Longrightarrow> length t < length s"
  by (cases s)
    (auto simp: read_char_def read_escape_def Let_def dest: read_rune_shorter split: if_splits list.splits)

function read_chars :: "string \<Rightarrow> (string \<times> string) option" where
  "read_chars s =
    (if s = '''' then None
     else if hd s = CHR 0x22 then Some ('''', tl s)
     else (case read_char s of
             None \<Rightarrow> None
           | Some (b, rest) \<Rightarrow>
               (case read_chars rest of None \<Rightarrow> None | Some (t, r) \<Rightarrow> Some (b @ t, r))))"
  by pat_completeness auto
termination
  by (relation "measure length") (use read_char_shorter in auto)

declare read_chars.simps [simp del]

section \<open>A string that is written can be read\<close>

lemma hex_val_digit: "d < 16 \<Longrightarrow> hex_val (hex_digit d) = Some d"
proof -
  have "list_all (\<lambda>d. hex_val (hex_digit d) = Some d) [0..<16]" by code_simp
  then show "d < 16 \<Longrightarrow> hex_val (hex_digit d) = Some d" by (simp add: list_all_iff)
qed

lemma read_hex4_byte:
  "n < 256 \<Longrightarrow> read_hex4 (CHR ''0'' # CHR ''0'' # hex_digit (n div 16) # hex_digit (n mod 16) # t) = Some (n, t)"
proof -
  have "hex_val (CHR ''0'') = Some 0" by (simp add: hex_val_def)
  moreover assume "n < 256"
  ultimately show ?thesis by (simp add: hex_val_digit)
qed

lemma read_control:
  assumes "byte c < 0x80"
  shows "read_char (esc (''u00'' @ [hex_digit (byte c div 16), hex_digit (byte c mod 16)]) @ t) = Some ([c], t)"
proof -
  have r: "read_hex4 (CHR ''0'' # CHR ''0'' # hex_digit (byte c div 16) # hex_digit (byte c mod 16) # t) =
      Some (byte c, t)" by (rule read_hex4_byte) (use assms in simp)
  have u: "utf8_char (byte c) = [c]" using assms by (simp add: utf8_char_def)
  have "read_rune (CHR ''0'' # CHR ''0'' # hex_digit (byte c div 16) # hex_digit (byte c mod 16) # t) =
      Some ([c], t)"
    unfolding read_rune_def r using assms u by simp
  then show ?thesis by (simp add: read_char_def esc_def read_escape_def)
qed

lemma read_separator:
  "read_char (esc ''u2028'' @ t) = Some (utf8_char 0x2028, t)"
  "read_char (esc ''u2029'' @ t) = Some (utf8_char 0x2029, t)"
  by (simp_all add: read_char_def esc_def read_escape_def read_rune_def hex_val_def)

lemma char_byte_eq: "byte c = byte d \<Longrightarrow> c = d"
  by (metis char_of_char)

lemma read_write_ascii:
  assumes "byte c < 0x80"
  shows "\<exists>out. write_char (c # r) = (out, r) \<and> out \<noteq> [] \<and> hd out \<noteq> CHR 0x22 \<and>
    read_char (out @ t) = Some ([c], t)"
proof -
  consider (quote) "byte c = 0x22 \<or> byte c = 0x5C" | (nl) "byte c = 10" | (cr) "byte c = 13" | (tab) "byte c = 9"
    | (ctl) "\<not> (byte c = 0x22 \<or> byte c = 0x5C)" "byte c \<noteq> 10" "byte c \<noteq> 13" "byte c \<noteq> 9"
        "byte c < 0x20 \<or> byte c = 0x26 \<or> byte c = 0x3C \<or> byte c = 0x3E"
    | (plain) "\<not> (byte c = 0x22 \<or> byte c = 0x5C)"
        "\<not> (byte c < 0x20 \<or> byte c = 0x26 \<or> byte c = 0x3C \<or> byte c = 0x3E)" by blast
  then show ?thesis
  proof cases
    case quote
    then show ?thesis
      using assms by (auto simp: write_char_def read_char_def esc_def read_escape_def Let_def)
  next
    case nl
    then have "char_of (10 :: nat) = c" by (metis char_of_char)
    with nl show ?thesis by (simp add: write_char_def read_char_def esc_def read_escape_def)
  next
    case cr
    then have "char_of (13 :: nat) = c" by (metis char_of_char)
    with cr show ?thesis by (simp add: write_char_def read_char_def esc_def read_escape_def)
  next
    case tab
    then have "char_of (9 :: nat) = c" by (metis char_of_char)
    with tab show ?thesis by (simp add: write_char_def read_char_def esc_def read_escape_def)
  next
    case ctl
    then have "write_char (c # r) =
        (esc (''u00'' @ [hex_digit (byte c div 16), hex_digit (byte c mod 16)]), r)"
      using assms by (simp add: write_char_def Let_def)
    moreover note read_control [OF assms, of t]
    ultimately show ?thesis by (auto simp: esc_def)
  next
    case plain
    then have "write_char (c # r) = ([c], r)" using assms by (auto simp: write_char_def Let_def)
    moreover have "c \<noteq> CHR 0x22" using plain by auto
    moreover have "read_char ([c] @ t) = Some ([c], t)"
      using plain assms by (auto simp: read_char_def Let_def)
    ultimately show ?thesis by auto
  qed
qed

lemma read_write_char:
  assumes "s \<noteq> ''''" and "utf8_len s > 0"
  shows "\<exists>out. write_char s = (out, drop (utf8_len s) s) \<and> out \<noteq> [] \<and> hd out \<noteq> CHR 0x22 \<and>
    read_char (out @ t) = Some (take (utf8_len s) s, t)"
proof -
  obtain c r where s: "s = c # r" using assms(1) by (cases s) auto
  show ?thesis
  proof (cases "byte c < 0x80")
    case True
    then show ?thesis using read_write_ascii [OF True, of r t] s by simp
  next
    case False
    let ?k = "utf8_len s"
    have t: "utf8_len (take ?k s @ t) = ?k" by (rule utf8_len_take [OF refl assms(2)])
    have hd: "hd (take ?k s @ t) = c" using s assms(2) by (cases "utf8_len s") simp_all
    have len: "length (take ?k s) = ?k" using utf8_len_le [of s] by simp
    consider "take ?k s = utf8_char 0x2028" | "take ?k s = utf8_char 0x2029" "take ?k s \<noteq> utf8_char 0x2028"
      | (copy) "take ?k s \<noteq> utf8_char 0x2028" "take ?k s \<noteq> utf8_char 0x2029" by blast
    then show ?thesis
    proof cases
      case 1
      then show ?thesis
        using False s assms(2) read_separator(1) [of t]
        by (auto simp: write_char_def Let_def esc_def)
    next
      case 2
      then show ?thesis
        using False s assms(2) read_separator(2) [of t]
        by (auto simp: write_char_def Let_def esc_def)
    next
      case copy
      have w: "write_char s = (take ?k s, drop ?k s)"
        using copy False s assms(2) by (simp add: write_char_def Let_def)
      have ne: "take ?k s \<noteq> []" "hd (take ?k s) = c" using s assms(2) by (cases "utf8_len s"; simp)+
      have "read_char (take ?k s @ t) = Some (take ?k (take ?k s @ t), drop ?k (take ?k s @ t))"
        unfolding read_char_def Let_def t hd using False assms(2) by auto
      also have "\<dots> = Some (take ?k s, t)" using len by simp
      finally show ?thesis using w ne False by auto
    qed
  qed
qed

lemma read_write_chars:
  "valid_utf8 s \<Longrightarrow> read_chars (write_chars s @ CHR 0x22 # rest) = Some (s, rest)"
proof (induction s rule: valid_utf8.induct)
  case (1 s)
  show ?case
  proof (cases "s = ''''")
    case True
    then show ?thesis by (simp add: write_chars.simps [of "''''"] read_chars.simps [of "CHR 0x22 # rest"])
  next
    case False
    with 1(2) have k: "utf8_len s > 0" and v: "valid_utf8 (drop (utf8_len s) s)"
      by (simp_all add: valid_utf8.simps [of s] split: if_splits)
    let ?t = "write_chars (drop (utf8_len s) s) @ CHR 0x22 # rest"
    obtain out where out: "write_char s = (out, drop (utf8_len s) s)" "out \<noteq> []" "hd out \<noteq> CHR 0x22"
      "read_char (out @ ?t) = Some (take (utf8_len s) s, ?t)"
      using read_write_char [OF False k, of ?t] by blast
    have IH: "read_chars ?t = Some (drop (utf8_len s) s, rest)"
      by (rule 1(1)) (use False k v in auto)
    have "write_chars s = out @ write_chars (drop (utf8_len s) s)"
      using False out(1) by (simp add: write_chars.simps [of s])
    then show ?thesis
      using out(2-4) IH by (simp add: read_chars.simps [of "out @ ?t"])
  qed
qed

section \<open>Values\<close>

datatype json = JNull | JBool bool | JNum string | JStr string | JArr "json list"
  | JObj "(string \<times> json) list"

text \<open>Printing, without spaces, as \<open>json.Marshal\<close> does.\<close>

fun print_json :: "json \<Rightarrow> string"
  and print_elems :: "json list \<Rightarrow> string"
  and print_members :: "(string \<times> json) list \<Rightarrow> string" where
  "print_json JNull = ''null''"
| "print_json (JBool b) = (if b then ''true'' else ''false'')"
| "print_json (JNum n) = n"
| "print_json (JStr s) = print_string s"
| "print_json (JArr js) = ''['' @ (if js = [] then '''' else print_elems js) @ '']''"
| "print_json (JObj ms) = ''{'' @ (if ms = [] then '''' else print_members ms) @ ''}''"
| "print_elems [] = ''''"
| "print_elems (j # js) = print_json j @ (if js = [] then '''' else '','' @ print_elems js)"
| "print_members [] = ''''"
| "print_members ((k, j) # ms) =
    print_string k @ '':'' @ print_json j @ (if ms = [] then '''' else '','' @ print_members ms)"

definition skip_space :: "string \<Rightarrow> string" where
  "skip_space s = dropWhile (\<lambda>c. byte c = 32 \<or> byte c = 9 \<or> byte c = 10 \<or> byte c = 13) s"

text \<open>A number: an optional sign, an integer part without leading zeros, a fraction, an exponent.\<close>

definition is_digit :: "char \<Rightarrow> bool" where
  "is_digit c \<longleftrightarrow> digit_val c \<noteq> None"

definition read_fraction :: "string \<Rightarrow> (string \<times> string) option" where
  "read_fraction s =
    (if s \<noteq> '''' \<and> hd s = CHR ''.''
     then (let d = takeWhile is_digit (tl s)
           in if d = '''' then None else Some (CHR ''.'' # d, dropWhile is_digit (tl s)))
     else Some ('''', s))"

definition read_exponent :: "string \<Rightarrow> (string \<times> string) option" where
  "read_exponent s =
    (if s \<noteq> '''' \<and> (hd s = CHR ''e'' \<or> hd s = CHR ''E'')
     then (let sgn = (if tl s \<noteq> '''' \<and> (hd (tl s) = CHR ''+'' \<or> hd (tl s) = CHR ''-'')
                      then [hd (tl s)] else '''');
               r = drop (length sgn) (tl s);
               d = takeWhile is_digit r
           in if d = '''' then None else Some (hd s # sgn @ d, dropWhile is_digit r))
     else Some ('''', s))"

definition read_number :: "string \<Rightarrow> (string \<times> string) option" where
  "read_number s =
    (let sgn = (if s \<noteq> '''' \<and> hd s = CHR ''-'' then ''-'' else '''');
         s1 = drop (length sgn) s;
         ds = (if s1 \<noteq> '''' \<and> hd s1 = CHR ''0'' then ''0'' else takeWhile is_digit s1);
         s2 = drop (length ds) s1
     in if ds = '''' then None
        else (case read_fraction s2 of
                None \<Rightarrow> None
              | Some (f, s3) \<Rightarrow>
                  (case read_exponent s3 of
                     None \<Rightarrow> None
                   | Some (e, s4) \<Rightarrow> Some (sgn @ ds @ f @ e, s4))))"

text \<open>
  Reading a value from the front of a text. \<open>d\<close> is how many brackets may still be opened, 10000 at the
  start as in Go; the fuel \<open>n\<close> bounds the recursion, and the length of the text is enough.
\<close>

fun read_json :: "nat \<Rightarrow> nat \<Rightarrow> string \<Rightarrow> (json \<times> string) option"
  and read_elems :: "nat \<Rightarrow> nat \<Rightarrow> string \<Rightarrow> (json list \<times> string) option"
  and read_members :: "nat \<Rightarrow> nat \<Rightarrow> string \<Rightarrow> ((string \<times> json) list \<times> string) option" where
  "read_json 0 d s = None"
| "read_json (Suc n) d s =
    (case skip_space s of
       [] \<Rightarrow> None
     | c # cs \<Rightarrow>
         if c = CHR 0x22 then
           (case read_chars cs of None \<Rightarrow> None | Some (t, r) \<Rightarrow> Some (JStr t, r))
         else if c = CHR ''['' then
           (if d = 0 then None
            else if skip_space cs \<noteq> '''' \<and> hd (skip_space cs) = CHR '']''
            then Some (JArr [], tl (skip_space cs))
            else (case read_elems n (d - 1) cs of None \<Rightarrow> None | Some (js, r) \<Rightarrow> Some (JArr js, r)))
         else if c = CHR ''{'' then
           (if d = 0 then None
            else if skip_space cs \<noteq> '''' \<and> hd (skip_space cs) = CHR ''}''
            then Some (JObj [], tl (skip_space cs))
            else (case read_members n (d - 1) cs of None \<Rightarrow> None | Some (ms, r) \<Rightarrow> Some (JObj ms, r)))
         else if HasPrefix (c # cs) ''null'' then Some (JNull, drop 3 cs)
         else if HasPrefix (c # cs) ''true'' then Some (JBool True, drop 3 cs)
         else if HasPrefix (c # cs) ''false'' then Some (JBool False, drop 4 cs)
         else (case read_number (c # cs) of None \<Rightarrow> None | Some (t, r) \<Rightarrow> Some (JNum t, r)))"
| "read_elems 0 d s = None"
| "read_elems (Suc n) d s =
    (case read_json n d s of
       None \<Rightarrow> None
     | Some (j, r) \<Rightarrow>
         (case skip_space r of
            [] \<Rightarrow> None
          | c # cs \<Rightarrow>
              if c = CHR '']'' then Some ([j], cs)
              else if c = CHR '','' then
                (case read_elems n d cs of None \<Rightarrow> None | Some (js, r) \<Rightarrow> Some (j # js, r))
              else None))"
| "read_members 0 d s = None"
| "read_members (Suc n) d s =
    (case skip_space s of
       [] \<Rightarrow> None
     | q # qs \<Rightarrow>
         if q \<noteq> CHR 0x22 then None
         else
           (case read_chars qs of
              None \<Rightarrow> None
            | Some (k, r) \<Rightarrow>
                (case skip_space r of
                   [] \<Rightarrow> None
                 | c # cs \<Rightarrow>
                     if c \<noteq> CHR '':'' then None
                     else
                       (case read_json n d cs of
                          None \<Rightarrow> None
                        | Some (j, r) \<Rightarrow>
                            (case skip_space r of
                               [] \<Rightarrow> None
                             | c # cs \<Rightarrow>
                                 if c = CHR ''}'' then Some ([(k, j)], cs)
                                 else if c = CHR '','' then
                                   (case read_members n d cs of
                                      None \<Rightarrow> None | Some (ms, r) \<Rightarrow> Some ((k, j) # ms, r))
                                 else None)))))"

text \<open>\<open>json.Unmarshal\<close> needs the whole text to be one value; a \<open>Decoder\<close> reads the first value of a stream.\<close>

definition decode_first :: "string \<Rightarrow> json option" where
  "decode_first s = map_option fst (read_json (Suc (length s)) 10000 s)"

definition decode_all :: "string \<Rightarrow> json option" where
  "decode_all s =
    (case read_json (Suc (length s)) 10000 s of
       None \<Rightarrow> None
     | Some (j, r) \<Rightarrow> if skip_space r = '''' then Some j else None)"

section \<open>A value that is written can be read\<close>

text \<open>Values without numbers, whose strings are UTF-8, and how deeply their brackets are nested.\<close>

fun text_value :: "json \<Rightarrow> bool" where
  "text_value (JNum n) = False"
| "text_value (JStr s) = valid_utf8 s"
| "text_value (JArr js) = list_all text_value js"
| "text_value (JObj ms) = list_all (\<lambda>(k, j). valid_utf8 k \<and> text_value j) ms"
| "text_value _ = True"

fun nesting :: "json \<Rightarrow> nat"
  and nesting_elems :: "json list \<Rightarrow> nat"
  and nesting_members :: "(string \<times> json) list \<Rightarrow> nat" where
  "nesting (JArr js) = Suc (nesting_elems js)"
| "nesting (JObj ms) = Suc (nesting_members ms)"
| "nesting _ = 0"
| "nesting_elems [] = 0"
| "nesting_elems (j # js) = max (nesting j) (nesting_elems js)"
| "nesting_members [] = 0"
| "nesting_members ((k, j) # ms) = max (nesting j) (nesting_members ms)"

lemma skip_space_id [simp]:
  "skip_space [] = []"
  "byte c \<noteq> 32 \<Longrightarrow> byte c \<noteq> 9 \<Longrightarrow> byte c \<noteq> 10 \<Longrightarrow> byte c \<noteq> 13 \<Longrightarrow> skip_space (c # cs) = c # cs"
  by (simp_all add: skip_space_def)

definition opens :: "string \<Rightarrow> bool" where
  "opens s \<longleftrightarrow> (\<exists>c cs. s = c # cs \<and> byte c \<noteq> 32 \<and> byte c \<noteq> 9 \<and> byte c \<noteq> 10 \<and> byte c \<noteq> 13 \<and>
    c \<noteq> CHR '']'' \<and> c \<noteq> CHR ''}'')"

lemma opens_append: "opens s \<Longrightarrow> opens (s @ t)"
  by (auto simp: opens_def)

lemma opens_skip: "opens s \<Longrightarrow> skip_space s = s \<and> s \<noteq> '''' \<and> hd s \<noteq> CHR '']'' \<and> hd s \<noteq> CHR ''}''"
  by (auto simp: opens_def)

lemma print_opens: "text_value j \<Longrightarrow> opens (print_json j)"
  by (cases j) (auto simp: opens_def print_string_def)

lemma print_members_opens: "ms \<noteq> [] \<Longrightarrow> opens (print_members ms)"
  by (cases ms rule: print_members.cases) (auto simp: opens_def print_string_def)

lemma print_elems_opens: "js \<noteq> [] \<Longrightarrow> text_value (hd js) \<Longrightarrow> opens (print_elems js)"
  by (cases js) (auto intro: opens_append print_opens)

lemma read_string: "valid_utf8 s \<Longrightarrow> read_chars (write_chars s @ CHR 0x22 # t) = Some (s, t)"
  by (rule read_write_chars)

lemma read_print:
  "text_value j \<Longrightarrow> nesting j \<le> d \<Longrightarrow> length (print_json j) < n \<Longrightarrow>
    read_json n d (print_json j @ rest) = Some (j, rest)"
  "list_all text_value js \<Longrightarrow> js \<noteq> [] \<Longrightarrow> nesting_elems js \<le> d \<Longrightarrow> Suc (length (print_elems js)) < n \<Longrightarrow>
    read_elems n d (print_elems js @ CHR '']'' # rest) = Some (js, rest)"
  "list_all (\<lambda>(k, j). valid_utf8 k \<and> text_value j) ms \<Longrightarrow> ms \<noteq> [] \<Longrightarrow> nesting_members ms \<le> d \<Longrightarrow>
    length (print_members ms) < n \<Longrightarrow>
    read_members n d (print_members ms @ CHR ''}'' # rest) = Some (ms, rest)"
proof (induction j and js and ms arbitrary: n d rest and n d rest and n d rest
    rule: print_json_print_elems_print_members.induct)
  case 1
  then show ?case by (cases n) (simp_all add: HasPrefix_def)
next
  case (2 b)
  then show ?case by (cases n) (simp_all add: HasPrefix_def)
next
  case (3 m)
  then show ?case by simp
next
  case (4 s)
  then show ?case by (cases n) (simp_all add: print_string_def read_string)
next
  case (5 js)
  obtain m e where n: "n = Suc m" and d: "d = Suc e" using 5(2-4) by (cases n; cases d) auto
  show ?case
  proof (cases "js = []")
    case True
    then show ?thesis by (simp add: n d)
  next
    case False
    have o: "opens (print_elems js @ CHR '']'' # rest)"
      using False 5(2) by (intro opens_append print_elems_opens) (cases js; simp)+
    have "read_elems m e (print_elems js @ CHR '']'' # rest) = Some (js, rest)"
      by (rule 5(1)) (use False 5(2-4) n d in simp_all)
    then show ?thesis using opens_skip [OF o] False by (simp add: n d)
  qed
next
  case (6 ms)
  obtain m e where n: "n = Suc m" and d: "d = Suc e" using 6(2-4) by (cases n; cases d) auto
  show ?case
  proof (cases "ms = []")
    case True
    then show ?thesis by (simp add: n d)
  next
    case False
    have o: "opens (print_members ms @ CHR ''}'' # rest)"
      using False by (intro opens_append print_members_opens)
    have "read_members m e (print_members ms @ CHR ''}'' # rest) = Some (ms, rest)"
      by (rule 6(1)) (use False 6(2-4) n d in simp_all)
    then show ?thesis using opens_skip [OF o] False by (simp add: n d)
  qed
next
  case (8 j js)
  obtain m where n: "n = Suc m" using 8(6) by (cases n) auto
  have j: "read_json m d (print_json j @ t) = Some (j, t)" for t
    by (rule 8(1)) (use 8(3-6) n in auto)
  show ?case
  proof (cases "js = []")
    case True
    then show ?thesis using j by (simp add: n)
  next
    case False
    have "read_elems m d (print_elems js @ CHR '']'' # rest) = Some (js, rest)"
      by (rule 8(2)) (use 8(3-6) n False in auto)
    then show ?thesis using j False by (simp add: n)
  qed
next
  case (10 k j ms)
  obtain m where n: "n = Suc m" using 10(6) by (cases n) auto
  have j: "read_json m d (print_json j @ t) = Some (j, t)" for t
    by (rule 10(1)) (use 10(3-6) n in auto)
  have k: "read_chars (write_chars k @ CHR 0x22 # t) = Some (k, t)" for t
    by (rule read_string) (use 10(3) in simp)
  show ?case
  proof (cases "ms = []")
    case True
    then show ?thesis using j k by (simp add: n print_string_def)
  next
    case False
    have "read_members m d (print_members ms @ CHR ''}'' # rest) = Some (ms, rest)"
      by (rule 10(2)) (use 10(3-6) n False in auto)
    then show ?thesis using j k False by (simp add: n print_string_def)
  qed
qed simp_all

lemma decode_print:
  assumes "text_value j" and "nesting j \<le> 10000"
  shows "decode_all (print_json j) = Some j" and "decode_first (print_json j) = Some j"
proof -
  have "read_json (Suc (length (print_json j))) 10000 (print_json j @ []) = Some (j, [])"
    by (rule read_print(1) [OF assms]) simp
  then show "decode_all (print_json j) = Some j" "decode_first (print_json j) = Some j"
    by (simp_all add: decode_all_def decode_first_def)
qed

section \<open>The fuel is enough\<close>

lemma skip_space_le: "length (skip_space s) \<le> length s"
  by (simp add: skip_space_def length_dropWhile_le)

lemma skip_space_Cons: "skip_space s = c # cs \<Longrightarrow> length cs < length s"
  using skip_space_le [of s] by simp

lemma read_chars_shorter: "read_chars s = Some (t, r) \<Longrightarrow> length r < length s"
proof (induction s arbitrary: t r rule: read_chars.induct)
  case (1 s)
  have ne: "s \<noteq> ''''" using 1(2) by (auto simp: read_chars.simps [of "''''"])
  show ?case
  proof (cases "hd s = CHR 0x22")
    case True
    then have "r = tl s" using 1(2) ne by (simp add: read_chars.simps [of s])
    then show ?thesis using ne by simp
  next
    case False
    then obtain b u t' where c: "read_char s = Some (b, u)" and u: "read_chars u = Some (t', r)"
      using 1(2) ne by (auto simp: read_chars.simps [of s] split: option.splits)
    have "length r < length u" by (rule 1(1) [OF ne False c refl u])
    also have "\<dots> < length s" by (rule read_char_shorter [OF ne c])
    finally show ?thesis .
  qed
qed

lemma drop_part_le: "length (dropWhile P (drop n (tl u))) \<le> length u" "length (dropWhile P (tl u)) \<le> length u"
  using length_dropWhile_le [of P "drop n (tl u)"] length_dropWhile_le [of P "tl u"] by simp_all

lemma read_fraction_le: "read_fraction u = Some (a, v) \<Longrightarrow> length v \<le> length u"
  by (auto simp: read_fraction_def Let_def drop_part_le split: if_splits)

lemma read_exponent_le: "read_exponent u = Some (a, v) \<Longrightarrow> length v \<le> length u"
  unfolding read_exponent_def Let_def using drop_part_le by (auto split: if_splits)

lemma read_number_shorter:
  assumes "read_number s = Some (t, r)"
  shows "length r < length s"
proof -
  define s1 where "s1 = drop (length (if s \<noteq> '''' \<and> hd s = CHR ''-'' then ''-'' else '''')) s"
  define ds where "ds = (if s1 \<noteq> '''' \<and> hd s1 = CHR ''0'' then ''0'' else takeWhile is_digit s1)"
  from assms obtain f u e where r: "ds \<noteq> ''''" "read_fraction (drop (length ds) s1) = Some (f, u)"
      "read_exponent u = Some (e, r)"
    unfolding read_number_def Let_def s1_def [symmetric] ds_def [symmetric]
    by (auto split: if_splits option.splits)
  have "s1 \<noteq> ''''" using r(1) by (auto simp: ds_def)
  moreover have "length s1 \<le> length s" by (simp add: s1_def)
  ultimately have "length (drop (length ds) s1) < length s"
    using r(1) by (cases ds; cases s1) simp_all
  with read_fraction_le [OF r(2)] read_exponent_le [OF r(3)] show ?thesis by simp
qed

lemma hd_tl_shorter: "skip_space s \<noteq> '''' \<Longrightarrow> length (tl (skip_space s)) < length s"
  using skip_space_le [of s] by (cases "skip_space s") simp_all

lemma read_shorter:
  "read_json n d s = Some (j, r) \<Longrightarrow> length r < length s"
  "read_elems n d s = Some (js, r) \<Longrightarrow> length r < length s"
  "read_members n d s = Some (ms, r) \<Longrightarrow> length r < length s"
proof (induction n d s and n d s and n d s arbitrary: j r and js r and ms r
    rule: read_json_read_elems_read_members.induct)
  case (2 n d s)
  then obtain c cs where s: "skip_space s = c # cs" by (auto split: list.splits)
  have l: "length cs < length s" by (rule skip_space_Cons [OF s])
  have e: "read_elems n (d - 1) cs = Some (js, r) \<Longrightarrow> c = CHR ''['' \<Longrightarrow> d \<noteq> 0 \<Longrightarrow>
      \<not> (skip_space cs \<noteq> '''' \<and> hd (skip_space cs) = CHR '']'') \<Longrightarrow> length r < length cs" for js
    using 2(1) [OF s] by simp
  have m: "read_members n (d - 1) cs = Some (ms, r) \<Longrightarrow> c = CHR ''{'' \<Longrightarrow> d \<noteq> 0 \<Longrightarrow>
      \<not> (skip_space cs \<noteq> '''' \<and> hd (skip_space cs) = CHR ''}'') \<Longrightarrow> length r < length cs" for ms
    using 2(2) [OF s] by simp
  have q: "read_chars cs = Some (t, r) \<Longrightarrow> length r < length cs" for t by (rule read_chars_shorter)
  have nb: "read_number (c # cs) = Some (t, r) \<Longrightarrow> length r < Suc (length cs)" for t
    using read_number_shorter by fastforce
  have h: "skip_space cs \<noteq> '''' \<Longrightarrow> length (tl (skip_space cs)) < length cs" by (rule hd_tl_shorter)
  have "length r \<le> length cs"
    using 2(3) s e m q nb h by (fastforce split: if_splits option.splits)
  with l show ?case by simp
next
  case (4 n d s)
  from 4(3) obtain j u c cs where j: "read_json n d s = Some (j, u)" and u: "skip_space u = c # cs"
    and rest: "(if c = CHR '']'' then Some ([j], cs)
              else if c = CHR '','' then
                (case read_elems n d cs of None \<Rightarrow> None | Some (js, r) \<Rightarrow> Some (j # js, r))
              else None) = Some (js, r)"
    by (auto split: option.splits list.splits)
  have "length cs < length s" using 4(1) [OF j] skip_space_Cons [OF u] by simp
  moreover have "c = CHR '','' \<Longrightarrow> read_elems n d cs = Some (js', r') \<Longrightarrow> length r' < length cs" for js' r'
    using 4(2) [OF j refl u] by simp
  ultimately show ?case using rest by (fastforce split: if_splits option.splits)
next
  case (6 n d s)
  from 6(3) obtain q qs k u where q: "skip_space s = q # qs" "q = CHR 0x22" and k: "read_chars qs = Some (k, u)"
    by (auto split: option.splits list.splits if_splits)
  from 6(3) q k obtain c cs j v where c: "skip_space u = c # cs" "c = CHR '':''"
    and j: "read_json n d cs = Some (j, v)"
    by (auto split: option.splits list.splits if_splits)
  from 6(3) q k c j obtain c' cs' where c': "skip_space v = c' # cs'"
    and rest: "(if c' = CHR ''}'' then Some ([(k, j)], cs')
                                 else if c' = CHR '','' then
                                   (case read_members n d cs' of
                                      None \<Rightarrow> None | Some (ms, r) \<Rightarrow> Some ((k, j) # ms, r))
                                 else None) = Some (ms, r)"
    by (auto split: option.splits list.splits)
  have "length v < length cs"
    using 6(1) [OF q(1) _ k refl c(1) _ j] q(2) c(2) by simp
  then have "length cs' < length s"
    using skip_space_Cons [OF q(1)] read_chars_shorter [OF k] skip_space_Cons [OF c(1)] skip_space_Cons [OF c']
    by simp
  moreover have "c' = CHR '','' \<Longrightarrow> read_members n d cs' = Some (ms', r') \<Longrightarrow> length r' < length cs'" for ms' r'
    using 6(2) [OF q(1) _ k refl c(1) _ j refl c'] q(2) c(2) by simp
  ultimately show ?case using rest by (fastforce split: if_splits option.splits)
qed simp_all

text \<open>A reading that succeeds needs no more fuel than the text it consumes is long.\<close>

lemma read_fuel:
  "read_json N d s = Some (j, r) \<Longrightarrow> length s < n + length r \<Longrightarrow> read_json n d s = Some (j, r)"
  "read_elems N d s = Some (js, r) \<Longrightarrow> length s < n + length r \<Longrightarrow> read_elems n d s = Some (js, r)"
  "read_members N d s = Some (ms, r) \<Longrightarrow> length s < n + length r \<Longrightarrow> read_members n d s = Some (ms, r)"
proof (induction N d s and N d s and N d s arbitrary: j r n and js r n and ms r n
    rule: read_json_read_elems_read_members.induct)
  case (2 N d s)
  then obtain c cs where s: "skip_space s = c # cs" by (auto split: list.splits)
  have l: "length cs < length s" by (rule skip_space_Cons [OF s])
  have "length r < length s" by (rule read_shorter(1) [OF 2(3)])
  then obtain m where n: "n = Suc m" using 2(4) by (cases n) auto
  have b: "length cs < m + length r" using l 2(4) n by simp
  have e: "read_elems N (d - 1) cs = Some (js, r) \<Longrightarrow> c = CHR ''['' \<Longrightarrow> d \<noteq> 0 \<Longrightarrow>
      \<not> (skip_space cs \<noteq> '''' \<and> hd (skip_space cs) = CHR '']'') \<Longrightarrow> read_elems m (d - 1) cs = Some (js, r)" for js
    using 2(1) [OF s _ _ _ _ _ b] by simp
  have ms: "read_members N (d - 1) cs = Some (ms, r) \<Longrightarrow> c = CHR ''{'' \<Longrightarrow> d \<noteq> 0 \<Longrightarrow>
      \<not> (skip_space cs \<noteq> '''' \<and> hd (skip_space cs) = CHR ''}'') \<Longrightarrow> read_members m (d - 1) cs = Some (ms, r)" for ms
    using 2(2) [OF s _ _ _ _ _ _ b] by simp
  show ?case
    using 2(3) s e ms unfolding n by (fastforce split: if_splits option.splits)
next
  case (4 N d s)
  from 4(3) obtain j u c cs where j: "read_json N d s = Some (j, u)" and u: "skip_space u = c # cs"
    and rest: "(if c = CHR '']'' then Some ([j], cs)
              else if c = CHR '','' then
                (case read_elems N d cs of None \<Rightarrow> None | Some (js, r) \<Rightarrow> Some (j # js, r))
              else None) = Some (js, r)"
    by (auto split: option.splits list.splits)
  have len: "length u < length s" "length cs < length u" "length r \<le> length cs"
    using read_shorter(1) [OF j] skip_space_Cons [OF u] rest
    by (auto dest: read_shorter(2) split: if_splits option.splits)
  then obtain m where n: "n = Suc m" using 4(4) by (cases n) auto
  have j': "read_json m d s = Some (j, u)" by (rule 4(1) [OF j]) (use len 4(4) n in simp)
  have "read_elems N d cs = Some (js', r) \<Longrightarrow> c = CHR '','' \<Longrightarrow> read_elems m d cs = Some (js', r)" for js'
    by (rule 4(2) [OF j refl u]) (use len 4(4) n in simp_all)
  then show ?case using j' u rest unfolding n by (auto split: if_splits option.splits)
next
  case (6 N d s)
  from 6(3) obtain q qs k u where q: "skip_space s = q # qs" "q = CHR 0x22" and k: "read_chars qs = Some (k, u)"
    by (auto split: option.splits list.splits if_splits)
  from 6(3) q k obtain c cs j v where c: "skip_space u = c # cs" "c = CHR '':''"
    and j: "read_json N d cs = Some (j, v)"
    by (auto split: option.splits list.splits if_splits)
  from 6(3) q k c j obtain c' cs' where c': "skip_space v = c' # cs'"
    and rest: "(if c' = CHR ''}'' then Some ([(k, j)], cs')
                                 else if c' = CHR '','' then
                                   (case read_members N d cs' of
                                      None \<Rightarrow> None | Some (ms, r) \<Rightarrow> Some ((k, j) # ms, r))
                                 else None) = Some (ms, r)"
    by (auto split: option.splits list.splits)
  have len: "length qs < length s" "length u < length qs" "length cs < length u" "length v < length cs"
      "length cs' < length v" "length r \<le> length cs'"
    using skip_space_Cons [OF q(1)] read_chars_shorter [OF k] skip_space_Cons [OF c(1)]
      read_shorter(1) [OF j] skip_space_Cons [OF c'] rest
    by (auto dest: read_shorter(3) split: if_splits option.splits)
  then obtain m where n: "n = Suc m" using 6(4) by (cases n) auto
  have j': "read_json m d cs = Some (j, v)"
    by (rule 6(1) [OF q(1) _ k refl c(1) _ j]) (use q(2) c(2) len 6(4) n in simp_all)
  have "read_members N d cs' = Some (ms', r) \<Longrightarrow> c' = CHR '','' \<Longrightarrow> read_members m d cs' = Some (ms', r)" for ms'
    by (rule 6(2) [OF q(1) _ k refl c(1) _ j refl c']) (use q(2) c(2) len 6(4) n in simp_all)
  then show ?case using j' q k c c' rest unfolding n by (auto split: if_splits option.splits)
qed simp_all

lemma read_json_fuel:
  assumes "length s < n"
  shows "read_json n d s = read_json (Suc (length s)) d s"
proof (cases "read_json n d s")
  case None
  show ?thesis
  proof (cases "read_json (Suc (length s)) d s")
    case (Some p)
    then have "read_json n d s = Some p"
      using read_fuel(1) [of "Suc (length s)" d s "fst p" "snd p" n] assms by simp
    with None Some show ?thesis by simp
  qed (simp add: None)
next
  case (Some p)
  then show ?thesis
    using read_fuel(1) [of n d s "fst p" "snd p" "Suc (length s)"] by simp
qed

end
