(* ===== verification/Metadata.thy ===== *)
theory Metadata
  imports Json NodeServer "HOL-Library.Multiset"
begin

text \<open>
  \<open>metadata/metadata.go\<close> and its JSON form. The volume context is a Go map from strings to strings: a
  list of its entries with distinct keys, where nil and empty are not told apart, since \<open>omitempty\<close> and
  \<open>Semantic.DeepEqual\<close> do not tell them apart either.
\<close>

type_synonym context_map = "(string \<times> string) list"

record Metadata =
  VolumeID :: string
  TargetPath :: string
  VolumeContext :: context_map

definition no_metadata :: Metadata where
  "no_metadata = \<lparr>VolumeID = '''', TargetPath = '''', VolumeContext = []\<rparr>"

text \<open>The field of a publish request that only this function reads is added to the request.\<close>

record publish_request = NodePublishVolumeRequest +
  pub_VolumeContext :: context_map

definition FromNodePublishVolumeRequest :: "publish_request \<Rightarrow> Metadata" where
  "FromNodePublishVolumeRequest request =
    \<lparr>VolumeID = pub_VolumeId request, TargetPath = pub_TargetPath request,
     VolumeContext = pub_VolumeContext request\<rparr>"

definition context_equal :: "context_map \<Rightarrow> context_map \<Rightarrow> bool" where
  "context_equal a b \<longleftrightarrow> list_all (\<lambda>k. map_of a k = map_of b k) (List.map fst a @ List.map fst b)"

lemma context_equal_iff: "context_equal a b \<longleftrightarrow> map_of a = map_of b"
proof
  assume e: "context_equal a b"
  show "map_of a = map_of b"
  proof (rule ext)
    fix k
    show "map_of a k = map_of b k"
    proof (cases "k \<in> fst ` set a \<union> fst ` set b")
      case True
      with e show ?thesis unfolding context_equal_def list_all_iff by simp
    next
      case False
      then have "map_of a k = None" "map_of b k = None" by (simp_all add: map_of_eq_None_iff)
      then show ?thesis by simp
    qed
  qed
qed (simp add: context_equal_def list_all_iff)

section \<open>Marshal\<close>

text \<open>The keys of a map are written in order, and an empty map is omitted.\<close>

definition to_json :: "Metadata \<Rightarrow> json" where
  "to_json m =
    JObj ([(''volumeID'', JStr (VolumeID m)), (''targetPath'', JStr (TargetPath m))] @
      (if VolumeContext m = [] then []
       else [(''volumeContext'',
              JObj (List.map (\<lambda>(k, v). (k, JStr v)) (sort_key fst (VolumeContext m))))]))"

definition Marshal :: "Metadata \<Rightarrow> string" where
  "Marshal m = print_json (to_json m)"

section \<open>Unmarshal\<close>

text \<open>
  A member goes to the field whose name it has, whatever the case of its letters; others are ignored. A
  null leaves a string as it is and makes a map nil. Entries are added to a map that is there already. A
  value of another type is an error.
\<close>

datatype field = FVolumeID | FTargetPath | FVolumeContext

definition fold_byte :: "char \<Rightarrow> nat" where
  "fold_byte c = (let n = byte c in if n div 32 mod 2 = 1 then n - 32 else n)"

definition same_name :: "string \<Rightarrow> string \<Rightarrow> bool" where
  "same_name a b \<longleftrightarrow> List.map fold_byte a = List.map fold_byte b"

definition field_of :: "string \<Rightarrow> field option" where
  "field_of k =
    (if same_name ''volumeID'' k then Some FVolumeID
     else if same_name ''targetPath'' k then Some FTargetPath
     else if same_name ''volumeContext'' k then Some FVolumeContext else None)"

fun add_entries :: "context_map \<Rightarrow> (string \<times> json) list \<Rightarrow> context_map option" where
  "add_entries c [] = Some c"
| "add_entries c ((k, j) # ms) =
    (case j of
       JStr v \<Rightarrow> add_entries (AList.update k v c) ms
     | JNull \<Rightarrow> add_entries (AList.update k '''' c) ms
     | _ \<Rightarrow> None)"

definition set_field :: "Metadata \<Rightarrow> field \<Rightarrow> json \<Rightarrow> Metadata option" where
  "set_field m f j =
    (case f of
       FVolumeID \<Rightarrow>
         (case j of JStr s \<Rightarrow> Some (m\<lparr>VolumeID := s\<rparr>) | JNull \<Rightarrow> Some m | _ \<Rightarrow> None)
     | FTargetPath \<Rightarrow>
         (case j of JStr s \<Rightarrow> Some (m\<lparr>TargetPath := s\<rparr>) | JNull \<Rightarrow> Some m | _ \<Rightarrow> None)
     | FVolumeContext \<Rightarrow>
         (case j of
            JObj ms \<Rightarrow> map_option (\<lambda>c. m\<lparr>VolumeContext := c\<rparr>) (add_entries (VolumeContext m) ms)
          | JNull \<Rightarrow> Some (m\<lparr>VolumeContext := []\<rparr>)
          | _ \<Rightarrow> None))"

fun set_fields :: "Metadata \<Rightarrow> (string \<times> json) list \<Rightarrow> Metadata option" where
  "set_fields m [] = Some m"
| "set_fields m ((k, j) # ms) =
    (case (case field_of k of None \<Rightarrow> Some m | Some f \<Rightarrow> set_field m f j) of
       None \<Rightarrow> None
     | Some m' \<Rightarrow> set_fields m' ms)"

definition from_json :: "json \<Rightarrow> Metadata option" where
  "from_json j =
    (case j of JNull \<Rightarrow> Some no_metadata | JObj ms \<Rightarrow> set_fields no_metadata ms | _ \<Rightarrow> None)"

definition Unmarshal :: "string \<Rightarrow> Metadata option" where
  "Unmarshal s = Option.bind (decode_all s) from_json"

definition Decode :: "string \<Rightarrow> Metadata option" where
  "Decode s = Option.bind (decode_first s) from_json"

section \<open>Round trip\<close>

definition utf8_metadata :: "Metadata \<Rightarrow> bool" where
  "utf8_metadata m \<longleftrightarrow> valid_utf8 (VolumeID m) \<and> valid_utf8 (TargetPath m) \<and>
     distinct (List.map fst (VolumeContext m)) \<and>
     list_all (\<lambda>(k, v). valid_utf8 k \<and> valid_utf8 v) (VolumeContext m)"

definition stored :: "Metadata \<Rightarrow> Metadata" where
  "stored m = m\<lparr>VolumeContext := sort_key fst (VolumeContext m)\<rparr>"

lemma sort_key_distinct:
  "distinct (List.map fst c) \<Longrightarrow> distinct (List.map fst (sort_key fst c))"
proof -
  have "mset (List.map fst (sort_key fst c)) = mset (List.map fst c)" by simp
  then show "distinct (List.map fst c) \<Longrightarrow> ?thesis" using mset_eq_imp_distinct_iff by blast
qed

lemma stored_context:
  "distinct (List.map fst (VolumeContext m)) \<Longrightarrow>
    map_of (VolumeContext (stored m)) = map_of (VolumeContext m)"
  by (subst map_of_inject_set) (simp_all add: stored_def sort_key_distinct)

lemma update_new: "k \<notin> fst ` set c \<Longrightarrow> AList.update k v c = c @ [(k, v)]"
  by (induction c) auto

lemma add_entries_strings:
  "distinct (List.map fst (c @ l)) \<Longrightarrow> add_entries c (List.map (\<lambda>(k, v). (k, JStr v)) l) = Some (c @ l)"
proof (induction l arbitrary: c)
  case (Cons e l)
  obtain k v where e: "e = (k, v)" by fastforce
  have "AList.update k v c = c @ [(k, v)]" using Cons.prems e by (intro update_new) auto
  moreover have "distinct (List.map fst ((c @ [(k, v)]) @ l))" using Cons.prems e by simp
  ultimately show ?case using Cons.IH [of "c @ [(k, v)]"] e by simp
qed simp

lemma field_names:
  "field_of ''volumeID'' = Some FVolumeID" "field_of ''targetPath'' = Some FTargetPath"
  "field_of ''volumeContext'' = Some FVolumeContext"
  by (simp_all add: field_of_def same_name_def fold_byte_def)

lemma from_to_json:
  assumes "distinct (List.map fst (VolumeContext m))"
  shows "from_json (to_json m) = Some (stored m)"
  using add_entries_strings [of "[]" "sort_key fst (VolumeContext m)"] sort_key_distinct [OF assms]
  by (auto simp: from_json_def to_json_def field_names set_field_def no_metadata_def stored_def)

lemma to_json_text: "utf8_metadata m \<Longrightarrow> text_value (to_json m) \<and> nesting (to_json m) \<le> 2"
proof -
  have names: "valid_utf8 ''volumeID''" "valid_utf8 ''targetPath''" "valid_utf8 ''volumeContext''"
    by code_simp+
  have n: "nesting_members (List.map (\<lambda>(k, v). (k, JStr v)) l) = 0" for l
    by (induction l) auto
  show "utf8_metadata m \<Longrightarrow> ?thesis"
    using names n by (auto simp: utf8_metadata_def to_json_def list_all_iff)
qed

lemma Unmarshal_Marshal:
  assumes "utf8_metadata m"
  shows "Unmarshal (Marshal m) = Some (stored m)" and "Decode (Marshal m) = Some (stored m)"
proof -
  have t: "text_value (to_json m)" "nesting (to_json m) \<le> 10000"
    using to_json_text [OF assms] by simp_all
  have f: "from_json (to_json m) = Some (stored m)"
    by (rule from_to_json) (use assms in \<open>simp add: utf8_metadata_def\<close>)
  show "Unmarshal (Marshal m) = Some (stored m)" "Decode (Marshal m) = Some (stored m)"
    using decode_print [OF t] f by (simp_all add: Unmarshal_def Decode_def Marshal_def)
qed

text \<open>
  C18. Metadata whose strings are valid UTF-8 survives the round trip through its JSON text, for both ways of
  reading it: what is read back is the metadata, with the entries of its context in the order of the text.
\<close>

theorem metadata_roundtrip:
  assumes "utf8_metadata m"
  shows "\<exists>m'. Unmarshal (Marshal m) = Some m' \<and> Decode (Marshal m) = Some m' \<and>
    VolumeID m' = VolumeID m \<and> TargetPath m' = TargetPath m \<and>
    context_equal (VolumeContext m') (VolumeContext m)"
  using Unmarshal_Marshal [OF assms] assms stored_context [of m]
  by (simp add: stored_def utf8_metadata_def context_equal_iff)

theorem metadata_roundtrip_witness:
  "\<exists>m'. Unmarshal (Marshal \<lparr>VolumeID = ''v<1>'', TargetPath = ''/p'', VolumeContext = [(''a'', ''x\"y'')]\<rparr>) =
      Some m' \<and> VolumeID m' = ''v<1>''"
proof -
  have "valid_utf8 ''v<1>''" "valid_utf8 ''/p''" "valid_utf8 ''a''" "valid_utf8 ''x\"y''" by code_simp+
  then show ?thesis
    using metadata_roundtrip [of "\<lparr>VolumeID = ''v<1>'', TargetPath = ''/p'', VolumeContext = [(''a'', ''x\"y'')]\<rparr>"]
    by (auto simp: utf8_metadata_def)
qed

end
