(* ===== verification/MemoryStore.thy ===== *)
theory MemoryStore
  imports Metadata
begin

text \<open>
  \<open>storage/interfaces.go\<close> and \<open>storage/memory.go\<close>: the contract of a metadata store as a locale, and the
  store that keeps volumes in memory. Every operation holds the mutex from start to end, so it is one step
  on the state. \<open>json.Marshal\<close> cannot fail on a \<open>Metadata\<close>; the wording of a JSON error is the parameter
  \<open>msg\<close>, and the order in which a map is listed the parameter \<open>ord\<close>.
\<close>

section \<open>The state\<close>

definition ErrNotFound :: goerror where
  "ErrNotFound = Sentinel ''not found''"

definition ErrInvalidJSON :: goerror where
  "ErrInvalidJSON = Sentinel ''invalid JSON''"

type_synonym file_map = "(string \<times> string) list"

record MemoryFS =
  files :: "(string \<times> file_map) list"

definition NewMemoryFS :: MemoryFS where
  "NewMemoryFS = \<lparr>files = []\<rparr>"

abbreviation meta_file :: string where
  "meta_file \<equiv> ''metadata.json''"

section \<open>Operations\<close>

definition mem_PathForVolume :: "string \<Rightarrow> (MemoryFS, string) state" where
  "mem_PathForVolume volumeID = ret volumeID"

definition mem_RemoveVolume :: "string \<Rightarrow> (MemoryFS, goerror option) state" where
  "mem_RemoveVolume volumeID = State (\<lambda>m. (None, m\<lparr>files := AList.delete volumeID (files m)\<rparr>))"

definition mem_ReadMetadata :: "string \<Rightarrow> (MemoryFS, goerror + Metadata) state" where
  "mem_ReadMetadata volumeID = State (\<lambda>m.
    (case map_of (files m) volumeID of
       None \<Rightarrow> Inl ErrNotFound
     | Some volMap \<Rightarrow>
         (case map_of volMap meta_file of
            None \<Rightarrow> Inl ErrNotFound
          | Some metaFile \<Rightarrow>
              (case Unmarshal metaFile of None \<Rightarrow> Inl ErrInvalidJSON | Some meta \<Rightarrow> Inr meta)), m))"

definition mem_ListVolumes :: "(string list \<Rightarrow> string list) \<Rightarrow> (MemoryFS, goerror + string list) state" where
  "mem_ListVolumes ord = State (\<lambda>m. (Inr (ord (List.map fst (files m))), m))"

definition put_file :: "string \<Rightarrow> string \<Rightarrow> string \<Rightarrow> MemoryFS \<Rightarrow> MemoryFS" where
  "put_file volumeID name content m =
    (case map_of (files m) volumeID of
       None \<Rightarrow> m
     | Some vol \<Rightarrow> m\<lparr>files := AList.update volumeID (AList.update name content vol) (files m)\<rparr>)"

definition mem_WriteMetadata :: "string \<Rightarrow> Metadata \<Rightarrow> (MemoryFS, goerror option) state" where
  "mem_WriteMetadata volumeID meta = State (\<lambda>m.
    (case map_of (files m) volumeID of
       None \<Rightarrow> (Some ErrNotFound, m)
     | Some vol \<Rightarrow> (None, put_file volumeID meta_file (Marshal meta) m)))"

text \<open>The volume's map is added first, and stays when the metadata is not written.\<close>

definition add_volume :: "string \<Rightarrow> MemoryFS \<Rightarrow> MemoryFS" where
  "add_volume volumeID m =
    (case map_of (files m) volumeID of
       None \<Rightarrow> m\<lparr>files := AList.update volumeID [] (files m)\<rparr> | Some _ \<Rightarrow> m)"

definition existing_file :: "string \<Rightarrow> MemoryFS \<Rightarrow> string option" where
  "existing_file volumeID m = Option.bind (map_of (files m) volumeID) (\<lambda>vol. map_of vol meta_file)"

definition mem_RegisterMetadata ::
  "(string \<Rightarrow> string) \<Rightarrow> Metadata \<Rightarrow> (MemoryFS, goerror + bool) state" where
  "mem_RegisterMetadata msg meta = State (\<lambda>m0.
    let m = add_volume (VolumeID meta) m0;
        written = put_file (VolumeID meta) meta_file (Marshal meta) m
    in (case existing_file (VolumeID meta) m of
          None \<Rightarrow> (Inr True, written)
        | Some existingMetaJSON \<Rightarrow>
            (case Unmarshal existingMetaJSON of
               None \<Rightarrow> (Inl (ErrorString (msg existingMetaJSON)), m)
             | Some existingMeta \<Rightarrow>
                 if context_equal (VolumeContext existingMeta) (VolumeContext meta) then (Inr False, m)
                 else (Inr True, written))))"

definition mem_WriteFiles :: "Metadata \<Rightarrow> file_map \<Rightarrow> (MemoryFS, goerror option) state" where
  "mem_WriteFiles meta fs = State (\<lambda>m.
    (case map_of (files m) (VolumeID meta) of
       None \<Rightarrow> (Some ErrNotFound, m)
     | Some vol \<Rightarrow> (None, fold (\<lambda>(k, v). put_file (VolumeID meta) k v) fs m)))"

definition mem_ReadFiles :: "string \<Rightarrow> (MemoryFS, goerror + file_map) state" where
  "mem_ReadFiles volumeID = State (\<lambda>m.
    (case map_of (files m) volumeID of None \<Rightarrow> Inl ErrNotFound | Some vol \<Rightarrow> Inr vol, m))"

section \<open>What is stored\<close>

text \<open>A file of the store, seen as a partial function of volume and name.\<close>

definition mem_file :: "MemoryFS \<Rightarrow> string \<Rightarrow> string \<Rightarrow> string option" where
  "mem_file m volumeID name = Option.bind (map_of (files m) volumeID) (\<lambda>vol. map_of vol name)"

definition has_volume :: "MemoryFS \<Rightarrow> string \<Rightarrow> bool" where
  "has_volume m volumeID \<longleftrightarrow> map_of (files m) volumeID \<noteq> None"

lemma has_volume_update [simp]:
  "has_volume (put_file v n c m) u \<longleftrightarrow> has_volume m u"
  "has_volume (add_volume v m) u \<longleftrightarrow> u = v \<or> has_volume m u"
  by (auto simp: has_volume_def put_file_def add_volume_def map_of_update_AList split: option.split)

lemma mem_file_put:
  "has_volume m v \<Longrightarrow>
    mem_file (put_file v n c m) u k = (if u = v \<and> k = n then Some c else mem_file m u k)"
  by (auto simp: mem_file_def has_volume_def put_file_def map_of_update_AList)

lemma mem_file_add [simp]: "mem_file (add_volume v m) u k = mem_file m u k"
  by (auto simp: mem_file_def add_volume_def map_of_update_AList split: option.split)

lemma mem_file_delete:
  "mem_file (m\<lparr>files := AList.delete v (files m)\<rparr>) u k = (if u = v then None else mem_file m u k)"
  by (auto simp: mem_file_def map_of_delete_AList)

lemma read_metadata_eq:
  "run_state (mem_ReadMetadata v) m =
    (case mem_file m v meta_file of
       None \<Rightarrow> Inl ErrNotFound
     | Some f \<Rightarrow> (case Unmarshal f of None \<Rightarrow> Inl ErrInvalidJSON | Some meta \<Rightarrow> Inr meta), m)"
  by (simp add: mem_ReadMetadata_def mem_file_def split: option.split)

lemma existing_file_eq: "existing_file v m = mem_file m v meta_file"
  by (simp add: existing_file_def mem_file_def)

section \<open>The contract of a metadata store\<close>

text \<open>
  \<open>storage.MetadataReader\<close> and \<open>storage.MetadataWriter\<close>: what a registration that reports success promises
  to a reader, and that volumes do not disturb each other. \<open>known\<close> says of which metadata this is promised.
\<close>

definition same_metadata :: "Metadata \<Rightarrow> Metadata \<Rightarrow> bool" where
  "same_metadata a b \<longleftrightarrow> VolumeID a = VolumeID b \<and> TargetPath a = TargetPath b \<and>
     map_of (VolumeContext a) = map_of (VolumeContext b)"

text \<open>Requests for other volumes between a registration and a read.\<close>

definition other_request ::
  "(Metadata \<Rightarrow> ('s, goerror + bool) state) \<Rightarrow> (string \<Rightarrow> ('s, goerror + Metadata) state) \<Rightarrow>
    (string \<Rightarrow> ('s, goerror option) state) \<Rightarrow> string \<Rightarrow> 's \<Rightarrow> 's \<Rightarrow> bool" where
  "other_request reg rd rem v s t \<longleftrightarrow>
     (\<exists>m. VolumeID m \<noteq> v \<and> t = snd (run_state (reg m) s)) \<or>
     (\<exists>u. u \<noteq> v \<and> t = snd (run_state (rem u) s)) \<or> (\<exists>u. t = snd (run_state (rd u) s))"

locale metadata_store =
  fixes Register :: "Metadata \<Rightarrow> ('s, goerror + bool) state"
    and Read :: "string \<Rightarrow> ('s, goerror + Metadata) state"
    and Remove :: "string \<Rightarrow> ('s, goerror option) state"
    and known :: "Metadata \<Rightarrow> bool"
  assumes read_only: "snd (run_state (Read v) s) = s"
    and written_is_read: "known m \<Longrightarrow> run_state (Register m) s = (Inr True, t) \<Longrightarrow>
      \<exists>m'. fst (run_state (Read (VolumeID m)) t) = Inr m' \<and> same_metadata m' m"
    and kept_is_same: "run_state (Register m) s = (Inr False, t) \<Longrightarrow>
      \<exists>m'. fst (run_state (Read (VolumeID m)) t) = Inr m' \<and>
        map_of (VolumeContext m') = map_of (VolumeContext m)"
    and same_is_kept: "fst (run_state (Read (VolumeID m)) s) = Inr m' \<Longrightarrow>
      map_of (VolumeContext m') = map_of (VolumeContext m) \<Longrightarrow> fst (run_state (Register m) s) = Inr False"
    and register_frame: "v \<noteq> VolumeID m \<Longrightarrow>
      fst (run_state (Read v) (snd (run_state (Register m) s))) = fst (run_state (Read v) s)"
    and remove_gone: "run_state (Remove v) s = (None, t) \<Longrightarrow> fst (run_state (Read v) t) = Inl ErrNotFound"
    and remove_frame: "v \<noteq> u \<Longrightarrow>
      fst (run_state (Read v) (snd (run_state (Remove u) s))) = fst (run_state (Read v) s)"
begin

lemma registered_context:
  assumes "known m" and "run_state (Register m) s = (Inr b, t)"
  shows "\<exists>m'. fst (run_state (Read (VolumeID m)) t) = Inr m' \<and>
    map_of (VolumeContext m') = map_of (VolumeContext m)"
  using written_is_read [OF assms(1)] kept_is_same assms(2)
  by (cases b) (fastforce simp: same_metadata_def)+

lemma register_twice:
  assumes "known m" and "run_state (Register m) s = (Inr b, t)"
  shows "fst (run_state (Register m) t) = Inr False"
  using registered_context [OF assms] same_is_kept by blast

lemma others_keep:
  "(other_request Register Read Remove v)\<^sup>*\<^sup>* s t \<Longrightarrow> fst (run_state (Read v) t) = fst (run_state (Read v) s)"
proof (induction rule: rtranclp_induct)
  case (step t u)
  then show ?case
    using register_frame remove_frame read_only by (fastforce simp: other_request_def)
qed simp

lemma registration_survives:
  assumes "known m" and "run_state (Register m) s = (Inr b, t)" and "(other_request Register Read Remove (VolumeID m))\<^sup>*\<^sup>* t u"
  shows "\<exists>m'. fst (run_state (Read (VolumeID m)) u) = Inr m' \<and>
    map_of (VolumeContext m') = map_of (VolumeContext m)"
  using registered_context [OF assms(1,2)] others_keep [OF assms(3)] by simp

end

section \<open>The store in memory keeps the contract\<close>

lemma mem_register_cases:
  obtains (new) "mem_file m (VolumeID meta) meta_file = None"
      "run_state (mem_RegisterMetadata msg meta) m =
        (Inr True, put_file (VolumeID meta) meta_file (Marshal meta) (add_volume (VolumeID meta) m))"
  | (bad) f where "mem_file m (VolumeID meta) meta_file = Some f" "Unmarshal f = None"
      "run_state (mem_RegisterMetadata msg meta) m = (Inl (ErrorString (msg f)), add_volume (VolumeID meta) m)"
  | (keep) f old where "mem_file m (VolumeID meta) meta_file = Some f" "Unmarshal f = Some old"
      "map_of (VolumeContext old) = map_of (VolumeContext meta)"
      "run_state (mem_RegisterMetadata msg meta) m = (Inr False, add_volume (VolumeID meta) m)"
  | (change) f old where "mem_file m (VolumeID meta) meta_file = Some f" "Unmarshal f = Some old"
      "map_of (VolumeContext old) \<noteq> map_of (VolumeContext meta)"
      "run_state (mem_RegisterMetadata msg meta) m =
        (Inr True, put_file (VolumeID meta) meta_file (Marshal meta) (add_volume (VolumeID meta) m))"
proof -
  note d = mem_RegisterMetadata_def Let_def existing_file_eq context_equal_iff
  show ?thesis
  proof (cases "mem_file m (VolumeID meta) meta_file")
    case None
    with new show ?thesis by (simp add: d)
  next
    case f: (Some f)
    show ?thesis
    proof (cases "Unmarshal f")
      case None
      with bad f show ?thesis by (simp add: d)
    next
      case (Some old)
      with keep change f show ?thesis
        by (cases "map_of (VolumeContext old) = map_of (VolumeContext meta)") (simp_all add: d)
    qed
  qed
qed

interpretation mem: metadata_store "mem_RegisterMetadata msg" mem_ReadMetadata mem_RemoveVolume utf8_metadata
  for msg
proof (unfold_locales, goal_cases)
  case (1 v s)
  show ?case by (simp add: read_metadata_eq)
next
  case (2 m s t)
  then have t: "t = put_file (VolumeID m) meta_file (Marshal m) (add_volume (VolumeID m) s)"
    by (cases rule: mem_register_cases [of s m msg]) auto
  have "same_metadata (stored m) m"
    using stored_context [of m] 2(1) by (simp add: same_metadata_def utf8_metadata_def stored_def)
  then show ?case
    using Unmarshal_Marshal(1) [OF 2(1)] by (simp add: t read_metadata_eq mem_file_put)
next
  case (3 m s t)
  then show ?case by (cases rule: mem_register_cases [of s m msg]) (auto simp: read_metadata_eq)
next
  case (4 m s m')
  then show ?case by (cases rule: mem_register_cases [of s m msg]) (auto simp: read_metadata_eq)
next
  case (5 v m s)
  then show ?case
    by (cases rule: mem_register_cases [of s m msg]) (auto simp: read_metadata_eq mem_file_put)
next
  case (6 v s t)
  then show ?case by (auto simp: mem_RemoveVolume_def read_metadata_eq mem_file_delete)
next
  case (7 v u s)
  then show ?case by (simp add: mem_RemoveVolume_def read_metadata_eq mem_file_delete)
qed

section \<open>Properties\<close>

definition demo_meta :: Metadata where
  "demo_meta = \<lparr>VolumeID = ''v<1>'', TargetPath = ''/pods/p'', VolumeContext = [(''b'', ''2''), (''a'', ''x\"y'')]\<rparr>"

lemma demo_meta_utf8: "utf8_metadata demo_meta"
proof -
  have "valid_utf8 ''v<1>''" "valid_utf8 ''/pods/p''" "valid_utf8 ''b''" "valid_utf8 ''2''" "valid_utf8 ''a''"
    "valid_utf8 ''x\"y''" by code_simp+
  then show ?thesis by (simp add: utf8_metadata_def demo_meta_def)
qed

text \<open>
  A registration that reports no error is visible to every later read: after any requests that
  register, read or remove other volumes, the volume's metadata can be read and has the registered
  context.
\<close>

theorem memory_registration_survives:
  assumes "utf8_metadata meta"
    and "run_state (mem_RegisterMetadata msg meta) m = (Inr b, m1)"
    and "(other_request (mem_RegisterMetadata msg) mem_ReadMetadata mem_RemoveVolume (VolumeID meta))\<^sup>*\<^sup>* m1 m2"
  shows "\<exists>meta'. fst (run_state (mem_ReadMetadata (VolumeID meta)) m2) = Inr meta' \<and>
      map_of (VolumeContext meta') = map_of (VolumeContext meta)"
  using assms by (rule mem.registration_survives)

theorem memory_registration_survives_witness:
  "\<exists>m1 meta'. run_state (mem_RegisterMetadata (\<lambda>_. '''') demo_meta) NewMemoryFS = (Inr True, m1) \<and>
    fst (run_state (mem_ReadMetadata ''v<1>'') (snd (run_state (mem_RemoveVolume ''w'') m1))) = Inr meta' \<and>
    map_of (VolumeContext meta') ''a'' = Some ''x\"y''"
proof -
  obtain m1 where r: "run_state (mem_RegisterMetadata (\<lambda>_. '''') demo_meta) NewMemoryFS = (Inr True, m1)"
    by (cases rule: mem_register_cases [of NewMemoryFS demo_meta "\<lambda>_. ''''"])
      (auto simp: NewMemoryFS_def mem_file_def)
  have "(other_request (mem_RegisterMetadata (\<lambda>_. '''')) mem_ReadMetadata mem_RemoveVolume
      (VolumeID demo_meta))\<^sup>*\<^sup>* m1 (snd (run_state (mem_RemoveVolume ''w'') m1))"
    by (rule r_into_rtranclp) (auto simp: other_request_def demo_meta_def)
  from memory_registration_survives [OF demo_meta_utf8 r this] r
  show ?thesis by (auto simp: demo_meta_def)
qed

text \<open>
  Registering the same metadata again reports that nothing was written.
\<close>

theorem memory_register_twice:
  assumes "utf8_metadata meta" and "run_state (mem_RegisterMetadata msg meta) m = (Inr b, m1)"
  shows "fst (run_state (mem_RegisterMetadata msg meta) m1) = Inr False"
  using assms by (rule mem.register_twice)

theorem memory_register_twice_witness:
  "\<exists>m1. run_state (mem_RegisterMetadata (\<lambda>_. '''') demo_meta) NewMemoryFS = (Inr True, m1) \<and>
    fst (run_state (mem_RegisterMetadata (\<lambda>_. '''') demo_meta) m1) = Inr False"
proof -
  obtain m1 where r: "run_state (mem_RegisterMetadata (\<lambda>_. '''') demo_meta) NewMemoryFS = (Inr True, m1)"
    by (cases rule: mem_register_cases [of NewMemoryFS demo_meta "\<lambda>_. ''''"])
      (auto simp: NewMemoryFS_def mem_file_def)
  with memory_register_twice [OF demo_meta_utf8 r] show ?thesis by auto
qed

text \<open>
  Data files share a map with the metadata. A data file called \<open>metadata.json\<close> replaces the metadata,
  and when it is not JSON, the volume can neither be read nor registered again until it is removed.
\<close>

theorem memory_data_replaces_metadata:
  assumes "has_volume m (VolumeID meta)" and "Unmarshal c = None"
  shows "\<exists>m1. run_state (mem_WriteFiles meta [(''metadata.json'', c)]) m = (None, m1) \<and>
    fst (run_state (mem_ReadMetadata (VolumeID meta)) m1) = Inl ErrInvalidJSON \<and>
    (\<forall>new. VolumeID new = VolumeID meta \<longrightarrow>
      run_state (mem_RegisterMetadata msg new) m1 = (Inl (ErrorString (msg c)), m1))"
proof -
  let ?m1 = "put_file (VolumeID meta) meta_file c m"
  have f: "mem_file ?m1 (VolumeID meta) meta_file = Some c"
    using assms(1) by (simp add: mem_file_put)
  have w: "run_state (mem_WriteFiles meta [(meta_file, c)]) m = (None, ?m1)"
    using assms(1) by (auto simp: mem_WriteFiles_def has_volume_def)
  have "run_state (mem_RegisterMetadata msg new) ?m1 = (Inl (ErrorString (msg c)), ?m1)"
    if "VolumeID new = VolumeID meta" for new
  proof -
    have "add_volume (VolumeID new) ?m1 = ?m1"
      using assms(1) that by (auto simp: add_volume_def has_volume_def put_file_def map_of_update_AList)
    then show ?thesis
      using f assms(2) that by (cases rule: mem_register_cases [of ?m1 new msg]) auto
  qed
  with w f assms(2) show ?thesis by (auto simp: read_metadata_eq)
qed

theorem memory_data_replaces_metadata_witness:
  "\<exists>m1. run_state (mem_WriteFiles demo_meta [(''metadata.json'', ''{'')])
      \<lparr>files = [(''v<1>'', [])]\<rparr> = (None, m1) \<and>
    fst (run_state (mem_ReadMetadata ''v<1>'') m1) = Inl ErrInvalidJSON"
proof -
  have "Unmarshal ''{'' = None"
    by (simp add: Unmarshal_def decode_all_def)
  then show ?thesis
    using memory_data_replaces_metadata [of "\<lparr>files = [(''v<1>'', [])]\<rparr>" demo_meta "''{''" "\<lambda>_. ''''"]
    by (auto simp: has_volume_def demo_meta_def)
qed

end
