(* ===== verification/FileOps.thy ===== *)
theory FileOps
  imports FileSystem "HOL-Library.List_Lexorder" "HOL-Library.Char_ord"
begin

unbundle bit_operations_syntax

text \<open>
  The rest of the \<open>os\<close>, \<open>io/ioutil\<close> and \<open>path/filepath\<close> calls that the storage code makes: whole-file
  reads and writes, attributes, rename, temporary directories, listing and walking. Set-id and sticky
  bits, partial writes and the contents of devices are left out, and the root's attributes are fixed.
\<close>

section \<open>A call that changes the store and returns a value\<close>

definition sys_update :: "(fstore \<Rightarrow> errno + 'a \<times> fstore) \<Rightarrow> ('x world, errno + 'a) state" where
  "sys_update f = State (\<lambda>w.
    let w' = w\<lparr>calls := Suc (calls w)\<rparr>
    in (case faults w (calls w) of
          Some e \<Rightarrow> (Inl (Fault e), w')
        | None \<Rightarrow>
            (case f (store w) of Inl e \<Rightarrow> (Inl e, w') | Inr (a, st) \<Rightarrow> (Inr a, w'\<lparr>store := st\<rparr>))))"

lemma sys_update_frame [frame_intros]: "state_io_rel same_env (sys_update f)"
  by (auto simp: sys_update_def same_env_def state_io_rel_def Let_def split: option.splits sum.splits)

section \<open>Files\<close>

definition os_ReadFile :: "string \<Rightarrow> ('x world, goerror + string) state" where
  "os_ReadFile path = do {
    f \<leftarrow> sys_read (st_get True path);
    case f of
      Inl e \<Rightarrow> ret (Inl (PathError ''open'' path e))
    | Inr i \<Rightarrow> map_state (lift_err (PathError ''read'' path))
        (sys_read (\<lambda>_. case kind i of
           Regular c \<Rightarrow> Inr c | Directory \<Rightarrow> Inl EISDIR | _ \<Rightarrow> Inl EINVAL))
  }"

text \<open>
  \<open>os.WriteFile\<close> opens with O_CREATE and O_TRUNC, following links, and then writes. A new file gets the
  given permission bits less the umask, an existing one keeps its attributes.
\<close>

definition st_open_trunc ::
  "string \<Rightarrow> 32 word \<Rightarrow> fstore \<Rightarrow> errno + (string list \<times> fstore)" where
  "st_open_trunc path m st =
    (case namei st True path of
       Inl e \<Rightarrow> Inl e
     | Inr p \<Rightarrow>
         (case lookup st p of
            None \<Rightarrow> Inr (p, store_put p \<lparr>kind = Regular '''', perm = m, uid = 0, gid = 0\<rparr> st)
          | Some i \<Rightarrow>
              (case kind i of
                 Regular _ \<Rightarrow> Inr (p, store_put p (i\<lparr>kind := Regular ''''\<rparr>) st)
               | Directory \<Rightarrow> Inl EISDIR
               | _ \<Rightarrow> Inr (p, st))))"

definition st_write_at :: "string list \<Rightarrow> string \<Rightarrow> fstore \<Rightarrow> errno + fstore" where
  "st_write_at p content st =
    (case lookup st p of
       Some i \<Rightarrow> (case kind i of Regular _ \<Rightarrow> Inr (store_put p (i\<lparr>kind := Regular content\<rparr>) st) | _ \<Rightarrow> Inr st)
     | None \<Rightarrow> Inr st)"

definition os_WriteFile :: "string \<Rightarrow> string \<Rightarrow> 32 word \<Rightarrow> ('x world, goerror option) state" where
  "os_WriteFile path content m = do {
    f \<leftarrow> State (\<lambda>w. run_state (sys_update (st_open_trunc path ((m AND 0x1FF) AND NOT (umask w)))) w);
    case f of
      Inl e \<Rightarrow> ret (Some (PathError ''open'' path e))
    | Inr p \<Rightarrow> map_state (map_option (PathError ''write'' path)) (sys_write (st_write_at p content))
  }"

definition st_change :: "(inode \<Rightarrow> inode) \<Rightarrow> string \<Rightarrow> fstore \<Rightarrow> errno + fstore" where
  "st_change g path st =
    (case namei st True path of
       Inl e \<Rightarrow> Inl e
     | Inr p \<Rightarrow>
         (case lookup st p of
            None \<Rightarrow> Inl ENOENT
          | Some i \<Rightarrow> Inr (if p = [] then st else store_put p (g i) st)))"

definition os_Chmod :: "string \<Rightarrow> 32 word \<Rightarrow> ('x world, goerror option) state" where
  "os_Chmod path m = map_state (map_option (PathError ''chmod'' path))
    (sys_write (st_change (\<lambda>i. i\<lparr>perm := m AND 0x1FF\<rparr>) path))"

text \<open>The kernel reads an owner as a 32-bit number, and takes the largest one to mean no change.\<close>

definition chown_id :: "int \<Rightarrow> int \<Rightarrow> int" where
  "chown_id new old = (if new mod 4294967296 = 4294967295 then old else new mod 4294967296)"

definition os_Chown :: "string \<Rightarrow> int \<Rightarrow> int \<Rightarrow> ('x world, goerror option) state" where
  "os_Chown path u g = map_state (map_option (PathError ''chown'' path))
    (sys_write (st_change (\<lambda>i. i\<lparr>uid := chown_id u (uid i), gid := chown_id g (gid i)\<rparr>) path))"

section \<open>Rename\<close>

definition st_key :: "string \<Rightarrow> fstore \<Rightarrow> errno + string list \<times> inode" where
  "st_key path st =
    (case namei st False path of
       Inl e \<Rightarrow> Inl e
     | Inr p \<Rightarrow> (case lookup st p of None \<Rightarrow> Inl ENOENT | Some i \<Rightarrow> Inr (p, i)))"

definition move_keys :: "string list \<Rightarrow> string list \<Rightarrow> fstore \<Rightarrow> fstore" where
  "move_keys a b st = map (\<lambda>(k, i). (if prefix a k then b @ drop (length a) k else k, i)) st"

definition st_rename :: "string \<Rightarrow> string \<Rightarrow> fstore \<Rightarrow> errno + fstore" where
  "st_rename old new st =
    (case st_key old st of
       Inl e \<Rightarrow> Inl e
     | Inr (a, i) \<Rightarrow>
         (case namei st False new of
            Inl e \<Rightarrow> Inl e
          | Inr b \<Rightarrow>
              if a = b then Inr st
              else if kind i = Directory then
                (if a = [] \<or> strict_prefix a b then Inl EINVAL
                 else (case lookup st b of
                         None \<Rightarrow> Inr (move_keys a b st)
                       | Some j \<Rightarrow>
                           if kind j \<noteq> Directory then Inl ENOTDIR
                           else if has_entries b st then Inl ENOTEMPTY
                           else Inr (move_keys a b (store_del b st))))
              else (case lookup st b of
                      Some j \<Rightarrow>
                        if kind j = Directory then Inl EISDIR else Inr (store_put b i (store_del a st))
                    | None \<Rightarrow> Inr (store_put b i (store_del a st)))))"

text \<open>Go asks about the new name first, and refuses to replace another directory.\<close>

definition os_Rename :: "string \<Rightarrow> string \<Rightarrow> ('x world, goerror option) state" where
  "os_Rename old new = do {
    n \<leftarrow> sys_read (st_key new);
    stop \<leftarrow> (case n of
       Inl _ \<Rightarrow> ret None
     | Inr (b, j) \<Rightarrow>
         if IsDir j then do {
           m \<leftarrow> sys_read (st_key old);
           ret (case m of
                  Inl e \<Rightarrow> Some e
                | Inr (a, _) \<Rightarrow> if new = old \<or> a \<noteq> b then Some EEXIST else None)
         } else ret None);
    case stop of
      Some e \<Rightarrow> ret (Some (LinkError ''rename'' old new e))
    | None \<Rightarrow> map_state (map_option (LinkError ''rename'' old new)) (sys_write (st_rename old new))
  }"

section \<open>Temporary directories\<close>

text \<open>
  \<open>ioutil.TempDir\<close> with a pattern without \<open>*\<close>: names are tried with random suffixes until one is new, at
  most 10000 times. The suffixes are the argument \<open>rnd\<close>.
\<close>

definition join_path :: "string \<Rightarrow> string \<Rightarrow> string" where
  "join_path dir name = (if dir \<noteq> '''' \<and> last dir = sep then dir @ name else dir @ sep # name)"

fun try_names :: "nat \<Rightarrow> (nat \<Rightarrow> string) \<Rightarrow> string \<Rightarrow> string \<Rightarrow> ('x world, goerror + string) state" where
  "try_names 0 rnd dir pattern =
    ret (Inl (PathError ''mkdirtemp'' (dir @ sep # join_path dir pattern @ ''*'') EEXIST))"
| "try_names (Suc n) rnd dir pattern = do {
    let name = join_path dir pattern @ rnd n;
    r \<leftarrow> os_Mkdir name 0x1C0;
    case r of
      None \<Rightarrow> ret (Inr name)
    | Some e \<Rightarrow>
        (case e of
           PathError _ _ EEXIST \<Rightarrow> try_names n rnd dir pattern
         | _ \<Rightarrow>
             if IsNotExist e then do {
               s \<leftarrow> os_Stat dir;
               ret (case s of Inl es \<Rightarrow> if IsNotExist es then Inl es else Inl e | Inr _ \<Rightarrow> Inl e)
             }
             else ret (Inl e))
  }"

definition TempDir :: "(nat \<Rightarrow> string) \<Rightarrow> string \<Rightarrow> string \<Rightarrow> ('x world, goerror + string) state" where
  "TempDir rnd dir pattern = try_names 10000 rnd dir pattern"

section \<open>Listing and walking\<close>

definition child_names :: "fstore \<Rightarrow> string list \<Rightarrow> string list" where
  "child_names st p =
    sort (map last (filter (\<lambda>k. k \<noteq> [] \<and> butlast k = p) (map fst st)))"

definition st_read_dir :: "string \<Rightarrow> fstore \<Rightarrow> errno + string list" where
  "st_read_dir path st =
    (case namei st True path of
       Inl e \<Rightarrow> Inl e
     | Inr p \<Rightarrow>
         (case lookup st p of
            None \<Rightarrow> Inl ENOENT
          | Some i \<Rightarrow> if kind i = Directory then Inr (child_names st p) else Inl ENOTDIR))"

definition readDirNames :: "string \<Rightarrow> ('x world, goerror + string list) state" where
  "readDirNames path = map_state (lift_err (PathError ''open'' path)) (sys_read (st_read_dir path))"

text \<open>
  \<open>filepath.Walk\<close> with a visitor that never returns an error: the list of paths it is called with, in
  order. The visitor is called for a path whose \<open>Lstat\<close> or listing failed, too, and the walk goes on.
  The fuel \<open>n\<close> bounds the depth; \<open>walk_fuel\<close> is enough for any store.
\<close>

fun walk :: "nat \<Rightarrow> string \<Rightarrow> inode \<Rightarrow> ('x world, string list) state"
  and walk_names :: "nat \<Rightarrow> string \<Rightarrow> string list \<Rightarrow> ('x world, string list) state" where
  "walk 0 path i = ret [path]"
| "walk (Suc n) path i =
    (if \<not> IsDir i then ret [path]
     else do {
       names \<leftarrow> readDirNames path;
       case names of
         Inl e \<Rightarrow> ret [path]
       | Inr ns \<Rightarrow> map_state ((#) path) (walk_names n path ns)
     })"
| "walk_names n path [] = ret []"
| "walk_names n path (name # ns) = do {
    let filename = Join [path, name];
    f \<leftarrow> os_Lstat filename;
    here \<leftarrow> (case f of Inl e \<Rightarrow> ret [filename] | Inr i \<Rightarrow> walk n filename i);
    rest \<leftarrow> walk_names n path ns;
    ret (here @ rest)
  }"

definition walk_fuel :: "fstore \<Rightarrow> nat" where
  "walk_fuel st = Suc (fold max (map (\<lambda>(k, _). length k) st) 0)"

definition Walk :: "string \<Rightarrow> ('x world, string list) state" where
  "Walk root = do {
    f \<leftarrow> os_Lstat root;
    case f of
      Inl e \<Rightarrow> ret [root]
    | Inr i \<Rightarrow> State (\<lambda>w. run_state (walk (walk_fuel (store w)) root i) w)
  }"

section \<open>Frames\<close>

lemma os_ReadFile_ro [frame_intros]: "state_io_rel same_store (os_ReadFile path)"
  unfolding os_ReadFile_def by (intro ro.io_rules frame_intros)

lemma readDirNames_ro [frame_intros]: "state_io_rel same_store (readDirNames path)"
  unfolding readDirNames_def by (intro frame_intros)

lemma walk_ro_aux:
  "state_io_rel same_store (walk n path i :: ('x world, string list) state)"
  "state_io_rel same_store (walk_names n path ns :: ('x world, string list) state)"
proof (induction n path i and n path ns rule: walk_walk_names.induct)
  case (2 n path i)
  then show ?case unfolding walk.simps by (intro ro.io_rules frame_intros) auto
next
  case (4 n path name ns)
  then show ?case unfolding walk_names.simps Let_def by (intro ro.io_rules frame_intros) auto
qed (simp_all add: ro.io_return)

lemma Walk_ro [frame_intros]: "state_io_rel same_store (Walk root)"
proof -
  have "state_io_rel same_store (State (\<lambda>w. run_state (walk (walk_fuel (store w)) root i) w))"
    for i :: inode
    using walk_ro_aux(1) by (auto simp: state_io_rel_def)
  then show ?thesis
    unfolding Walk_def by (intro ro.io_rules frame_intros)
qed

end
