(* ===== verification/AtomicWriter.thy ===== *)
theory AtomicWriter
  imports FileOps Strconv Libraries "HOL-Library.Multiset"
begin

text \<open>
  \<open>third_party/util/atomic_writer.go\<close>: projecting a set of files into a directory so that a reader sees
  either the old set or the new one. A Go map is a list of its entries with distinct keys; each loop
  over a map has an iteration order of its own, given by the environment. Time and the random
  suffixes of temporary names come from the environment, too. Logging is left out.
\<close>

section \<open>Data\<close>

record FileProjection =
  fp_Data :: string
  fp_Mode :: "32 word"
  fp_FsUser :: "int option"

type_synonym payload = "(string \<times> FileProjection) list"

record AtomicWriter =
  targetDir :: string

record civil_time =
  year :: nat
  month :: nat
  day :: nat
  hour :: nat
  minute :: nat
  second :: nat

record writer_env =
  GOOS :: goos
  now :: civil_time
  rnd :: "nat \<Rightarrow> string"
  map_order :: "nat \<Rightarrow> payload \<Rightarrow> payload"
  set_order :: "string list \<Rightarrow> string list"

text \<open>What is known of the environment: an order lists each entry once, a suffix is a decimal number.\<close>

definition env_laws :: "writer_env \<Rightarrow> bool" where
  "env_laws env \<longleftrightarrow>
    (\<forall>n p. mset (map_order env n p) = mset p) \<and> (\<forall>l. mset (set_order env l) = mset l) \<and>
    (\<forall>n. \<exists>k. rnd env n = show_nat k)"

lemma env_laws_sets:
  assumes "env_laws env"
  shows "set (map_order env n p) = set p" "set (set_order env l) = set l"
proof -
  have "mset (map_order env n p) = mset p" "mset (set_order env l) = mset l"
    using assms by (simp_all add: env_laws_def)
  then show "set (map_order env n p) = set p" "set (set_order env l) = set l"
    by (auto dest: mset_eq_setD)
qed

definition dataDirName :: string where
  "dataDirName = ''..data''"

definition newDataDirName :: string where
  "newDataDirName = ''..data_tmp''"

definition NewAtomicWriter :: "string \<Rightarrow> ('x world, goerror + AtomicWriter) state" where
  "NewAtomicWriter dir = do {
    r \<leftarrow> os_Stat dir;
    ret (case r of
           Inl err \<Rightarrow> if IsNotExist err then Inl err else Inr \<lparr>targetDir = dir\<rparr>
         | Inr _ \<Rightarrow> Inr \<lparr>targetDir = dir\<rparr>)
  }"

section \<open>Validation\<close>

definition check_item :: "string \<Rightarrow> string \<Rightarrow> goerror option" where
  "check_item targetPath item =
    (if item = ''..'' then
       Some (ErrorString (''invalid path: must not contain '' @ [CHR 0x27] @ ''..'' @ [CHR 0x27] @
         '': '' @ targetPath))
     else if length item > 255 then
       Some (ErrorString ''invalid path: filenames must be less than or equal to 255 characters'')
     else None)"

fun check_items :: "string \<Rightarrow> string list \<Rightarrow> goerror option" where
  "check_items targetPath [] = None"
| "check_items targetPath (item # items) =
    (case check_item targetPath item of Some e \<Rightarrow> Some e | None \<Rightarrow> check_items targetPath items)"

definition validatePath :: "string \<Rightarrow> goerror option" where
  "validatePath p =
    (if p = '''' then Some (ErrorString (''invalid path: must not be empty: '' @ Quote p))
     else if IsAbs p then Some (ErrorString (''invalid path: must be relative path: '' @ p))
     else if length p > 4096 then
       Some (ErrorString ''invalid path: must be less than or equal to 4096 characters'')
     else
       (let items = split_on sep p
        in case check_items p items of
             Some e \<Rightarrow> Some e
           | None \<Rightarrow>
               if HasPrefix (hd items) ''..'' \<and> length (hd items) > 2 then
                 Some (ErrorString (''invalid path: must not start with '' @ [CHR 0x27] @ ''..'' @
                   [CHR 0x27] @ '': '' @ p))
               else None))"

fun validate_entries :: "payload \<Rightarrow> payload \<Rightarrow> goerror + payload" where
  "validate_entries [] clean = Inr clean"
| "validate_entries ((k, content) # rest) clean =
    (case validatePath k of
       Some err \<Rightarrow> Inl err
     | None \<Rightarrow> validate_entries rest (AList.update (Clean k) content clean))"

definition validatePayload :: "writer_env \<Rightarrow> payload \<Rightarrow> goerror + payload" where
  "validatePayload env payload = validate_entries (map_order env 0 payload) []"

section \<open>Comparing with the old version\<close>

definition shouldWriteFile :: "string \<Rightarrow> string \<Rightarrow> ('x world, goerror + bool) state" where
  "shouldWriteFile path content = do {
    r \<leftarrow> os_Lstat path;
    if (case r of Inl err \<Rightarrow> IsNotExist err | Inr _ \<Rightarrow> False) then ret (Inr True)
    else do {
      c \<leftarrow> os_ReadFile path;
      ret (case c of Inl err \<Rightarrow> Inl err | Inr contentOnFs \<Rightarrow> Inr (content \<noteq> contentOnFs))
    }
  }"

fun should_write :: "payload \<Rightarrow> string \<Rightarrow> ('x world, goerror + bool) state" where
  "should_write [] oldTsDir = ret (Inr False)"
| "should_write ((userVisiblePath, fileProjection) # rest) oldTsDir = do {
    r \<leftarrow> shouldWriteFile (Join [oldTsDir, userVisiblePath]) (fp_Data fileProjection);
    case r of
      Inl err \<Rightarrow> ret (Inl err)
    | Inr b \<Rightarrow> if b then ret (Inr True) else should_write rest oldTsDir
  }"

definition shouldWritePayload ::
  "writer_env \<Rightarrow> payload \<Rightarrow> string \<Rightarrow> ('x world, goerror + bool) state" where
  "shouldWritePayload env payload oldTsDir = should_write (map_order env 1 payload) oldTsDir"

text \<open>The file and the directories above it, as the code cuts the path.\<close>

lemma Split_dir_shorter: "p \<noteq> '''' \<Longrightarrow> length (TrimSuffix (fst (Split p)) [sep]) < length p"
proof -
  assume ne: "p \<noteq> ''''"
  show ?thesis
  proof (cases "fst (Split p) = p")
    case True
    then have "snd (Split p) = ''''" using Split_append [of p] by simp
    then have "takeWhile (\<lambda>c. c \<noteq> sep) (rev p) = []" by (simp add: Split_def Let_def)
    with ne have "last p = sep"
      by (cases p rule: rev_cases) (auto split: if_splits)
    with ne True show ?thesis
      by (cases p rule: rev_cases) (simp_all add: TrimSuffix_def)
  next
    case False
    then have "length (fst (Split p)) < length p"
      using Split_append [of p] by (metis append_self_conv length_append less_add_same_cancel1 length_greater_0_conv)
    moreover have "length (TrimSuffix (fst (Split p)) [sep]) \<le> length (fst (Split p))"
      by (simp add: TrimSuffix_def)
    ultimately show ?thesis by linarith
  qed
qed

function subpaths :: "string \<Rightarrow> string list" where
  "subpaths p = (if p = '''' then [] else p # subpaths (TrimSuffix (fst (Split p)) [sep]))"
  by pat_completeness auto
termination
  by (relation "measure length") (simp_all add: Split_dir_shorter)

declare subpaths.simps [simp del]

definition relative_to :: "string \<Rightarrow> string \<Rightarrow> string" where
  "relative_to oldTsDir path = TrimPrefix (TrimPrefix path oldTsDir) [sep]"

text \<open>The visitor never returns an error, so the walk does not return one either.\<close>

definition pathsToRemove :: "payload \<Rightarrow> string \<Rightarrow> ('x world, string list) state" where
  "pathsToRemove payload oldTsDir = do {
    visited \<leftarrow> Walk oldTsDir;
    let paths = remdups (filter (\<lambda>r. r \<noteq> '''') (map (relative_to oldTsDir) visited));
    let newPaths = concat (map (subpaths \<circ> fst) payload);
    ret (filter (\<lambda>r. r \<notin> set newPaths) paths)
  }"

section \<open>Writing the new version\<close>

definition ts_prefix :: "civil_time \<Rightarrow> string" where
  "ts_prefix t = ''..'' @ zero_pad 4 (year t) @ ''_'' @ zero_pad 2 (month t) @ ''_'' @
     zero_pad 2 (day t) @ ''_'' @ zero_pad 2 (hour t) @ ''_'' @ zero_pad 2 (minute t) @ ''_'' @
     zero_pad 2 (second t) @ ''.''"

definition newTimestampDir :: "writer_env \<Rightarrow> AtomicWriter \<Rightarrow> ('x world, goerror + string) state" where
  "newTimestampDir env w = do {
    r \<leftarrow> TempDir (rnd env) (targetDir w) (ts_prefix (now env));
    case r of
      Inl err \<Rightarrow> ret (Inl err)
    | Inr tsDir \<Rightarrow> do {
        e \<leftarrow> os_Chmod tsDir 0x1ED;
        ret (case e of Some err \<Rightarrow> Inl err | None \<Rightarrow> Inr tsDir)
      }
  }"

definition write_file :: "string \<Rightarrow> string \<Rightarrow> FileProjection \<Rightarrow> ('x world, goerror option) state" where
  "write_file dir userVisiblePath fp = do {
    let fullPath = Join [dir, userVisiblePath];
    e \<leftarrow> os_MkdirAll (fst (Split fullPath)) 0x1FF;
    case e of
      Some err \<Rightarrow> ret (Some err)
    | None \<Rightarrow> do {
        e \<leftarrow> os_WriteFile fullPath (fp_Data fp) (fp_Mode fp);
        case e of
          Some err \<Rightarrow> ret (Some err)
        | None \<Rightarrow> do {
            e \<leftarrow> os_Chmod fullPath (fp_Mode fp);
            case e of
              Some err \<Rightarrow> ret (Some err)
            | None \<Rightarrow>
                (case fp_FsUser fp of
                   None \<Rightarrow> ret None
                 | Some u \<Rightarrow> os_Chown fullPath u (- 1))
          }
      }
  }"

fun write_files :: "payload \<Rightarrow> string \<Rightarrow> ('x world, goerror option) state" where
  "write_files [] dir = ret None"
| "write_files ((userVisiblePath, fp) # rest) dir = do {
    e \<leftarrow> write_file dir userVisiblePath fp;
    case e of Some err \<Rightarrow> ret (Some err) | None \<Rightarrow> write_files rest dir
  }"

definition writePayloadToDir ::
  "writer_env \<Rightarrow> payload \<Rightarrow> string \<Rightarrow> ('x world, goerror option) state" where
  "writePayloadToDir env payload dir = write_files (map_order env 2 payload) dir"

definition first_comp :: "string \<Rightarrow> string" where
  "first_comp p = takeWhile (\<lambda>c. c \<noteq> sep) p"

fun create_visible :: "payload \<Rightarrow> string \<Rightarrow> ('x world, goerror option) state" where
  "create_visible [] dir = ret None"
| "create_visible ((userVisiblePath, fp) # rest) dir = do {
    let linkname = first_comp userVisiblePath;
    r \<leftarrow> os_Readlink (Join [dir, linkname]);
    e \<leftarrow> (if (case r of Inl err \<Rightarrow> IsNotExist err | Inr _ \<Rightarrow> False)
          then os_Symlink (Join [dataDirName, linkname]) (Join [dir, linkname]) else ret None);
    case e of Some err \<Rightarrow> ret (Some err) | None \<Rightarrow> create_visible rest dir
  }"

definition createUserVisibleFiles ::
  "writer_env \<Rightarrow> AtomicWriter \<Rightarrow> payload \<Rightarrow> ('x world, goerror option) state" where
  "createUserVisibleFiles env w payload = create_visible (map_order env 3 payload) (targetDir w)"

fun remove_visible :: "string list \<Rightarrow> string \<Rightarrow> goerror option \<Rightarrow> ('x world, goerror option) state" where
  "remove_visible [] dir lasterr = ret lasterr"
| "remove_visible (p # ps) dir lasterr =
    (if sep \<in> set p then remove_visible ps dir lasterr
     else do {
       e \<leftarrow> os_Remove (Join [dir, p]);
       remove_visible ps dir (case e of Some err \<Rightarrow> Some err | None \<Rightarrow> lasterr)
     })"

definition removeUserVisiblePaths ::
  "writer_env \<Rightarrow> AtomicWriter \<Rightarrow> string list \<Rightarrow> ('x world, goerror option) state" where
  "removeUserVisiblePaths env w paths = remove_visible (set_order env paths) (targetDir w) None"

section \<open>Write\<close>

text \<open>Steps 8 and 9: a new link to the new version takes the place of the data directory's link.\<close>

definition switch_version ::
  "writer_env \<Rightarrow> AtomicWriter \<Rightarrow> string \<Rightarrow> ('x world, goerror option) state" where
  "switch_version env w tsDir = do {
    let tsDirName = Base tsDir;
    let dataDirPath = Join [targetDir w, dataDirName];
    let newDataDirPath = Join [targetDir w, newDataDirName];
    e \<leftarrow> os_Symlink tsDirName newDataDirPath;
    case e of
      Some err \<Rightarrow> do { _ \<leftarrow> os_RemoveAll tsDir; ret (Some err) }
    | None \<Rightarrow> do {
        e \<leftarrow> (if GOOS env = Windows then do {
                _ \<leftarrow> os_Remove dataDirPath;
                e \<leftarrow> os_Symlink tsDirName dataDirPath;
                _ \<leftarrow> os_Remove newDataDirPath;
                ret e
              } else os_Rename newDataDirPath dataDirPath);
        case e of
          Some err \<Rightarrow> do {
            _ \<leftarrow> os_Remove newDataDirPath;
            _ \<leftarrow> os_RemoveAll tsDir;
            ret (Some err)
          }
        | None \<Rightarrow> ret None
      }
  }"

text \<open>Steps 5 to 9: everything up to and including the switch.\<close>

definition install_version ::
  "writer_env \<Rightarrow> AtomicWriter \<Rightarrow> payload \<Rightarrow> ('x world, goerror option) state" where
  "install_version env w cleanPayload = do {
    t \<leftarrow> newTimestampDir env w;
    case t of
      Inl err \<Rightarrow> ret (Some err)
    | Inr tsDir \<Rightarrow> do {
        e \<leftarrow> writePayloadToDir env cleanPayload tsDir;
        case e of
          Some err \<Rightarrow> ret (Some err)
        | None \<Rightarrow> do {
            e \<leftarrow> createUserVisibleFiles env w cleanPayload;
            case e of Some err \<Rightarrow> ret (Some err) | None \<Rightarrow> switch_version env w tsDir
          }
      }
  }"

text \<open>Steps 10 and 11: what the new version leaves over is removed.\<close>

definition clean_up ::
  "writer_env \<Rightarrow> AtomicWriter \<Rightarrow> string list \<Rightarrow> string \<Rightarrow> ('x world, goerror option) state" where
  "clean_up env w paths oldTsDir = do {
    e \<leftarrow> removeUserVisiblePaths env w paths;
    case e of
      Some err \<Rightarrow> ret (Some err)
    | None \<Rightarrow> if oldTsDir \<noteq> '''' then os_RemoveAll (Join [targetDir w, oldTsDir]) else ret None
  }"

text \<open>Steps 3 and 4: the paths to remove, or nothing when no update is needed.\<close>

definition compare_versions ::
  "writer_env \<Rightarrow> payload \<Rightarrow> string \<Rightarrow> ('x world, goerror + string list option) state" where
  "compare_versions env cleanPayload oldTsPath = do {
    paths \<leftarrow> pathsToRemove cleanPayload oldTsPath;
    should \<leftarrow> shouldWritePayload env cleanPayload oldTsPath;
    ret (case should of
           Inl err \<Rightarrow> Inl err
         | Inr b \<Rightarrow> if \<not> b \<and> paths = [] then Inr None else Inr (Some paths))
  }"

definition Write :: "writer_env \<Rightarrow> AtomicWriter \<Rightarrow> payload \<Rightarrow> ('x world, goerror option) state" where
  "Write env w payload =
    (case validatePayload env payload of
       Inl err \<Rightarrow> ret (Some err)
     | Inr cleanPayload \<Rightarrow> do {
         l \<leftarrow> os_Readlink (Join [targetDir w, dataDirName]);
         if (case l of Inl err \<Rightarrow> \<not> IsNotExist err | Inr _ \<Rightarrow> False)
         then ret (case l of Inl err \<Rightarrow> Some err | Inr _ \<Rightarrow> None)
         else do {
           let oldTsDir = (case l of Inl _ \<Rightarrow> '''' | Inr t \<Rightarrow> t);
           c \<leftarrow> (if oldTsDir \<noteq> '''' then compare_versions env cleanPayload (Join [targetDir w, oldTsDir])
                 else ret (Inr (Some [])));
           case c of
             Inl err \<Rightarrow> ret (Some err)
           | Inr None \<Rightarrow> ret None
           | Inr (Some paths) \<Rightarrow> do {
               e \<leftarrow> install_version env w cleanPayload;
               case e of Some err \<Rightarrow> ret (Some err) | None \<Rightarrow> clean_up env w paths oldTsDir
             }
         }
       })"

end
