(* ===== verification/CanonPath.thy ===== *)
theory CanonPath
  imports FileOps
begin

text \<open>
  Paths and resolution when nothing unusual is on the way: a path built from plain names, whose
  directories exist and are not links, leads to the key it spells. The storage code works below such a
  directory, so these lemmas turn its path strings into keys of the store.
\<close>

section \<open>Path strings of plain names\<close>

definition name_comp :: "string \<Rightarrow> bool" where
  "name_comp c \<longleftrightarrow> plain_comp c \<and> c \<noteq> ''..''"

abbreviation names :: "string list \<Rightarrow> bool" where
  "names cs \<equiv> list_all name_comp cs"

lemma name_compD: "name_comp c \<Longrightarrow> c \<noteq> '''' \<and> c \<noteq> ''.'' \<and> c \<noteq> ''..'' \<and> sep \<notin> set c"
  by (simp add: name_comp_def plain_comp_def)

lemma names_no_sep: "names cs \<Longrightarrow> \<forall>c \<in> set cs. sep \<notin> set c"
  by (auto simp: list_all_iff dest: name_compD)

lemma split_on_append_sep: "split_on c (a @ c # b) = split_on c a @ split_on c b"
proof (induction a)
  case (Cons x a)
  then show ?case by (cases "split_on c a") auto
qed simp

lemma split_on_Nil [simp]: "split_on c [] = ['''']"
  by simp

lemma split_on_Cons_sep [simp]: "split_on c (c # s) = '''' # split_on c s"
  by simp

lemma join_on_not_Nil: "cs \<noteq> [] \<Longrightarrow> names cs \<Longrightarrow> join_on sep cs \<noteq> ''''"
  by (induction sep cs rule: join_on.induct) (auto dest: name_compD)

lemma split_join_names: "names cs \<Longrightarrow> cs \<noteq> [] \<Longrightarrow> split_on sep (join_on sep cs) = cs"
  by (intro split_join names_no_sep)

lemma join_on_snoc: "xs \<noteq> [] \<Longrightarrow> join_on c (xs @ [y]) = join_on c xs @ c # y"
  by (induction c xs rule: join_on.induct) auto

lemma join_on_append:
  "xs \<noteq> [] \<Longrightarrow> ys \<noteq> [] \<Longrightarrow> join_on c (xs @ ys) = join_on c xs @ c # join_on c ys"
  by (induction c xs rule: join_on.induct) (auto simp: neq_Nil_conv)

lemma clean_names: "names cs \<Longrightarrow> clean_comps r [] cs = cs"
  by (subst clean_comps_fixed) (simp_all add: list.pred_mono_strong name_comp_def [abs_def])

lemma clean_path_string_append:
  assumes "names D" and "names q" and "q \<noteq> []"
  shows "Clean (path_string D @ sep # join_on sep q) = path_string (D @ q)"
proof -
  have "split_on sep (path_string D @ sep # join_on sep q) =
      '''' # (if D = [] then [''''] else D) @ q"
    using assms by (simp add: split_on_append_sep path_string_def split_join_names del: split_on.simps(2))
  moreover have "clean_comps True [] ('''' # (if D = [] then [''''] else D) @ q) = D @ q"
    using assms clean_names [of "D @ q" True]
    by (cases "D = []") (simp_all add: clean_comps_skip)
  ultimately show ?thesis
    by (simp add: Clean_def IsAbs_def path_string_def)
qed

lemma Join_path_string:
  "names D \<Longrightarrow> names q \<Longrightarrow> q \<noteq> [] \<Longrightarrow>
    Join [path_string D, join_on sep q] = path_string (D @ q)"
  using clean_path_string_append [of D q] by (simp add: Join_def path_string_def)

lemma Join_path_string_name:
  "names D \<Longrightarrow> name_comp c \<Longrightarrow> Join [path_string D, c] = path_string (D @ [c])"
  using Join_path_string [of D "[c]"] by simp

lemma Join_rel_names:
  assumes "name_comp a" and "name_comp b"
  shows "Join [a, b] = a @ sep # b"
proof -
  have a: "a \<noteq> ''''" "sep \<notin> set a" "b \<noteq> ''''" "sep \<notin> set b" using assms by (auto dest: name_compD)
  have "split_on sep (a @ sep # b) = [a, b]"
    using a by (simp add: split_on_append split_on_no_sep)
  moreover have "clean_comps False [] [a, b] = [a, b]"
    using assms clean_names [of "[a, b]" False] by simp
  moreover have "\<not> IsAbs (a @ sep # b)"
    using a by (cases a) (auto simp: IsAbs_def)
  ultimately show ?thesis using a by (simp add: Join_def Clean_def)
qed

text \<open>Cutting a path string.\<close>

lemma strip_path_string:
  assumes "names (p @ [c])"
  shows "strip_slashes (path_string (p @ [c])) = path_string (p @ [c])"
    "strip_slashes (path_string (p @ [c]) @ [sep]) = path_string (p @ [c])"
proof -
  have "c \<noteq> ''''" "sep \<notin> set c" using assms by (auto dest: name_compD)
  then obtain c' x where c: "c = c' @ [x]" "x \<noteq> sep" by (cases c rule: rev_cases) auto
  have "\<exists>pre. path_string (p @ [c]) = pre @ [x]"
    using c by (cases "p = []") (auto simp: path_string_def join_on_snoc)
  then show "strip_slashes (path_string (p @ [c])) = path_string (p @ [c])"
    "strip_slashes (path_string (p @ [c]) @ [sep]) = path_string (p @ [c])"
    using c(2) by (auto simp: strip_slashes_def)
qed

lemma Split_last:
  "sep \<notin> set c \<Longrightarrow> Split (pre @ sep # c) = (pre @ [sep], c)"
proof -
  assume "sep \<notin> set c"
  then have "takeWhile (\<lambda>x. x \<noteq> sep) (rev c @ sep # rev pre) = rev c"
    by (subst takeWhile_append2) auto
  then show ?thesis by (simp add: Split_def)
qed

lemma path_string_snoc:
  "path_string (p @ [c]) = (if p = [] then [] else path_string p) @ sep # c"
  by (simp add: path_string_def join_on_snoc)

lemma Split_path_string:
  "name_comp c \<Longrightarrow>
    Split (path_string (p @ [c])) = ((if p = [] then [] else path_string p) @ [sep], c)"
  by (simp add: path_string_snoc Split_last name_compD)

lemma Base_path_string: "names (p @ [c]) \<Longrightarrow> Base (path_string (p @ [c])) = c"
  by (simp add: Base_def strip_path_string Split_path_string Let_def name_compD)
    (simp add: path_string_def)

lemma parent_path_string:
  "names (p @ [c]) \<Longrightarrow>
    parent_path (path_string (p @ [c])) = (if p = [] then '''' else path_string p)"
  "names (p @ [c]) \<Longrightarrow>
    parent_path (path_string (p @ [c]) @ [sep]) = (if p = [] then '''' else path_string p)"
  by (simp_all add: parent_path_def strip_path_string Split_path_string)

section \<open>Directories and links\<close>

definition is_dir :: "fstore \<Rightarrow> string list \<Rightarrow> bool" where
  "is_dir st p \<longleftrightarrow> (\<exists>i. lookup st p = Some i \<and> kind i = Directory)"

definition is_link :: "fstore \<Rightarrow> string list \<Rightarrow> bool" where
  "is_link st p \<longleftrightarrow> (\<exists>i t. lookup st p = Some i \<and> kind i = Symlink t)"

fun dirs :: "fstore \<Rightarrow> string list \<Rightarrow> string list \<Rightarrow> bool" where
  "dirs st cur [] = True"
| "dirs st cur (c # cs) = (is_dir st (cur @ [c]) \<and> dirs st (cur @ [c]) cs)"

abbreviation dirs_to :: "fstore \<Rightarrow> string list \<Rightarrow> bool" where
  "dirs_to st p \<equiv> dirs st [] p"

definition no_links_below :: "fstore \<Rightarrow> string list \<Rightarrow> bool" where
  "no_links_below st p \<longleftrightarrow> (\<forall>k. strict_prefix p k \<longrightarrow> \<not> is_link st k)"

lemma dirs_append: "dirs st cur (a @ b) \<longleftrightarrow> dirs st cur a \<and> dirs st (cur @ a) b"
  by (induction a arbitrary: cur) auto

lemma dirs_butlast: "dirs st cur cs \<Longrightarrow> dirs st cur (butlast cs)"
  by (cases cs rule: rev_cases) (auto simp: dirs_append)

lemma no_links_below_mono: "no_links_below st p \<Longrightarrow> prefix p q \<Longrightarrow> no_links_below st q"
  unfolding no_links_below_def using prefix_order.le_less_trans by blast

lemma dirs_cong:
  "dirs st cur cs \<Longrightarrow> (\<And>k. prefix k (cur @ cs) \<Longrightarrow> lookup st' k = lookup st k) \<Longrightarrow> dirs st' cur cs"
proof (induction cs arbitrary: cur)
  case (Cons c cs)
  then show ?case
    using Cons.prems(2) [of "cur @ [c]"] Cons.IH [of "cur @ [c]"] by (auto simp: is_dir_def)
qed simp

section \<open>Resolution\<close>

lemma resolve_empty [simp]: "resolve st fl n cur ('''' # cs) = resolve st fl n cur cs"
  by (simp add: resolve.simps(2))

lemma resolve_dirs:
  "names cs \<Longrightarrow> dirs st cur cs \<Longrightarrow> resolve st fl n cur (cs @ rest) = resolve st fl n (cur @ cs) rest"
  by (induction cs arbitrary: cur)
    (auto simp: resolve.simps(2) is_dir_def dest: name_compD)

lemma resolve_last_nofollow:
  "name_comp c \<Longrightarrow> resolve st False n cur [c] = Inr (cur @ [c])"
  by (auto simp: resolve.simps(2) split: option.split fkind.split dest: name_compD)

lemma resolve_last_nolink:
  "name_comp c \<Longrightarrow> \<not> is_link st (cur @ [c]) \<Longrightarrow> resolve st fl n cur [c] = Inr (cur @ [c])"
  by (auto simp: resolve.simps(2) is_link_def split: option.split fkind.split dest: name_compD)

text \<open>Below a directory without links, a path leads to the key it spells or nowhere.\<close>

lemma resolve_plain:
  assumes "names cs" and "no_links_below st cur" and "e = [] \<or> e = ['''']"
    and "resolve st fl n cur (cs @ e) = Inr k"
  shows "k = cur @ cs \<and> dirs st cur (butlast cs)"
  using assms
proof (induction cs arbitrary: cur)
  case Nil
  then show ?case by auto
next
  case (Cons c cs)
  have c: "name_comp c" and cs: "names cs" using Cons.prems by auto
  have nl: "\<not> is_link st (cur @ [c])"
    using Cons.prems(2) by (simp add: no_links_below_def strict_prefix_def)
  have below: "no_links_below st (cur @ [c])"
    using Cons.prems(2) by (rule no_links_below_mono) simp
  note res = Cons.prems(4)
  show ?case
  proof (cases "is_dir st (cur @ [c])")
    case True
    then have "resolve st fl n (cur @ [c]) (cs @ e) = Inr k"
      using res c by (auto simp: resolve.simps(2) is_dir_def dest: name_compD)
    from Cons.IH [OF cs below Cons.prems(3) this] True show ?thesis by simp
  next
    case False
    then have "cs @ e = [] \<and> k = cur @ [c]"
      using res c nl
      by (auto simp: resolve.simps(2) is_dir_def is_link_def split: option.splits fkind.splits if_splits
          dest: name_compD)
    then show ?thesis by simp
  qed
qed

lemma namei_path_string: "names p \<Longrightarrow> namei st fl (path_string p) = resolve st fl max_links [] p"
  by (cases "p = []")
    (simp_all add: namei_def path_string_def split_join_names del: split_on.simps(2))

lemma namei_path_string_slash:
  "names p \<Longrightarrow> namei st fl (path_string p @ [sep]) = resolve st fl max_links [] (p @ [''''])"
  by (cases "p = []")
    (simp_all add: namei_def path_string_def split_on_append_sep split_join_names del: split_on.simps(2))

lemma namei_in_dir:
  assumes "names (D @ [c])" and "dirs_to st D"
  shows "namei st False (path_string (D @ [c])) = Inr (D @ [c])"
  using assms resolve_dirs [of D st "[]" False max_links "[c]"]
  by (simp add: namei_path_string resolve_last_nofollow)

text \<open>
  A working area: a directory that is reached without links, with nothing but directories and regular
  files below it.
\<close>

definition plain_below :: "fstore \<Rightarrow> string list \<Rightarrow> bool" where
  "plain_below st T \<longleftrightarrow> (\<forall>k i. strict_prefix T k \<longrightarrow> lookup st k = Some i \<longrightarrow>
     kind i = Directory \<or> (\<exists>c. kind i = Regular c))"

definition area :: "fstore \<Rightarrow> string list \<Rightarrow> bool" where
  "area st T \<longleftrightarrow> dirs_to st T \<and> plain_below st T"

lemma area_no_links: "area st T \<Longrightarrow> no_links_below st T"
  by (fastforce simp: area_def plain_below_def no_links_below_def is_link_def)

lemma is_dir_root [simp]: "is_dir st []"
  by (simp add: is_dir_def lookup_def root_dir_def)

lemma dirs_to_is_dir: "dirs_to st p \<Longrightarrow> is_dir st p"
  by (cases p rule: rev_cases) (auto simp: dirs_append)

lemma dirs_to_prefix: "dirs_to st p \<Longrightarrow> prefix q p \<Longrightarrow> dirs_to st q"
  by (auto simp: prefix_def dirs_append)

lemma dirs_to_snoc: "dirs_to st (p @ [c]) \<longleftrightarrow> dirs_to st p \<and> is_dir st (p @ [c])"
  by (simp add: dirs_append)

lemma namei_area:
  assumes "area st T" and "names T" and "names p" and "prefix p T \<or> prefix T p"
    and "s = path_string p \<or> s = path_string p @ [sep]" and "namei st fl s = Inr k"
  shows "k = p \<and> dirs_to st (butlast p)"
proof -
  have d: "dirs_to st T" using assms(1) by (simp add: area_def)
  obtain e where e: "e = [] \<or> e = ['''']" and r: "resolve st fl max_links [] (p @ e) = Inr k"
    using assms(5,6) namei_path_string [OF assms(3)] namei_path_string_slash [OF assms(3)]
    by (metis append_Nil2)
  show ?thesis
  proof (cases "prefix p T")
    case True
    then have "dirs_to st p" using d by (rule dirs_to_prefix [rotated])
    with r e assms(3) show ?thesis by (auto simp: resolve_dirs dirs_butlast)
  next
    case False
    with assms(4) obtain q where q: "p = T @ q" "q \<noteq> []" by (auto simp: prefix_def)
    have "resolve st fl max_links T (q @ e) = Inr k"
      using r q(1) assms(2) d by (simp add: resolve_dirs)
    from resolve_plain [OF _ area_no_links [OF assms(1)] e this] q assms(3) d
    show ?thesis by (simp add: dirs_append butlast_append)
  qed
qed

end
