(* ===== verification/StoreLogic.thy ===== *)
theory StoreLogic
  imports CanonPath
begin

unbundle bit_operations_syntax

text \<open>
  Reasoning about programs over the store: \<open>ensures P m Q\<close> says that from a store with \<open>P\<close> every run of
  \<open>m\<close>, under every pattern of failing calls, ends in a result and a store with \<open>Q\<close>. The specifications of
  the system calls on plain paths say exactly which key they change.
\<close>

section \<open>Rules\<close>

definition ensures ::
  "(fstore \<Rightarrow> bool) \<Rightarrow> ('x world, 'a) state \<Rightarrow> ('a \<Rightarrow> fstore \<Rightarrow> bool) \<Rightarrow> bool" where
  "ensures P m Q \<longleftrightarrow> (\<forall>w r w'. P (store w) \<longrightarrow> run_state m w = (r, w') \<longrightarrow> Q r (store w'))"

lemma ensuresD: "ensures P m Q \<Longrightarrow> P (store w) \<Longrightarrow> run_state m w = (r, w') \<Longrightarrow> Q r (store w')"
  by (simp add: ensures_def)

lemma ensuresI:
  "(\<And>w r w'. P (store w) \<Longrightarrow> run_state m w = (r, w') \<Longrightarrow> Q r (store w')) \<Longrightarrow> ensures P m Q"
  by (simp add: ensures_def)

lemma ensures_conseq:
  "ensures P m Q \<Longrightarrow> (\<And>st. P' st \<Longrightarrow> P st) \<Longrightarrow> (\<And>r st. Q r st \<Longrightarrow> Q' r st) \<Longrightarrow> ensures P' m Q'"
  unfolding ensures_def by blast

lemma ensures_ret: "(\<And>st. P st \<Longrightarrow> Q x st) \<Longrightarrow> ensures P (ret x) Q"
  by (auto simp: ensures_def)

lemma ensures_bind:
  "ensures P m R \<Longrightarrow> (\<And>a. ensures (R a) (f a) Q) \<Longrightarrow> ensures P (State_Monad.bind m f) Q"
  by (fastforce simp: ensures_def split: prod.splits)

lemma ensures_if:
  "(b \<Longrightarrow> ensures P m Q) \<Longrightarrow> (\<not> b \<Longrightarrow> ensures P n Q) \<Longrightarrow> ensures P (if b then m else n) Q"
  by simp

lemma ensures_option:
  "(x = None \<Longrightarrow> ensures P m Q) \<Longrightarrow> (\<And>a. x = Some a \<Longrightarrow> ensures P (f a) Q) \<Longrightarrow>
    ensures P (case x of None \<Rightarrow> m | Some a \<Rightarrow> f a) Q"
  by (simp split: option.split)

lemma ensures_sum:
  "(\<And>e. x = Inl e \<Longrightarrow> ensures P (f e) Q) \<Longrightarrow> (\<And>a. x = Inr a \<Longrightarrow> ensures P (g a) Q) \<Longrightarrow>
    ensures P (case x of Inl e \<Rightarrow> f e | Inr a \<Rightarrow> g a) Q"
  by (simp split: sum.split)

lemma ensures_map_state: "ensures P m (\<lambda>r. Q (f r)) \<Longrightarrow> ensures P (map_state f m) Q"
  by (auto simp: ensures_def prod_eq_iff)

lemma ensures_ro: "state_io_rel same_store m \<Longrightarrow> ensures P m (\<lambda>_. P)"
  by (auto simp: ensures_def same_store_def dest!: state_io_relD)

lemma ensures_sys_write:
  assumes "\<And>st e. P st \<Longrightarrow> Q (Some (Fault e)) st"
    and "\<And>st e. P st \<Longrightarrow> f st = Inl e \<Longrightarrow> Q (Some e) st"
    and "\<And>st st'. P st \<Longrightarrow> f st = Inr st' \<Longrightarrow> Q None st'"
  shows "ensures P (sys_write f) Q"
  using assms by (auto simp: ensures_def sys_write_def Let_def split: option.splits sum.splits)

lemma ensures_sys_update:
  assumes "\<And>st e. P st \<Longrightarrow> Q (Inl e) st"
    and "\<And>st a st'. P st \<Longrightarrow> f st = Inr (a, st') \<Longrightarrow> Q (Inr a) st'"
  shows "ensures P (sys_update f) Q"
  using assms by (auto simp: ensures_def sys_update_def Let_def split: option.splits sum.splits)

lemma ensures_sys_read:
  assumes "\<And>st e. P st \<Longrightarrow> Q (Inl (Fault e)) st" and "\<And>st. P st \<Longrightarrow> Q (f st) st"
  shows "ensures P (sys_read f) Q"
  using assms by (auto simp: ensures_def sys_read_def split: option.splits)

lemma ensures_env: "(\<And>u. ensures P (g u) Q) \<Longrightarrow> ensures P (State (\<lambda>w. run_state (g (umask w)) w)) Q"
  by (auto simp: ensures_def)

lemmas ensures_rules = ensures_ret ensures_bind ensures_if ensures_option ensures_sum

section \<open>Calls on a name in a directory\<close>

abbreviation link_to :: "string \<Rightarrow> inode" where
  "link_to t \<equiv> \<lparr>kind = Symlink t, perm = 0x1FF, uid = 0, gid = 0\<rparr>"

lemma os_Symlink_spec:
  assumes "names (D @ [c])" and "dirs_to s0 D"
  shows "ensures (\<lambda>st. st = s0) (os_Symlink t (path_string (D @ [c])))
    (\<lambda>r st. case r of
       None \<Rightarrow> lookup s0 (D @ [c]) = None \<and> st = store_put (D @ [c]) (link_to t) s0
     | Some _ \<Rightarrow> st = s0)"
  unfolding os_Symlink_def
  by (rule ensures_map_state, rule ensures_sys_write)
    (use assms in \<open>auto simp: st_symlink_def st_create_def namei_in_dir split: if_splits option.splits\<close>)

text \<open>Making a directory on a path that leads into an area, or to it.\<close>

definition on_area :: "fstore \<Rightarrow> string list \<Rightarrow> string list \<Rightarrow> bool" where
  "on_area st T p \<longleftrightarrow> area st T \<and> names T \<and> names p \<and> (prefix p T \<or> prefix T p)"

definition spells :: "string \<Rightarrow> string list \<Rightarrow> bool" where
  "spells s p \<longleftrightarrow> s = path_string p \<or> s = path_string p @ [sep]"

lemma namei_spells:
  "on_area st T p \<Longrightarrow> spells s p \<Longrightarrow> namei st fl s = Inr k \<Longrightarrow> k = p \<and> dirs_to st (butlast p)"
  unfolding on_area_def spells_def by (blast dest: namei_area)

lemma st_get_spells:
  "on_area st T p \<Longrightarrow> spells s p \<Longrightarrow> st_get fl s st = Inr i \<Longrightarrow>
    lookup st p = Some i \<and> dirs_to st (butlast p)"
  by (auto simp: st_get_def dest: namei_spells split: sum.splits option.splits)

lemma st_get_dir_spells:
  assumes "on_area st T p" and "spells s p" and "st_get fl s st = Inr i" and "IsDir i"
  shows "dirs_to st p"
  using st_get_spells [OF assms(1-3)] assms(4)
  by (cases p rule: rev_cases) (auto simp: dirs_to_snoc is_dir_def IsDir_iff)

lemma ensures_any: "(\<And>s1. R s1 \<Longrightarrow> ensures (\<lambda>st. st = s1) m Q) \<Longrightarrow> ensures R m Q"
  by (auto simp: ensures_def)

lemma os_Stat_spec:
  "ensures (\<lambda>st. st = s0) (os_Stat s)
    (\<lambda>r st. st = s0 \<and> (\<forall>i. r = Inr i \<longrightarrow> st_get True s s0 = Inr i))"
  unfolding os_Stat_def
  by (rule ensures_map_state, rule ensures_sys_read)
    (auto simp: lift_err_def split: sum.splits)

lemma os_Lstat_spec:
  "ensures (\<lambda>st. st = s0) (os_Lstat s)
    (\<lambda>r st. st = s0 \<and> (\<forall>i. r = Inr i \<longrightarrow> st_get False s s0 = Inr i))"
  unfolding os_Lstat_def
  by (rule ensures_map_state, rule ensures_sys_read)
    (auto simp: lift_err_def split: sum.splits)

lemma strip_spells:
  assumes "names p" and "spells s p"
  shows "(if s \<noteq> '''' \<and> strip_slashes s = '''' then ''/'' else strip_slashes s) = path_string p"
proof (cases p rule: rev_cases)
  case Nil
  with assms show ?thesis
    by (auto simp: spells_def path_string_def strip_slashes_def)
next
  case (snoc P c)
  with assms strip_path_string [of P c] have "strip_slashes s = path_string p"
    by (auto simp: spells_def)
  then show ?thesis by (simp add: path_string_def)
qed

lemma spells_path_string [simp]: "spells (path_string p) p"
  by (simp add: spells_def)

lemma on_area_path: "on_area st T p \<Longrightarrow> names p"
  by (simp add: on_area_def)

lemma os_Mkdir_at:
  assumes "names p" and "spells s p"
    and k: "\<And>k. namei s0 False (path_string p) = Inr k \<Longrightarrow> k = p \<and> dirs_to s0 (butlast p)"
  shows "ensures (\<lambda>st. st = s0) (os_Mkdir s m)
    (\<lambda>r st. case r of
       None \<Rightarrow> lookup s0 p = None \<and> dirs_to s0 (butlast p) \<and>
         (\<exists>i. kind i = Directory \<and> st = store_put p i s0)
     | Some _ \<Rightarrow> st = s0)"
proof -
  have name: "(if s \<noteq> '''' \<and> strip_slashes s = '''' then ''/'' else strip_slashes s) = path_string p"
    using strip_spells [OF assms(1,2)] .
  have "ensures (\<lambda>st. st = s0) (map_state (map_option (PathError ''mkdir'' s))
      (sys_write (st_mkdir (m AND NOT u) s)))
    (\<lambda>r st. case r of
       None \<Rightarrow> lookup s0 p = None \<and> dirs_to s0 (butlast p) \<and>
         (\<exists>i. kind i = Directory \<and> st = store_put p i s0)
     | Some _ \<Rightarrow> st = s0)" for u
    by (rule ensures_map_state, rule ensures_sys_write)
      (use name k in \<open>auto simp: st_mkdir_def st_create_def Let_def split: sum.splits option.splits
        intro!: exI [of _ "\<lparr>kind = Directory, perm = m AND NOT u, uid = 0, gid = 0\<rparr>"]\<close>)
  then show ?thesis unfolding os_Mkdir_def by (rule ensures_env)
qed

lemma os_Mkdir_spec:
  assumes "on_area s0 T p" and "spells s p"
  shows "ensures (\<lambda>st. st = s0) (os_Mkdir s m)
    (\<lambda>r st. case r of
       None \<Rightarrow> lookup s0 p = None \<and> dirs_to s0 (butlast p) \<and>
         (\<exists>i. kind i = Directory \<and> st = store_put p i s0)
     | Some _ \<Rightarrow> st = s0)"
  using namei_spells [OF assms(1) spells_path_string]
  by (intro os_Mkdir_at on_area_path [OF assms(1)] assms(2)) blast

lemma os_Mkdir_in_dir:
  assumes "names (D @ [c])" and "dirs_to s0 D"
  shows "ensures (\<lambda>st. st = s0) (os_Mkdir (path_string (D @ [c])) m)
    (\<lambda>r st. case r of
       None \<Rightarrow> lookup s0 (D @ [c]) = None \<and> dirs_to s0 (butlast (D @ [c])) \<and>
         (\<exists>i. kind i = Directory \<and> st = store_put (D @ [c]) i s0)
     | Some _ \<Rightarrow> st = s0)"
  using namei_in_dir [OF assms] assms(2) by (intro os_Mkdir_at assms(1)) auto

section \<open>MkdirAll\<close>

text \<open>Only directories appear, below the area's root and on the way to the path.\<close>

definition grows :: "string list \<Rightarrow> string list \<Rightarrow> fstore \<Rightarrow> fstore \<Rightarrow> bool" where
  "grows T p st st' \<longleftrightarrow> (\<forall>k. lookup st' k = lookup st k \<or>
     (lookup st k = None \<and> is_dir st' k \<and> strict_prefix T k \<and> prefix k p))"

lemma grows_refl [simp]: "grows T p st st"
  by (simp add: grows_def)

lemma grows_keeps: "grows T p a b \<Longrightarrow> lookup a k = Some i \<Longrightarrow> lookup b k = Some i"
  unfolding grows_def by (metis option.distinct(1))

lemma grows_dir: "grows T p a b \<Longrightarrow> is_dir a k \<Longrightarrow> is_dir b k"
  by (auto simp: is_dir_def dest: grows_keeps)

lemma dirs_mono: "(\<And>k. is_dir a k \<Longrightarrow> is_dir b k) \<Longrightarrow> dirs a cur cs \<Longrightarrow> dirs b cur cs"
  by (induction cs arbitrary: cur) auto

lemma grows_trans:
  assumes "grows T p a b" and "grows T q b c" and "prefix p q"
  shows "grows T q a c"
  unfolding grows_def
proof
  fix k
  note c = assms(2) [unfolded grows_def, rule_format, of k]
  from assms(1) [unfolded grows_def, rule_format, of k]
  show "lookup c k = lookup a k \<or>
      lookup a k = None \<and> is_dir c k \<and> strict_prefix T k \<and> prefix k q"
  proof (elim disjE conjE)
    assume "lookup b k = lookup a k"
    then show ?thesis using c by auto
  next
    assume n: "lookup a k = None" "is_dir b k" "strict_prefix T k" "prefix k p"
    then have "lookup c k = lookup b k" using c by (auto simp: is_dir_def)
    moreover have "prefix k q" using n(4) assms(3) by (rule prefix_order.trans)
    ultimately show ?thesis using n by (simp add: is_dir_def)
  qed
qed

lemma grows_area: "grows T p a b \<Longrightarrow> area a T \<Longrightarrow> area b T"
  unfolding area_def
proof (intro conjI)
  assume g: "grows T p a b" and a: "dirs_to a T \<and> plain_below a T"
  show "dirs_to b T" using a grows_dir [OF g] dirs_mono by blast
  show "plain_below b T"
    unfolding plain_below_def
  proof (intro allI impI)
    fix k i
    assume "strict_prefix T k" and "lookup b k = Some i"
    then show "kind i = Directory \<or> (\<exists>c. kind i = Regular c)"
      using g a unfolding grows_def plain_below_def is_dir_def by (metis option.inject)
  qed
qed

lemma grows_on_area: "grows T q a b \<Longrightarrow> on_area a T p \<Longrightarrow> on_area b T p"
  by (auto simp: on_area_def dest: grows_area)

lemma on_area_missing:
  "on_area st T p \<Longrightarrow> lookup st p = None \<Longrightarrow> strict_prefix T p"
  unfolding on_area_def
  by (metis area_def dirs_to_is_dir dirs_to_prefix is_dir_def option.distinct(1) prefix_order.le_less
      prefix_order.order_refl)

lemma grows_mkdir:
  assumes "on_area st T p" and "lookup st p = None" and "kind i = Directory"
  shows "grows T p st (store_put p i st)"
proof -
  have s: "strict_prefix T p" using assms(1,2) by (rule on_area_missing)
  then have "p \<noteq> []" by auto
  with s assms(2,3) show ?thesis by (auto simp: grows_def is_dir_def lookup_put)
qed

lemma dirs_to_mkdir:
  assumes "dirs_to st (butlast p)" and "lookup st p = None" and "kind i = Directory"
  shows "dirs_to (store_put p i st) p"
proof (cases p rule: rev_cases)
  case (snoc P c)
  have "is_dir (store_put p i st) k" if "is_dir st k" for k
    using that assms(2,3) snoc by (auto simp: is_dir_def lookup_put)
  then have "dirs_to (store_put p i st) P"
    using assms(1) snoc dirs_mono by fastforce
  then show ?thesis
    using snoc assms(3) by (simp add: dirs_to_snoc is_dir_def lookup_put)
qed simp

lemma on_area_butlast: "on_area st T p \<Longrightarrow> on_area st T (butlast p)"
  by (cases p rule: rev_cases)
    (auto simp: on_area_def dest: append_prefixD)

lemma parent_spells:
  assumes "names p" and "spells s p"
  shows "parent_path s = (if butlast p = [] then '''' else path_string (butlast p))"
proof (cases p rule: rev_cases)
  case Nil
  with assms(2) show ?thesis
    by (auto simp: spells_def path_string_def parent_path_def strip_slashes_def Split_def)
next
  case (snoc P c)
  with assms parent_path_string [of P c] show ?thesis by (auto simp: spells_def)
qed

lemma os_MkdirAll_spec:
  assumes "on_area s0 T p" and "spells s p"
  shows "ensures (\<lambda>st. st = s0) (os_MkdirAll s m :: ('x world, goerror option) state)
    (\<lambda>r st. grows T p s0 st \<and> (r = None \<longrightarrow> dirs_to st p))"
  using assms
proof (induction s m arbitrary: p s0 rule: os_MkdirAll.induct)
  case (1 s m)
  note IH = 1(1) and oa = 1(2) and sp = 1(3)
  let ?P = "butlast p"
  let ?up = "(if parent_path s \<noteq> '''' then os_MkdirAll (parent_path s) m else ret None)
      :: ('x world, goerror option) state"
  have up: "ensures (\<lambda>st. st = s0) ?up (\<lambda>r st. grows T ?P s0 st \<and> (r = None \<longrightarrow> dirs_to st ?P))"
  proof (cases "parent_path s = ''''")
    case True
    then have "?P = []" using parent_spells [OF on_area_path [OF oa] sp]
      by (auto simp: path_string_def split: if_splits)
    with True show ?thesis by (auto intro: ensures_ret)
  next
    case False
    then have "parent_path s = path_string ?P"
      using parent_spells [OF on_area_path [OF oa] sp] by (simp split: if_splits)
    with False show ?thesis
      using IH [OF False on_area_butlast [OF oa]] by simp
  qed
  have stop: "ensures (\<lambda>st. st = s1) (ret x) (\<lambda>r st. grows T p s0 st \<and> (r = None \<longrightarrow> dirs_to st p))"
    if "grows T p s0 s1" and "x = None \<Longrightarrow> dirs_to s1 p" for s1 x
    using that by (auto intro: ensures_ret)
  have mk: "ensures (\<lambda>st. st = s1) (do {
        r \<leftarrow> os_Mkdir s m;
        case r of
          None \<Rightarrow> ret None
        | Some e \<Rightarrow> do {
            again \<leftarrow> os_Lstat s;
            case again of Inr i \<Rightarrow> ret (if IsDir i then None else Some e) | Inl _ \<Rightarrow> ret (Some e)
          }
      }) (\<lambda>r st. grows T p s0 st \<and> (r = None \<longrightarrow> dirs_to st p))"
    if g: "grows T ?P s0 s1" and d: "dirs_to s1 ?P" for s1
  proof -
    have gp: "grows T p s0 s1"
      using grows_trans [OF g grows_refl] prefixeq_butlast by blast
    have oa1: "on_area s1 T p" using grows_on_area [OF g oa] .
    show ?thesis
    proof (rule ensures_bind [OF os_Mkdir_spec [OF oa1 sp]], goal_cases)
      case (1 r)
      show ?case
      proof (cases r)
        case None
        show ?thesis unfolding None option.case
        proof (rule ensures_ret, elim conjE exE)
          fix st i
          assume n: "lookup s1 p = None" and k: "kind i = Directory" and st: "st = store_put p i s1"
          have "grows T p s0 st"
            unfolding st by (rule grows_trans [OF gp grows_mkdir [OF oa1 n k]]) simp
          moreover have "dirs_to st p" unfolding st by (rule dirs_to_mkdir [OF d n k])
          ultimately show "grows T p s0 st \<and> (None = None \<longrightarrow> dirs_to st p)" by simp
        qed
      next
        case (Some e)
        show ?thesis unfolding Some option.case
        proof (rule ensures_bind [OF os_Lstat_spec], rule ensures_any, elim conjE)
          fix a st
          assume "st = s1" and a: "\<forall>i. a = Inr i \<longrightarrow> st_get False s s1 = Inr i"
          show "ensures (\<lambda>t. t = st)
              (case a of Inr i \<Rightarrow> ret (if IsDir i then None else Some e) | Inl _ \<Rightarrow> ret (Some e))
              (\<lambda>r st. grows T p s0 st \<and> (r = None \<longrightarrow> dirs_to st p))"
            unfolding \<open>st = s1\<close>
            by (intro ensures_sum stop gp)
              (use a st_get_dir_spells [OF oa1 sp] in \<open>auto split: if_splits\<close>)
        qed
      qed
    qed
  qed
  show ?case
    unfolding os_MkdirAll.simps [of s m]
  proof (rule ensures_bind [OF os_Stat_spec], rule ensures_any, elim conjE)
    fix a st
    assume st: "st = s0" and a: "\<forall>i. a = Inr i \<longrightarrow> st_get True s s0 = Inr i"
    show "ensures (\<lambda>t. t = st) (case a of
        Inr i \<Rightarrow> ret (if IsDir i then None else Some (PathError ''mkdir'' s ENOTDIR))
      | Inl _ \<Rightarrow> do { up \<leftarrow> ?up; case up of Some e \<Rightarrow> ret (Some e) | None \<Rightarrow> do {
            r \<leftarrow> os_Mkdir s m;
            case r of
              None \<Rightarrow> ret None
            | Some e \<Rightarrow> do {
                again \<leftarrow> os_Lstat s;
                case again of Inr i \<Rightarrow> ret (if IsDir i then None else Some e) | Inl _ \<Rightarrow> ret (Some e)
              }
          } })
        (\<lambda>r st. grows T p s0 st \<and> (r = None \<longrightarrow> dirs_to st p))"
    proof (cases a)
      case (Inr i)
      then show ?thesis
        unfolding st Inr sum.case
        by (intro stop) (use a Inr st_get_dir_spells [OF oa sp] in \<open>auto split: if_splits\<close>)
    next
      case (Inl e)
      show ?thesis
        unfolding st Inl sum.case
      proof (rule ensures_bind [OF up], rule ensures_any, elim conjE)
        fix x :: "goerror option" and s1
        assume g: "grows T ?P s0 s1" and d: "x = None \<longrightarrow> dirs_to s1 ?P"
        have gp: "grows T p s0 s1"
          using grows_trans [OF g grows_refl] prefixeq_butlast by blast
        show "ensures (\<lambda>t. t = s1) (case x of Some e \<Rightarrow> ret (Some e) | None \<Rightarrow> do {
            r \<leftarrow> os_Mkdir s m;
            case r of
              None \<Rightarrow> ret None
            | Some e \<Rightarrow> do {
                again \<leftarrow> os_Lstat s;
                case again of Inr i \<Rightarrow> ret (if IsDir i then None else Some e) | Inl _ \<Rightarrow> ret (Some e)
              }
          }) (\<lambda>r st. grows T p s0 st \<and> (r = None \<longrightarrow> dirs_to st p))"
        proof (cases x)
          case None
          then show ?thesis using mk [OF g] d by simp
        next
          case (Some e)
          show ?thesis unfolding Some option.case by (rule ensures_ret) (simp add: gp)
        qed
      qed
    qed
  qed
qed

end
