(* ===== verification/StoreOps.thy ===== *)
theory StoreOps
  imports StoreLogic
begin

unbundle bit_operations_syntax

text \<open>
  Specifications of the remaining calls on plain paths: which keys they change, and what holds when they
  succeed, for every pattern of failing calls.
\<close>

section \<open>Files in an area\<close>

definition is_file :: "fstore \<Rightarrow> string list \<Rightarrow> string \<Rightarrow> bool" where
  "is_file st p c \<longleftrightarrow> (\<exists>i. lookup st p = Some i \<and> kind i = Regular c)"

definition touched :: "string list \<Rightarrow> fstore \<Rightarrow> fstore \<Rightarrow> bool" where
  "touched p st st' \<longleftrightarrow> (\<forall>k. k \<noteq> p \<longrightarrow> lookup st' k = lookup st k) \<and>
     (lookup st' p = lookup st p \<or> (\<exists>c. is_file st' p c))"

lemma touched_refl [simp]: "touched p st st"
  by (simp add: touched_def)

lemma touched_trans: "touched p a b \<Longrightarrow> touched p b c \<Longrightarrow> touched p a c"
  unfolding touched_def is_file_def by metis

lemma touched_put:
  "p \<noteq> [] \<Longrightarrow> kind i = Regular c \<Longrightarrow> touched p st (store_put p i st)"
  by (auto simp: touched_def is_file_def lookup_put)

lemma touched_area:
  assumes "touched p a b" and "area a T" and "strict_prefix T p"
  shows "area b T"
proof -
  have same: "lookup b k = lookup a k" if "prefix k T" for k
    using assms(1,3) that unfolding touched_def
    by (metis prefix_order.le_less_trans prefix_order.less_irrefl)
  have "dirs_to b T"
    using assms(2) dirs_cong [of a "[]" T b] same by (simp add: area_def)
  moreover have "kind i = Directory \<or> (\<exists>c. kind i = Regular c)"
    if "strict_prefix T k" and "lookup b k = Some i" for k i
    using that assms(1,2) unfolding touched_def area_def plain_below_def is_file_def
    by (metis option.inject)
  ultimately show ?thesis unfolding area_def plain_below_def by blast
qed

lemma area_inode:
  "area st T \<Longrightarrow> strict_prefix T p \<Longrightarrow> lookup st p = Some i \<Longrightarrow>
    kind i = Directory \<or> (\<exists>c. kind i = Regular c)"
  by (simp add: area_def plain_below_def)

lemma st_open_trunc_spec:
  assumes "on_area st T p" and "strict_prefix T p" and "st_open_trunc (path_string p) m st = Inr (k, st')"
  shows "k = p \<and> touched p st st' \<and> is_file st' p ''''"
proof -
  from assms(3) obtain n: "namei st True (path_string p) = Inr k"
    by (auto simp: st_open_trunc_def split: sum.splits option.splits fkind.splits)
  have k: "k = p" using namei_spells [OF assms(1) _ n] by simp
  have ne: "p \<noteq> []" using assms(2) by auto
  show ?thesis
  proof (cases "lookup st p")
    case None
    then have "st' = store_put p \<lparr>kind = Regular '''', perm = m, uid = 0, gid = 0\<rparr> st"
      using assms(3) n k by (simp add: st_open_trunc_def)
    then show ?thesis using ne k by (auto simp: touched_put is_file_def lookup_put)
  next
    case (Some i)
    have "area st T" using assms(1) by (simp add: on_area_def)
    then have "\<exists>c. kind i = Regular c"
      using area_inode [OF _ assms(2) Some] assms(3) n k Some
      by (auto simp: st_open_trunc_def)
    then have "st' = store_put p (i\<lparr>kind := Regular ''''\<rparr>) st"
      using assms(3) n k Some by (auto simp: st_open_trunc_def)
    then show ?thesis
      using ne k touched_put [of p "i\<lparr>kind := Regular ''''\<rparr>" "''''" st]
      by (auto simp: is_file_def lookup_put)
  qed
qed

lemma os_WriteFile_spec:
  assumes "on_area s0 T p" and "strict_prefix T p"
  shows "ensures (\<lambda>st. st = s0) (os_WriteFile (path_string p) c m)
    (\<lambda>r st. touched p s0 st \<and> (r = None \<longrightarrow> is_file st p c))"
proof -
  have ne: "p \<noteq> []" using assms(2) by auto
  have op: "ensures (\<lambda>st. st = s0)
      (State (\<lambda>w. run_state (sys_update (st_open_trunc (path_string p) ((m AND 0x1FF) AND NOT (umask w)))) w))
      (\<lambda>r st. touched p s0 st \<and> (\<forall>k. r = Inr k \<longrightarrow> k = p \<and> is_file st p ''''))"
    by (rule ensures_env [where g = "\<lambda>u. sys_update (st_open_trunc (path_string p) ((m AND 0x1FF) AND NOT u))"],
        rule ensures_sys_update)
      (use st_open_trunc_spec [OF assms] in auto)
  show ?thesis
    unfolding os_WriteFile_def
  proof (rule ensures_bind [OF op], rule ensures_any, elim conjE)
    fix a :: "errno + string list" and st
    assume t: "touched p s0 st" and k: "\<forall>k. a = Inr k \<longrightarrow> k = p \<and> is_file st p ''''"
    show "ensures (\<lambda>t. t = st) (case a of
          Inl e \<Rightarrow> ret (Some (PathError ''open'' (path_string p) e))
        | Inr p' \<Rightarrow> map_state (map_option (PathError ''write'' (path_string p)))
            (sys_write (st_write_at p' c)))
        (\<lambda>r st. touched p s0 st \<and> (r = None \<longrightarrow> is_file st p c))"
    proof (cases a)
      case (Inl e)
      show ?thesis unfolding Inl sum.case by (rule ensures_ret) (simp add: t)
    next
      case (Inr k')
      with k obtain i d where kp: "k' = p" and i: "lookup st p = Some i" "kind i = Regular d"
        by (auto simp: is_file_def)
      have w: "st_write_at p c st = Inr (store_put p (i\<lparr>kind := Regular c\<rparr>) st)"
        using i by (simp add: st_write_at_def)
      have "touched p st (store_put p (i\<lparr>kind := Regular c\<rparr>) st)"
        by (rule touched_put [OF ne]) simp
      then have tt: "touched p s0 (store_put p (i\<lparr>kind := Regular c\<rparr>) st)"
        using t by (rule touched_trans [rotated])
      show ?thesis
        unfolding Inr sum.case kp
        by (rule ensures_map_state, rule ensures_sys_write)
          (use w t tt ne in \<open>auto simp: is_file_def lookup_put\<close>)
    qed
  qed
qed

lemma st_change_spec:
  assumes "on_area st T p" and "p \<noteq> []" and "st_change g (path_string p) st = Inr st'"
  shows "\<exists>i. lookup st p = Some i \<and> st' = store_put p (g i) st"
proof -
  from assms(3) obtain k where n: "namei st True (path_string p) = Inr k"
    by (auto simp: st_change_def split: sum.splits)
  have "k = p" using namei_spells [OF assms(1) _ n] by simp
  then show ?thesis using assms(2,3) n by (auto simp: st_change_def split: option.splits)
qed

lemma os_Chmod_spec:
  assumes "on_area s0 T p" and "p \<noteq> []"
  shows "ensures (\<lambda>st. st = s0) (os_Chmod (path_string p) m)
    (\<lambda>r st. case r of
       None \<Rightarrow> \<exists>i. lookup s0 p = Some i \<and> st = store_put p (i\<lparr>perm := m AND 0x1FF\<rparr>) s0
     | Some _ \<Rightarrow> st = s0)"
  unfolding os_Chmod_def
  by (rule ensures_map_state, rule ensures_sys_write)
    (use st_change_spec [OF assms(1,2)] in auto)

lemma os_Chown_spec:
  assumes "on_area s0 T p" and "p \<noteq> []"
  shows "ensures (\<lambda>st. st = s0) (os_Chown (path_string p) u g)
    (\<lambda>r st. case r of
       None \<Rightarrow> \<exists>i. lookup s0 p = Some i \<and>
         st = store_put p (i\<lparr>uid := chown_id u (uid i), gid := chown_id g (gid i)\<rparr>) s0
     | Some _ \<Rightarrow> st = s0)"
  unfolding os_Chown_def
  by (rule ensures_map_state, rule ensures_sys_write)
    (use st_change_spec [OF assms(1,2)] in auto)

section \<open>Names in a directory\<close>

lemma os_Readlink_spec:
  assumes "names (D @ [c])" and "dirs_to s0 D"
  shows "ensures (\<lambda>st. st = s0) (os_Readlink (path_string (D @ [c])))
    (\<lambda>r st. st = s0 \<and>
      (\<forall>t. r = Inr t \<longrightarrow> (\<exists>i. lookup s0 (D @ [c]) = Some i \<and> kind i = Symlink t)) \<and>
      (\<forall>e. r = Inl e \<longrightarrow> IsNotExist e \<longrightarrow> lookup s0 (D @ [c]) = None))"
  unfolding os_Readlink_def
  by (rule ensures_map_state, rule ensures_sys_read)
    (use namei_in_dir [OF assms] in
      \<open>auto simp: lift_err_def st_get_def split: option.splits fkind.splits\<close>)

lemma os_Remove_spec:
  assumes "names (D @ [c])" and "dirs_to s0 D"
  shows "ensures (\<lambda>st. st = s0) (os_Remove (path_string (D @ [c])))
    (\<lambda>r st. (st = s0 \<or> st = store_del (D @ [c]) s0) \<and>
      (r = None \<longrightarrow> st = store_del (D @ [c]) s0) \<and> (\<forall>e. r = Some e \<longrightarrow> IsNotExist e \<longrightarrow>
        st = s0 \<and> lookup s0 (D @ [c]) = None))"
proof -
  note n = namei_in_dir [OF assms]
  have ul: "ensures (\<lambda>st. st = s0) (sys_write (st_unlink (path_string (D @ [c]))))
      (\<lambda>r st. case r of None \<Rightarrow> st = store_del (D @ [c]) s0
        | Some e \<Rightarrow> st = s0 \<and> (e = ENOENT \<longrightarrow> lookup s0 (D @ [c]) = None))"
    by (rule ensures_sys_write) (use n in \<open>auto simp: st_unlink_def split: option.splits if_splits\<close>)
  have rd: "ensures (\<lambda>st. st = s0) (sys_write (st_rmdir (path_string (D @ [c]))))
      (\<lambda>r st. case r of None \<Rightarrow> st = store_del (D @ [c]) s0
        | Some e \<Rightarrow> st = s0 \<and> (e = ENOENT \<longrightarrow> lookup s0 (D @ [c]) = None))"
    by (rule ensures_sys_write)
      (use n in \<open>auto simp: st_rmdir_def rmdir_at_def split: option.splits if_splits\<close>)
  show ?thesis
    unfolding os_Remove_def
  proof (rule ensures_bind [OF ul], rule ensures_option, goal_cases)
    case (1 a)
    then show ?case by (intro ensures_ret) auto
  next
    case (2 a e)
    show ?case
      unfolding 2 option.case
    proof (rule ensures_any, elim conjE)
      fix s1
      assume s1: "s1 = s0" and e: "e = ENOENT \<longrightarrow> lookup s0 (D @ [c]) = None"
      show "ensures (\<lambda>st. st = s1) (do {
          r1 \<leftarrow> sys_write (st_rmdir (path_string (D @ [c])));
          ret (map_option (\<lambda>e1. PathError ''remove'' (path_string (D @ [c]))
            (if e1 \<noteq> ENOTDIR then e1 else e)) r1)
        })
        (\<lambda>r st. (st = s0 \<or> st = store_del (D @ [c]) s0) \<and>
          (r = None \<longrightarrow> st = store_del (D @ [c]) s0) \<and> (\<forall>e. r = Some e \<longrightarrow> IsNotExist e \<longrightarrow>
            st = s0 \<and> lookup s0 (D @ [c]) = None))"
        unfolding s1
        by (rule ensures_bind [OF rd], rule ensures_ret) (use e in \<open>auto split: option.splits if_splits\<close>)
    qed
  qed
qed

text \<open>Removing a tree changes only keys at and below its name.\<close>

definition removes :: "string list \<Rightarrow> fstore \<Rightarrow> fstore \<Rightarrow> bool" where
  "removes p st st' \<longleftrightarrow> (\<forall>k. lookup st' k = lookup st k \<or> (lookup st' k = None \<and> prefix p k))"

lemma removes_refl [simp]: "removes p st st"
  by (simp add: removes_def)

lemma removes_trans: "removes p a b \<Longrightarrow> removes p b c \<Longrightarrow> removes p a c"
  unfolding removes_def by metis

lemma removes_del: "prefix p k \<Longrightarrow> removes p st (store_del k st)"
  by (simp add: removes_def lookup_del)

lemma removes_other: "removes p a b \<Longrightarrow> \<not> prefix p k \<Longrightarrow> lookup b k = lookup a k"
  unfolding removes_def by metis

lemma removes_none: "removes p a b \<Longrightarrow> lookup a k = None \<Longrightarrow> lookup b k = None"
  unfolding removes_def by metis

lemma remove_keys_spec:
  assumes "\<forall>k \<in> set ks. prefix p k \<and> k \<noteq> []"
  shows "ensures (\<lambda>st. removes p s0 st) (remove_keys ks :: ('x world, errno option) state)
    (\<lambda>r st. removes p s0 st \<and> (r = None \<longrightarrow> (\<forall>k \<in> set ks. lookup st k = None)))"
  using assms
proof (induction ks arbitrary: s0)
  case Nil
  then show ?case by (auto intro: ensures_ret)
next
  case (Cons k ks)
  have k: "prefix p k" "k \<noteq> []" using Cons.prems by auto
  let ?f = "\<lambda>st. case lookup st k of None \<Rightarrow> Inr st
      | Some i \<Rightarrow> if kind i = Directory then rmdir_at k st else Inr (store_del k st)"
  have one: "ensures (\<lambda>st. removes p s0 st) (sys_write ?f)
      (\<lambda>r st. removes p s0 st \<and> (r = None \<longrightarrow> lookup st k = None))"
  proof (rule ensures_sys_write, goal_cases)
    case (3 st st')
    then have "st' = st \<and> lookup st k = None \<or> st' = store_del k st"
      by (auto simp: rmdir_at_def split: option.splits if_splits)
    with 3 k show ?case
      using removes_trans [OF 3(1) removes_del [OF k(1)]] by (auto simp: lookup_del)
  qed auto
  show ?case
    unfolding remove_keys.simps
  proof (rule ensures_bind [OF one], rule ensures_any, elim conjE)
    fix r :: "errno option" and s1
    assume s1: "removes p s0 s1" and r: "r = None \<longrightarrow> lookup s1 k = None"
    have IH: "ensures (\<lambda>st. removes p s1 st) (remove_keys ks :: ('x world, errno option) state)
        (\<lambda>r st. removes p s1 st \<and> (r = None \<longrightarrow> (\<forall>k \<in> set ks. lookup st k = None)))"
      by (rule Cons.IH) (use Cons.prems in auto)
    have "ensures (\<lambda>st. st = s1) (remove_keys ks :: ('x world, errno option) state)
        (\<lambda>r st. removes p s1 st \<and> (r = None \<longrightarrow> (\<forall>k \<in> set ks. lookup st k = None)))"
      by (rule ensures_conseq [OF IH]) auto
    then show "ensures (\<lambda>st. st = s1) (do { rs \<leftarrow> remove_keys ks;
          ret (case r of Some e \<Rightarrow> Some e | None \<Rightarrow> rs) } :: ('x world, errno option) state)
        (\<lambda>r st. removes p s0 st \<and> (r = None \<longrightarrow> (\<forall>k \<in> set (k # ks). lookup st k = None)))"
      by (rule ensures_bind, intro ensures_ret)
        (use removes_trans [OF s1] r removes_none in \<open>auto split: option.splits\<close>)
  qed
qed

lemma subtree_keys_prefix: "k \<in> set (subtree_keys st p) \<Longrightarrow> prefix p k"
  by (simp add: subtree_keys_def)

lemma os_RemoveAll_outcome:
  assumes "names (D @ [c])" and "dirs_to s0 D"
  shows "ensures (\<lambda>st. st = s0) (os_RemoveAll (path_string (D @ [c])))
    (\<lambda>r st. removes (D @ [c]) s0 st \<and> (r = None \<longrightarrow> lookup st (D @ [c]) = None))"
proof -
  let ?p = "D @ [c]" and ?s = "path_string (D @ [c])"
  have ne: "?s \<noteq> ''''" by (simp add: path_string_def)
  have rest: "ensures (\<lambda>st. st = s1) (do {
        p \<leftarrow> sys_read (\<lambda>st. case namei st False ?s of
               Inl e \<Rightarrow> Inl e | Inr p \<Rightarrow> Inr (subtree_keys st p));
        case p of
          Inl ENOENT \<Rightarrow> ret None
        | Inl e \<Rightarrow> ret (Some (PathError ''open'' ?s e))
        | Inr ks \<Rightarrow> map_state (map_option (PathError ''unlinkat'' ?s)) (remove_keys ks)
      }) (\<lambda>r st. removes ?p s0 st \<and> (r = None \<longrightarrow> lookup st ?p = None))"
    if s1: "removes ?p s0 s1" for s1
  proof (rule ensures_bind)
    have "dirs_to s1 D"
      by (rule dirs_cong [OF assms(2)]) (use removes_other [OF s1] in \<open>auto simp: prefix_def\<close>)
    with assms(1) have n: "namei s1 False ?s = Inr ?p" by (rule namei_in_dir)
    show "ensures (\<lambda>st. st = s1) (sys_read (\<lambda>st. case namei st False ?s of
             Inl e \<Rightarrow> Inl e | Inr p \<Rightarrow> Inr (subtree_keys st p)))
        (\<lambda>r st. st = s1 \<and> r \<noteq> Inl ENOENT \<and> (\<forall>ks. r = Inr ks \<longrightarrow> ks = subtree_keys s1 ?p))"
      by (rule ensures_sys_read) (use n in auto)
  next
    fix a :: "errno + string list list"
    show "ensures (\<lambda>st. st = s1 \<and> a \<noteq> Inl ENOENT \<and> (\<forall>ks. a = Inr ks \<longrightarrow> ks = subtree_keys s1 ?p))
        (case a of
          Inl ENOENT \<Rightarrow> ret None
        | Inl e \<Rightarrow> ret (Some (PathError ''open'' ?s e))
        | Inr ks \<Rightarrow> map_state (map_option (PathError ''unlinkat'' ?s)) (remove_keys ks))
        (\<lambda>r st. removes ?p s0 st \<and> (r = None \<longrightarrow> lookup st ?p = None))"
    proof (cases a)
      case (Inl e)
      then show ?thesis using s1 by (cases e) (auto intro: ensures_ret)
    next
      case (Inr ks)
      have top: "lookup s1 ?p \<noteq> None \<Longrightarrow> ?p \<in> set (subtree_keys s1 ?p)"
        by (auto simp: subtree_keys_def lookup_def map_of_eq_None_iff)
      have "ensures (\<lambda>st. removes ?p s1 st) (remove_keys (subtree_keys s1 ?p))
          (\<lambda>r st. removes ?p s1 st \<and> (r = None \<longrightarrow> (\<forall>k \<in> set (subtree_keys s1 ?p). lookup st k = None)))"
        by (rule remove_keys_spec) (auto dest!: subtree_keys_prefix)
      then have "ensures (\<lambda>st. st = s1) (remove_keys (subtree_keys s1 ?p))
          (\<lambda>r st. removes ?p s0 st \<and> (r = None \<longrightarrow> lookup st ?p = None))"
      proof (rule ensures_conseq, goal_cases)
        case (2 r st)
        then show ?case
          using removes_trans [OF s1] removes_none [of ?p s1 st ?p] top by blast
      qed simp
      then have "ensures (\<lambda>st. st = s1) (map_state (map_option (PathError ''unlinkat'' ?s))
            (remove_keys (subtree_keys s1 ?p))) (\<lambda>r st. removes ?p s0 st \<and> (r = None \<longrightarrow> lookup st ?p = None))"
        by (intro ensures_map_state) simp
      with Inr show ?thesis by (auto simp: ensures_def)
    qed
  qed
  show ?thesis
    unfolding os_RemoveAll_def
  proof (intro ensures_if ensures_ret, goal_cases)
    case 3
    show ?case
    proof (rule ensures_bind [OF os_Remove_spec [OF assms]], rule ensures_option, goal_cases)
      case (1 a)
      have "lookup (store_del ?p s0) ?p = None" by (simp add: lookup_del)
      with 1 show ?case by (auto intro!: ensures_ret simp: removes_del)
    next
      case (2 a e)
      show ?case
      proof (rule ensures_any, elim conjE)
        fix s1
        assume s: "s1 = s0 \<or> s1 = store_del ?p s0"
          and gone: "\<forall>e'. a = Some e' \<longrightarrow> IsNotExist e' \<longrightarrow> s1 = s0 \<and> lookup s0 ?p = None"
        from s have s1: "removes ?p s0 s1" by (auto simp: removes_del)
        show "ensures (\<lambda>st. st = s1) (if IsNotExist e then ret None else do {
              p \<leftarrow> sys_read (\<lambda>st. case namei st False ?s of
                     Inl e \<Rightarrow> Inl e | Inr p \<Rightarrow> Inr (subtree_keys st p));
              case p of
                Inl ENOENT \<Rightarrow> ret None
              | Inl e \<Rightarrow> ret (Some (PathError ''open'' ?s e))
              | Inr ks \<Rightarrow> map_state (map_option (PathError ''unlinkat'' ?s)) (remove_keys ks)
            }) (\<lambda>r st. removes ?p s0 st \<and> (r = None \<longrightarrow> lookup st ?p = None))"
          by (intro ensures_if rest [OF s1] ensures_ret) (use s1 gone 2 in auto)
      qed
    qed
  qed (use ne in auto)
qed

lemma os_RemoveAll_spec:
  assumes "names (D @ [c])" and "dirs_to s0 D"
  shows "ensures (\<lambda>st. st = s0) (os_RemoveAll (path_string (D @ [c])))
    (\<lambda>r st. removes (D @ [c]) s0 st)"
  by (rule ensures_conseq [OF os_RemoveAll_outcome [OF assms]]) auto

section \<open>Rename and temporary directories\<close>

lemma os_Rename_spec:
  assumes a: "names (D @ [a])" and b: "names (D @ [b])" and d: "dirs_to s0 D" and ab: "a \<noteq> b"
    and i: "lookup s0 (D @ [a]) = Some i" "kind i \<noteq> Directory" and j: "\<not> is_dir s0 (D @ [b])"
  shows "ensures (\<lambda>st. st = s0) (os_Rename (path_string (D @ [a])) (path_string (D @ [b])))
    (\<lambda>r st. case r of None \<Rightarrow> st = store_put (D @ [b]) i (store_del (D @ [a]) s0) | Some _ \<Rightarrow> st = s0)"
proof -
  let ?old = "path_string (D @ [a])" and ?new = "path_string (D @ [b])"
  note na = namei_in_dir [OF a d] and nb = namei_in_dir [OF b d]
  have ren: "st_rename ?old ?new s0 = Inr (store_put (D @ [b]) i (store_del (D @ [a]) s0))"
    using na nb i j ab by (auto simp: st_rename_def st_key_def is_dir_def split: option.split)
  have q: "ensures (\<lambda>st. st = s0) (sys_read (st_key ?new))
      (\<lambda>r st. st = s0 \<and> (\<forall>k x. r = Inr (k, x) \<longrightarrow> \<not> IsDir x))"
    by (rule ensures_sys_read)
      (use nb j in \<open>auto simp: st_key_def is_dir_def IsDir_iff split: option.splits\<close>)
  have stop: "ensures (\<lambda>st. st = s0 \<and> (\<forall>k x. n = Inr (k, x) \<longrightarrow> \<not> IsDir x))
      (case n of Inl _ \<Rightarrow> ret None
       | Inr (b, j) \<Rightarrow>
         if IsDir j then do {
           m \<leftarrow> sys_read (st_key ?old);
           ret (case m of Inl e \<Rightarrow> Some e
                | Inr (a, _) \<Rightarrow> if ?new = ?old \<or> a \<noteq> b then Some EEXIST else None)
         } else ret None)
      (\<lambda>r st. st = s0)"
    for n :: "errno + string list \<times> inode"
    by (cases n) (auto simp: ensures_def)
  show ?thesis
    unfolding os_Rename_def
  proof (rule ensures_bind [OF q], rule ensures_bind [OF stop], goal_cases)
    case (1 n x)
    show ?case
    proof (cases x)
      case None
      show ?thesis
        unfolding None option.case
        by (rule ensures_map_state, rule ensures_sys_write) (use ren in auto)
    next
      case (Some e)
      show ?thesis unfolding Some option.case by (rule ensures_ret) simp
    qed
  qed
qed

lemma join_path_string:
  "names D \<Longrightarrow> name_comp (pattern @ r) \<Longrightarrow>
    join_path (path_string D) pattern @ r = path_string (D @ [pattern @ r])"
proof -
  assume D: "names D"
  show ?thesis
  proof (cases D rule: rev_cases)
    case Nil
    then show ?thesis by (simp add: join_path_def path_string_def)
  next
    case (snoc P c)
    then have "c \<noteq> ''''" "sep \<notin> set c" using D by (auto dest: name_compD)
    then have "last (path_string D) \<noteq> sep"
      using snoc by (cases c rule: rev_cases) (auto simp: path_string_snoc)
    moreover have "D \<noteq> []" using snoc by simp
    ultimately show ?thesis by (simp add: join_path_def path_string_snoc)
  qed
qed

lemma try_names_spec:
  assumes D: "names D" and d: "dirs_to s0 D" and nm: "\<And>n. name_comp (pattern @ rnd n)"
  shows "ensures (\<lambda>st. st = s0) (try_names n rnd (path_string D) pattern)
    (\<lambda>r st. case r of
       Inl _ \<Rightarrow> st = s0
     | Inr s \<Rightarrow> \<exists>m i. s = path_string (D @ [pattern @ rnd m]) \<and> lookup s0 (D @ [pattern @ rnd m]) = None \<and>
         kind i = Directory \<and> st = store_put (D @ [pattern @ rnd m]) i s0)"
proof (induction n)
  case 0
  show ?case by (simp add: ensures_def)
next
  case (Suc n)
  let ?c = "pattern @ rnd n"
  have name: "join_path (path_string D) pattern @ rnd n = path_string (D @ [?c])"
    using join_path_string [OF D nm] .
  have nms: "names (D @ [?c])" using D nm by simp
  have stat: "ensures (\<lambda>st. st = s0) (do { s \<leftarrow> os_Stat (path_string D);
        ret (case s of Inl es \<Rightarrow> if IsNotExist es then Inl es else Inl e | Inr _ \<Rightarrow> Inl e) })
      (\<lambda>r st. case r of
         Inl _ \<Rightarrow> st = s0
       | Inr s \<Rightarrow> \<exists>m i. s = path_string (D @ [pattern @ rnd m]) \<and> lookup s0 (D @ [pattern @ rnd m]) = None \<and>
           kind i = Directory \<and> st = store_put (D @ [pattern @ rnd m]) i s0)" for e
    by (rule ensures_bind [OF os_Stat_spec], rule ensures_ret) (auto split: sum.split)
  have done_: "ensures (\<lambda>st. st = s0) (ret (Inl e))
      (\<lambda>r st. case r of
         Inl _ \<Rightarrow> st = s0
       | Inr s \<Rightarrow> \<exists>m i. s = path_string (D @ [pattern @ rnd m]) \<and> lookup s0 (D @ [pattern @ rnd m]) = None \<and>
           kind i = Directory \<and> st = store_put (D @ [pattern @ rnd m]) i s0)" for e :: goerror
    by (rule ensures_ret) simp
  show ?case
    unfolding try_names.simps Let_def name
  proof (rule ensures_bind [OF os_Mkdir_in_dir [OF nms d]], rule ensures_option, goal_cases)
    case (1 a)
    show ?case by (rule ensures_ret) (use 1 in auto)
  next
    case (2 a e)
    then show ?case
      by (cases e)
        (auto split: errno.split intro!: Suc.IH stat done_)
  qed
qed

end
