(* ===== verification/AtomicSteps.thy ===== *)
theory AtomicSteps
  imports AtomicWriter StoreOps
begin

unbundle bit_operations_syntax

text \<open>
  The steps of the atomic writer on a store: which keys each step changes and what it has achieved when it
  reports no error, for every pattern of failing calls.
\<close>

section \<open>Cleaned paths\<close>

definition ok_path :: "string \<Rightarrow> bool" where
  "ok_path k \<longleftrightarrow> names (split_on sep k)"

definition pkey :: "string list \<Rightarrow> string \<Rightarrow> string list" where
  "pkey T k = T @ split_on sep k"

lemma Join_ok_path: "names T \<Longrightarrow> ok_path k \<Longrightarrow> Join [path_string T, k] = path_string (pkey T k)"
  using Join_path_string [of T "split_on sep k"] by (simp add: ok_path_def pkey_def join_split)

lemma pkey_inj [simp]: "pkey T a = pkey T b \<longleftrightarrow> a = b"
  by (metis join_split pkey_def same_append_eq)

lemma pkey_strict: "strict_prefix T (pkey T k)"
  by (simp add: pkey_def strict_prefix_def)

lemma on_area_pkey: "area st T \<Longrightarrow> names T \<Longrightarrow> ok_path k \<Longrightarrow> on_area st T (pkey T k)"
  by (simp add: on_area_def ok_path_def pkey_def)

lemma Split_spells:
  assumes "names p" and "p \<noteq> []"
  shows "spells (fst (Split (path_string p))) (butlast p)"
proof -
  from assms obtain P c where p: "p = P @ [c]" "name_comp c" by (cases p rule: rev_cases) auto
  have root: "path_string [] = [sep]" by (simp add: path_string_def)
  show ?thesis
    using p Split_path_string [of c "[]"]
    by (cases "P = []") (simp_all add: Split_path_string spells_def root)
qed

lemma first_comp_hd: "first_comp p = hd (split_on sep p)"
proof (induction p)
  case (Cons x xs)
  then show ?case by (cases "split_on sep xs") (auto simp: first_comp_def)
qed (simp add: first_comp_def)

lemma first_comp_name: "ok_path k \<Longrightarrow> name_comp (first_comp k)"
  unfolding ok_path_def first_comp_hd by (cases "split_on sep k") simp_all

lemma check_items_None:
  "check_items p items = None \<longleftrightarrow> (\<forall>i \<in> set items. i \<noteq> ''..'' \<and> length i \<le> 255)"
  by (induction items) (auto simp: check_item_def split: if_splits)

lemma Clean_relative:
  assumes "p \<noteq> ''''" and "\<not> IsAbs p" and "''..'' \<notin> set (split_on sep p)"
  shows "Clean p = ''.'' \<or> ok_path (Clean p)"
proof -
  let ?cs = "filter (\<lambda>c. c \<noteq> '''' \<and> c \<noteq> ''.'') (split_on sep p)"
  have cs: "clean_comps False [] (split_on sep p) = ?cs"
    using assms(3) by (simp add: clean_comps_no_dotdot)
  have "name_comp c" if "c \<in> set ?cs" for c
  proof -
    from that have c: "c \<in> set (split_on sep p)" "c \<noteq> ''''" "c \<noteq> ''.''" by auto
    moreover have "c \<noteq> ''..''" using assms(3) c(1) by metis
    ultimately show ?thesis using split_on_pieces [OF c(1)] by (simp add: name_comp_def plain_comp_def)
  qed
  then have nm: "names ?cs" by (simp add: list_all_iff)
  have clean: "Clean p = (case ?cs of [] \<Rightarrow> ''.'' | cs \<Rightarrow> join_on sep cs)"
    using assms(1,2) cs by (simp add: Clean_def)
  show ?thesis
  proof (cases "?cs = []")
    case True
    then show ?thesis using clean by simp
  next
    case False
    then have "Clean p = join_on sep ?cs" using clean by (cases ?cs) simp_all
    with split_join_names [OF nm False] nm show ?thesis by (simp add: ok_path_def)
  qed
qed

lemma validatePath_clean:
  assumes "validatePath p = None"
  shows "Clean p = ''.'' \<or> ok_path (Clean p)"
  using assms
  by (intro Clean_relative)
    (auto simp: validatePath_def Let_def check_items_None split: if_splits option.splits)

section \<open>Writing one file\<close>

definition holds :: "fstore \<Rightarrow> string list \<Rightarrow> FileProjection \<Rightarrow> bool" where
  "holds st p fp \<longleftrightarrow> (\<exists>i. lookup st p = Some i \<and> kind i = Regular (fp_Data fp) \<and>
     perm i = fp_Mode fp AND 0x1FF \<and>
     (case fp_FsUser fp of None \<Rightarrow> True
      | Some u \<Rightarrow> u mod 4294967296 \<noteq> 4294967295 \<longrightarrow> uid i = u mod 4294967296))"

definition filled :: "string list \<Rightarrow> string list \<Rightarrow> fstore \<Rightarrow> fstore \<Rightarrow> bool" where
  "filled T p st st' \<longleftrightarrow> area st' T \<and>
     (\<forall>k. k \<noteq> p \<longrightarrow> lookup st' k = lookup st k \<or>
        (lookup st k = None \<and> is_dir st' k \<and> strict_prefix T k \<and> prefix k p)) \<and>
     (lookup st' p = lookup st p \<or> (\<exists>c. is_file st' p c))"

lemma filled_grows:
  "grows T q st st' \<Longrightarrow> area st T \<Longrightarrow> \<not> prefix p q \<Longrightarrow> prefix q p \<Longrightarrow> filled T p st st'"
  unfolding filled_def using grows_area by (metis grows_def prefix_order.trans)

lemma filled_touched:
  assumes f: "filled T p a b" and t: "touched p b c" and s: "strict_prefix T p"
  shows "filled T p a c"
  unfolding filled_def
proof (intro conjI allI impI)
  show "area c T" using f t s by (auto simp: filled_def intro: touched_area)
  fix k
  assume k: "k \<noteq> p"
  then have "lookup c k = lookup b k" using t by (simp add: touched_def)
  then show "lookup c k = lookup a k \<or> lookup a k = None \<and> is_dir c k \<and> strict_prefix T k \<and> prefix k p"
    using f k unfolding filled_def is_dir_def by metis
next
  show "lookup c p = lookup a p \<or> (\<exists>x. is_file c p x)"
    using f t unfolding filled_def touched_def is_file_def by metis
qed

lemma write_file_spec:
  assumes a: "area s0 T" and T: "names T" and k: "ok_path k"
  shows "ensures (\<lambda>st. st = s0) (write_file (path_string T) k fp)
    (\<lambda>r st. filled T (pkey T k) s0 st \<and> (r = None \<longrightarrow> holds st (pkey T k) fp))"
proof -
  let ?p = "pkey T k" and ?P = "butlast (pkey T k)"
  have oa: "on_area s0 T ?p" using on_area_pkey [OF a T k] .
  have ne: "?p \<noteq> []" by (simp add: pkey_def)
  have strict: "strict_prefix T ?p" by (rule pkey_strict)
  have full: "Join [path_string T, k] = path_string ?p" using Join_ok_path [OF T k] .
  have np: "\<not> prefix ?p ?P"
    using ne by (metis append_butlast_last_id append_self_conv butlast.simps(1) length_butlast
        length_greater_0_conv diff_less less_numeral_extra(1) not_less prefix_length_le)
  have mk: "ensures (\<lambda>st. st = s0) (os_MkdirAll (fst (Split (path_string ?p))) 0x1FF)
      (\<lambda>r st. filled T ?p s0 st)"
    by (rule ensures_conseq [OF os_MkdirAll_spec [OF on_area_butlast [OF oa]
          Split_spells [OF on_area_path [OF oa] ne]]])
      (auto intro: filled_grows [OF _ a np prefixeq_butlast])
  have stop: "ensures (\<lambda>st. st = s1) (ret (Some e))
      (\<lambda>r st. filled T ?p s0 st \<and> (r = None \<longrightarrow> holds st ?p fp))" if "filled T ?p s0 s1" for s1 e
    using that by (auto intro: ensures_ret)
  have oa': "on_area st T ?p" if "filled T ?p s0 st" for st
    using that T k by (auto simp: filled_def intro: on_area_pkey)
  have own: "ensures (\<lambda>st. st = s1) (case fp_FsUser fp of
        None \<Rightarrow> ret None | Some u \<Rightarrow> os_Chown (path_string ?p) u (- 1))
      (\<lambda>r st. filled T ?p s0 st \<and> (r = None \<longrightarrow> holds st ?p fp))"
    if f: "filled T ?p s0 s1" and i: "lookup s1 ?p = Some i" "kind i = Regular (fp_Data fp)"
      "perm i = fp_Mode fp AND 0x1FF" for s1 i
  proof (cases "fp_FsUser fp")
    case None
    then show ?thesis using f i by (auto intro!: ensures_ret simp: holds_def)
  next
    case (Some u)
    show ?thesis
      unfolding Some option.case
      by (rule ensures_conseq [OF os_Chown_spec [OF oa' [OF f] ne]])
        (use f i ne Some in \<open>auto simp: holds_def lookup_put chown_id_def
          intro: filled_touched [OF f touched_put strict] split: option.splits\<close>)
  qed
  have mode: "ensures (\<lambda>st. st = s1) (do {
        e \<leftarrow> os_Chmod (path_string ?p) (fp_Mode fp);
        case e of Some err \<Rightarrow> ret (Some err)
        | None \<Rightarrow> (case fp_FsUser fp of None \<Rightarrow> ret None | Some u \<Rightarrow> os_Chown (path_string ?p) u (- 1))
      }) (\<lambda>r st. filled T ?p s0 st \<and> (r = None \<longrightarrow> holds st ?p fp))"
    if f: "filled T ?p s0 s1" and fl: "is_file s1 ?p (fp_Data fp)" for s1
  proof (rule ensures_bind [OF os_Chmod_spec [OF oa' [OF f] ne]], rule ensures_option, goal_cases)
    case (1 e)
    show ?case
    proof (rule ensures_any)
      fix s2
      assume "case e of
          None \<Rightarrow> \<exists>i. lookup s1 ?p = Some i \<and> s2 = store_put ?p (i\<lparr>perm := fp_Mode fp AND 0x1FF\<rparr>) s1
        | Some _ \<Rightarrow> s2 = s1"
      with 1 obtain i where i: "lookup s1 ?p = Some i"
        and s2: "s2 = store_put ?p (i\<lparr>perm := fp_Mode fp AND 0x1FF\<rparr>) s1" by auto
      from i fl have kd: "kind i = Regular (fp_Data fp)" by (auto simp: is_file_def)
      have "filled T ?p s0 s2"
        unfolding s2 by (rule filled_touched [OF f touched_put [OF ne] strict]) (simp add: kd)
      moreover have "lookup s2 ?p = Some (i\<lparr>perm := fp_Mode fp AND 0x1FF\<rparr>)"
        by (simp add: s2 lookup_put ne)
      ultimately show "ensures (\<lambda>st. st = s2)
          (case fp_FsUser fp of None \<Rightarrow> ret None | Some u \<Rightarrow> os_Chown (path_string ?p) u (- 1))
          (\<lambda>r st. filled T ?p s0 st \<and> (r = None \<longrightarrow> holds st ?p fp))"
        by (rule own) (simp_all add: kd)
    qed
  next
    case (2 e err)
    show ?case by (rule ensures_ret) (use 2 f in auto)
  qed
  have body: "ensures (\<lambda>st. st = s1) (do {
        e \<leftarrow> os_WriteFile (path_string ?p) (fp_Data fp) (fp_Mode fp);
        case e of Some err \<Rightarrow> ret (Some err)
        | None \<Rightarrow> do {
          e \<leftarrow> os_Chmod (path_string ?p) (fp_Mode fp);
          case e of Some err \<Rightarrow> ret (Some err)
          | None \<Rightarrow> (case fp_FsUser fp of None \<Rightarrow> ret None | Some u \<Rightarrow> os_Chown (path_string ?p) u (- 1))
        }
      }) (\<lambda>r st. filled T ?p s0 st \<and> (r = None \<longrightarrow> holds st ?p fp))"
    if f: "filled T ?p s0 s1" for s1
  proof (rule ensures_bind [OF os_WriteFile_spec [OF oa' [OF f] strict]], rule ensures_any, elim conjE)
    fix e :: "goerror option" and s2
    assume t: "touched ?p s1 s2" and fl: "e = None \<longrightarrow> is_file s2 ?p (fp_Data fp)"
    note f2 = filled_touched [OF f t strict]
    show "ensures (\<lambda>st. st = s2) (case e of Some err \<Rightarrow> ret (Some err)
        | None \<Rightarrow> do {
          e \<leftarrow> os_Chmod (path_string ?p) (fp_Mode fp);
          case e of Some err \<Rightarrow> ret (Some err)
          | None \<Rightarrow> (case fp_FsUser fp of None \<Rightarrow> ret None | Some u \<Rightarrow> os_Chown (path_string ?p) u (- 1))
        }) (\<lambda>r st. filled T ?p s0 st \<and> (r = None \<longrightarrow> holds st ?p fp))"
      using mode [OF f2] fl stop [OF f2] by (cases e) simp_all
  qed
  show ?thesis
    unfolding write_file_def Let_def full
  proof (rule ensures_bind [OF mk], rule ensures_any)
    fix e :: "goerror option" and s1
    assume f: "filled T ?p s0 s1"
    show "ensures (\<lambda>st. st = s1) (case e of Some err \<Rightarrow> ret (Some err)
        | None \<Rightarrow> do {
          e \<leftarrow> os_WriteFile (path_string ?p) (fp_Data fp) (fp_Mode fp);
          case e of Some err \<Rightarrow> ret (Some err)
          | None \<Rightarrow> do {
            e \<leftarrow> os_Chmod (path_string ?p) (fp_Mode fp);
            case e of Some err \<Rightarrow> ret (Some err)
            | None \<Rightarrow> (case fp_FsUser fp of None \<Rightarrow> ret None | Some u \<Rightarrow> os_Chown (path_string ?p) u (- 1))
          }
        }) (\<lambda>r st. filled T ?p s0 st \<and> (r = None \<longrightarrow> holds st ?p fp))"
      using body [OF f] stop [OF f] by (cases e) simp_all
  qed
qed

section \<open>Writing all files\<close>

definition pkeys :: "string list \<Rightarrow> payload \<Rightarrow> string list set" where
  "pkeys T es = pkey T ` fst ` set es"

text \<open>Nothing changes outside the area, nothing that exists is changed except the files themselves.\<close>

definition wrote :: "string list \<Rightarrow> payload \<Rightarrow> fstore \<Rightarrow> fstore \<Rightarrow> bool" where
  "wrote T es st st' \<longleftrightarrow> area st' T \<and>
     (\<forall>k. \<not> strict_prefix T k \<longrightarrow> lookup st' k = lookup st k) \<and>
     (\<forall>k. k \<notin> pkeys T es \<longrightarrow> lookup st k \<noteq> None \<longrightarrow> lookup st' k = lookup st k) \<and>
     (\<forall>k c. k \<notin> pkeys T es \<longrightarrow> is_file st' k c \<longrightarrow> is_file st k c) \<and>
     (\<forall>k. lookup st' k = lookup st k \<or> (\<exists>e \<in> set es. prefix k (pkey T (fst e))))"

lemma wrote_refl: "area st T \<Longrightarrow> wrote T es st st"
  by (simp add: wrote_def)

lemma filled_wrote:
  assumes "filled T (pkey T k) a b"
  shows "wrote T ((k, fp) # es) a b"
proof -
  have f: "area b T"
    "\<And>x. x \<noteq> pkey T k \<Longrightarrow> lookup b x = lookup a x \<or>
      lookup a x = None \<and> is_dir b x \<and> strict_prefix T x \<and> prefix x (pkey T k)"
    using assms by (auto simp: filled_def)
  have p: "pkey T k \<in> pkeys T ((k, fp) # es)" by (simp add: pkeys_def)
  show ?thesis
    unfolding wrote_def
  proof (intro conjI allI impI)
    fix x
    assume "\<not> strict_prefix T x"
    then show "lookup b x = lookup a x" using f(2) [of x] pkey_strict by metis
  next
    fix x
    assume "x \<notin> pkeys T ((k, fp) # es)" and "lookup a x \<noteq> None"
    then show "lookup b x = lookup a x" using f(2) [of x] p by metis
  next
    fix x c
    assume "x \<notin> pkeys T ((k, fp) # es)" and fl: "is_file b x c"
    then have "lookup b x = lookup a x \<or> is_dir b x" using f(2) [of x] p by metis
    then show "is_file a x c" using fl by (auto simp: is_file_def is_dir_def)
  next
    fix x
    show "lookup b x = lookup a x \<or> (\<exists>e \<in> set ((k, fp) # es). prefix x (pkey T (fst e)))"
      using f(2) [of x] by (cases "x = pkey T k") auto
  qed (rule f(1))
qed

lemma wrote_mono: "wrote T es a b \<Longrightarrow> wrote T (e # es) a b"
  by (auto simp: wrote_def pkeys_def)

lemma wrote_trans:
  assumes "wrote T es a b" and "wrote T es b c"
  shows "wrote T es a c"
  using assms unfolding wrote_def by metis

lemma write_files_spec:
  assumes "area s0 T" and "names T" and "\<forall>e \<in> set es. ok_path (fst e)" and "distinct (map fst es)"
  shows "ensures (\<lambda>st. st = s0) (write_files es (path_string T) :: ('x world, goerror option) state)
    (\<lambda>r st. wrote T es s0 st \<and> (r = None \<longrightarrow> (\<forall>e \<in> set es. holds st (pkey T (fst e)) (snd e))))"
  using assms
proof (induction es arbitrary: s0)
  case Nil
  then show ?case by (auto intro: ensures_ret wrote_refl)
next
  case (Cons e es)
  obtain k fp where e: "e = (k, fp)" by fastforce
  have k: "ok_path k" using Cons.prems(3) e by simp
  have k_new: "pkey T k \<notin> pkeys T es"
    using Cons.prems(4) e by (auto simp: pkeys_def image_iff)
  show ?case
    unfolding e write_files.simps
  proof (rule ensures_bind [OF write_file_spec [OF Cons.prems(1,2) k]], rule ensures_any, elim conjE)
    fix r :: "goerror option" and s1
    assume f: "filled T (pkey T k) s0 s1" and h: "r = None \<longrightarrow> holds s1 (pkey T k) fp"
    have w1: "wrote T ((k, fp) # es) s0 s1" by (rule filled_wrote [OF f])
    show "ensures (\<lambda>st. st = s1)
        ((case r of Some err \<Rightarrow> ret (Some err) | None \<Rightarrow> write_files es (path_string T))
          :: ('x world, goerror option) state)
        (\<lambda>r st. wrote T ((k, fp) # es) s0 st \<and>
          (r = None \<longrightarrow> (\<forall>e \<in> set ((k, fp) # es). holds st (pkey T (fst e)) (snd e))))"
    proof (cases r)
      case (Some err)
      show ?thesis unfolding Some option.case by (rule ensures_ret) (simp add: w1)
    next
      case None
      have "area s1 T" using f by (simp add: filled_def)
      from Cons.IH [OF this Cons.prems(2)] Cons.prems(3,4)
      have IH: "ensures (\<lambda>st. st = s1) (write_files es (path_string T) :: ('x world, goerror option) state)
          (\<lambda>r st. wrote T es s1 st \<and> (r = None \<longrightarrow> (\<forall>e \<in> set es. holds st (pkey T (fst e)) (snd e))))"
        by simp
      show ?thesis
        unfolding None option.case
      proof (rule ensures_conseq [OF IH], assumption, elim conjE, intro conjI impI)
        fix r :: "goerror option" and st
        assume w2: "wrote T es s1 st"
          and all: "r = None \<longrightarrow> (\<forall>e \<in> set es. holds st (pkey T (fst e)) (snd e))"
        show "wrote T ((k, fp) # es) s0 st" by (rule wrote_trans [OF w1 wrote_mono [OF w2]])
        assume r: "r = None"
        have hk: "holds s1 (pkey T k) fp" using h None by simp
        then have "lookup st (pkey T k) = lookup s1 (pkey T k)"
          using w2 k_new unfolding wrote_def holds_def by (metis option.distinct(1))
        with hk have "holds st (pkey T k) fp" by (simp add: holds_def)
        with all r show "\<forall>e \<in> set ((k, fp) # es). holds st (pkey T (fst e)) (snd e)" by simp
      qed
    qed
  qed
qed

section \<open>User-visible links\<close>

text \<open>A visible name of an entry, and the link to the same name in the data directory.\<close>

definition visible_link :: "string \<Rightarrow> inode" where
  "visible_link n = link_to (Join [dataDirName, n])"

definition entry_link :: "string list \<Rightarrow> payload \<Rightarrow> string list \<Rightarrow> inode option \<Rightarrow> bool" where
  "entry_link D es k i \<longleftrightarrow>
     (\<exists>e \<in> set es. k = D @ [first_comp (fst e)] \<and> i = Some (visible_link (first_comp (fst e))))"

lemma entry_link_mono: "entry_link D es k i \<Longrightarrow> entry_link D (e # es) k i"
  by (auto simp: entry_link_def)

lemma entry_link_key: "entry_link D es k i \<Longrightarrow> \<exists>e \<in> set es. k = D @ [first_comp (fst e)]"
  by (auto simp: entry_link_def)

definition links_added :: "string list \<Rightarrow> payload \<Rightarrow> fstore \<Rightarrow> fstore \<Rightarrow> bool" where
  "links_added D es st st' \<longleftrightarrow> (\<forall>k. lookup st' k = lookup st k \<or>
     (lookup st k = None \<and> entry_link D es k (lookup st' k)))"

lemma links_added_refl [simp]: "links_added D es st st"
  by (simp add: links_added_def)

lemma links_added_trans: "links_added D es a b \<Longrightarrow> links_added D es b c \<Longrightarrow> links_added D es a c"
  unfolding links_added_def by metis

lemma links_added_mono: "links_added D es a b \<Longrightarrow> links_added D (e # es) a b"
  unfolding links_added_def by (metis entry_link_mono)

lemma links_added_dirs: "links_added D es a b \<Longrightarrow> dirs_to a D \<Longrightarrow> dirs_to b D"
  by (rule dirs_mono [of a b]) (auto simp: is_dir_def links_added_def, metis option.distinct(1))

lemma create_visible_spec:
  assumes "names D" and "dirs_to s0 D" and "\<forall>e \<in> set es. ok_path (fst e)"
  shows "ensures (\<lambda>st. st = s0) (create_visible es (path_string D) :: ('x world, goerror option) state)
    (\<lambda>r st. links_added D es s0 st)"
  using assms
proof (induction es arbitrary: s0)
  case Nil
  then show ?case by (auto intro: ensures_ret)
next
  case (Cons e es)
  obtain k fp where e: "e = (k, fp)" by fastforce
  let ?l = "first_comp k"
  have l: "name_comp ?l" using first_comp_name Cons.prems(3) e by simp
  have nms: "names (D @ [?l])" using Cons.prems(1) l by simp
  have j: "Join [path_string D, ?l] = path_string (D @ [?l])"
    by (rule Join_path_string_name [OF Cons.prems(1) l])
  have rl: "ensures (\<lambda>st. st = s0) (os_Readlink (path_string (D @ [?l]))) (\<lambda>r st. st = s0)"
    by (rule ensures_conseq [OF os_Readlink_spec [OF nms Cons.prems(2)]]) auto
  have sl: "ensures (\<lambda>st. st = s0)
      (if b then os_Symlink (Join [dataDirName, ?l]) (path_string (D @ [?l])) else ret None)
      (\<lambda>r st. links_added D (e # es) s0 st)" for b
  proof (rule ensures_if)
    show "ensures (\<lambda>st. st = s0) (os_Symlink (Join [dataDirName, ?l]) (path_string (D @ [?l])))
        (\<lambda>r st. links_added D (e # es) s0 st)"
      by (rule ensures_conseq [OF os_Symlink_spec [OF nms Cons.prems(2)]])
        (auto simp: links_added_def entry_link_def visible_link_def lookup_put e split: option.splits)
    show "ensures (\<lambda>st. st = s0) (ret None) (\<lambda>r st. links_added D (e # es) s0 st)"
      by (rule ensures_ret) simp
  qed
  show ?case
    unfolding e create_visible.simps Let_def j
  proof (rule ensures_bind [OF rl], rule ensures_bind [OF sl [unfolded e]], rule ensures_any)
    fix x :: "goerror option" and s1
    assume a: "links_added D ((k, fp) # es) s0 s1"
    have IH: "ensures (\<lambda>st. st = s1) (create_visible es (path_string D) :: ('x world, goerror option) state)
        (\<lambda>r st. links_added D es s1 st)"
      by (rule Cons.IH [OF Cons.prems(1) links_added_dirs [OF a Cons.prems(2)]])
        (use Cons.prems(3) in simp)
    show "ensures (\<lambda>st. st = s1)
        ((case x of Some err \<Rightarrow> ret (Some err) | None \<Rightarrow> create_visible es (path_string D))
          :: ('x world, goerror option) state)
        (\<lambda>r st. links_added D ((k, fp) # es) s0 st)"
    proof (cases x)
      case None
      show ?thesis
        unfolding None option.case
        by (rule ensures_conseq [OF IH])
          (auto intro: links_added_trans [OF a links_added_mono])
    next
      case (Some err)
      show ?thesis unfolding Some option.case by (rule ensures_ret) (simp add: a)
    qed
  qed
qed

section \<open>Removing what is left over\<close>

definition hidden :: "string \<Rightarrow> bool" where
  "hidden c \<longleftrightarrow> HasPrefix c ''..''"

definition pruned :: "string list \<Rightarrow> fstore \<Rightarrow> fstore \<Rightarrow> bool" where
  "pruned D st st' \<longleftrightarrow> (\<forall>k. lookup st' k = lookup st k \<or>
     (lookup st' k = None \<and> (\<exists>p. name_comp p \<and> \<not> hidden p \<and> k = D @ [p])))"

lemma pruned_refl [simp]: "pruned D st st"
  by (simp add: pruned_def)

lemma pruned_trans: "pruned D a b \<Longrightarrow> pruned D b c \<Longrightarrow> pruned D a c"
  unfolding pruned_def by metis

lemma pruned_dirs: "pruned D a b \<Longrightarrow> dirs_to a D \<Longrightarrow> dirs_to b D"
proof (rule dirs_cong)
  fix k
  assume p: "pruned D a b" and "prefix k ([] @ D)"
  then have "k \<noteq> D @ [c]" for c by (auto dest: prefix_length_le)
  then show "lookup b k = lookup a k" using p unfolding pruned_def by metis
qed

lemma remove_visible_spec:
  assumes "names D" and "dirs_to s0 D"
    and "\<forall>p \<in> set ps. sep \<in> set p \<or> (name_comp p \<and> \<not> hidden p)"
  shows "ensures (\<lambda>st. st = s0)
    (remove_visible ps (path_string D) lasterr :: ('x world, goerror option) state)
    (\<lambda>r st. pruned D s0 st)"
  using assms
proof (induction ps arbitrary: s0 lasterr)
  case Nil
  then show ?case by (auto intro: ensures_ret)
next
  case (Cons p ps)
  show ?case
  proof (cases "sep \<in> set p")
    case True
    then show ?thesis using Cons.IH [OF Cons.prems(1,2)] Cons.prems(3) by simp
  next
    case False
    then have p: "name_comp p" "\<not> hidden p" using Cons.prems(3) by auto
    have nms: "names (D @ [p])" using Cons.prems(1) p by simp
    have j: "Join [path_string D, p] = path_string (D @ [p])"
      by (rule Join_path_string_name [OF Cons.prems(1) p(1)])
    have del: "pruned D s0 (store_del (D @ [p]) s0)"
      using p by (auto simp: pruned_def lookup_del)
    have one: "ensures (\<lambda>st. st = s0) (os_Remove (path_string (D @ [p]))) (\<lambda>r st. pruned D s0 st)"
      by (rule ensures_conseq [OF os_Remove_spec [OF nms Cons.prems(2)]]) (use del in auto)
    have "ensures (\<lambda>st. st = s0) (do {
          e \<leftarrow> os_Remove (path_string (D @ [p]));
          remove_visible ps (path_string D) (case e of Some err \<Rightarrow> Some err | None \<Rightarrow> lasterr)
        } :: ('x world, goerror option) state) (\<lambda>r st. pruned D s0 st)"
    proof (rule ensures_bind [OF one], rule ensures_any)
      fix e :: "goerror option" and s1
      assume a: "pruned D s0 s1"
      have "ensures (\<lambda>st. st = s1) (remove_visible ps (path_string D)
            (case e of Some err \<Rightarrow> Some err | None \<Rightarrow> lasterr) :: ('x world, goerror option) state)
          (\<lambda>r st. pruned D s1 st)"
        by (rule Cons.IH [OF Cons.prems(1) pruned_dirs [OF a Cons.prems(2)]])
          (use Cons.prems(3) in simp)
      then show "ensures (\<lambda>st. st = s1) (remove_visible ps (path_string D)
            (case e of Some err \<Rightarrow> Some err | None \<Rightarrow> lasterr) :: ('x world, goerror option) state)
          (\<lambda>r st. pruned D s0 st)"
        by (rule ensures_conseq) (auto intro: pruned_trans [OF a])
    qed
    with False j show ?thesis by simp
  qed
qed

end
