(* ===== verification/AtomicInstall.thy ===== *)
theory AtomicInstall
  imports AtomicSteps
begin

text \<open>
  From the new timestamped directory to the switch: the old version and the data directory's link are
  untouched until the rename, and after it the link leads to a complete new version.
\<close>

section \<open>Timestamped names\<close>

definition stamped :: "string \<Rightarrow> bool" where
  "stamped c \<longleftrightarrow> name_comp c \<and> (\<exists>x r. c = ''..'' @ x # r \<and> digit_val x \<noteq> None)"

lemma zero_pad_digits: "c \<in> set (zero_pad w n) \<Longrightarrow> digit_val c \<noteq> None"
  using show_nat_digits [of c n]
  by (auto simp: zero_pad_def Let_def digit_val_def split: if_splits)

lemma zero_pad_not_Nil: "zero_pad w n \<noteq> ''''"
  by (simp add: zero_pad_def Let_def)

lemma no_sep_digits: "\<forall>c \<in> set s. digit_val c \<noteq> None \<Longrightarrow> sep \<notin> set s"
  by (auto simp: digit_val_def)

lemma ts_prefix_stamped: "stamped (ts_prefix t @ show_nat k)"
proof -
  have d: "sep \<notin> set (zero_pad w n)" "sep \<notin> set (show_nat m)" for w n m
    using zero_pad_digits show_nat_digits by (auto intro!: no_sep_digits)
  obtain x r where xr: "zero_pad 4 (year t) = x # r"
    using zero_pad_not_Nil by (meson neq_Nil_conv)
  then have x: "digit_val x \<noteq> None" using zero_pad_digits by (metis list.set_intros(1))
  have "sep \<notin> set (ts_prefix t @ show_nat k)"
    by (simp add: ts_prefix_def d)
  moreover obtain r' where "ts_prefix t @ show_nat k = ''..'' @ x # r'"
    by (simp add: ts_prefix_def xr)
  ultimately show ?thesis using x by (auto simp: stamped_def name_comp_def plain_comp_def)
qed

lemma stamped_name: "stamped c \<Longrightarrow> name_comp c"
  by (simp add: stamped_def)

lemma stamped_hidden: "stamped c \<Longrightarrow> hidden c"
  by (auto simp: stamped_def hidden_def HasPrefix_def)

lemma stamped_not_data: "stamped c \<Longrightarrow> c \<noteq> dataDirName \<and> c \<noteq> newDataDirName"
  by (auto simp: stamped_def dataDirName_def newDataDirName_def digit_val_def)

lemma data_names: "name_comp dataDirName" "name_comp newDataDirName" "hidden dataDirName"
    "hidden newDataDirName" "dataDirName \<noteq> newDataDirName"
  by (simp_all add: dataDirName_def newDataDirName_def name_comp_def plain_comp_def hidden_def
      HasPrefix_def)

section \<open>The new directory\<close>

definition closed_at :: "fstore \<Rightarrow> string list \<Rightarrow> bool" where
  "closed_at st D \<longleftrightarrow>
    (\<forall>c k. lookup st (D @ [c]) = None \<longrightarrow> strict_prefix (D @ [c]) k \<longrightarrow> lookup st k = None)"

text \<open>Only the new directory differs, and it is empty.\<close>

definition fresh_dir :: "string list \<Rightarrow> string \<Rightarrow> fstore \<Rightarrow> fstore \<Rightarrow> bool" where
  "fresh_dir D c st st' \<longleftrightarrow> stamped c \<and> lookup st (D @ [c]) = None \<and> is_dir st' (D @ [c]) \<and>
     (\<forall>k. k \<noteq> D @ [c] \<longrightarrow> lookup st' k = lookup st k)"

lemma fresh_dir_area:
  assumes "fresh_dir D c a b" and "dirs_to a D" and "closed_at a D"
  shows "area b (D @ [c])"
proof -
  have same: "lookup b k = lookup a k" if "k \<noteq> D @ [c]" for k
    using assms(1) that by (simp add: fresh_dir_def)
  have "dirs_to b D"
  proof (rule dirs_cong [OF assms(2)])
    fix k
    assume "prefix k ([] @ D)"
    then have "k \<noteq> D @ [c]" by (auto dest: prefix_length_le)
    then show "lookup b k = lookup a k" by (rule same)
  qed
  moreover have "lookup b k = None" if "strict_prefix (D @ [c]) k" for k
  proof -
    have "k \<noteq> D @ [c]" using that by auto
    then have "lookup b k = lookup a k" by (rule same)
    also have "\<dots> = None" using assms(1,3) that unfolding fresh_dir_def closed_at_def by blast
    finally show ?thesis .
  qed
  ultimately show ?thesis
    using assms(1) by (simp add: area_def dirs_to_snoc fresh_dir_def plain_below_def)
qed

lemma targetDir_simp: "targetDir \<lparr>targetDir = d\<rparr> = d"
  by simp

lemma newTimestampDir_spec:
  assumes env: "env_laws env" and D: "names D" "dirs_to s0 D" "closed_at s0 D"
  shows "ensures (\<lambda>st. st = s0) (newTimestampDir env \<lparr>targetDir = path_string D\<rparr>)
    (\<lambda>r st. (\<exists>c. fresh_dir D c s0 st \<and> (\<forall>s. r = Inr s \<longrightarrow> s = path_string (D @ [c]))) \<or>
      (st = s0 \<and> (\<exists>e. r = Inl e)))"
proof -
  let ?Q = "\<lambda>r st. (\<exists>c. fresh_dir D c s0 st \<and> (\<forall>s. r = Inr s \<longrightarrow> s = path_string (D @ [c]))) \<or>
      (st = s0 \<and> (\<exists>e. r = Inl e))"
  have nm: "stamped (ts_prefix (now env) @ rnd env n)" for n
  proof -
    obtain k where "rnd env n = show_nat k" using env unfolding env_laws_def by blast
    then show ?thesis using ts_prefix_stamped by simp
  qed
  have chmod: "ensures (\<lambda>st. st = s1) (do {
        e \<leftarrow> os_Chmod (path_string (D @ [c])) 0x1ED;
        ret (case e of Some err \<Rightarrow> Inl err | None \<Rightarrow> Inr (path_string (D @ [c])))
      }) ?Q" if f: "fresh_dir D c s0 s1" for c s1
  proof -
    have c: "stamped c" using f by (simp add: fresh_dir_def)
    have oa: "on_area s1 (D @ [c]) (D @ [c])"
      using fresh_dir_area [OF f D(2,3)] D(1) stamped_name [OF c] by (simp add: on_area_def)
    show ?thesis
      by (rule ensures_bind [OF os_Chmod_spec [OF oa]])
        (use f in \<open>auto simp: fresh_dir_def is_dir_def lookup_put intro!: ensures_ret split: option.splits\<close>)
  qed
  show ?thesis
    unfolding newTimestampDir_def TempDir_def
  proof (simp only: targetDir_simp,
      rule ensures_bind [OF try_names_spec [OF D(1,2) stamped_name [OF nm]]],
      rule ensures_sum, goal_cases)
    case (1 a e)
    show ?case by (rule ensures_ret) (use 1 in auto)
  next
    case (2 a s)
    show ?case
    proof (rule ensures_any)
      fix s1
      assume "case a of Inl _ \<Rightarrow> s1 = s0
        | Inr s \<Rightarrow> \<exists>m i. s = path_string (D @ [ts_prefix (now env) @ rnd env m]) \<and>
            lookup s0 (D @ [ts_prefix (now env) @ rnd env m]) = None \<and> kind i = Directory \<and>
            s1 = store_put (D @ [ts_prefix (now env) @ rnd env m]) i s0"
      with 2 obtain m i where s: "s = path_string (D @ [ts_prefix (now env) @ rnd env m])"
        and n: "lookup s0 (D @ [ts_prefix (now env) @ rnd env m]) = None" and i: "kind i = Directory"
        and s1: "s1 = store_put (D @ [ts_prefix (now env) @ rnd env m]) i s0" by auto
      have "fresh_dir D (ts_prefix (now env) @ rnd env m) s0 s1"
        using n i nm by (simp add: fresh_dir_def s1 lookup_put is_dir_def)
      then show "ensures (\<lambda>st. st = s1) (do {
            e \<leftarrow> os_Chmod s 0x1ED;
            ret (case e of Some err \<Rightarrow> Inl err | None \<Rightarrow> Inr s)
          }) ?Q"
        unfolding s by (rule chmod)
    qed
  qed
qed

section \<open>The switch\<close>

abbreviation data_key :: "string list \<Rightarrow> string list" where
  "data_key D \<equiv> D @ [dataDirName]"

abbreviation tmp_key :: "string list \<Rightarrow> string list" where
  "tmp_key D \<equiv> D @ [newDataDirName]"

definition switched :: "string list \<Rightarrow> string \<Rightarrow> fstore \<Rightarrow> fstore \<Rightarrow> bool" where
  "switched D c st st' \<longleftrightarrow> lookup st (tmp_key D) = None \<and> lookup st' (data_key D) = Some (link_to c) \<and> lookup st' (tmp_key D) = None \<and>
     (\<forall>k. k \<noteq> data_key D \<longrightarrow> k \<noteq> tmp_key D \<longrightarrow> lookup st' k = lookup st k)"

definition abandoned :: "string list \<Rightarrow> string \<Rightarrow> fstore \<Rightarrow> fstore \<Rightarrow> bool" where
  "abandoned D c st st' \<longleftrightarrow>
     (\<forall>k. lookup st' k = lookup st k \<or> prefix (D @ [c]) k \<or> k = tmp_key D)"

lemma abandoned_removes: "abandoned D c a b \<Longrightarrow> removes (D @ [c]) b d \<Longrightarrow> abandoned D c a d"
  unfolding abandoned_def removes_def by metis

lemma dirs_put_leaf:
  "dirs_to st D \<Longrightarrow> (\<And>k. k \<noteq> D @ [c] \<Longrightarrow> lookup st' k = lookup st k) \<Longrightarrow> dirs_to st' D"
proof (rule dirs_cong)
  fix k
  assume "\<And>k. k \<noteq> D @ [c] \<Longrightarrow> lookup st' k = lookup st k" and "prefix k ([] @ D)"
  moreover from this(2) have "k \<noteq> D @ [c]" by (auto dest: prefix_length_le)
  ultimately show "lookup st' k = lookup st k" by blast
qed

lemma switch_version_spec:
  assumes os: "GOOS env = Linux" and D: "names D" "dirs_to s0 D" and c: "stamped c"
    and link: "\<not> is_dir s0 (data_key D)"
  shows "ensures (\<lambda>st. st = s0)
    (switch_version env \<lparr>targetDir = path_string D\<rparr> (path_string (D @ [c])) :: ('x world, goerror option) state)
    (\<lambda>r st. if r = None then switched D c s0 st else abandoned D c s0 st)"
proof -
  have nc: "names (D @ [c])" "names (data_key D)" "names (tmp_key D)"
    using D(1) stamped_name [OF c] data_names by simp_all
  have base: "Base (path_string (D @ [c])) = c" using Base_path_string [OF nc(1)] .
  have jd: "Join [path_string D, dataDirName] = path_string (data_key D)"
    "Join [path_string D, newDataDirName] = path_string (tmp_key D)"
    using Join_path_string_name [OF D(1)] data_names by auto
  let ?Q = "\<lambda>r st. if r = None then switched D c s0 st else abandoned D c s0 st"
  let ?s1 = "store_put (tmp_key D) (link_to c) s0"
  have d1: "dirs_to ?s1 D"
    by (rule dirs_put_leaf [OF D(2), where c = newDataDirName]) (simp add: lookup_put)
  have l1: "lookup ?s1 (tmp_key D) = Some (link_to c)" "\<not> is_dir ?s1 (data_key D)"
    using link data_names(5) by (simp_all add: is_dir_def lookup_put)
  have drop_ts: "ensures (\<lambda>st. st = s) (do { _ \<leftarrow> os_RemoveAll (path_string (D @ [c])); ret (Some err) }
      :: ('x world, goerror option) state) ?Q"
    if a: "abandoned D c s0 s" and d: "dirs_to s D" for s err
    by (rule ensures_bind [OF os_RemoveAll_spec [OF nc(1) d]], rule ensures_ret)
      (auto intro: abandoned_removes [OF a])
  have undo: "ensures (\<lambda>st. st = ?s1) (do {
        _ \<leftarrow> os_Remove (path_string (tmp_key D));
        _ \<leftarrow> os_RemoveAll (path_string (D @ [c]));
        ret (Some err)
      } :: ('x world, goerror option) state) ?Q" for err
  proof (rule ensures_bind [OF os_Remove_spec [OF nc(3) d1]], rule ensures_any)
    fix a :: "goerror option" and s2
    assume "(s2 = ?s1 \<or> s2 = store_del (tmp_key D) ?s1) \<and>
      (a = None \<longrightarrow> s2 = store_del (tmp_key D) ?s1) \<and> (\<forall>e. a = Some e \<longrightarrow> IsNotExist e \<longrightarrow>
        s2 = ?s1 \<and> lookup ?s1 (tmp_key D) = None)"
    then have same: "k \<noteq> tmp_key D \<Longrightarrow> lookup s2 k = lookup s0 k" for k
      by (auto simp: lookup_put lookup_del)
    show "ensures (\<lambda>st. st = s2) (do { _ \<leftarrow> os_RemoveAll (path_string (D @ [c])); ret (Some err) }
        :: ('x world, goerror option) state) ?Q"
      by (rule drop_ts) (use same in \<open>auto simp: abandoned_def intro: dirs_put_leaf [OF D(2)]\<close>)
  qed
  show ?thesis
    unfolding switch_version_def Let_def targetDir_simp jd base
  proof (rule ensures_bind [OF os_Symlink_spec [OF nc(3) D(2)]], rule ensures_any)
    fix e :: "goerror option" and s1
    assume e: "case e of None \<Rightarrow> lookup s0 (tmp_key D) = None \<and> s1 = ?s1 | Some _ \<Rightarrow> s1 = s0"
    show "ensures (\<lambda>st. st = s1) ((case e of
          Some err \<Rightarrow> do { _ \<leftarrow> os_RemoveAll (path_string (D @ [c])); ret (Some err) }
        | None \<Rightarrow> do {
            e \<leftarrow> (if GOOS env = Windows then do {
                    _ \<leftarrow> os_Remove (path_string (data_key D));
                    e \<leftarrow> os_Symlink c (path_string (data_key D));
                    _ \<leftarrow> os_Remove (path_string (tmp_key D));
                    ret e
                  } else os_Rename (path_string (tmp_key D)) (path_string (data_key D)));
            case e of
              Some err \<Rightarrow> do {
                _ \<leftarrow> os_Remove (path_string (tmp_key D));
                _ \<leftarrow> os_RemoveAll (path_string (D @ [c]));
                ret (Some err)
              }
            | None \<Rightarrow> ret None
          }) :: ('x world, goerror option) state) ?Q"
    proof (cases e)
      case (Some err)
      with e have "s1 = s0" by simp
      with Some drop_ts [of s0 err] D(2) show ?thesis by (simp add: abandoned_def)
    next
      case None
      with e have s1: "s1 = ?s1" and free: "lookup s0 (tmp_key D) = None" by simp_all
      have ren: "ensures (\<lambda>st. st = ?s1)
          (os_Rename (path_string (tmp_key D)) (path_string (data_key D)) :: ('x world, goerror option) state)
          (\<lambda>r st. case r of
             None \<Rightarrow> st = store_put (data_key D) (link_to c) (store_del (tmp_key D) ?s1)
           | Some _ \<Rightarrow> st = ?s1)"
        by (rule os_Rename_spec [OF nc(3,2) d1 _ l1(1) _ l1(2)]) (use data_names in auto)
      show ?thesis
        unfolding None option.case s1
      proof (simp only: os goos.distinct if_False, rule ensures_bind [OF ren], rule ensures_any)
        fix e2 :: "goerror option" and s2
        assume e2: "case e2 of
             None \<Rightarrow> s2 = store_put (data_key D) (link_to c) (store_del (tmp_key D) ?s1)
           | Some _ \<Rightarrow> s2 = ?s1"
        show "ensures (\<lambda>st. st = s2) ((case e2 of
              Some err \<Rightarrow> do {
                _ \<leftarrow> os_Remove (path_string (tmp_key D));
                _ \<leftarrow> os_RemoveAll (path_string (D @ [c]));
                ret (Some err)
              }
            | None \<Rightarrow> ret None) :: ('x world, goerror option) state) ?Q"
        proof (cases e2)
          case None
          then show ?thesis
            using e2 data_names(5) free
            by (auto intro!: ensures_ret simp: switched_def lookup_put lookup_del)
        next
          case (Some err)
          with e2 undo [of err] show ?thesis by simp
        qed
      qed
    qed
  qed
qed

section \<open>Installing a version\<close>

definition complete :: "string list \<Rightarrow> payload \<Rightarrow> fstore \<Rightarrow> bool" where
  "complete T es st \<longleftrightarrow> area st T \<and> (\<forall>e \<in> set es. holds st (pkey T (fst e)) (snd e)) \<and>
     (\<forall>k x. is_file st k x \<longrightarrow> strict_prefix T k \<longrightarrow> k \<in> pkeys T es) \<and>
     (\<forall>k. strict_prefix T k \<longrightarrow> lookup st k \<noteq> None \<longrightarrow> (\<exists>e \<in> set es. prefix k (pkey T (fst e))))"

definition others :: "string list \<Rightarrow> string \<Rightarrow> payload \<Rightarrow> fstore \<Rightarrow> fstore \<Rightarrow> bool" where
  "others D c es st st' \<longleftrightarrow> (\<forall>k. lookup st' k = lookup st k \<or> prefix (D @ [c]) k \<or>
     k = data_key D \<or> k = tmp_key D \<or>
     (lookup st k = None \<and> entry_link D es k (lookup st' k)))"

definition installed :: "string list \<Rightarrow> string \<Rightarrow> payload \<Rightarrow> fstore \<Rightarrow> fstore \<Rightarrow> bool" where
  "installed D c es st st' \<longleftrightarrow> stamped c \<and> lookup st (D @ [c]) = None \<and>
     lookup st (tmp_key D) = None \<and>
     lookup st' (data_key D) = Some (link_to c) \<and> complete (D @ [c]) es st' \<and> others D c es st st'"

definition untouched :: "string list \<Rightarrow> string \<Rightarrow> payload \<Rightarrow> fstore \<Rightarrow> fstore \<Rightarrow> bool" where
  "untouched D c es st st' \<longleftrightarrow> stamped c \<and> lookup st (D @ [c]) = None \<and>
     lookup st' (data_key D) = lookup st (data_key D) \<and> others D c es st st'"

definition good_entries :: "payload \<Rightarrow> bool" where
  "good_entries es \<longleftrightarrow> (\<forall>e \<in> set es. ok_path (fst e) \<and> \<not> hidden (first_comp (fst e))) \<and>
     distinct (map fst es)"

lemma good_entries_order:
  assumes "env_laws env" and "good_entries es"
  shows "good_entries (map_order env n es)" and "set (map_order env n es) = set es"
proof -
  have m: "mset (map_order env n es) = mset es" using assms(1) by (simp add: env_laws_def)
  then show s: "set (map_order env n es) = set es" by (rule mset_eq_setD)
  have "mset (map fst (map_order env n es)) = mset (map fst es)" using m by simp
  then have "distinct (map fst (map_order env n es)) = distinct (map fst es)"
    by (rule mset_eq_imp_distinct_iff)
  with s assms(2) show "good_entries (map_order env n es)" by (simp add: good_entries_def)
qed

lemma area_cong:
  assumes "area a T" and "\<And>k. prefix k T \<or> prefix T k \<Longrightarrow> lookup b k = lookup a k"
  shows "area b T"
proof -
  have "dirs_to b T"
    by (rule dirs_cong [of a "[]"]) (use assms in \<open>auto simp: area_def\<close>)
  moreover have "plain_below b T"
    using assms unfolding area_def plain_below_def by (metis prefix_order.less_imp_le)
  ultimately show ?thesis by (simp add: area_def)
qed

lemma complete_cong:
  assumes "complete T es a" and "\<And>k. prefix k T \<or> prefix T k \<Longrightarrow> lookup b k = lookup a k"
  shows "complete T es b"
proof -
  have below: "lookup b k = lookup a k" if "strict_prefix T k" for k
    using assms(2) that prefix_order.less_imp_le by blast
  have "area b T" using assms(1) by (auto simp: complete_def intro: area_cong assms(2))
  moreover have "\<forall>e \<in> set es. holds b (pkey T (fst e)) (snd e)"
    using assms(1) below [OF pkey_strict] by (simp add: complete_def holds_def)
  ultimately show ?thesis
    using assms(1) below unfolding complete_def is_file_def by metis
qed

text \<open>Steps 5 to 7: what has been done when the switch begins.\<close>

definition prepared :: "string list \<Rightarrow> string \<Rightarrow> payload \<Rightarrow> fstore \<Rightarrow> fstore \<Rightarrow> bool" where
  "prepared D c es st st' \<longleftrightarrow> stamped c \<and> lookup st (D @ [c]) = None \<and>
     (\<forall>k. lookup st' k = lookup st k \<or> prefix (D @ [c]) k \<or>
       (lookup st k = None \<and> entry_link D es k (lookup st' k)))"

lemma prepared_keeps_hidden:
  assumes "prepared D c es a b" and "good_entries es" and "hidden n" and "n \<noteq> c"
  shows "lookup b (D @ [n]) = lookup a (D @ [n])"
proof -
  have "\<not> prefix (D @ [c]) (D @ [n])" using assms(4) by simp
  moreover have "\<not> entry_link D es (D @ [n]) i" for i
    using assms(2,3) by (auto simp: good_entries_def entry_link_def)
  ultimately show ?thesis using assms(1) unfolding prepared_def by metis
qed

lemma prepared_untouched:
  assumes "prepared D c es a b" and "good_entries es"
  shows "untouched D c es a b"
proof -
  have c: "stamped c" using assms(1) by (simp add: prepared_def)
  have "lookup b (data_key D) = lookup a (data_key D)"
    by (rule prepared_keeps_hidden [OF assms])
      (use data_names stamped_not_data [OF c] in auto)
  with assms(1) show ?thesis unfolding untouched_def prepared_def others_def by blast
qed

lemma prepared_dirs: "prepared D c es a b \<Longrightarrow> dirs_to a D \<Longrightarrow> dirs_to b D"
proof (rule dirs_cong)
  fix k
  assume p: "prepared D c es a b" and "prefix k ([] @ D)"
  then have "length k \<le> length D" using prefix_length_le [of k D] by simp
  then have "\<not> prefix (D @ [c]) k" "k \<noteq> D @ [x]" for x
    by (auto dest: prefix_length_le)
  then show "lookup b k = lookup a k" using p unfolding prepared_def by (metis entry_link_key)
qed

lemma fresh_prepared: "fresh_dir D c a b \<Longrightarrow> prepared D c es a b"
  by (auto simp: fresh_dir_def prepared_def)

lemma wrote_prepared:
  "prepared D c es a b \<Longrightarrow> wrote (D @ [c]) es' b d \<Longrightarrow> prepared D c es a d"
  unfolding prepared_def wrote_def by (metis prefix_order.less_imp_le)

lemma links_prepared:
  assumes "prepared D c es a b" and "links_added D es b d"
  shows "prepared D c es a d"
proof -
  have "lookup d k = lookup a k \<or> prefix (D @ [c]) k \<or>
      (lookup a k = None \<and> entry_link D es k (lookup d k))" for k
  proof -
    have 1: "lookup b k = lookup a k \<or> prefix (D @ [c]) k \<or>
        (lookup a k = None \<and> entry_link D es k (lookup b k))"
      using assms(1) unfolding prepared_def by blast
    have 2: "lookup d k = lookup b k \<or>
        (lookup b k = None \<and> entry_link D es k (lookup d k))"
      using assms(2) unfolding links_added_def by blast
    from 1 2 show ?thesis by (metis (no_types))
  qed
  with assms(1) show ?thesis unfolding prepared_def by blast
qed

lemma links_complete:
  assumes "links_added D es' a b" and "complete (D @ [c]) es a" and "good_entries es'" and "stamped c"
    and "dirs_to a D"
  shows "complete (D @ [c]) es b"
proof (rule complete_cong [OF assms(2)])
  fix k
  assume k: "prefix k (D @ [c]) \<or> prefix (D @ [c]) k"
  have "k \<noteq> D @ [first_comp (fst e)]" if "e \<in> set es'" for e
  proof
    assume "k = D @ [first_comp (fst e)]"
    then have "first_comp (fst e) = c" using k by auto
    with assms(3,4) that stamped_hidden show False by (auto simp: good_entries_def)
  qed
  then show "lookup b k = lookup a k" using assms(1) unfolding links_added_def by (metis entry_link_key)
qed

lemma switched_complete:
  assumes "switched D c a b" and "complete (D @ [c]) es a" and "stamped c"
  shows "complete (D @ [c]) es b"
proof (rule complete_cong [OF assms(2)])
  fix k
  assume "prefix k (D @ [c]) \<or> prefix (D @ [c]) k"
  then have "k \<noteq> data_key D \<and> k \<noteq> tmp_key D"
    using stamped_not_data [OF assms(3)] by auto
  then show "lookup b k = lookup a k" using assms(1) by (simp add: switched_def)
qed

end
