(* ===== verification/AtomicCommit.thy ===== *)
theory AtomicCommit
  imports AtomicInstall
begin

text \<open>
  The whole of \<open>Write\<close>: the comparison with the old version, the installation of the new one and the
  clean-up, put together over the specifications of the steps.
\<close>

section \<open>Installation\<close>

abbreviation writer_at :: "string list \<Rightarrow> AtomicWriter" where
  "writer_at D \<equiv> \<lparr>targetDir = path_string D\<rparr>"

lemma abandoned_untouched:
  assumes "prepared D c es a b" and "good_entries es" and "abandoned D c b d"
  shows "untouched D c es a d"
proof -
  have u: "untouched D c es a b" by (rule prepared_untouched [OF assms(1,2)])
  have c: "stamped c" using assms(1) by (simp add: prepared_def)
  have "\<not> prefix (D @ [c]) (data_key D)" "data_key D \<noteq> tmp_key D"
    using data_names(5) stamped_not_data [OF c] by simp_all
  then have "lookup d (data_key D) = lookup b (data_key D)"
    using assms(3) unfolding abandoned_def by metis
  then have "lookup d (data_key D) = lookup a (data_key D)"
    using u by (simp add: untouched_def)
  moreover have "others D c es a d"
    using u assms(3) unfolding untouched_def others_def abandoned_def by metis
  ultimately show ?thesis using u by (simp add: untouched_def)
qed

lemma switched_others:
  assumes "prepared D c es a b" and "switched D c b d"
  shows "others D c es a d"
  using assms unfolding prepared_def switched_def others_def by metis

lemma install_version_spec:
  assumes env: "env_laws env" and os: "GOOS env = Linux" and D: "names D" "dirs_to s0 D" "closed_at s0 D"
    and link: "\<not> is_dir s0 (data_key D)" and es: "good_entries es"
  shows "ensures (\<lambda>st. st = s0) (install_version env (writer_at D) es :: ('x world, goerror option) state)
    (\<lambda>r st. if r = None then \<exists>c. installed D c es s0 st
       else (\<exists>c. untouched D c es s0 st) \<or> st = s0)"
proof -
  let ?Q = "\<lambda>r st. if r = None then \<exists>c. installed D c es s0 st
       else (\<exists>c. untouched D c es s0 st) \<or> st = s0"
  note g2 = good_entries_order [OF env es, of 2] and g3 = good_entries_order [OF env es, of 3]
  have stop: "ensures (\<lambda>st. st = s) (ret (Some err) :: ('x world, goerror option) state) ?Q"
    if "prepared D c es s0 s" for c s err
    using prepared_untouched [OF that es] by (auto intro: ensures_ret)
  have sw: "ensures (\<lambda>st. st = s)
      (switch_version env (writer_at D) (path_string (D @ [c])) :: ('x world, goerror option) state) ?Q"
    if p: "prepared D c es s0 s" and full: "complete (D @ [c]) es s" for c s
  proof -
    have c: "stamped c" and new: "lookup s0 (D @ [c]) = None" using p by (simp_all add: prepared_def)
    have "lookup s (data_key D) = lookup s0 (data_key D)"
      using prepared_untouched [OF p es] by (simp add: untouched_def)
    then have "\<not> is_dir s (data_key D)" using link by (simp add: is_dir_def)
    from switch_version_spec [OF os D(1) prepared_dirs [OF p D(2)] c this]
    show ?thesis
    proof (rule ensures_conseq)
      fix r :: "goerror option" and st
      assume q: "if r = None then switched D c s st else abandoned D c s st"
      show "?Q r st"
      proof (cases r)
        case None
        with q have "switched D c s st" by simp
        moreover from this have "lookup s0 (tmp_key D) = None"
          using prepared_keeps_hidden [OF p es data_names(4)] stamped_not_data [OF c]
          by (auto simp: switched_def)
        ultimately have "installed D c es s0 st"
          using switched_complete [OF _ full c] switched_others [OF p] c new
          by (simp add: installed_def switched_def)
        with None show ?thesis by auto
      next
        case (Some err)
        with q show ?thesis using abandoned_untouched [OF p es] by auto
      qed
    qed auto
  qed
  have vis: "ensures (\<lambda>st. st = s) (do {
        e \<leftarrow> createUserVisibleFiles env (writer_at D) es;
        case e of Some err \<Rightarrow> ret (Some err)
        | None \<Rightarrow> switch_version env (writer_at D) (path_string (D @ [c]))
      } :: ('x world, goerror option) state) ?Q"
    if p: "prepared D c es s0 s" and full: "complete (D @ [c]) es s" for c s
  proof -
    have d: "dirs_to s D" by (rule prepared_dirs [OF p D(2)])
    have ok: "\<forall>e \<in> set (map_order env 3 es). ok_path (fst e)" using g3(1) by (simp add: good_entries_def)
    have cv: "ensures (\<lambda>st. st = s)
        (createUserVisibleFiles env (writer_at D) es :: ('x world, goerror option) state)
        (\<lambda>r st. links_added D es s st)"
      unfolding createUserVisibleFiles_def targetDir_simp
      by (rule ensures_conseq [OF create_visible_spec [OF D(1) d ok]])
        (auto simp: links_added_def entry_link_def g3(2))
    show ?thesis
    proof (rule ensures_bind [OF cv], rule ensures_any)
      fix e :: "goerror option" and s2
      assume l: "links_added D es s s2"
      have p2: "prepared D c es s0 s2" by (rule links_prepared [OF p l])
      have c: "stamped c" using p by (simp add: prepared_def)
      have f2: "complete (D @ [c]) es s2" by (rule links_complete [OF l full es c d])
      show "ensures (\<lambda>st. st = s2) ((case e of Some err \<Rightarrow> ret (Some err)
          | None \<Rightarrow> switch_version env (writer_at D) (path_string (D @ [c])))
          :: ('x world, goerror option) state) ?Q"
        using sw [OF p2 f2] stop [OF p2] by (cases e) simp_all
    qed
  qed
  have wr: "ensures (\<lambda>st. st = s) (do {
        e \<leftarrow> writePayloadToDir env es (path_string (D @ [c]));
        case e of Some err \<Rightarrow> ret (Some err)
        | None \<Rightarrow> do {
            e \<leftarrow> createUserVisibleFiles env (writer_at D) es;
            case e of Some err \<Rightarrow> ret (Some err)
            | None \<Rightarrow> switch_version env (writer_at D) (path_string (D @ [c]))
          }
      } :: ('x world, goerror option) state) ?Q" if f: "fresh_dir D c s0 s" for c s
  proof -
    have a: "area s (D @ [c])" by (rule fresh_dir_area [OF f D(2,3)])
    have c: "stamped c" using f by (simp add: fresh_dir_def)
    have nT: "names (D @ [c])" using D(1) stamped_name [OF c] by simp
    have none: "lookup s k = None" if "strict_prefix (D @ [c]) k" for k
    proof -
      have "k \<noteq> D @ [c]" using that by auto
      then have "lookup s k = lookup s0 k" using f by (simp add: fresh_dir_def)
      also have "\<dots> = None" using f D(3) that unfolding fresh_dir_def closed_at_def by blast
      finally show ?thesis .
    qed
    then have empty: "\<not> is_file s k x" if "strict_prefix (D @ [c]) k" for k x
      using that by (simp add: is_file_def)
    have g: "\<forall>e \<in> set (map_order env 2 es). ok_path (fst e)" "distinct (map fst (map_order env 2 es))"
      using g2(1) by (simp_all add: good_entries_def)
    show ?thesis
      unfolding writePayloadToDir_def
    proof (rule ensures_bind [OF write_files_spec [OF a nT g]], rule ensures_any, elim conjE)
      fix e :: "goerror option" and s1
      assume w: "wrote (D @ [c]) (map_order env 2 es) s s1"
        and h: "e = None \<longrightarrow> (\<forall>e \<in> set (map_order env 2 es). holds s1 (pkey (D @ [c]) (fst e)) (snd e))"
      have p1: "prepared D c es s0 s1" by (rule wrote_prepared [OF fresh_prepared [OF f] w])
      have full: "complete (D @ [c]) es s1" if "e = None"
        unfolding complete_def
      proof (intro conjI allI impI)
        show "area s1 (D @ [c])" using w by (simp add: wrote_def)
        show "\<forall>e \<in> set es. holds s1 (pkey (D @ [c]) (fst e)) (snd e)" using h that g2(2) by simp
        fix k x
        assume "is_file s1 k x" and "strict_prefix (D @ [c]) k"
        then have "k \<in> pkeys (D @ [c]) (map_order env 2 es)"
          using w empty unfolding wrote_def by blast
        then show "k \<in> pkeys (D @ [c]) es" by (simp add: pkeys_def g2(2))
      next
        fix k
        assume "strict_prefix (D @ [c]) k" and "lookup s1 k \<noteq> None"
        then have "lookup s1 k \<noteq> lookup s k" using none by simp
        then show "\<exists>e \<in> set es. prefix k (pkey (D @ [c]) (fst e))"
          using w unfolding wrote_def g2(2) by blast
      qed
      show "ensures (\<lambda>st. st = s1) ((case e of Some err \<Rightarrow> ret (Some err)
          | None \<Rightarrow> do {
              e \<leftarrow> createUserVisibleFiles env (writer_at D) es;
              case e of Some err \<Rightarrow> ret (Some err)
              | None \<Rightarrow> switch_version env (writer_at D) (path_string (D @ [c]))
            }) :: ('x world, goerror option) state) ?Q"
        using vis [OF p1 full] stop [OF p1] by (cases e) simp_all
    qed
  qed
  show ?thesis
    unfolding install_version_def
  proof (rule ensures_bind [OF newTimestampDir_spec [OF env D]], rule ensures_any)
    fix t :: "goerror + string" and s
    assume t: "(\<exists>c. fresh_dir D c s0 s \<and> (\<forall>d. t = Inr d \<longrightarrow> d = path_string (D @ [c]))) \<or>
      (s = s0 \<and> (\<exists>e. t = Inl e))"
    show "ensures (\<lambda>st. st = s) ((case t of
          Inl err \<Rightarrow> ret (Some err)
        | Inr tsDir \<Rightarrow> do {
            e \<leftarrow> writePayloadToDir env es tsDir;
            case e of Some err \<Rightarrow> ret (Some err)
            | None \<Rightarrow> do {
                e \<leftarrow> createUserVisibleFiles env (writer_at D) es;
                case e of Some err \<Rightarrow> ret (Some err) | None \<Rightarrow> switch_version env (writer_at D) tsDir
              }
          }) :: ('x world, goerror option) state) ?Q"
    proof (cases t)
      case (Inl err)
      have "?Q (Some err) s"
      proof (cases "s = s0")
        case False
        with t obtain c where "fresh_dir D c s0 s" by blast
        from prepared_untouched [OF fresh_prepared [OF this] es] show ?thesis by auto
      qed simp
      then show ?thesis unfolding Inl sum.case by (auto intro: ensures_ret)
    next
      case (Inr d)
      with t obtain c where f: "fresh_dir D c s0 s" and d: "d = path_string (D @ [c])" by blast
      show ?thesis unfolding Inr sum.case d by (rule wr [OF f])
    qed
  qed
qed

section \<open>The walk over the old version\<close>

text \<open>The old version: an area whose keys are plain names.\<close>

definition tree_at :: "fstore \<Rightarrow> string list \<Rightarrow> bool" where
  "tree_at st R \<longleftrightarrow> area st R \<and> names R \<and> R \<noteq> [] \<and>
     (\<forall>q. q \<noteq> [] \<longrightarrow> lookup st (R @ q) \<noteq> None \<longrightarrow> names q)"

definition node :: "fstore \<Rightarrow> string list \<Rightarrow> string \<Rightarrow> bool" where
  "node st R s \<longleftrightarrow>
     (\<exists>q. names q \<and> s = path_string (R @ q) \<and> (q \<noteq> [] \<longrightarrow> lookup st (R @ q) \<noteq> None))"

lemma tree_on_area: "tree_at st R \<Longrightarrow> names q \<Longrightarrow> on_area st R (R @ q)"
  by (simp add: tree_at_def on_area_def)

lemma child_names_lookup:
  "n \<in> set (child_names st p) \<Longrightarrow> lookup st (p @ [n]) \<noteq> None"
proof -
  assume "n \<in> set (child_names st p)"
  then obtain k where k: "k \<in> set (map fst st)" "k \<noteq> []" "butlast k = p" "last k = n"
    by (auto simp: child_names_def)
  then have "k = p @ [n]" using append_butlast_last_id [of k] by simp
  with k(1) have "map_of st (p @ [n]) \<noteq> None" by (simp add: map_of_eq_None_iff)
  then show ?thesis by (simp add: lookup_def)
qed

lemma readDirNames_spec:
  assumes t: "tree_at s0 R" and q: "names q"
  shows "ensures (\<lambda>st. st = s0) (readDirNames (path_string (R @ q)))
    (\<lambda>r st. st = s0 \<and> (\<forall>ns. r = Inr ns \<longrightarrow>
      (\<forall>n \<in> set ns. name_comp n \<and> lookup s0 (R @ q @ [n]) \<noteq> None)))"
proof -
  have "name_comp n \<and> lookup s0 (R @ q @ [n]) \<noteq> None"
    if "st_read_dir (path_string (R @ q)) s0 = Inr ns" and "n \<in> set ns" for n ns
  proof -
    from that(1) obtain k where k: "namei s0 True (path_string (R @ q)) = Inr k"
      and ns: "ns = child_names s0 k"
      by (auto simp: st_read_dir_def split: sum.splits option.splits if_splits)
    have "k = R @ q" using namei_spells [OF tree_on_area [OF t q] _ k] by simp
    with child_names_lookup that(2) ns have l: "lookup s0 (R @ q @ [n]) \<noteq> None" by fastforce
    moreover have "names (q @ [n])" using t l unfolding tree_at_def by blast
    ultimately show ?thesis by simp
  qed
  then show ?thesis
    unfolding readDirNames_def
    by (intro ensures_map_state ensures_sys_read) (auto simp: lift_err_def split: sum.splits)
qed

lemma walk_spec:
  assumes t: "tree_at s0 R"
  shows "\<And>q. names q \<Longrightarrow> path = path_string (R @ q) \<Longrightarrow> (q \<noteq> [] \<longrightarrow> lookup s0 (R @ q) \<noteq> None) \<Longrightarrow>
      ensures (\<lambda>st. st = s0) (walk n path i :: ('x world, string list) state)
        (\<lambda>r st. st = s0 \<and> (\<forall>s \<in> set r. node s0 R s))"
    and "\<And>q. names q \<Longrightarrow> path = path_string (R @ q) \<Longrightarrow>
      \<forall>x \<in> set ns. name_comp x \<and> lookup s0 (R @ q @ [x]) \<noteq> None \<Longrightarrow>
      ensures (\<lambda>st. st = s0) (walk_names n path ns :: ('x world, string list) state)
        (\<lambda>r st. st = s0 \<and> (\<forall>s \<in> set r. node s0 R s))"
proof (induction n path i and n path ns rule: walk_walk_names.induct)
  case (1 path i)
  then show ?case by (auto intro!: ensures_ret simp: node_def)
next
  case (2 n path i)
  have here: "node s0 R path" using 2(2-4) by (auto simp: node_def)
  show ?case
    unfolding walk.simps
  proof (rule ensures_if)
    show "ensures (\<lambda>st. st = s0) (ret [path]) (\<lambda>r st. st = s0 \<and> (\<forall>s \<in> set r. node s0 R s))"
      using here by (auto intro: ensures_ret)
    assume d: "\<not> \<not> IsDir i"
    show "ensures (\<lambda>st. st = s0) (do {
         names \<leftarrow> readDirNames path;
         case names of Inl e \<Rightarrow> ret [path] | Inr ns \<Rightarrow> map_state ((#) path) (walk_names n path ns)
       } :: ('x world, string list) state) (\<lambda>r st. st = s0 \<and> (\<forall>s \<in> set r. node s0 R s))"
    proof (rule ensures_bind [OF readDirNames_spec [OF t 2(2), folded 2(3)]], rule ensures_any,
        elim conjE)
      fix a :: "goerror + string list" and st
      assume st: "st = s0"
        and a: "\<forall>ns. a = Inr ns \<longrightarrow> (\<forall>x \<in> set ns. name_comp x \<and> lookup s0 (R @ q @ [x]) \<noteq> None)"
      show "ensures (\<lambda>t. t = st) ((case a of Inl e \<Rightarrow> ret [path]
          | Inr ns \<Rightarrow> map_state ((#) path) (walk_names n path ns)) :: ('x world, string list) state)
          (\<lambda>r st. st = s0 \<and> (\<forall>s \<in> set r. node s0 R s))"
      proof (cases a)
        case (Inl e)
        then show ?thesis using here st by (auto intro: ensures_ret)
      next
        case (Inr ns)
        have "ensures (\<lambda>st. st = s0) (walk_names n path ns :: ('x world, string list) state)
            (\<lambda>r st. st = s0 \<and> (\<forall>s \<in> set r. node s0 R s))"
          by (rule 2(1) [OF d 2(2,3)]) (use a Inr in blast)
        then have "ensures (\<lambda>st. st = s0)
            (map_state ((#) path) (walk_names n path ns) :: ('x world, string list) state)
            (\<lambda>r st. st = s0 \<and> (\<forall>s \<in> set r. node s0 R s))"
          by (intro ensures_map_state) (erule ensures_conseq, use here in auto)
        then show ?thesis using Inr st by simp
      qed
    qed
  qed
next
  case (3 n path)
  then show ?case by (auto intro: ensures_ret)
next
  case (4 n path x ns)
  have x: "name_comp x" "lookup s0 (R @ q @ [x]) \<noteq> None" using 4(5) by auto
  have nR: "names (R @ q)" using t 4(3) by (simp add: tree_at_def)
  have j: "Join [path, x] = path_string (R @ q @ [x])"
    using Join_path_string_name [OF nR x(1)] 4(4) by simp
  have here: "node s0 R (Join [path, x])"
    unfolding node_def j by (rule exI [of _ "q @ [x]"]) (use 4(3) x in simp)
  have nq: "names (q @ [x])" using 4(3) x(1) by simp
  have first: "ensures (\<lambda>st. st = s0)
      ((case f of Inl e \<Rightarrow> ret [Join [path, x]] | Inr i \<Rightarrow> walk n (Join [path, x]) i)
        :: ('x world, string list) state)
      (\<lambda>r st. st = s0 \<and> (\<forall>s \<in> set r. node s0 R s))" for f :: "goerror + inode"
  proof (cases f)
    case (Inl e)
    then show ?thesis using here by (auto intro: ensures_ret)
  next
    case (Inr i)
    have "ensures (\<lambda>st. st = s0) (walk n (Join [path, x]) i :: ('x world, string list) state)
        (\<lambda>r st. st = s0 \<and> (\<forall>s \<in> set r. node s0 R s))"
      by (rule 4(1) [OF refl refl nq]) (use j x in auto)
    then show ?thesis using Inr by simp
  qed
  have rest: "ensures (\<lambda>st. st = s0) (walk_names n path ns :: ('x world, string list) state)
      (\<lambda>r st. st = s0 \<and> (\<forall>s \<in> set r. node s0 R s))"
    by (rule 4(2) [OF refl 4(3,4)]) (use 4(5) in simp)
  have ls: "ensures (\<lambda>st. st = s0) (os_Lstat (Join [path, x])) (\<lambda>r st. st = s0)"
    by (rule ensures_conseq [OF os_Lstat_spec]) auto
  show ?case
    unfolding walk_names.simps Let_def
  proof (rule ensures_bind [OF ls], rule ensures_bind [OF first], rule ensures_any, elim conjE)
    fix a and st
    assume st: "st = s0" and a: "\<forall>s \<in> set a. node s0 R s"
    show "ensures (\<lambda>t. t = st) (do { rest \<leftarrow> walk_names n path ns; ret (a @ rest) }
        :: ('x world, string list) state) (\<lambda>r st. st = s0 \<and> (\<forall>s \<in> set r. node s0 R s))"
      unfolding st by (rule ensures_bind [OF rest], rule ensures_ret) (use a in auto)
  qed
qed

lemma Walk_spec:
  assumes t: "tree_at s0 R"
  shows "ensures (\<lambda>st. st = s0) (Walk (path_string R) :: ('a world, string list) state)
    (\<lambda>r st. st = s0 \<and> (\<forall>s \<in> set r. node s0 R s))"
proof -
  have here: "node s0 R (path_string R)"
    unfolding node_def by (rule exI [of _ "[]"]) simp
  have w: "ensures (\<lambda>st. st = s0) (State (\<lambda>w. run_state (walk (walk_fuel (store w)) (path_string R) i) w)
      :: ('a world, string list) state)
      (\<lambda>r st. st = s0 \<and> (\<forall>s \<in> set r. node s0 R s))" for i :: inode
    unfolding ensures_def
  proof (intro allI impI)
    fix w :: "'a world" and r w'
    assume "store w = s0" and "run_state (State (\<lambda>w. run_state (walk (walk_fuel (store w)) (path_string R) i) w)) w = (r, w')"
    then have run: "run_state (walk (walk_fuel (store w)) (path_string R) i) w = (r, w')" "store w = s0"
      by simp_all
    have "ensures (\<lambda>st. st = s0) (walk (walk_fuel (store w)) (path_string R) i :: ('a world, string list) state)
        (\<lambda>r st. st = s0 \<and> (\<forall>s \<in> set r. node s0 R s))"
      by (rule walk_spec(1) [OF t, of "[]"]) simp_all
    from ensuresD [OF this run(2,1)]
    show "store w' = s0 \<and> (\<forall>s \<in> set r. node s0 R s)" .
  qed
  have ls: "ensures (\<lambda>st. st = s0) (os_Lstat (path_string R)) (\<lambda>r st. st = s0)"
    by (rule ensures_conseq [OF os_Lstat_spec]) auto
  show ?thesis
    unfolding Walk_def
    by (rule ensures_bind [OF ls], rule ensures_sum) (use here w in \<open>auto intro: ensures_ret\<close>)
qed

lemma relative_to_node:
  assumes "names R" and "R \<noteq> []" and "names q"
  shows "relative_to (path_string R) (path_string (R @ q)) = join_on sep q"
proof (cases "q = []")
  case True
  then show ?thesis by (simp add: relative_to_def TrimPrefix_def HasPrefix_def)
next
  case False
  then have "path_string (R @ q) = path_string R @ sep # join_on sep q"
    using assms(2) by (simp add: path_string_def join_on_append)
  then show ?thesis by (simp add: relative_to_def TrimPrefix_def HasPrefix_def)
qed

lemma join_on_single: "names q \<Longrightarrow> sep \<notin> set (join_on sep q) \<Longrightarrow> q \<noteq> [] \<Longrightarrow> q = [join_on sep q]"
proof (cases q)
  case (Cons a as)
  assume "sep \<notin> set (join_on sep q)"
  with Cons show ?thesis by (cases as) auto
qed simp

text \<open>A path that is removed is below a directory, or it is the name of an entry of the old version.\<close>

definition removable :: "fstore \<Rightarrow> string list \<Rightarrow> string \<Rightarrow> bool" where
  "removable st R p \<longleftrightarrow> sep \<in> set p \<or> (name_comp p \<and> lookup st (R @ [p]) \<noteq> None)"

lemma pathsToRemove_spec:
  assumes t: "tree_at s0 R"
  shows "ensures (\<lambda>st. st = s0) (pathsToRemove es (path_string R))
    (\<lambda>r st. st = s0 \<and> (\<forall>p \<in> set r. removable s0 R p))"
proof -
  have R: "names R" "R \<noteq> []" using t by (simp_all add: tree_at_def)
  have "removable s0 R p" if v: "\<forall>s \<in> set vs. node s0 R s" and p: "p \<noteq> ''''"
    and pv: "p \<in> relative_to (path_string R) ` set vs" for vs p
  proof -
    from pv v obtain q where q: "names q" "q \<noteq> [] \<longrightarrow> lookup s0 (R @ q) \<noteq> None"
      and pq: "p = relative_to (path_string R) (path_string (R @ q))"
      unfolding node_def by fastforce
    have pj: "p = join_on sep q" using relative_to_node [OF R q(1)] pq by simp
    with p have ne: "q \<noteq> []" by auto
    show ?thesis
    proof (cases "sep \<in> set p")
      case False
      with join_on_single [OF q(1) _ ne] pj have "q = [p]" by simp
      with q ne show ?thesis by (simp add: removable_def)
    qed (simp add: removable_def)
  qed
  then show ?thesis
    unfolding pathsToRemove_def Let_def
    by (intro ensures_bind [OF Walk_spec [OF t]] ensures_ret) auto
qed

section \<open>The comparison\<close>

lemma os_ReadFile_spec:
  assumes "on_area s0 T p"
  shows "ensures (\<lambda>st. st = s0) (os_ReadFile (path_string p))
    (\<lambda>r st. st = s0 \<and> (\<forall>c. r = Inr c \<longrightarrow> is_file s0 p c))"
proof -
  have op: "ensures (\<lambda>st. st = s0) (sys_read (st_get True (path_string p)))
      (\<lambda>r st. st = s0 \<and> (\<forall>i. r = Inr i \<longrightarrow> lookup s0 p = Some i))"
    by (rule ensures_sys_read) (use st_get_spells [OF assms spells_path_string] in auto)
  show ?thesis
    unfolding os_ReadFile_def
  proof (rule ensures_bind [OF op], rule ensures_sum, goal_cases)
    case (1 a e)
    then show ?case by (auto intro: ensures_ret)
  next
    case (2 a i)
    show ?case
      by (rule ensures_map_state, rule ensures_sys_read)
        (use 2 in \<open>auto simp: lift_err_def is_file_def split: fkind.splits\<close>)
  qed
qed

lemma shouldWriteFile_spec:
  assumes "tree_at s0 R" and "ok_path k"
  shows "ensures (\<lambda>st. st = s0) (shouldWriteFile (Join [path_string R, k]) c)
    (\<lambda>r st. st = s0 \<and> (r = Inr False \<longrightarrow> is_file s0 (pkey R k) c))"
proof -
  have R: "area s0 R" "names R" using assms(1) by (simp_all add: tree_at_def)
  have ls: "ensures (\<lambda>st. st = s0) (os_Lstat s) (\<lambda>r st. st = s0)" for s
    by (rule ensures_conseq [OF os_Lstat_spec]) auto
  show ?thesis
    unfolding shouldWriteFile_def Join_ok_path [OF R(2) assms(2)]
    by (intro ensures_bind [OF ls] ensures_if ensures_ret
        ensures_bind [OF os_ReadFile_spec [OF on_area_pkey [OF R assms(2)]]])
      (auto split: sum.split)
qed

lemma should_write_spec:
  assumes "tree_at s0 R" and "\<forall>e \<in> set es. ok_path (fst e)"
  shows "ensures (\<lambda>st. st = s0) (should_write es (path_string R) :: ('x world, goerror + bool) state)
    (\<lambda>r st. st = s0 \<and>
      (r = Inr False \<longrightarrow> (\<forall>e \<in> set es. is_file s0 (pkey R (fst e)) (fp_Data (snd e)))))"
  using assms(2)
proof (induction es)
  case Nil
  show ?case by (auto intro: ensures_ret)
next
  case (Cons e es)
  obtain k fp where e: "e = (k, fp)" by fastforce
  have k: "ok_path k" using Cons.prems e by simp
  have IH: "ensures (\<lambda>st. st = s0) (should_write es (path_string R) :: ('x world, goerror + bool) state)
      (\<lambda>r st. st = s0 \<and>
        (r = Inr False \<longrightarrow> (\<forall>e \<in> set es. is_file s0 (pkey R (fst e)) (fp_Data (snd e)))))"
    using Cons by simp
  show ?case
    unfolding e should_write.simps
  proof (rule ensures_bind [OF shouldWriteFile_spec [OF assms(1) k]], rule ensures_sum, goal_cases)
    case (1 a err)
    show ?case by (rule ensures_ret) (use 1 in auto)
  next
    case (2 a b)
    note ab = this
    show ?case
    proof (rule ensures_if, goal_cases)
      case 1
      show ?case by (rule ensures_ret) (use ab in auto)
    next
      case 2
      note nb = this
      show ?case
      proof (rule ensures_any, elim conjE)
        fix st
        assume "st = s0" and "a = Inr False \<longrightarrow> is_file s0 (pkey R k) (fp_Data fp)"
        then show "ensures (\<lambda>t. t = st)
            (should_write es (path_string R) :: ('x world, goerror + bool) state)
            (\<lambda>r st. st = s0 \<and> (r = Inr False \<longrightarrow>
              (\<forall>e \<in> set ((k, fp) # es). is_file s0 (pkey R (fst e)) (fp_Data (snd e)))))"
          using ab nb by (intro ensures_conseq [OF IH]) auto
      qed
    qed
  qed
qed

lemma compare_versions_spec:
  assumes t: "tree_at s0 R" and env: "env_laws env" and es: "good_entries es"
  shows "ensures (\<lambda>st. st = s0) (compare_versions env es (path_string R))
    (\<lambda>r st. st = s0 \<and> (\<forall>ps. r = Inr (Some ps) \<longrightarrow> (\<forall>p \<in> set ps. removable s0 R p)) \<and>
      (r = Inr None \<longrightarrow> (\<forall>e \<in> set es. is_file s0 (pkey R (fst e)) (fp_Data (snd e)))))"
proof -
  note g = good_entries_order [OF env es, of 1]
  have ok: "\<forall>e \<in> set (map_order env 1 es). ok_path (fst e)" using g(1) by (simp add: good_entries_def)
  have sw: "ensures (\<lambda>st. st = s0) (shouldWritePayload env es (path_string R))
      (\<lambda>r st. st = s0 \<and>
        (r = Inr False \<longrightarrow> (\<forall>e \<in> set es. is_file s0 (pkey R (fst e)) (fp_Data (snd e)))))"
    unfolding shouldWritePayload_def using should_write_spec [OF t ok] unfolding g(2) .
  show ?thesis
    unfolding compare_versions_def
  proof (rule ensures_bind [OF pathsToRemove_spec [OF t]], rule ensures_any, elim conjE)
    fix ps and st
    assume st: "st = s0" and ps: "\<forall>p \<in> set ps. removable s0 R p"
    show "ensures (\<lambda>t. t = st) (do {
          should \<leftarrow> shouldWritePayload env es (path_string R);
          ret (case should of Inl err \<Rightarrow> Inl err
            | Inr b \<Rightarrow> if \<not> b \<and> ps = [] then Inr None else Inr (Some ps))
        }) (\<lambda>r st. st = s0 \<and> (\<forall>ps. r = Inr (Some ps) \<longrightarrow> (\<forall>p \<in> set ps. removable s0 R p)) \<and>
          (r = Inr None \<longrightarrow> (\<forall>e \<in> set es. is_file s0 (pkey R (fst e)) (fp_Data (snd e)))))"
      unfolding st
      by (rule ensures_bind [OF sw], rule ensures_ret) (use ps in \<open>auto split: sum.splits if_splits\<close>)
  qed
qed

end
