(* ===== verification/TreeInv.thy ===== *)
theory TreeInv
  imports StoreLogic
begin

unbundle bit_operations_syntax

text \<open>
  The store is a tree: every key is a list of plain names without duplicates among the keys, and the
  parent of every key is a directory. Every system call keeps it a tree, whatever the paths and whichever
  calls fail.
\<close>

section \<open>Trees\<close>

definition tree :: "fstore \<Rightarrow> bool" where
  "tree st \<longleftrightarrow> (\<forall>k. k \<noteq> [] \<longrightarrow> lookup st k \<noteq> None \<longrightarrow> is_dir st (butlast k) \<and> names k)"

lemma tree_parent: "tree st \<Longrightarrow> lookup st k \<noteq> None \<Longrightarrow> k \<noteq> [] \<Longrightarrow> is_dir st (butlast k)"
  by (simp add: tree_def)

lemma tree_names: "tree st \<Longrightarrow> lookup st k \<noteq> None \<Longrightarrow> names k"
  by (cases "k = []") (simp_all add: tree_def)

lemma is_dir_lookup: "is_dir st k \<Longrightarrow> lookup st k \<noteq> None"
  by (auto simp: is_dir_def)

lemma is_dir_butlast: "tree st \<Longrightarrow> is_dir st k \<Longrightarrow> is_dir st (butlast k)"
  using tree_parent [of st k] is_dir_lookup [of st k] by (cases "k = []") simp_all

lemma tree_above: "tree st \<Longrightarrow> lookup st (p @ q) \<noteq> None \<Longrightarrow> q \<noteq> [] \<Longrightarrow> is_dir st p"
proof (induction q rule: rev_induct)
  case (snoc x q)
  then have "is_dir st (p @ q)" using tree_parent [of st "p @ q @ [x]"] by (simp add: butlast_append)
  then show ?case using snoc.IH [OF snoc.prems(1) is_dir_lookup] by (cases "q = []") auto
qed simp

lemma tree_above_prefix:
  "tree st \<Longrightarrow> lookup st k \<noteq> None \<Longrightarrow> strict_prefix p k \<Longrightarrow> is_dir st p"
  using tree_above [of st p] by (auto simp: strict_prefix_def prefix_def)

lemma tree_below_leaf:
  "tree st \<Longrightarrow> \<not> is_dir st p \<Longrightarrow> strict_prefix p k \<Longrightarrow> lookup st k = None"
  using tree_above_prefix by blast

lemma piece_name: "c \<in> set (split_on sep s) \<Longrightarrow> c \<noteq> '''' \<Longrightarrow> c \<noteq> ''.'' \<Longrightarrow> c \<noteq> ''..'' \<Longrightarrow> name_comp c"
  using split_on_pieces [of c sep s] by (simp add: name_comp_def plain_comp_def)

lemma resolve_tree:
  "resolve st fl n cur cs = Inr k \<Longrightarrow> tree st \<Longrightarrow> is_dir st cur \<Longrightarrow> \<forall>c \<in> set cs. sep \<notin> set c \<Longrightarrow>
    is_dir st (butlast k) \<and> names k"
proof (induction st fl n cur cs rule: resolve.induct)
  case (1 st fl n cur)
  then show ?case using is_dir_butlast tree_names is_dir_lookup by fastforce
next
  case (2 st fl n cur c cs)
  have nm: "names (cur @ [c])" if "c \<noteq> ''''" "c \<noteq> ''.''" "c \<noteq> ''..''"
    using that 2(6-8) tree_names [OF 2(6) is_dir_lookup [OF 2(7)]]
    by (simp add: name_comp_def plain_comp_def)
  note res = 2(5) [unfolded resolve.simps(2)]
  consider (skip) "c = '''' \<or> c = ''.''" | (up) "c = ''..''" "c \<noteq> '''' \<and> c \<noteq> ''.''"
    | (name) "\<not> (c = '''' \<or> c = ''.'')" "c \<noteq> ''..''" by blast
  then show ?case
  proof cases
    case skip
    then show ?thesis using 2(1) [OF skip] res 2(6-8) by simp
  next
    case up
    then show ?thesis using 2(2) res 2(6-8) is_dir_butlast by simp
  next
    case name
    note n = nm name
    show ?thesis
    proof (cases "lookup st (cur @ [c])")
      case None
      then show ?thesis using res name 2(7) nm by (auto split: if_splits)
    next
      case (Some i)
      show ?thesis
      proof (cases "kind i")
        case Directory
        then have "is_dir st (cur @ [c])" using Some by (simp add: is_dir_def)
        then show ?thesis using 2(3) [OF name Some Directory] res name Some Directory 2(6-8) by simp
      next
        case (Symlink t)
        show ?thesis
        proof (cases "cs = [] \<and> \<not> fl")
          case True
          then show ?thesis using res name Some Symlink 2(7) nm by auto
        next
          case False
          then obtain m where m: "n = Suc m" and
            r: "resolve st fl m (link_base t cur) (split_on sep t @ cs) = Inr k"
            using res name Some Symlink by (auto split: nat.splits if_splits)
          have "is_dir st (link_base t cur)" using 2(7) by (simp add: link_base_def)
          moreover have "\<forall>c \<in> set (split_on sep t @ cs). sep \<notin> set c"
            using 2(8) split_on_pieces by auto
          ultimately show ?thesis using 2(4) [OF name Some Symlink False m r 2(6)] by simp
        qed
      qed (use res name Some 2(7) nm in \<open>auto split: if_splits\<close>)
    qed
  qed
qed

lemma namei_tree: "namei st fl s = Inr k \<Longrightarrow> tree st \<Longrightarrow> is_dir st (butlast k) \<and> names k"
  using split_on_pieces [of _ sep s] by (auto simp: namei_def split: if_splits dest!: resolve_tree)

section \<open>Changes that keep the tree\<close>

lemma tree_put_new:
  assumes "tree st" and "is_dir st (butlast p)" and "names p" and "lookup st p = None"
  shows "tree (store_put p i st)"
  unfolding tree_def
proof (intro allI impI)
  fix k
  assume k: "k \<noteq> []" "lookup (store_put p i st) k \<noteq> None"
  have p: "p \<noteq> []" using assms(4) by (auto simp: lookup_def)
  have mono: "is_dir st q \<Longrightarrow> is_dir (store_put p i st) q" for q
    using assms(4) p by (auto simp: is_dir_def lookup_put)
  show "is_dir (store_put p i st) (butlast k) \<and> names k"
  proof (cases "k = p")
    case True
    then show ?thesis using mono assms(2,3) by simp
  next
    case False
    then have "lookup st k \<noteq> None" using k(2) p by (simp add: lookup_put)
    then show ?thesis using mono tree_parent tree_names assms(1) k(1) by blast
  qed
qed

text \<open>Replacing an inode keeps the tree unless a directory becomes something else.\<close>

lemma tree_put_same:
  assumes "tree st" and "lookup st p = Some j" and "kind j = Directory \<longrightarrow> kind i = Directory"
  shows "tree (store_put p i st)"
proof (cases "p = []")
  case False
  have mono: "is_dir st q \<Longrightarrow> is_dir (store_put p i st) q" for q
    using assms(2,3) False by (auto simp: is_dir_def lookup_put)
  have "lookup (store_put p i st) k \<noteq> None \<Longrightarrow> lookup st k \<noteq> None" for k
    using assms(2) False by (auto simp: lookup_put split: if_splits)
  then show ?thesis using assms(1) mono unfolding tree_def by blast
next
  case True
  have "lookup (store_put [] i st) = lookup st"
    by (rule ext) (simp add: lookup_def store_put_def map_of_update_AList)
  with True assms(1) show ?thesis by (simp add: tree_def is_dir_def)
qed

lemma strict_prefix_butlast: "k \<noteq> [] \<Longrightarrow> strict_prefix (butlast k) k"
  by (cases k rule: rev_cases) (auto simp: strict_prefix_def)

lemma tree_del:
  assumes "tree st" and "p \<noteq> []" and "\<And>k. strict_prefix p k \<Longrightarrow> lookup st k = None"
  shows "tree (store_del p st)"
  unfolding tree_def
proof (intro allI impI)
  fix k
  assume k: "k \<noteq> []" "lookup (store_del p st) k \<noteq> None"
  then have l: "lookup st k \<noteq> None" "k \<noteq> p" using assms(2) by (auto simp: lookup_del split: if_splits)
  have "butlast k \<noteq> p"
  proof
    assume "butlast k = p"
    then have "strict_prefix p k" using strict_prefix_butlast [OF k(1)] by simp
    with assms(3) l show False by simp
  qed
  then have "is_dir st (butlast k) \<longrightarrow> is_dir (store_del p st) (butlast k)"
    using assms(2) by (simp add: is_dir_def lookup_del)
  then show "is_dir (store_del p st) (butlast k) \<and> names k"
    using tree_parent [OF assms(1) l(1) k(1)] tree_names [OF assms(1) l(1)] by simp
qed

lemma tree_del_leaf:
  assumes "tree st" and "lookup st p = Some i" and "kind i \<noteq> Directory"
  shows "tree (store_del p st)"
proof (rule tree_del [OF assms(1)])
  show "p \<noteq> []" using assms(2,3) by (auto simp: lookup_def root_dir_def)
  show "lookup st k = None" if "strict_prefix p k" for k
    by (rule tree_below_leaf [OF assms(1) _ that]) (use assms(2,3) in \<open>simp add: is_dir_def\<close>)
qed

lemma has_entries_lookup:
  "p \<noteq> [] \<Longrightarrow> \<not> has_entries p st \<Longrightarrow> strict_prefix p k \<Longrightarrow> lookup st k = None"
  by (cases "k = []") (auto simp: has_entries_def lookup_def list_ex_iff map_of_eq_None_iff)

lemma st_create_tree: "tree st \<Longrightarrow> st_create s i st = Inr st' \<Longrightarrow> tree st'"
  by (auto simp: st_create_def dest: namei_tree intro!: tree_put_new split: sum.splits option.splits)

lemma rmdir_at_tree: "tree st \<Longrightarrow> rmdir_at p st = Inr st' \<Longrightarrow> tree st'"
  by (auto simp: rmdir_at_def intro!: tree_del has_entries_lookup split: option.splits if_splits)

lemma st_unlink_tree: "tree st \<Longrightarrow> st_unlink s st = Inr st' \<Longrightarrow> tree st'"
  by (auto simp: st_unlink_def intro: tree_del_leaf split: sum.splits option.splits if_splits)

lemma st_change_tree:
  assumes "\<And>i. kind (g i) = kind i" and "tree st" and "st_change g s st = Inr st'"
  shows "tree st'"
  using assms by (auto simp: st_change_def intro!: tree_put_same split: sum.splits option.splits if_splits)

lemma st_write_at_tree: "tree st \<Longrightarrow> st_write_at p c st = Inr st' \<Longrightarrow> tree st'"
  by (auto simp: st_write_at_def intro: tree_put_same split: option.splits fkind.splits)

lemma st_open_trunc_tree:
  "tree st \<Longrightarrow> st_open_trunc s m st = Inr (p, st') \<Longrightarrow> tree st'"
  by (auto simp: st_open_trunc_def dest: namei_tree intro: tree_put_same tree_put_new
      split: sum.splits option.splits fkind.splits)

section \<open>Rename\<close>

lemma map_of_move_in:
  assumes "\<forall>k \<in> fst ` set st. \<not> prefix b k"
  shows "map_of (move_keys a b st) (b @ q) = map_of st (a @ q)"
  using assms
proof (induction st)
  case (Cons e st)
  obtain k i where e: "e = (k, i)" by fastforce
  from Cons have IH: "map_of (move_keys a b st) (b @ q) = map_of st (a @ q)" and nb: "\<not> prefix b k"
    by (simp_all add: e)
  show ?case
  proof (cases "prefix a k")
    case True
    then obtain r where "k = a @ r" by (auto simp: prefix_def)
    then show ?thesis using IH by (simp add: e move_keys_def)
  next
    case False
    then have "k \<noteq> a @ q" "k \<noteq> b @ q" using nb by auto
    then show ?thesis using IH False by (simp add: e move_keys_def)
  qed
qed (simp add: move_keys_def)

lemma map_of_move_out:
  assumes "\<not> prefix b k"
  shows "map_of (move_keys a b st) k = (if prefix a k then None else map_of st k)"
  using assms
proof (induction st)
  case (Cons e st)
  obtain k' i where e: "e = (k', i)" by fastforce
  have "b @ drop (length a) k' \<noteq> k" using Cons.prems by auto
  then show ?case using Cons by (auto simp: e move_keys_def)
qed (simp add: move_keys_def)

lemma lookup_move:
  assumes "\<forall>k \<in> fst ` set st. \<not> prefix b k" and "a \<noteq> []" and "b \<noteq> []"
  shows "lookup (move_keys a b st) k =
    (if prefix b k then lookup st (a @ drop (length b) k) else if prefix a k then None else lookup st k)"
  using map_of_move_in [OF assms(1), of a "drop (length b) k"] map_of_move_out [of b k a st] assms(2,3)
  by (auto simp: lookup_def prefix_def)

lemma no_keys: "p \<noteq> [] \<Longrightarrow> (\<And>k. prefix p k \<Longrightarrow> lookup st k = None) \<Longrightarrow>
    \<forall>k \<in> fst ` set st. \<not> prefix p k"
proof
  fix k
  assume p: "p \<noteq> []" "\<And>k. prefix p k \<Longrightarrow> lookup st k = None" and k: "k \<in> fst ` set st"
  show "\<not> prefix p k"
  proof
    assume "prefix p k"
    with p have "k \<noteq> []" "lookup st k = None" by auto
    with k show False by (simp add: lookup_def map_of_eq_None_iff)
  qed
qed

lemma tree_move:
  assumes t: "tree st" and a: "is_dir st a" "a \<noteq> []" and b: "is_dir st (butlast b)" "names b" "b \<noteq> []"
    and free: "\<And>k. prefix b k \<Longrightarrow> lookup st k = None" and ab: "\<not> prefix a b"
  shows "tree (move_keys a b st)"
proof -
  have "\<forall>k \<in> fst ` set st. \<not> prefix b k" using no_keys [OF b(3)] free by blast
  note l = lookup_move [OF this a(2) b(3)]
  have up: "is_dir (move_keys a b st) p" if "is_dir st p" "\<not> prefix a p" for p
    using that free is_dir_lookup l by (auto simp: is_dir_def)
  have down: "is_dir (move_keys a b st) (b @ q)" if "is_dir st (a @ q)" for q
    using that by (simp add: is_dir_def l)
  show ?thesis
    unfolding tree_def
  proof (intro allI impI)
    fix k
    assume k: "k \<noteq> []" "lookup (move_keys a b st) k \<noteq> None"
    show "is_dir (move_keys a b st) (butlast k) \<and> names k"
    proof (cases "prefix b k")
      case True
      then obtain q where q: "k = b @ q" by (auto simp: prefix_def)
      then have aq: "lookup st (a @ q) \<noteq> None" using k(2) by (simp add: l)
      then have nq: "names q" using tree_names [OF t] by fastforce
      show ?thesis
      proof (cases "q = []")
        case True
        have "\<not> prefix a (butlast b)"
          using ab prefix_order.trans [OF _ prefixeq_butlast] by blast
        with up b q True show ?thesis by simp
      next
        case False
        then have "is_dir st (a @ butlast q)"
          using tree_parent [OF t aq] by (simp add: butlast_append)
        with down q False nq b(2) show ?thesis by (simp add: butlast_append)
      qed
    next
      case False
      then have k': "lookup st k \<noteq> None" "\<not> prefix a k" using k(2) by (auto simp: l split: if_splits)
      then have "\<not> prefix a (butlast k)" using prefix_order.trans [OF _ prefixeq_butlast] by blast
      with up tree_parent [OF t k'(1) k(1)] tree_names [OF t k'(1)] show ?thesis by blast
    qed
  qed
qed

lemma st_rename_tree:
  assumes t: "tree st" and r: "st_rename old new st = Inr st'"
  shows "tree st'"
proof -
  from r obtain a i b where a: "lookup st a = Some i" and nb: "namei st False new = Inr b"
    and r': "(if a = b then Inr st
              else if kind i = Directory then
                (if a = [] \<or> strict_prefix a b then Inl EINVAL
                 else (case lookup st b of
                         None \<Rightarrow> Inr (move_keys a b st)
                       | Some j \<Rightarrow>
                           if kind j \<noteq> Directory then Inl ENOTDIR
                           else if has_entries b st then Inl ENOTEMPTY
                           else Inr (move_keys a b (store_del b st))))
              else (case lookup st b of
                      Some j \<Rightarrow>
                        if kind j = Directory then Inl EISDIR else Inr (store_put b i (store_del a st))
                    | None \<Rightarrow> Inr (store_put b i (store_del a st)))) = Inr st'"
    by (auto simp: st_rename_def st_key_def split: sum.splits option.splits)
  have b: "is_dir st (butlast b)" "names b" using namei_tree [OF nb t] by simp_all
  consider (same) "a = b" | (dir) "a \<noteq> b" "kind i = Directory" | (leaf) "a \<noteq> b" "kind i \<noteq> Directory"
    by blast
  then show ?thesis
  proof cases
    case same
    then show ?thesis using r' t by simp
  next
    case leaf
    have ne: "a \<noteq> []" using a leaf(2) by (auto simp: lookup_def root_dir_def)
    have t1: "tree (store_del a st)" by (rule tree_del_leaf [OF t a leaf(2)])
    have st': "st' = store_put b i (store_del a st)"
      using r' leaf by (auto split: option.splits if_splits)
    show ?thesis
    proof (cases "lookup st b")
      case None
      have "is_dir (store_del a st) (butlast b)"
        using b(1) a leaf(2) ne by (auto simp: is_dir_def lookup_del)
      then show ?thesis
        unfolding st' using t1 b(2) None ne by (intro tree_put_new) (simp_all add: lookup_del)
    next
      case (Some j)
      then have "kind j \<noteq> Directory" using r' leaf by (auto split: if_splits)
      moreover have "lookup (store_del a st) b = Some j" using Some leaf(1) ne by (simp add: lookup_del)
      ultimately show ?thesis unfolding st' using tree_put_same [OF t1] by blast
    qed
  next
    case dir
    then have ne: "a \<noteq> []" and ab: "\<not> prefix a b"
      using r' by (auto simp: strict_prefix_def split: if_splits)
    have da: "is_dir st a" using a dir by (simp add: is_dir_def)
    show ?thesis
    proof (cases "lookup st b")
      case None
      then have b0: "b \<noteq> []" by (auto simp: lookup_def)
      have "lookup st k = None" if "prefix b k" for k
        using tree_below_leaf [OF t _, of b k] None that
        by (cases "k = b") (auto simp: is_dir_def strict_prefix_def)
      from tree_move [OF t da ne b b0 this ab] show ?thesis using r' dir ne ab None
        by (auto simp: strict_prefix_def split: if_splits)
    next
      case (Some j)
      then have he: "\<not> has_entries b st" and st': "st' = move_keys a b (store_del b st)"
        using r' dir ne ab by (auto split: if_splits)
      have b0: "b \<noteq> []"
      proof
        assume "b = []"
        with he ne a show False
          by (fastforce simp: has_entries_def list_ex_iff lookup_def strict_prefix_def dest: map_of_SomeD
              split: if_splits)
      qed
      note below = has_entries_lookup [OF b0 he]
      have t1: "tree (store_del b st)" by (rule tree_del [OF t b0 below])
      have "is_dir (store_del b st) a" using da dir(1) b0 by (simp add: is_dir_def lookup_del)
      moreover have "is_dir (store_del b st) (butlast b)"
        using b(1) b0 by (cases b rule: rev_cases) (simp_all add: is_dir_def lookup_del)
      moreover have "lookup (store_del b st) k = None" if "prefix b k" for k
        using below that b0 by (cases "k = b") (auto simp: lookup_del strict_prefix_def)
      ultimately show ?thesis unfolding st' by (intro tree_move [OF t1]) (use ne b b0 ab in auto)
    qed
  qed
qed

section \<open>Programs\<close>

definition keeps_tree :: "'x world \<Rightarrow> 'x world \<Rightarrow> bool" where
  "keeps_tree w w' \<longleftrightarrow> (tree (store w) \<longrightarrow> tree (store w'))"

interpretation tr: step_order keeps_tree
  by unfold_locales (auto simp: keeps_tree_def)

named_theorems tree_intros \<open>programs that keep the store a tree\<close>

lemma ro_tree [tree_intros]: "state_io_rel same_store m \<Longrightarrow> state_io_rel keeps_tree m"
  by (auto simp: state_io_rel_def same_store_def keeps_tree_def)

lemma map_state_tree [tree_intros]: "state_io_rel keeps_tree m \<Longrightarrow> state_io_rel keeps_tree (map_state f m)"
  by (rule map_state_frame)

lemma sys_write_tree:
  "(\<And>st st'. tree st \<Longrightarrow> f st = Inr st' \<Longrightarrow> tree st') \<Longrightarrow> state_io_rel keeps_tree (sys_write f)"
  by (auto simp: sys_write_def state_io_rel_def keeps_tree_def Let_def split: option.splits sum.splits)

lemma sys_update_tree:
  "(\<And>st a st'. tree st \<Longrightarrow> f st = Inr (a, st') \<Longrightarrow> tree st') \<Longrightarrow> state_io_rel keeps_tree (sys_update f)"
  by (auto simp: sys_update_def state_io_rel_def keeps_tree_def Let_def split: option.splits sum.splits)

lemma env_tree: "(\<And>u. state_io_rel keeps_tree (g u)) \<Longrightarrow>
    state_io_rel keeps_tree (State (\<lambda>w. run_state (g (umask w)) w))"
  by (auto simp: state_io_rel_def)

lemma os_Symlink_tree [tree_intros]: "state_io_rel keeps_tree (os_Symlink old new)"
  unfolding os_Symlink_def
  by (intro map_state_tree sys_write_tree) (auto simp: st_symlink_def intro: st_create_tree split: if_splits)

lemma os_Mkdir_tree [tree_intros]: "state_io_rel keeps_tree (os_Mkdir path m)"
proof -
  have "state_io_rel keeps_tree
      (map_state (map_option (PathError ''mkdir'' path)) (sys_write (st_mkdir (m AND NOT u) path)))" for u
    by (intro map_state_tree sys_write_tree) (auto simp: st_mkdir_def Let_def intro: st_create_tree)
  then show ?thesis unfolding os_Mkdir_def by (rule env_tree)
qed

lemma os_Remove_tree [tree_intros]: "state_io_rel keeps_tree (os_Remove path)"
proof -
  have "state_io_rel keeps_tree (sys_write (st_unlink path))"
    by (rule sys_write_tree, rule st_unlink_tree)
  moreover have "state_io_rel keeps_tree (sys_write (st_rmdir path))"
    by (intro sys_write_tree) (auto simp: st_rmdir_def intro: rmdir_at_tree split: sum.splits)
  ultimately show ?thesis unfolding os_Remove_def by (intro tr.io_rules)
qed

lemma remove_keys_tree: "state_io_rel keeps_tree (remove_keys ks)"
proof (induction ks)
  case (Cons k ks)
  have "state_io_rel keeps_tree (sys_write (\<lambda>st. case lookup st k of
      None \<Rightarrow> Inr st
    | Some i \<Rightarrow> if kind i = Directory then rmdir_at k st else Inr (store_del k st)))"
    by (intro sys_write_tree) (auto intro: rmdir_at_tree tree_del_leaf split: option.splits if_splits)
  with Cons show ?case unfolding remove_keys.simps by (intro tr.io_rules)
qed (simp add: tr.io_return)

lemma os_RemoveAll_tree [tree_intros]: "state_io_rel keeps_tree (os_RemoveAll path)"
proof -
  have step: "state_io_rel keeps_tree
      (case p of Inl ENOENT \<Rightarrow> ret None | Inl e \<Rightarrow> ret (Some (PathError ''open'' path e))
       | Inr ks \<Rightarrow> map_state (map_option (PathError ''unlinkat'' path)) (remove_keys ks))"
    for p :: "errno + string list list"
    by (simp add: tr.io_return map_state_tree remove_keys_tree split: sum.split errno.split)
  show ?thesis
    unfolding os_RemoveAll_def by (intro tr.io_rules os_Remove_tree step ro_tree sys_read_frame)
qed

lemma os_MkdirAll_tree [tree_intros]:
  "state_io_rel keeps_tree (os_MkdirAll path m :: ('x world, goerror option) state)"
proof (induction path m rule: os_MkdirAll.induct)
  case (1 path m)
  then show ?case
    unfolding os_MkdirAll.simps [of path m]
    by (intro tr.io_rules os_Mkdir_tree) (auto intro: ro_tree os_Stat_ro os_Lstat_ro)
qed

lemma os_WriteFile_tree [tree_intros]: "state_io_rel keeps_tree (os_WriteFile path c m)"
proof -
  have "state_io_rel keeps_tree
      (State (\<lambda>w. run_state (sys_update (st_open_trunc path ((m AND 0x1FF) AND NOT (umask w)))) w))"
    by (rule env_tree, rule sys_update_tree) (auto intro: st_open_trunc_tree)
  moreover have "state_io_rel keeps_tree (sys_write (st_write_at p c))" for p
    by (intro sys_write_tree) (auto intro: st_write_at_tree)
  ultimately show ?thesis unfolding os_WriteFile_def by (intro tr.io_rules map_state_tree)
qed

lemma os_Chmod_tree [tree_intros]: "state_io_rel keeps_tree (os_Chmod path m)"
  unfolding os_Chmod_def
  by (intro map_state_tree sys_write_tree) (auto intro: st_change_tree [rotated])

lemma os_Chown_tree [tree_intros]: "state_io_rel keeps_tree (os_Chown path u g)"
  unfolding os_Chown_def
  by (intro map_state_tree sys_write_tree) (auto intro: st_change_tree [rotated])

lemma os_Rename_tree [tree_intros]: "state_io_rel keeps_tree (os_Rename old new)"
proof -
  have w: "state_io_rel keeps_tree (sys_write (st_rename old new))"
    by (intro sys_write_tree) (auto intro: st_rename_tree)
  show ?thesis
    unfolding os_Rename_def by (intro tr.io_rules map_state_tree w ro_tree sys_read_frame)
qed

lemma try_names_tree: "state_io_rel keeps_tree (try_names n rnd dir pattern :: ('x world, goerror + string) state)"
proof (induction n)
  case (Suc n)
  have "state_io_rel keeps_tree (do {
               s \<leftarrow> os_Stat dir;
               ret (case s of Inl es \<Rightarrow> if IsNotExist es then Inl es else Inl e | Inr _ \<Rightarrow> Inl e)
             } :: ('x world, goerror + string) state)" for e
    by (intro tr.io_rules ro_tree os_Stat_ro)
  then have "state_io_rel keeps_tree ((case e of
           PathError _ _ EEXIST \<Rightarrow> try_names n rnd dir pattern
         | _ \<Rightarrow>
             if IsNotExist e then do {
               s \<leftarrow> os_Stat dir;
               ret (case s of Inl es \<Rightarrow> if IsNotExist es then Inl es else Inl e | Inr _ \<Rightarrow> Inl e)
             }
             else ret (Inl e)) :: ('x world, goerror + string) state)" for e
    using Suc by (simp add: tr.io_return split: goerror.split errno.split)
  then show ?case
    unfolding try_names.simps Let_def by (intro tr.io_rules os_Mkdir_tree)
qed (simp add: tr.io_return)

lemma TempDir_tree [tree_intros]: "state_io_rel keeps_tree (TempDir rnd dir pattern)"
  unfolding TempDir_def by (rule try_names_tree)

end
