(* ===== verification/AtomicProps.thy ===== *)
theory AtomicProps
  imports AtomicCommit TreeInv
begin

text \<open>
  What \<open>Write\<close> promises: the target directory's \<open>..data\<close> link leads to the old version, unchanged, or to a
  complete new one. The theorems hold for every pattern of failing system calls. A writer that is killed
  after its n-th call leaves the store of the run in which every later call fails, so they also describe
  what a reader, or a writer that starts again, finds at any moment between two calls.
\<close>

section \<open>The payload\<close>

definition tidy :: "payload \<Rightarrow> bool" where
  "tidy p \<longleftrightarrow> (\<forall>e \<in> set p. Clean (fst e) \<noteq> ''.'' \<and> \<not> hidden (Clean (fst e)))"

lemma first_comp_prefix: "prefix (first_comp k) k"
  unfolding first_comp_def by (metis prefixI takeWhile_dropWhile_id)

lemma hidden_first: "hidden (first_comp k) \<Longrightarrow> hidden k"
  unfolding hidden_def HasPrefix_iff by (rule prefix_order.trans [OF _ first_comp_prefix])

lemma good_entries_keys:
  "good_entries es \<longleftrightarrow>
    (\<forall>k \<in> fst ` set es. ok_path k \<and> \<not> hidden (first_comp k)) \<and> distinct (map fst es)"
  by (auto simp: good_entries_def)

lemma validate_entries_good:
  "validate_entries p acc = Inr es \<Longrightarrow> tidy p \<Longrightarrow> good_entries acc \<Longrightarrow> good_entries es"
proof (induction p acc rule: validate_entries.induct)
  case (2 k content rest clean)
  have v: "validatePath k = None" using 2(2) by (auto split: option.splits)
  have k: "Clean k \<noteq> ''.''" "\<not> hidden (Clean k)" using 2(3) by (simp_all add: tidy_def)
  have ok: "ok_path (Clean k)" using validatePath_clean [OF v] k by simp
  have new: "\<not> hidden (first_comp (Clean k))" using k hidden_first by blast
  have "good_entries (AList.update (Clean k) content clean)"
    using 2(4) ok new by (auto simp: good_entries_keys dom_update distinct_update)
  with 2 v show ?case by (simp add: tidy_def)
qed simp

lemma validatePayload_good:
  assumes "env_laws env" and "tidy p" and "validatePayload env p = Inr es"
  shows "good_entries es"
proof -
  have "set (map_order env 0 p) = set p"
    using assms(1) by (simp add: env_laws_sets)
  then have "tidy (map_order env 0 p)" using assms(2) by (simp add: tidy_def)
  from validate_entries_good [OF _ this] assms(3) show ?thesis
    by (simp add: validatePayload_def good_entries_def)
qed

section \<open>The clean-up\<close>

text \<open>The clean-up removes visible names and the old version.\<close>

definition cleaned :: "string list \<Rightarrow> string \<Rightarrow> fstore \<Rightarrow> fstore \<Rightarrow> bool" where
  "cleaned D old st st' \<longleftrightarrow> (\<forall>k. lookup st' k = lookup st k \<or>
     (lookup st' k = None \<and> (\<exists>p. name_comp p \<and> \<not> hidden p \<and> k = D @ [p])) \<or> (old \<noteq> '''' \<and> prefix (D @ [old]) k))"

lemma pruned_cleaned: "pruned D a b \<Longrightarrow> cleaned D old a b"
  unfolding pruned_def cleaned_def by blast

lemma cleaned_removes:
  assumes "pruned D a b" and "removes (D @ [old]) b d" and "old \<noteq> ''''"
  shows "cleaned D old a d"
  unfolding cleaned_def
proof
  fix k
  show "lookup d k = lookup a k \<or> (lookup d k = None \<and> (\<exists>p. name_comp p \<and> \<not> hidden p \<and> k = D @ [p])) \<or>
      old \<noteq> '''' \<and> prefix (D @ [old]) k"
    using assms(1) [unfolded pruned_def, rule_format, of k]
      assms(2) [unfolded removes_def, rule_format, of k] assms(3) by auto
qed

lemma clean_up_spec:
  assumes env: "env_laws env" and D: "names D" "dirs_to s0 D"
    and ps: "\<forall>p \<in> set ps. sep \<in> set p \<or> (name_comp p \<and> \<not> hidden p)"
    and old: "old \<noteq> '''' \<Longrightarrow> name_comp old"
  shows "ensures (\<lambda>st. st = s0)
    (clean_up env (writer_at D) ps old :: ('x world, goerror option) state)
    (\<lambda>r st. cleaned D old s0 st)"
proof -
  have "set (set_order env ps) = set ps" using env by (simp add: env_laws_sets)
  then have ps': "\<forall>p \<in> set (set_order env ps). sep \<in> set p \<or> (name_comp p \<and> \<not> hidden p)"
    using ps by simp
  show ?thesis
    unfolding clean_up_def removeUserVisiblePaths_def targetDir_simp
  proof (rule ensures_bind [OF remove_visible_spec [OF D ps']], rule ensures_any)
    fix e :: "goerror option" and s1
    assume p: "pruned D s0 s1"
    have keep: "ensures (\<lambda>st. st = s1) (ret x) (\<lambda>r st. cleaned D old s0 st)" for x :: "goerror option"
      by (rule ensures_ret) (simp add: pruned_cleaned [OF p])
    have all: "ensures (\<lambda>st. st = s1)
        (os_RemoveAll (Join [path_string D, old]) :: ('x world, goerror option) state)
        (\<lambda>r st. cleaned D old s0 st)" if ne: "old \<noteq> ''''"
    proof -
      have n: "names (D @ [old])" using D(1) old [OF ne] by simp
      show ?thesis
        unfolding Join_path_string_name [OF D(1) old [OF ne]]
        by (rule ensures_conseq [OF os_RemoveAll_spec [OF n pruned_dirs [OF p D(2)]]])
          (auto intro: cleaned_removes [OF p _ ne])
    qed
    show "ensures (\<lambda>st. st = s1) ((case e of Some err \<Rightarrow> ret (Some err)
        | None \<Rightarrow> if old \<noteq> '''' then os_RemoveAll (Join [path_string D, old]) else ret None)
        :: ('x world, goerror option) state) (\<lambda>r st. cleaned D old s0 st)"
      using keep all by (cases e; cases "old = ''''") simp_all
  qed
qed

lemma cleaned_installed:
  assumes "cleaned D old a b" and "stamped c" and "old \<noteq> c" and "old \<noteq> dataDirName"
    and "complete (D @ [c]) es a"
  shows "complete (D @ [c]) es b" and "lookup b (data_key D) = lookup a (data_key D)"
proof -
  have same: "lookup b k = lookup a k" if k: "k = D @ n # r" "hidden n" "n \<noteq> old" for k n r
    using assms(1) [unfolded cleaned_def, rule_format, of k] k by auto
  show "lookup b (data_key D) = lookup a (data_key D)"
    by (rule same [of _ dataDirName "[]"]) (use data_names assms(4) in auto)
  have dirs: "dirs_to a D" using assms(5) by (simp add: complete_def area_def dirs_append)
  show "complete (D @ [c]) es b"
  proof (rule complete_cong [OF assms(5)])
    fix k
    assume k: "prefix k (D @ [c]) \<or> prefix (D @ [c]) k"
    show "lookup b k = lookup a k"
    proof (cases "prefix (D @ [c]) k")
      case True
      then obtain r where "k = D @ c # r" by (auto simp: prefix_def)
      then show ?thesis by (rule same) (use assms(2,3) stamped_hidden in auto)
    next
      case False
      with k have "prefix k D" by auto
      then have "length k \<le> length D" by (rule prefix_length_le)
      then have "k \<noteq> D @ [p]" "\<not> prefix (D @ [old]) k" for p by (auto dest: prefix_length_le)
      then show ?thesis using assms(1) unfolding cleaned_def by metis
    qed
  qed
qed

section \<open>Write\<close>

text \<open>The version that the data directory's link leads to.\<close>

definition current :: "fstore \<Rightarrow> string list \<Rightarrow> string option" where
  "current st D = (case lookup st (data_key D) of
     Some i \<Rightarrow> (case kind i of Symlink t \<Rightarrow> Some t | _ \<Rightarrow> None) | None \<Rightarrow> None)"

definition plain_version :: "fstore \<Rightarrow> string list \<Rightarrow> string \<Rightarrow> bool" where
  "plain_version st D t \<longleftrightarrow> stamped t \<and> tree_at st (D @ [t]) \<and>
     (\<forall>n. lookup st (D @ [t, n]) \<noteq> None \<longrightarrow> \<not> hidden n)"

text \<open>A target directory that no one but atomic writers has written to.\<close>

definition writer_inv :: "fstore \<Rightarrow> string list \<Rightarrow> bool" where
  "writer_inv st D \<longleftrightarrow> tree st \<and> names D \<and> dirs_to st D \<and>
     (lookup st (data_key D) = None \<or> (\<exists>t. current st D = Some t \<and> plain_version st D t))"

text \<open>The visible names are kept or removed, or new links into the data directory.\<close>

definition visible_step :: "string list \<Rightarrow> fstore \<Rightarrow> fstore \<Rightarrow> bool" where
  "visible_step D st st' \<longleftrightarrow> (\<forall>n. \<not> hidden n \<longrightarrow> lookup st' (D @ [n]) = lookup st (D @ [n]) \<or>
     lookup st' (D @ [n]) = None \<or> lookup st' (D @ [n]) = Some (visible_link n))"

definition inside :: "string list \<Rightarrow> fstore \<Rightarrow> fstore \<Rightarrow> bool" where
  "inside D st st' \<longleftrightarrow> (\<forall>k. \<not> strict_prefix D k \<longrightarrow> lookup st' k = lookup st k)"

definition kept :: "string list \<Rightarrow> fstore \<Rightarrow> fstore \<Rightarrow> bool" where
  "kept D st st' \<longleftrightarrow> visible_step D st st' \<and> inside D st st' \<and> lookup st' (data_key D) = lookup st (data_key D) \<and>
     (\<forall>t k. current st D = Some t \<longrightarrow> prefix (D @ [t]) k \<longrightarrow> lookup st' k = lookup st k)"

definition updated :: "string list \<Rightarrow> payload \<Rightarrow> fstore \<Rightarrow> fstore \<Rightarrow> bool" where
  "updated D es st st' \<longleftrightarrow> visible_step D st st' \<and> inside D st st' \<and> (\<exists>c. stamped c \<and> lookup st (D @ [c]) = None \<and> lookup st (tmp_key D) = None \<and>
     current st' D = Some c \<and> complete (D @ [c]) es st')"

definition up_to_date :: "string list \<Rightarrow> payload \<Rightarrow> fstore \<Rightarrow> bool" where
  "up_to_date D es st \<longleftrightarrow> (\<exists>t. current st D = Some t \<and>
     (\<forall>e \<in> set es. is_file st (pkey (D @ [t]) (fst e)) (fp_Data (snd e))))"

lemma tree_closed: "tree st \<Longrightarrow> closed_at st D"
  unfolding closed_at_def by (metis is_dir_lookup tree_below_leaf)

lemma kept_refl [simp]: "kept D st st"
  by (simp add: kept_def visible_step_def inside_def)

lemma inside_above: "inside D a b \<Longrightarrow> prefix k D \<Longrightarrow> lookup b k = lookup a k"
  by (auto simp: inside_def strict_prefix_def dest: prefix_order.antisym)

lemma others_inside:
  assumes "others D c es a b"
  shows "inside D a b"
  unfolding inside_def
proof (intro allI impI)
  fix k
  assume k: "\<not> strict_prefix D k"
  then have "k \<noteq> D @ [x]" "\<not> prefix (D @ [x]) k" for x
    by (auto simp: strict_prefix_def dest: append_prefixD)
  then show "lookup b k = lookup a k" using assms unfolding others_def by (metis entry_link_key)
qed

lemma inside_cleaned:
  assumes "inside D a b" and "cleaned D old b d"
  shows "inside D a d"
  unfolding inside_def
proof (intro allI impI)
  fix k
  assume k: "\<not> strict_prefix D k"
  then have "k \<noteq> D @ [x]" "\<not> prefix (D @ [x]) k" for x
    by (auto simp: strict_prefix_def dest: append_prefixD)
  then have "lookup d k = lookup b k" using assms(2) unfolding cleaned_def by metis
  with assms(1) k show "lookup d k = lookup a k" by (simp add: inside_def)
qed

lemma others_visible:
  assumes "others D c es a b" and "stamped c"
  shows "visible_step D a b"
  unfolding visible_step_def
proof (intro allI impI)
  fix n
  assume n: "\<not> hidden n"
  have "\<not> prefix (D @ [c]) (D @ [n])" using n stamped_hidden [OF assms(2)] by auto
  moreover have "D @ [n] \<noteq> data_key D" "D @ [n] \<noteq> tmp_key D" using n data_names by auto
  ultimately have "lookup b (D @ [n]) = lookup a (D @ [n]) \<or> entry_link D es (D @ [n]) (lookup b (D @ [n]))"
    using assms(1) unfolding others_def by metis
  then show "lookup b (D @ [n]) = lookup a (D @ [n]) \<or> lookup b (D @ [n]) = None \<or>
      lookup b (D @ [n]) = Some (visible_link n)"
    by (auto simp: entry_link_def)
qed

lemma visible_step_cleaned:
  assumes "visible_step D a b" and "cleaned D old b d" and "old = '''' \<or> hidden old"
  shows "visible_step D a d"
  unfolding visible_step_def
proof (intro allI impI)
  fix n
  assume n: "\<not> hidden n"
  then have "old = '''' \<or> \<not> prefix (D @ [old]) (D @ [n])" using assms(3) by auto
  then have "lookup d (D @ [n]) = lookup b (D @ [n]) \<or> lookup d (D @ [n]) = None"
    using assms(2) unfolding cleaned_def by metis
  then show "lookup d (D @ [n]) = lookup a (D @ [n]) \<or> lookup d (D @ [n]) = None \<or>
      lookup d (D @ [n]) = Some (visible_link n)"
    using assms(1) n unfolding visible_step_def by metis
qed

lemma currentD: "current st D = Some t \<Longrightarrow> \<exists>i. lookup st (data_key D) = Some i \<and> kind i = Symlink t"
  by (auto simp: current_def split: option.splits fkind.splits)

lemma untouched_kept:
  assumes inv: "writer_inv a D" and es: "good_entries es" and u: "untouched D c es a b"
  shows "kept D a b"
  unfolding kept_def
proof (intro conjI allI impI)
  show "visible_step D a b" using u others_visible by (auto simp: untouched_def)
  show "inside D a b" using u others_inside by (auto simp: untouched_def)
  show "lookup b (data_key D) = lookup a (data_key D)" using u by (simp add: untouched_def)
next
  fix t k
  assume t: "current a D = Some t" and k: "prefix (D @ [t]) k"
  from inv t have v: "plain_version a D t"
    by (auto simp: writer_inv_def dest: currentD)
  then have st: "stamped t" and dir: "is_dir a (D @ [t])"
    by (auto simp: plain_version_def tree_at_def area_def dirs_append)
  have "c \<noteq> t" using u dir by (auto simp: untouched_def is_dir_def)
  with k have 1: "\<not> prefix (D @ [c]) k" by (auto simp: prefix_def)
  have 2: "k \<noteq> D @ [n]" if "n \<noteq> t" for n using k that by auto
  have 3: "first_comp (fst e) \<noteq> t" if "e \<in> set es" for e
    using es that stamped_hidden [OF st] by (auto simp: good_entries_def)
  have "lookup b k = lookup a k \<or> prefix (D @ [c]) k \<or> k = data_key D \<or> k = tmp_key D \<or>
      entry_link D es k (lookup b k)"
    using u unfolding untouched_def others_def by blast
  moreover have "\<not> entry_link D es k (lookup b k)"
    using 2 3 entry_link_key by blast
  ultimately show "lookup b k = lookup a k"
    using 1 2 [of dataDirName] 2 [of newDataDirName] stamped_not_data [OF st] by auto
qed

lemma current_link: "lookup st (data_key D) = Some (link_to c) \<Longrightarrow> current st D = Some c"
  by (simp add: current_def)

lemma cleaned_updated:
  assumes "installed D c es s0 a" and "cleaned D old a b" and "old \<noteq> c" and "old \<noteq> dataDirName"
    and "old = '''' \<or> hidden old"
  shows "updated D es s0 b"
proof -
  have v: "visible_step D s0 b" "inside D s0 b"
    using visible_step_cleaned [OF others_visible assms(2,5)] inside_cleaned [OF others_inside assms(2)] assms(1)
    by (auto simp: installed_def)
  have c: "stamped c" "lookup s0 (D @ [c]) = None" "lookup a (data_key D) = Some (link_to c)"
    "complete (D @ [c]) es a" "lookup s0 (tmp_key D) = None" using assms(1) by (simp_all add: installed_def)
  note k = cleaned_installed [OF assms(2) c(1) assms(3,4) c(4)]
  from k(2) c(3) have "current b D = Some c" by (simp add: current_link)
  with k(1) c v show ?thesis by (auto simp: updated_def)
qed

lemma writer_inv_version: "writer_inv st D \<Longrightarrow> current st D = Some t \<Longrightarrow> plain_version st D t"
  by (auto simp: writer_inv_def dest: currentD)

lemma writer_inv_no_dir: "writer_inv st D \<Longrightarrow> \<not> is_dir st (data_key D)"
  by (auto simp: writer_inv_def is_dir_def dest: currentD)

text \<open>Steps 5 to 11 after the comparison: the old version is \<open>old\<close>, or there is none.\<close>

lemma replace_spec:
  assumes env: "env_laws env" and os: "GOOS env = Linux" and inv: "writer_inv s0 D"
    and es: "good_entries es"
    and old: "old = '''' \<or> (stamped old \<and> lookup s0 (D @ [old]) \<noteq> None)"
    and ps: "\<forall>p \<in> set ps. sep \<in> set p \<or> (name_comp p \<and> \<not> hidden p)"
  shows "ensures (\<lambda>st. st = s0) (do {
      e \<leftarrow> install_version env (writer_at D) es;
      case e of Some err \<Rightarrow> ret (Some err) | None \<Rightarrow> clean_up env (writer_at D) ps old
    } :: ('x world, goerror option) state)
    (\<lambda>r st. (r \<noteq> None \<and> kept D s0 st) \<or> updated D es s0 st)"
proof -
  let ?Q = "\<lambda>r st. ((r :: goerror option) \<noteq> None \<and> kept D s0 st) \<or> updated D es s0 st"
  have D: "names D" "dirs_to s0 D" "closed_at s0 D"
    using inv tree_closed by (simp_all add: writer_inv_def)
  show ?thesis
  proof (rule ensures_bind [OF install_version_spec [OF env os D writer_inv_no_dir [OF inv] es]],
      rule ensures_any)
    fix e :: "goerror option" and s1
    assume q: "if e = None then \<exists>c. installed D c es s0 s1
      else (\<exists>c. untouched D c es s0 s1) \<or> s1 = s0"
    show "ensures (\<lambda>st. st = s1) ((case e of Some err \<Rightarrow> ret (Some err)
        | None \<Rightarrow> clean_up env (writer_at D) ps old) :: ('x world, goerror option) state) ?Q"
    proof (cases e)
      case (Some err)
      with q have "kept D s0 s1" using untouched_kept [OF inv es] by auto
      then show ?thesis unfolding Some option.case by (auto intro: ensures_ret)
    next
      case None
      with q obtain c where i: "installed D c es s0 s1" by auto
      then have d1: "dirs_to s1 D"
        by (auto simp: installed_def complete_def area_def dirs_append)
      have "old \<noteq> c" using old i stamped_name [of c] by (auto simp: installed_def dest: name_compD)
      moreover have "old \<noteq> dataDirName" using old stamped_not_data by (auto simp: dataDirName_def)
      moreover have "old = '''' \<or> hidden old" using old stamped_hidden by blast
      ultimately have fin: "cleaned D old s1 st \<Longrightarrow> updated D es s0 st" for st
        using cleaned_updated [OF i] by blast
      show ?thesis
        unfolding None option.case
        by (rule ensures_conseq [OF clean_up_spec [OF env D(1) d1 ps]])
          (use old stamped_name fin in auto)
    qed
  qed
qed

lemma removable_visible:
  assumes "plain_version s0 D t" and "removable s0 (D @ [t]) p"
  shows "sep \<in> set p \<or> (name_comp p \<and> \<not> hidden p)"
  using assms by (auto simp: plain_version_def removable_def)

lemma Write_spec:
  assumes env: "env_laws env" and os: "GOOS env = Linux" and inv: "writer_inv s0 D" and tidy: "tidy p"
  shows "ensures (\<lambda>st. st = s0) (Write env (writer_at D) p :: ('x world, goerror option) state)
    (\<lambda>r st. case validatePayload env p of
       Inl err \<Rightarrow> st = s0 \<and> r = Some err
     | Inr es \<Rightarrow> (r \<noteq> None \<and> kept D s0 st) \<or> (r = None \<and> st = s0 \<and> up_to_date D es s0) \<or>
         updated D es s0 st)"
proof (cases "validatePayload env p")
  case (Inl err)
  then show ?thesis by (auto simp: Write_def intro: ensures_ret)
next
  case (Inr es)
  let ?Q = "\<lambda>r st. ((r :: goerror option) \<noteq> None \<and> kept D s0 st) \<or>
    (r = None \<and> st = s0 \<and> up_to_date D es s0) \<or> updated D es s0 st"
  have es: "good_entries es" by (rule validatePayload_good [OF env tidy Inr])
  have D: "names D" "dirs_to s0 D" using inv by (simp_all add: writer_inv_def)
  have nd: "names (data_key D)" using D(1) data_names by simp
  have j: "Join [path_string D, dataDirName] = path_string (data_key D)"
    using Join_path_string_name [OF D(1)] data_names by auto
  have stop: "ensures (\<lambda>st. st = s0) (ret (Some err) :: ('x world, goerror option) state) ?Q" for err
    by (auto intro: ensures_ret)
  show ?thesis
    unfolding Write_def Inr sum.case targetDir_simp j
  proof (rule ensures_bind [OF os_Readlink_spec [OF nd D(2)]], rule ensures_any, elim conjE)
    fix l :: "goerror + string" and st
    assume st: "st = s0"
      and l: "\<forall>t. l = Inr t \<longrightarrow> (\<exists>i. lookup s0 (data_key D) = Some i \<and> kind i = Symlink t)"
    have new: "ensures (\<lambda>st. st = s0) (do {
          e \<leftarrow> install_version env (writer_at D) es;
          case e of Some err \<Rightarrow> ret (Some err) | None \<Rightarrow> clean_up env (writer_at D) [] ''''
        } :: ('x world, goerror option) state) ?Q"
      by (rule ensures_conseq [OF replace_spec [OF env os inv es]]) auto
    show "ensures (\<lambda>s. s = st) ((if case l of Inl err \<Rightarrow> \<not> IsNotExist err | Inr _ \<Rightarrow> False
        then ret (case l of Inl err \<Rightarrow> Some err | Inr _ \<Rightarrow> None)
        else do {
          let oldTsDir = (case l of Inl _ \<Rightarrow> '''' | Inr t \<Rightarrow> t);
          c \<leftarrow> (if oldTsDir \<noteq> '''' then compare_versions env es (Join [path_string D, oldTsDir])
                else ret (Inr (Some [])));
          case c of
            Inl err \<Rightarrow> ret (Some err)
          | Inr None \<Rightarrow> ret None
          | Inr (Some paths) \<Rightarrow> do {
              e \<leftarrow> install_version env (writer_at D) es;
              case e of Some err \<Rightarrow> ret (Some err) | None \<Rightarrow> clean_up env (writer_at D) paths oldTsDir
            }
        }) :: ('x world, goerror option) state) ?Q"
    proof (cases l)
      case (Inl err)
      then show ?thesis using st stop new by simp
    next
      case (Inr t)
      with l have cur: "current s0 D = Some t" by (auto simp: current_def)
      have v: "plain_version s0 D t" by (rule writer_inv_version [OF inv cur])
      then have t: "stamped t" "tree_at s0 (D @ [t])" by (simp_all add: plain_version_def)
      have old: "lookup s0 (D @ [t]) \<noteq> None"
        using t(2) by (auto simp: tree_at_def area_def dirs_append is_dir_def)
      have ne: "t \<noteq> ''''" using stamped_name [OF t(1)] by (auto dest: name_compD)
      have jt: "Join [path_string D, t] = path_string (D @ [t])"
        by (rule Join_path_string_name [OF D(1) stamped_name [OF t(1)]])
      show ?thesis
        unfolding st Inr sum.case if_False Let_def jt if_P [OF ne]
      proof (rule ensures_bind [OF compare_versions_spec [OF t(2) env es]], rule ensures_any,
          elim conjE)
        fix c :: "goerror + string list option" and s1
        assume s1: "s1 = s0"
          and ps: "\<forall>ps. c = Inr (Some ps) \<longrightarrow> (\<forall>p \<in> set ps. removable s0 (D @ [t]) p)"
          and upd: "c = Inr None \<longrightarrow>
            (\<forall>e \<in> set es. is_file s0 (pkey (D @ [t]) (fst e)) (fp_Data (snd e)))"
        have "ensures (\<lambda>st. st = s0) (do {
              e \<leftarrow> install_version env (writer_at D) es;
              case e of Some err \<Rightarrow> ret (Some err) | None \<Rightarrow> clean_up env (writer_at D) paths t
            } :: ('x world, goerror option) state) ?Q" if "c = Inr (Some paths)" for paths
          by (rule ensures_conseq [OF replace_spec [OF env os inv es]])
            (use t(1) old ps that removable_visible [OF v] in auto)
        moreover have "ensures (\<lambda>st. st = s0) (ret None :: ('x world, goerror option) state) ?Q"
          if "c = Inr None" using upd that cur by (auto simp: up_to_date_def intro!: ensures_ret)
        ultimately show "ensures (\<lambda>s. s = s1) ((case c of
              Inl err \<Rightarrow> ret (Some err)
            | Inr None \<Rightarrow> ret None
            | Inr (Some paths) \<Rightarrow> do {
                e \<leftarrow> install_version env (writer_at D) es;
                case e of Some err \<Rightarrow> ret (Some err) | None \<Rightarrow> clean_up env (writer_at D) paths t
              }) :: ('x world, goerror option) state) ?Q"
          unfolding s1 using stop by (auto split: sum.split option.split)
      qed
    qed
  qed
qed

section \<open>The invariant of the target directory\<close>

lemma should_write_ro: "state_io_rel same_store (should_write es old)"
proof (induction es)
  case (Cons e es)
  have "state_io_rel same_store (shouldWriteFile p c)" for p c
    unfolding shouldWriteFile_def by (intro ro.io_rules frame_intros)
  with Cons show ?case by (cases e) (auto intro!: ro.io_rules)
qed (simp add: ro.io_return)

lemma compare_versions_ro: "state_io_rel same_store (compare_versions env es old)"
  unfolding compare_versions_def pathsToRemove_def shouldWritePayload_def Let_def
  by (intro ro.io_rules frame_intros should_write_ro)

lemma write_files_tree: "state_io_rel keeps_tree (write_files es dir)"
proof (induction es)
  case (Cons e es)
  have "state_io_rel keeps_tree (write_file dir k fp)" for k fp
    unfolding write_file_def Let_def
    by (intro tr.io_rules os_MkdirAll_tree os_WriteFile_tree os_Chmod_tree os_Chown_tree)
  with Cons show ?case by (cases e) (auto intro!: tr.io_rules)
qed (simp add: tr.io_return)

lemma create_visible_tree: "state_io_rel keeps_tree (create_visible es dir)"
proof (induction es)
  case (Cons e es)
  then show ?case
    by (cases e) (auto simp: Let_def intro!: tr.io_rules os_Symlink_tree ro_tree [OF os_Readlink_ro])
qed (simp add: tr.io_return)

lemma remove_visible_tree: "state_io_rel keeps_tree (remove_visible ps dir e)"
proof (induction ps arbitrary: e)
  case (Cons p ps)
  then show ?case by (auto intro!: tr.io_rules os_Remove_tree)
qed (simp add: tr.io_return)

lemma install_version_tree: "state_io_rel keeps_tree (install_version env w es)"
  unfolding install_version_def newTimestampDir_def writePayloadToDir_def createUserVisibleFiles_def
    switch_version_def Let_def
  by (intro tr.io_rules TempDir_tree os_Chmod_tree write_files_tree create_visible_tree os_Symlink_tree
      os_RemoveAll_tree os_Remove_tree os_Rename_tree)

lemma clean_up_tree: "state_io_rel keeps_tree (clean_up env w ps old)"
  unfolding clean_up_def removeUserVisiblePaths_def
  by (intro tr.io_rules remove_visible_tree os_RemoveAll_tree)

lemma Write_tree: "state_io_rel keeps_tree (Write env w p)"
  unfolding Write_def Let_def
  by (intro tr.io_rules install_version_tree clean_up_tree ro_tree [OF compare_versions_ro]
      ro_tree [OF os_Readlink_ro])

lemma kept_inv:
  assumes "writer_inv a D" and "kept D a b" and "tree b"
  shows "writer_inv b D"
proof -
  have cur: "current b D = current a D" and l: "lookup b (data_key D) = lookup a (data_key D)"
    using assms(2) by (simp_all add: kept_def current_def)
  have "dirs_to b D"
    by (rule dirs_cong [of a "[]"])
      (use assms(1,2) in \<open>auto simp: writer_inv_def kept_def inside_above\<close>)
  moreover have "plain_version b D t" if t: "current a D = Some t" for t
  proof -
    have v: "plain_version a D t" by (rule writer_inv_version [OF assms(1) t])
    have same: "lookup b k = lookup a k" if "prefix (D @ [t]) k \<or> prefix k D" for k
      using assms(2) t that by (auto simp: kept_def inside_above)
    have "area b (D @ [t])"
      by (rule area_cong [of a]) (use v same in \<open>auto simp: plain_version_def tree_at_def\<close>)
    then show ?thesis
      using v same by (simp add: plain_version_def tree_at_def)
  qed
  ultimately show ?thesis
    using assms(1,3) cur l by (auto simp: writer_inv_def)
qed

lemma updated_inv:
  assumes "names D" and "updated D es a b" and "tree b" and "good_entries es"
  shows "writer_inv b D"
proof -
  obtain c where c: "stamped c" "current b D = Some c" "complete (D @ [c]) es b"
    using assms(2) by (auto simp: updated_def)
  then have ar: "area b (D @ [c])" by (simp add: complete_def)
  have "names q" if "lookup b ((D @ [c]) @ q) \<noteq> None" for q
    using tree_names [OF assms(3) that] by simp
  then have "tree_at b (D @ [c])"
    using ar assms(1) stamped_name [OF c(1)] by (simp add: tree_at_def)
  moreover have "\<not> hidden n" if "lookup b (D @ [c, n]) \<noteq> None" for n
  proof -
    have "strict_prefix (D @ [c]) (D @ [c, n])" by (simp add: strict_prefix_def)
    with that c(3) obtain e where e: "e \<in> set es" "prefix (D @ [c, n]) (pkey (D @ [c]) (fst e))"
      unfolding complete_def by blast
    then have "n = first_comp (fst e)"
      unfolding first_comp_hd by (cases "split_on sep (fst e)") (auto simp: pkey_def)
    with e(1) assms(4) show ?thesis by (simp add: good_entries_def)
  qed
  ultimately have "plain_version b D c" using c(1) by (simp add: plain_version_def)
  with c(2) assms(1,3) ar show ?thesis by (auto simp: writer_inv_def area_def dirs_append)
qed

lemma updated_up_to_date: "updated D es a b \<Longrightarrow> up_to_date D es b"
  by (fastforce simp: updated_def up_to_date_def complete_def holds_def is_file_def)

lemma Write_cases:
  assumes "env_laws env" and "GOOS env = Linux" and "writer_inv (store w) D" and "tidy p"
    and "run_state (Write env (writer_at D) p) w = (r, w')"
  shows "(kept D (store w) (store w') \<and>
      (r = None \<longrightarrow> store w' = store w \<and> (\<exists>es. validatePayload env p = Inr es \<and> up_to_date D es (store w)))) \<or>
    (\<exists>es. validatePayload env p = Inr es \<and> updated D es (store w) (store w'))"
  using ensuresD [OF Write_spec [OF assms(1-4)] refl assms(5)] by (auto split: sum.splits)

lemma Write_inv:
  assumes "env_laws env" and "GOOS env = Linux" and "writer_inv (store w) D" and "tidy p"
    and run: "run_state (Write env (writer_at D) p) w = (r, w')"
  shows "writer_inv (store w') D"
proof -
  have t: "tree (store w')"
    using state_io_relD [OF Write_tree run] assms(3) by (simp add: keeps_tree_def writer_inv_def)
  from Write_cases [OF assms] show ?thesis
  proof
    assume "kept D (store w) (store w') \<and> (r = None \<longrightarrow> store w' = store w \<and>
      (\<exists>es. validatePayload env p = Inr es \<and> up_to_date D es (store w)))"
    with kept_inv [OF assms(3) _ t] show ?thesis by simp
  next
    assume "\<exists>es. validatePayload env p = Inr es \<and> updated D es (store w) (store w')"
    with updated_inv [OF _ _ t] validatePayload_good [OF assms(1,4)] assms(3) show ?thesis
      by (auto simp: writer_inv_def)
  qed
qed

section \<open>Visible names\<close>

text \<open>Every visible name of the target directory is a link to the same name in the current version.\<close>

definition visible_links :: "fstore \<Rightarrow> string list \<Rightarrow> bool" where
  "visible_links st D \<longleftrightarrow>
     (\<forall>n i. \<not> hidden n \<longrightarrow> lookup st (D @ [n]) = Some i \<longrightarrow> kind i = Symlink (Join [dataDirName, n]))"

lemma visible_step_links: "visible_step D a b \<Longrightarrow> visible_links a D \<Longrightarrow> visible_links b D"
  unfolding visible_step_def visible_links_def visible_link_def by fastforce

lemma Write_links:
  assumes "env_laws env" and "GOOS env = Linux" and "writer_inv (store w) D" and "tidy p"
    and "run_state (Write env (writer_at D) p) w = (r, w')" and "visible_links (store w) D"
  shows "visible_links (store w') D"
proof -
  have "visible_step D (store w) (store w')"
    using Write_cases [OF assms(1-5)] by (auto simp: kept_def updated_def)
  then show ?thesis by (rule visible_step_links [OF _ assms(6)])
qed

end
