(* ===== verification/AtomicTheorems.thy ===== *)
theory AtomicTheorems
  imports AtomicProps
begin

text \<open>
  What the atomic writer promises, with a concrete target directory to which each theorem is applied.
\<close>

section \<open>A concrete target directory\<close>

text \<open>The directory \<open>/t\<close> with one version of a payload of two files.\<close>

definition env0 :: writer_env where
  "env0 = \<lparr>GOOS = Linux,
    now = \<lparr>year = 2024, month = 5, day = 1, hour = 12, minute = 30, second = 7\<rparr>,
    rnd = show_nat, map_order = (\<lambda>_ p. p), set_order = (\<lambda>l. l)\<rparr>"

definition file0 :: "string \<Rightarrow> FileProjection" where
  "file0 c = \<lparr>fp_Data = c, fp_Mode = 0x1A4, fp_FsUser = None\<rparr>"

definition payload0 :: "string \<Rightarrow> payload" where
  "payload0 c = [(''./token'', file0 c), (''d//k'', file0 ''2'')]"

definition inode0 :: "fkind \<Rightarrow> inode" where
  "inode0 k = \<lparr>kind = k, perm = 0x1ED, uid = 0, gid = 0\<rparr>"

definition store0 :: fstore where
  "store0 =
    [([''t''], inode0 Directory),
     ([''t'', ''..2024''], inode0 Directory),
     ([''t'', ''..2024'', ''token''], inode0 (Regular ''1'')),
     ([''t'', ''..2024'', ''d''], inode0 Directory),
     ([''t'', ''..2024'', ''d'', ''k''], inode0 (Regular ''2'')),
     ([''t'', ''..data''], inode0 (Symlink ''..2024'')),
     ([''t'', ''token''], inode0 (Symlink ''..data/token'')),
     ([''t'', ''d''], inode0 (Symlink ''..data/d''))]"

text \<open>The same after a crash between steps 8 and 9.\<close>

definition stale0 :: fstore where
  "stale0 = store0 @ [([''t'', ''..data_tmp''], inode0 (Symlink ''..2024''))]"

definition world0 :: "fstore \<Rightarrow> unit world" where
  "world0 st = \<lparr>store = st, umask = 0x12, faults = (\<lambda>_. None), calls = 0, ext = ()\<rparr>"

lemma env0_laws: "env_laws env0" "GOOS env0 = Linux"
  by (auto simp: env_laws_def env0_def)

lemma lookup_keys: "lookup st k \<noteq> None \<Longrightarrow> k \<noteq> [] \<Longrightarrow> k \<in> fst ` set st"
  by (simp add: lookup_def map_of_eq_None_iff)

lemma treeI: "\<forall>k \<in> fst ` set st. is_dir st (butlast k) \<and> names k \<Longrightarrow> tree st"
  unfolding tree_def using lookup_keys by blast

lemma plain_versionI:
  assumes "stamped t" and "names D" and "dirs_to st (D @ [t])" and "tree st"
    and "\<forall>k \<in> fst ` set st. strict_prefix (D @ [t]) k \<longrightarrow>
      (\<exists>i. lookup st k = Some i \<and> (kind i = Directory \<or> (\<exists>c. kind i = Regular c)))"
    and "\<forall>k \<in> fst ` set st. prefix (D @ [t]) k \<longrightarrow> k = D @ [t] \<or> \<not> hidden (k ! Suc (length D))"
  shows "plain_version st D t"
proof -
  have "kind i = Directory \<or> (\<exists>c. kind i = Regular c)"
    if "strict_prefix (D @ [t]) k" "lookup st k = Some i" for k i
  proof -
    have "k \<in> fst ` set st" by (rule lookup_keys) (use that in auto)
    with assms(5) that show ?thesis by force
  qed
  then have "area st (D @ [t])" using assms(3) by (simp add: area_def plain_below_def)
  moreover have "names q" if "lookup st ((D @ [t]) @ q) \<noteq> None" for q
    using tree_names [OF assms(4) that] by simp
  ultimately have "tree_at st (D @ [t])"
    using assms(2) stamped_name [OF assms(1)] by (simp add: tree_at_def)
  moreover have "\<not> hidden n" if "lookup st (D @ [t, n]) \<noteq> None" for n
  proof -
    have "D @ [t, n] \<in> fst ` set st" by (rule lookup_keys) (use that in auto)
    with assms(6) show ?thesis by (force simp: nth_append)
  qed
  ultimately show ?thesis using assms(1) by (simp add: plain_version_def)
qed

lemma names0: "name_comp ''t''" "name_comp ''..2024''" "name_comp ''token''" "name_comp ''d''" "name_comp ''k''"
    "name_comp ''..data''" "name_comp ''..data_tmp''" "stamped ''..2024''" "\<not> hidden ''token''" "\<not> hidden ''d''"
  by (auto simp: name_comp_def plain_comp_def stamped_def digit_val_def hidden_def HasPrefix_def)

lemmas eval0 = store0_def inode0_def lookup_def is_dir_def dataDirName_def newDataDirName_def root_dir_def

lemma tree0: "tree store0"
  by (rule treeI) (simp add: eval0 names0)

lemma version0: "plain_version store0 [''t''] ''..2024''"
  by (rule plain_versionI [OF _ _ _ tree0]) (simp_all add: eval0 names0 strict_prefix_def)

lemma inv0: "writer_inv store0 [''t'']"
  using version0 tree0 by (simp add: writer_inv_def current_def) (simp add: eval0 names0)

lemma stale_tree0: "tree stale0"
  by (rule treeI) (simp add: stale0_def eval0 names0)

lemma stale_inv0: "writer_inv stale0 [''t'']"
proof -
  have "plain_version stale0 [''t''] ''..2024''"
    by (rule plain_versionI [OF _ _ _ stale_tree0]) (simp_all add: stale0_def eval0 names0 strict_prefix_def)
  with stale_tree0 show ?thesis
    by (simp add: writer_inv_def current_def) (simp add: stale0_def eval0 names0)
qed

lemma tidy0: "tidy (payload0 c)"
proof -
  have "Clean ''./token'' = ''token''" "Clean ''d//k'' = ''d/k''" by code_simp+
  then show ?thesis by (simp add: tidy_def payload0_def hidden_def HasPrefix_def)
qed

lemma noop_run:
  assumes "validatePayload env p = Inr es"
    and "fst (run_state (os_Readlink (Join [dir, dataDirName])) w) = Inr t" and "t \<noteq> ''''"
    and "fst (run_state (compare_versions env es (Join [dir, t]))
      (snd (run_state (os_Readlink (Join [dir, dataDirName])) w))) = Inr None"
  shows "\<exists>w'. run_state (Write env \<lparr>targetDir = dir\<rparr> p) w = (None, w')"
  using assms by (auto simp: Write_def targetDir_simp split: prod.splits)

text \<open>Writing the payload again has nothing to do.\<close>

lemma noop0:
  assumes "st = store0 \<or> st = stale0"
  shows "\<exists>w'. run_state (Write env0 \<lparr>targetDir = ''/t''\<rparr> (payload0 ''1'')) (world0 st) = (None, w')"
proof (rule noop_run)
  show "validatePayload env0 (payload0 ''1'') = Inr [(''token'', file0 ''1''), (''d/k'', file0 ''2'')]"
    by code_simp
  show "fst (run_state (os_Readlink (Join [''/t'', dataDirName])) (world0 st)) = Inr ''..2024''"
    using assms by (elim disjE; simp only:; code_simp)
  show "fst (run_state (compare_versions env0 [(''token'', file0 ''1''), (''d/k'', file0 ''2'')]
      (Join [''/t'', ''..2024''])) (snd (run_state (os_Readlink (Join [''/t'', dataDirName])) (world0 st)))) =
      Inr None"
    using assms by (elim disjE; simp only:; code_simp)
qed simp

section \<open>Theorems\<close>

text \<open>C7. A run of \<open>Write\<close>, whichever of its system calls fail, leaves the data directory's link and
  everything below the version it leads to as they were, or moves the link to a new directory that holds
  the whole payload and nothing else.\<close>

theorem atomic_write:
  assumes "env_laws env" and "GOOS env = Linux" and "writer_inv (store w) D" and "tidy p"
  shows "kept D (store w) (store (snd (run_state (Write env \<lparr>targetDir = path_string D\<rparr> p) w))) \<or>
    (\<exists>es. validatePayload env p = Inr es \<and>
      updated D es (store w) (store (snd (run_state (Write env \<lparr>targetDir = path_string D\<rparr> p) w))))"
  using Write_cases [OF assms] by (metis prod.collapse)

theorem atomic_write_witness:
  "kept [''t''] store0 (store (snd (run_state (Write env0 \<lparr>targetDir = path_string [''t'']\<rparr> (payload0 ''3''))
      (world0 store0)))) \<or>
    (\<exists>es. validatePayload env0 (payload0 ''3'') = Inr es \<and>
      updated [''t''] es store0 (store (snd (run_state
        (Write env0 \<lparr>targetDir = path_string [''t'']\<rparr> (payload0 ''3'')) (world0 store0)))))"
  using atomic_write [OF env0_laws _ tidy0, of "world0 store0" "[''t'']" "''3''"] inv0
  by (simp add: world0_def)

text \<open>When \<open>Write\<close> reports no error, the current version holds the data of every file of the cleaned
  payload.\<close>

theorem write_success:
  assumes "env_laws env" and "GOOS env = Linux" and "writer_inv (store w) D" and "tidy p"
    and "run_state (Write env \<lparr>targetDir = path_string D\<rparr> p) w = (None, w')"
  shows "\<exists>es. validatePayload env p = Inr es \<and> up_to_date D es (store w')"
  using Write_cases [OF assms] updated_up_to_date by auto

theorem write_success_witness:
  "\<exists>es w'. run_state (Write env0 \<lparr>targetDir = ''/t''\<rparr> (payload0 ''1'')) (world0 store0) = (None, w') \<and>
    validatePayload env0 (payload0 ''1'') = Inr es \<and> up_to_date [''t''] es (store w')"
proof -
  obtain w' where run: "run_state (Write env0 \<lparr>targetDir = path_string [''t'']\<rparr> (payload0 ''1''))
      (world0 store0) = (None, w')"
    using noop0 by (auto simp: path_string_def)
  have "writer_inv (store (world0 store0)) [''t'']" using inv0 by (simp add: world0_def)
  from write_success [OF env0_laws this tidy0 run] run show ?thesis
    by (auto simp: path_string_def)
qed

text \<open>C8. \<open>Write\<close> keeps the invariant of the target directory: a tree of directories whose data
  link, if there is one, leads to a plain timestamped version. So runs of \<open>Write\<close> can follow each other,
  failed ones included. And where every visible name is a link to the same name in the current version, that
  stays so.\<close>

theorem write_invariant:
  assumes "env_laws env" and "GOOS env = Linux" and "writer_inv (store w) D" and "tidy p"
  shows "writer_inv (store (snd (run_state (Write env \<lparr>targetDir = path_string D\<rparr> p) w))) D \<and>
    (visible_links (store w) D \<longrightarrow>
      visible_links (store (snd (run_state (Write env \<lparr>targetDir = path_string D\<rparr> p) w))) D)"
  using Write_inv [OF assms] Write_links [OF assms] by (metis prod.collapse)

lemma visible_links0: "visible_links store0 [''t'']"
proof -
  have h: "hidden ''..2024''" "hidden ''..data''" by (simp_all add: hidden_def HasPrefix_def)
  have j: "Join [dataDirName, ''token''] = ''..data/token''" "Join [dataDirName, ''d''] = ''..data/d''"
    by code_simp+
  show ?thesis
    unfolding visible_links_def
  proof (intro allI impI)
    fix n i
    assume n: "\<not> hidden n" and l: "lookup store0 ([''t''] @ [n]) = Some i"
    then have "n = ''token'' \<or> n = ''d''" using h by (auto simp: eval0 split: if_splits)
    then show "kind i = Symlink (Join [dataDirName, n])" using l by (elim disjE) (auto simp: j [unfolded dataDirName_def] eval0)
  qed
qed

theorem write_invariant_witness:
  "writer_inv (store (snd (run_state (Write env0 \<lparr>targetDir = path_string [''t'']\<rparr> (payload0 ''3''))
    (world0 store0)))) [''t''] \<and>
   visible_links (store (snd (run_state (Write env0 \<lparr>targetDir = path_string [''t'']\<rparr> (payload0 ''3''))
    (world0 store0)))) [''t'']"
  using write_invariant [OF env0_laws _ tidy0, of "world0 store0" "[''t'']" "''3''"] inv0 visible_links0
  by (simp add: world0_def)

text \<open>C13. A name \<open>..data_tmp\<close> that is left in the target directory, as after a crash between steps 8
  and 9, blocks every later update: \<open>Write\<close> succeeds only when it has nothing to do.\<close>

theorem stale_link_blocks:
  assumes "env_laws env" and "GOOS env = Linux" and "writer_inv (store w) D" and "tidy p"
    and "lookup (store w) (D @ [newDataDirName]) \<noteq> None"
    and "run_state (Write env \<lparr>targetDir = path_string D\<rparr> p) w = (None, w')"
  shows "store w' = store w"
  using Write_cases [OF assms(1-4,6)] assms(5) by (auto simp: updated_def)

theorem stale_link_blocks_witness:
  "\<exists>w'. run_state (Write env0 \<lparr>targetDir = ''/t''\<rparr> (payload0 ''1'')) (world0 stale0) = (None, w') \<and>
    store w' = stale0"
proof -
  obtain w' where run: "run_state (Write env0 \<lparr>targetDir = path_string [''t'']\<rparr> (payload0 ''1''))
      (world0 stale0) = (None, w')"
    using noop0 by (auto simp: path_string_def)
  have "writer_inv (store (world0 stale0)) [''t'']" using stale_inv0 by (simp add: world0_def)
  moreover have "lookup (store (world0 stale0)) ([''t''] @ [newDataDirName]) \<noteq> None"
    by (simp add: world0_def stale0_def eval0)
  ultimately have "store w' = store (world0 stale0)"
    by (rule stale_link_blocks [OF env0_laws _ tidy0 _ run])
  with run show ?thesis by (auto simp: path_string_def world0_def)
qed

end
