(* ===== verification/VolumeStore.thy ===== *)
theory VolumeStore
  imports MemoryStore AtomicTheorems
begin

unbundle bit_operations_syntax

text \<open>
  \<open>storage/filesystem.go\<close>: metadata and data of volumes in a directory, each volume with a
  \<open>metadata.json\<close> and a data directory that the atomic writer fills. Reading goes through \<open>os.DirFS("/")\<close>,
  writing through the \<open>os\<close> functions. \<open>msg\<close> words the decoder's errors. Logging is left out, and closing
  a file has no effect.
\<close>

section \<open>The store\<close>

record Filesystem =
  baseDir :: string
  FixedFSGroup :: "int option"
  FSGroupVolumeAttributeKey :: string

definition readWriteUserFileMode :: "32 word" where
  "readWriteUserFileMode = 0x180"

definition readOnlyUserAndGroupFileMode :: "32 word" where
  "readOnlyUserAndGroupFileMode = 0x120"

definition tempfsPath :: "Filesystem \<Rightarrow> string" where
  "tempfsPath f = Join [baseDir f, ''inmemfs'']"

definition volumePath :: "Filesystem \<Rightarrow> string \<Rightarrow> string" where
  "volumePath f v = Join [tempfsPath f, v]"

definition dataPathForVolumeID :: "Filesystem \<Rightarrow> string \<Rightarrow> string" where
  "dataPathForVolumeID f v = Join [volumePath f v, ''data'']"

definition metadataPathForVolumeID :: "Filesystem \<Rightarrow> string \<Rightarrow> string" where
  "metadataPathForVolumeID f v = Join [volumePath f v, ''metadata.json'']"

definition PathForVolume :: "Filesystem \<Rightarrow> string \<Rightarrow> string" where
  "PathForVolume f volumeID = dataPathForVolumeID f volumeID"

text \<open>The two calls of \<open>k8s.io/mount-utils\<close> that the constructor makes.\<close>

record 'x tmpfs_mounter =
  IsNotMountPoint :: "string \<Rightarrow> ('x world, bool \<times> goerror option) state"
  Mount :: "string \<Rightarrow> string \<Rightarrow> string \<Rightarrow> string list \<Rightarrow> ('x world, goerror option) state"

definition NewFilesystem ::
  "'x tmpfs_mounter \<Rightarrow> string \<Rightarrow> ('x world, goerror + Filesystem) state" where
  "NewFilesystem mnt base = do {
    let f = \<lparr>baseDir = base, FixedFSGroup = None, FSGroupVolumeAttributeKey = ''''\<rparr>;
    (notMnt, err) \<leftarrow> IsNotMountPoint mnt (tempfsPath f);
    e \<leftarrow> (case err of
            None \<Rightarrow> ret None
          | Some err \<Rightarrow>
              if \<not> IsNotExist err then ret (Some err) else os_MkdirAll (tempfsPath f) 0x1C0);
    case e of
      Some err \<Rightarrow> ret (Inl err)
    | None \<Rightarrow>
        if notMnt then do {
          e \<leftarrow> Mount mnt ''tmpfs'' (tempfsPath f) ''tmpfs'' [];
          ret (case e of
                 Some err \<Rightarrow> Inl (WrapError (''mounting tmpfs: '' @ error_text err) err)
               | None \<Rightarrow> Inr f)
        } else ret (Inr f)
  }"

section \<open>Reading\<close>

text \<open>\<open>fs.ValidPath\<close>, and \<open>Open\<close> and \<open>fs.ReadDir\<close> of the file system rooted at \<open>/\<close>.\<close>

definition ValidPath :: "string \<Rightarrow> bool" where
  "ValidPath name \<longleftrightarrow> valid_utf8 name \<and>
     (name = ''.'' \<or> list_all (\<lambda>e. e \<noteq> '''' \<and> e \<noteq> ''.'' \<and> e \<noteq> ''..'') (split_on sep name))"

definition root_name :: "string \<Rightarrow> string" where
  "root_name name = ''/'' @ [sep] @ name"

definition fs_Open :: "string \<Rightarrow> ('x world, goerror + inode) state" where
  "fs_Open name =
    (if \<not> ValidPath name then ret (Inl (PathError ''open'' name EINVAL))
     else map_state (lift_err (PathError ''open'' name)) (sys_read (st_get True (root_name name))))"

definition fs_ReadDir :: "string \<Rightarrow> ('x world, goerror + string list) state" where
  "fs_ReadDir name = do {
    r \<leftarrow> fs_Open name;
    case r of
      Inl err \<Rightarrow> ret (Inl err)
    | Inr _ \<Rightarrow> map_state (lift_err (PathError ''readdirent'' (root_name name)))
        (sys_read (st_read_dir (root_name name)))
  }"

definition read_file :: "inode \<Rightarrow> ('x world, errno + string) state" where
  "read_file i = sys_read (\<lambda>_. case kind i of
     Regular c \<Rightarrow> Inr c | Directory \<Rightarrow> Inl EISDIR | _ \<Rightarrow> Inl EINVAL)"

fun list_volumes :: "Filesystem \<Rightarrow> string list \<Rightarrow> ('x world, goerror + string list) state" where
  "list_volumes f [] = ret (Inr [])"
| "list_volumes f (d # entries) = do {
    r \<leftarrow> fs_Open (metadataPathForVolumeID f d);
    case r of
      Inl err \<Rightarrow> ret (Inl err)
    | Inr _ \<Rightarrow> map_state (map_sum id ((#) d)) (list_volumes f entries)
  }"

definition ListVolumes :: "Filesystem \<Rightarrow> ('x world, goerror + string list) state" where
  "ListVolumes f = do {
    r \<leftarrow> fs_ReadDir (tempfsPath f);
    case r of
      Inl err \<Rightarrow> ret (Inl (WrapError (''listing volumes: '' @ error_text err) err))
    | Inr entries \<Rightarrow> list_volumes f entries
  }"

text \<open>The error of \<open>Stat\<close> is never \<open>os.ErrNotExist\<close> itself, so the first test on it is left out.\<close>

definition not_found_wrapped :: goerror where
  "not_found_wrapped = WrapError ''reading metadata file: not found'' ErrNotFound"

definition ReadMetadata ::
  "(string \<Rightarrow> string) \<Rightarrow> Filesystem \<Rightarrow> string \<Rightarrow> ('x world, goerror + Metadata) state" where
  "ReadMetadata msg f volumeID = do {
    let name = metadataPathForVolumeID f volumeID;
    r \<leftarrow> fs_Open name;
    case r of
      Inl _ \<Rightarrow> ret (Inl not_found_wrapped)
    | Inr i \<Rightarrow> do {
        s \<leftarrow> sys_read (\<lambda>_. Inr i);
        case s of
          Inl e \<Rightarrow> ret (Inl (ErrorString (''reading metadata file: '' @
            error_text (PathError ''stat'' (root_name name) e))))
        | Inr _ \<Rightarrow> do {
            c \<leftarrow> read_file i;
            ret (case c of
                   Inl e \<Rightarrow> Inl (WrapError (''reading metadata file: invalid JSON: '' @
                     error_text (PathError ''read'' (root_name name) e)) ErrInvalidJSON)
                 | Inr c \<Rightarrow>
                     (case Decode c of
                        None \<Rightarrow> Inl (WrapError (''reading metadata file: invalid JSON: '' @ msg c) ErrInvalidJSON)
                      | Some meta \<Rightarrow> Inr meta))
          }
      }
  }"

definition ReadFile :: "Filesystem \<Rightarrow> string \<Rightarrow> string \<Rightarrow> ('x world, goerror + string) state" where
  "ReadFile f volumeID name = do {
    let path = Join [dataPathForVolumeID f volumeID, name];
    r \<leftarrow> fs_Open path;
    case r of
      Inl _ \<Rightarrow> ret (Inl ErrNotFound)
    | Inr i \<Rightarrow> map_state (lift_err (PathError ''read'' (root_name path))) (read_file i)
  }"

section \<open>Writing\<close>

definition RemoveVolume :: "Filesystem \<Rightarrow> string \<Rightarrow> ('x world, goerror option) state" where
  "RemoveVolume f volumeID = os_RemoveAll (Join [tempfsPath f, volumeID])"

definition WriteMetadata :: "Filesystem \<Rightarrow> string \<Rightarrow> Metadata \<Rightarrow> ('x world, goerror option) state" where
  "WriteMetadata f volumeID meta =
    os_WriteFile (metadataPathForVolumeID f volumeID) (Marshal meta) readWriteUserFileMode"

definition ensureVolumeDirectory :: "Filesystem \<Rightarrow> string \<Rightarrow> ('x world, goerror option) state" where
  "ensureVolumeDirectory f volumeID = do {
    e \<leftarrow> os_MkdirAll (volumePath f volumeID) 0x1A4;
    case e of
      Some err \<Rightarrow> ret (Some err)
    | None \<Rightarrow> os_MkdirAll (dataPathForVolumeID f volumeID) 0x168
  }"

definition write_registered ::
  "Filesystem \<Rightarrow> string \<Rightarrow> Metadata \<Rightarrow> ('x world, goerror + bool) state" where
  "write_registered f volumeID meta = do {
    e \<leftarrow> ensureVolumeDirectory f volumeID;
    case e of
      Some err \<Rightarrow> ret (Inl err)
    | None \<Rightarrow> do {
        e \<leftarrow> WriteMetadata f (VolumeID meta) meta;
        ret (case e of Some err \<Rightarrow> Inl err | None \<Rightarrow> Inr True)
      }
  }"

text \<open>An error that is not \<open>ErrNotFound\<close> is dropped, and the comparison goes on with empty metadata.\<close>

definition RegisterMetadata ::
  "(string \<Rightarrow> string) \<Rightarrow> Filesystem \<Rightarrow> Metadata \<Rightarrow> ('x world, goerror + bool) state" where
  "RegisterMetadata msg f meta = do {
    r \<leftarrow> ReadMetadata msg f (VolumeID meta);
    if (case r of Inl err \<Rightarrow> errors_Is err ErrNotFound | Inr _ \<Rightarrow> False)
    then write_registered f (VolumeID meta) meta
    else do {
      let existingMeta = (case r of Inl _ \<Rightarrow> no_metadata | Inr m \<Rightarrow> m);
      if \<not> context_equal (VolumeContext existingMeta) (VolumeContext meta)
      then write_registered f (VolumeID meta) (existingMeta\<lparr>VolumeContext := VolumeContext meta\<rparr>)
      else ret (Inr False)
    }
  }"

definition makePayload :: "file_map \<Rightarrow> payload" where
  "makePayload fs = List.map (\<lambda>(name, data).
    (name, \<lparr>fp_Data = data, fp_Mode = readOnlyUserAndGroupFileMode, fp_FsUser = None\<rparr>)) fs"

definition fsGroupForMetadata :: "Filesystem \<Rightarrow> Metadata \<Rightarrow> goerror + int option" where
  "fsGroupForMetadata f meta =
    (case FixedFSGroup f of
       Some g \<Rightarrow> Inr (Some g)
     | None \<Rightarrow>
         if FSGroupVolumeAttributeKey f = '''' then Inr None
         else
           (case map_of (VolumeContext meta) (FSGroupVolumeAttributeKey f) of
              None \<Rightarrow> Inr None
            | Some fsGroupStr \<Rightarrow>
                (case ParseInt fsGroupStr of
                   Inl err \<Rightarrow> Inl (WrapError (''failed to parse '' @ Quote (FSGroupVolumeAttributeKey f) @
                     '', value must be a valid integer: '' @ error_text err) err)
                 | Inr fsGroup \<Rightarrow>
                     if fsGroup \<le> 0 \<or> fsGroup > 4294967295
                     then Inl (ErrorString (Quote (FSGroupVolumeAttributeKey f) @
                       '': gid value must be greater than 0 and less than 4294967295: '' @ show_int fsGroup))
                     else Inr (Some fsGroup))))"

fun chown_files :: "string \<Rightarrow> int \<Rightarrow> string list \<Rightarrow> ('x world, goerror option) state" where
  "chown_files dirName g [] = ret None"
| "chown_files dirName g (filename # fs) = do {
    e \<leftarrow> os_Chown (Join [dirName, filename]) (- 1) g;
    case e of Some err \<Rightarrow> ret (Some err) | None \<Rightarrow> chown_files dirName g fs
  }"

definition chown_data_dir :: "string \<Rightarrow> int option \<Rightarrow> ('x world, goerror option) state" where
  "chown_data_dir dataDir fsGroup =
    (case fsGroup of
       None \<Rightarrow> ret None
     | Some g \<Rightarrow> map_state (map_option (\<lambda>err. WrapError (''failed to chown data dir to gid '' @ show_int g @
         '': '' @ error_text err) err)) (os_Chown dataDir (- 1) g))"

definition write_payload ::
  "writer_env \<Rightarrow> string \<Rightarrow> int option \<Rightarrow> file_map \<Rightarrow> ('x world, goerror option) state" where
  "write_payload env dataDir fsGroup fs = do {
    w \<leftarrow> NewAtomicWriter dataDir;
    case w of
      Inl err \<Rightarrow> ret (Some err)
    | Inr writer \<Rightarrow> do {
        e \<leftarrow> Write env writer (makePayload fs);
        case e of
          Some err \<Rightarrow> ret (Some err)
        | None \<Rightarrow>
            (case fsGroup of
               None \<Rightarrow> ret None
             | Some g \<Rightarrow>
                 chown_files (Join [dataDir, ''..data'']) g (set_order env (List.map fst fs)))
      }
  }"

definition WriteFiles ::
  "writer_env \<Rightarrow> Filesystem \<Rightarrow> Metadata \<Rightarrow> file_map \<Rightarrow> ('x world, goerror option) state" where
  "WriteFiles env f meta fs = do {
    let dataDir = dataPathForVolumeID f (VolumeID meta);
    e \<leftarrow> ensureVolumeDirectory f (VolumeID meta);
    case e of
      Some err \<Rightarrow> ret (Some err)
    | None \<Rightarrow>
        (case fsGroupForMetadata f meta of
           Inl err \<Rightarrow> ret (Some err)
         | Inr fsGroup \<Rightarrow> do {
             e \<leftarrow> chown_data_dir dataDir fsGroup;
             case e of
               Some err \<Rightarrow> ret (Some err)
             | None \<Rightarrow> write_payload env dataDir fsGroup fs
           })
  }"

end
