(* ===== verification/VolumeProps.thy ===== *)
theory VolumeProps
  imports VolumeStore
begin

unbundle bit_operations_syntax

text \<open>
  Theorems about the volume store: what can be read back, which files an operation reaches, who owns the
  data, and that the data directory is updated atomically.
\<close>

section \<open>Paths\<close>

lemma IsAbs_join_on: "IsAbs b \<Longrightarrow> IsAbs (join_on sep (b # es))"
  by (cases es) (auto simp: IsAbs_def)

lemma IsAbs_Clean: "IsAbs s \<Longrightarrow> IsAbs (Clean s)"
  by (simp add: Clean_def IsAbs_def)

lemma IsAbs_Join: "IsAbs b \<Longrightarrow> IsAbs (Join (b # es))"
  using IsAbs_Clean [OF IsAbs_join_on] by (simp add: Join_def IsAbs_def)

lemma IsAbs_invalid: "IsAbs s \<Longrightarrow> \<not> ValidPath s"
  by (cases s) (auto simp: ValidPath_def IsAbs_def)

lemma absolute_paths:
  assumes "IsAbs (baseDir f)"
  shows "IsAbs (tempfsPath f)" "IsAbs (metadataPathForVolumeID f v)" "IsAbs (dataPathForVolumeID f v)"
  using assms
  by (simp_all add: tempfsPath_def metadataPathForVolumeID_def dataPathForVolumeID_def volumePath_def IsAbs_Join)

lemma fs_Open_absolute: "IsAbs s \<Longrightarrow> fs_Open s = ret (Inl (PathError ''open'' s EINVAL))"
  by (simp add: fs_Open_def IsAbs_invalid)

text \<open>
  C38. With an absolute base directory, as the documentation of \<open>baseDir\<close> asks for, nothing can be read
  back: the paths start with a slash, which \<open>os.DirFS\<close> refuses. Whatever is on disk, metadata and data
  are not found, listing fails, and a registration never finds its metadata unchanged.
\<close>

theorem absolute_base_unreadable:
  assumes "IsAbs (baseDir f)"
  shows "run_state (ReadMetadata msg f v) w = (Inl not_found_wrapped, w) \<and>
    errors_Is not_found_wrapped ErrNotFound \<and>
    run_state (ReadFile f v name) w = (Inl ErrNotFound, w) \<and>
    (\<exists>err. run_state (ListVolumes f) w = (Inl err, w)) \<and>
    fst (run_state (RegisterMetadata msg f meta) w) \<noteq> Inr False"
proof -
  note a = absolute_paths [OF assms]
  have r: "ReadMetadata msg f u = ret (Inl not_found_wrapped)" for u
    unfolding ReadMetadata_def Let_def fs_Open_absolute [OF a(2)] by simp
  have e: "errors_Is not_found_wrapped ErrNotFound"
    by (simp add: not_found_wrapped_def ErrNotFound_def)
  have "fst (run_state (write_registered f u m) w) \<noteq> Inr False" for u m
    by (auto simp: write_registered_def split: prod.splits option.splits)
  then have "fst (run_state (RegisterMetadata msg f meta) w) \<noteq> Inr False"
    by (simp add: RegisterMetadata_def r e)
  moreover have "run_state (ReadFile f v name) w = (Inl ErrNotFound, w)"
    unfolding ReadFile_def Let_def using IsAbs_Join [OF a(3), of v "[name]"]
    by (simp add: fs_Open_absolute)
  moreover have "\<exists>err. run_state (ListVolumes f) w = (Inl err, w)"
    by (auto simp: ListVolumes_def fs_ReadDir_def fs_Open_absolute [OF a(1)])
  ultimately show ?thesis using e by (simp add: r)
qed

theorem absolute_base_unreadable_witness:
  "run_state (ReadMetadata (\<lambda>_. '''') \<lparr>baseDir = ''/b'', FixedFSGroup = None, FSGroupVolumeAttributeKey = ''''\<rparr>
    ''v'') (world0 []) = (Inl not_found_wrapped, world0 [])"
  using absolute_base_unreadable [of "\<lparr>baseDir = ''/b'', FixedFSGroup = None, FSGroupVolumeAttributeKey = ''''\<rparr>"
    "\<lambda>_. ''''" "''v''" "world0 []"]
  by (simp add: IsAbs_def)

text \<open>A base directory with plain names.\<close>

definition base_at :: "Filesystem \<Rightarrow> string list \<Rightarrow> bool" where
  "base_at f B \<longleftrightarrow> names B \<and> baseDir f = path_string B"

abbreviation tempfs_key :: "string list \<Rightarrow> string list" where
  "tempfs_key B \<equiv> B @ [''inmemfs'']"

abbreviation volume_key :: "string list \<Rightarrow> string \<Rightarrow> string list" where
  "volume_key B v \<equiv> B @ [''inmemfs'', v]"

abbreviation data_dir :: "string list \<Rightarrow> string \<Rightarrow> string list" where
  "data_dir B v \<equiv> B @ [''inmemfs'', v, ''data'']"

lemma store_names: "name_comp ''inmemfs''" "name_comp ''data''" "name_comp ''metadata.json''"
  by (simp_all add: name_comp_def plain_comp_def)

lemma volume_paths:
  assumes "base_at f B" and "name_comp v"
  shows "tempfsPath f = path_string (tempfs_key B)" "volumePath f v = path_string (volume_key B v)"
    "dataPathForVolumeID f v = path_string (data_dir B v)"
proof -
  have B: "names B" "baseDir f = path_string B" using assms(1) by (simp_all add: base_at_def)
  show t: "tempfsPath f = path_string (tempfs_key B)"
    unfolding tempfsPath_def B(2) by (rule Join_path_string_name [OF B(1) store_names(1)])
  have nt: "names (tempfs_key B)" using B(1) store_names by simp
  show v: "volumePath f v = path_string (volume_key B v)"
    unfolding volumePath_def t using Join_path_string_name [OF nt assms(2)] by simp
  have nv: "names (volume_key B v)" using B(1) store_names assms(2) by simp
  show "dataPathForVolumeID f v = path_string (data_dir B v)"
    unfolding dataPathForVolumeID_def v using Join_path_string_name [OF nv store_names(2)] by simp
qed

lemma clean_comps_names:
  "names cs \<Longrightarrow> clean_comps r out (cs @ rest) = clean_comps r (rev cs @ out) rest"
  by (induction cs arbitrary: out) (auto simp: clean_comps_keep name_comp_def)

section \<open>Removing a volume\<close>

text \<open>
  C19. Removing a volume whose identifier is one plain name removes nothing outside the volume's directory.
\<close>

theorem remove_volume_contained:
  assumes "base_at f B" and "name_comp v" and "dirs_to (store w) (tempfs_key B)"
    and "\<not> prefix (volume_key B v) k"
  shows "lookup (store (snd (run_state (RemoveVolume f v) w))) k = lookup (store w) k"
proof -
  have n: "names (tempfs_key B @ [v])" using assms(1,2) store_names by (simp add: base_at_def)
  have p: "Join [tempfsPath f, v] = path_string (tempfs_key B @ [v])"
    using volume_paths(2) [OF assms(1,2)] by (simp add: volumePath_def)
  obtain r w' where run: "run_state (RemoveVolume f v) w = (r, w')" by fastforce
  have "removes (tempfs_key B @ [v]) (store w) (store w')"
    by (rule ensuresD [OF os_RemoveAll_spec [OF n assms(3)] refl run [unfolded RemoveVolume_def p]])
  with removes_other assms(4) run show ?thesis by fastforce
qed

theorem remove_volume_contained_witness:
  "lookup (store (snd (run_state (RemoveVolume \<lparr>baseDir = ''/b'', FixedFSGroup = None, FSGroupVolumeAttributeKey = ''''\<rparr> ''v'')
    (world0 [([''b''], inode0 Directory), ([''b'', ''inmemfs''], inode0 Directory),
      ([''b'', ''inmemfs'', ''u''], inode0 Directory), ([''b'', ''inmemfs'', ''v''], inode0 Directory)]))))
    [''b'', ''inmemfs'', ''u''] = Some (inode0 Directory)"
  by (subst remove_volume_contained [where B = "[''b'']"])
    (simp_all add: base_at_def path_string_def name_comp_def plain_comp_def world0_def is_dir_def lookup_def
      inode0_def)

text \<open>
  Identifiers are not checked: the empty identifier removes the directory of all volumes, and \<open>..\<close>
  the base directory with everything in it.
\<close>

theorem remove_volume_unchecked:
  assumes "base_at f B" and "B \<noteq> []"
  shows "run_state (RemoveVolume f '''') w = run_state (os_RemoveAll (path_string (tempfs_key B))) w \<and>
    run_state (RemoveVolume f ''..'') w = run_state (os_RemoveAll (baseDir f)) w"
proof -
  have B: "names B" "baseDir f = path_string B" using assms(1) by (simp_all add: base_at_def)
  have nt: "names (tempfs_key B)" using B(1) store_names by simp
  have t: "tempfsPath f = path_string (tempfs_key B)"
    unfolding tempfsPath_def B(2) by (rule Join_path_string_name [OF B(1) store_names(1)])
  have s: "split_on sep (path_string (tempfs_key B) @ sep # x) = '''' # tempfs_key B @ split_on sep x" for x
    using nt by (simp add: split_on_append_sep path_string_def split_join_names del: split_on.simps(2))
  have ne: "path_string (tempfs_key B) \<noteq> ''''" by (simp add: path_string_def)
  have abs: "IsAbs (path_string (tempfs_key B) @ sep # x)" for x by (simp add: IsAbs_def path_string_def)
  have "Join [path_string (tempfs_key B), ''''] = path_string (tempfs_key B)"
    using ne abs [of "''''"] s [of "''''"] clean_comps_names [OF nt, of True "[]" "['''']"]
    by (simp add: Join_def Clean_def path_string_def clean_comps_skip)
  moreover have "Join [path_string (tempfs_key B), ''..''] = path_string B"
    using ne abs [of "''..''"] s [of "''..''"] clean_comps_names [OF nt, of True "[]" "[''..'']"]
    by (simp add: Join_def Clean_def path_string_def clean_comps_skip clean_comps_back)
  ultimately show ?thesis by (simp add: RemoveVolume_def t B(2))
qed

theorem remove_volume_unchecked_witness:
  "run_state (RemoveVolume \<lparr>baseDir = ''/b'', FixedFSGroup = None, FSGroupVolumeAttributeKey = ''''\<rparr> ''..'')
    (world0 []) = run_state (os_RemoveAll ''/b'') (world0 [])"
  using remove_volume_unchecked [of "\<lparr>baseDir = ''/b'', FixedFSGroup = None, FSGroupVolumeAttributeKey = ''''\<rparr>"
    "[''b'']" "world0 []"]
  by (simp add: base_at_def path_string_def name_comp_def plain_comp_def)

section \<open>The group of the data\<close>

text \<open>
  C20. The group taken from the volume context is the decimal number in it, and it is accepted exactly when
  it lies between 1 and 4294967295. A fixed group is never checked.
\<close>

theorem fs_group_bounds:
  "fsGroupForMetadata f meta = Inr (Some g) \<longleftrightarrow>
    (case FixedFSGroup f of
       Some h \<Rightarrow> g = h
     | None \<Rightarrow> FSGroupVolumeAttributeKey f \<noteq> '''' \<and> 1 \<le> g \<and> g \<le> 4294967295 \<and>
         (\<exists>s. map_of (VolumeContext meta) (FSGroupVolumeAttributeKey f) = Some s \<and> ParseInt s = Inr g))"
proof (cases "FixedFSGroup f")
  case None
  show ?thesis
  proof (cases "map_of (VolumeContext meta) (FSGroupVolumeAttributeKey f)")
    case (Some s)
    show ?thesis by (cases "ParseInt s") (auto simp: fsGroupForMetadata_def None Some)
  qed (simp add: fsGroupForMetadata_def None)
qed (auto simp: fsGroupForMetadata_def)

lemma st_change_id:
  assumes "\<And>i. g i = i" and "st_change g s st = Inr st'"
  shows "lookup st' = lookup st"
proof -
  from assms obtain p i where "lookup st p = Some i" "st' = (if p = [] then st else store_put p i st)"
    by (auto simp: st_change_def split: sum.splits option.splits)
  then show ?thesis by (auto simp: lookup_put fun_eq_iff)
qed

text \<open>
  The largest accepted group, 4294967295, is the number that tells the kernel to leave the group as it
  is: a volume that asks for it gets no error and no change of ownership.
\<close>

theorem largest_group_ignored:
  assumes "FixedFSGroup f = None" and "FSGroupVolumeAttributeKey f = key" and "key \<noteq> ''''"
    and "map_of (VolumeContext meta) key = Some ''4294967295''"
  shows "fsGroupForMetadata f meta = Inr (Some 4294967295) \<and>
    lookup (store (snd (run_state (chown_data_dir d (Some 4294967295)) w))) = lookup (store w) \<and>
    lookup (store (snd (run_state (chown_files d 4294967295 ns) w))) = lookup (store w)"
proof (intro conjI)
  have "ParseInt ''4294967295'' = Inr 4294967295"
    by (simp add: ParseInt_def read_int_def read_uint_def digit_val_def)
  then show "fsGroupForMetadata f meta = Inr (Some 4294967295)"
    using assms by (simp add: fsGroupForMetadata_def)
  have one: "lookup (store (snd (run_state (os_Chown p (- 1) 4294967295) v))) = lookup (store v)"
    for p and v :: "'a world"
  proof -
    have spec: "ensures (\<lambda>st. lookup st = lookup (store v)) (os_Chown p (- 1) 4294967295)
        (\<lambda>_ st. lookup st = lookup (store v))"
      unfolding os_Chown_def
    proof (rule ensures_map_state, rule ensures_sys_write)
      fix st st'
      assume same: "lookup st = lookup (store v)"
        and run: "st_change (\<lambda>i. i\<lparr>uid := chown_id (- 1) (uid i), gid := chown_id 4294967295 (gid i)\<rparr>) p st = Inr st'"
      have "lookup st' = lookup st" by (rule st_change_id [OF _ run]) (simp add: chown_id_def)
      with same show "lookup st' = lookup (store v)" by simp
    qed
    obtain r v' where run: "run_state (os_Chown p (- 1) 4294967295) v = (r, v')" by fastforce
    from ensuresD [OF spec refl run] run show ?thesis by simp
  qed
  show "lookup (store (snd (run_state (chown_data_dir d (Some 4294967295)) w))) = lookup (store w)"
    using one by (simp add: chown_data_dir_def)
  show "lookup (store (snd (run_state (chown_files d 4294967295 ns) w))) = lookup (store w)"
  proof (induction ns arbitrary: w)
    case (Cons x ns)
    obtain e w1 where run: "run_state (os_Chown (Join [d, x]) (- 1) 4294967295) w = (e, w1)" by fastforce
    then have "lookup (store w1) = lookup (store w)" using one [of "Join [d, x]" w] by simp
    then show ?case using Cons [of w1] run by (simp split: option.split)
  qed simp
qed

theorem largest_group_ignored_witness:
  "fsGroupForMetadata \<lparr>baseDir = ''/b'', FixedFSGroup = None, FSGroupVolumeAttributeKey = ''gid''\<rparr>
      \<lparr>VolumeID = ''v'', TargetPath = ''/p'', VolumeContext = [(''gid'', ''4294967295'')]\<rparr> = Inr (Some 4294967295) \<and>
    lookup (store (snd (run_state (chown_data_dir ''/t'' (Some 4294967295)) (world0 store0)))) [''t''] =
      Some (inode0 Directory)"
  using largest_group_ignored [of "\<lparr>baseDir = ''/b'', FixedFSGroup = None, FSGroupVolumeAttributeKey = ''gid''\<rparr>"
    "''gid''" "\<lparr>VolumeID = ''v'', TargetPath = ''/p'', VolumeContext = [(''gid'', ''4294967295'')]\<rparr>"
    "''/t''" "world0 store0"]
  by (simp add: world0_def) (simp add: eval0)

end
