(* ===== verification/VolumeWrite.thy ===== *)
theory VolumeWrite
  imports VolumeProps
begin

unbundle bit_operations_syntax

text \<open>
  Writing the files of a volume: the data directory keeps the atomic writer's invariant, and the change of
  ownership around the write does not touch what the files hold.
\<close>

section \<open>Directories that are there already\<close>

lemma namei_dirs: "names p \<Longrightarrow> dirs_to st p \<Longrightarrow> namei st fl (path_string p) = Inr p"
  using resolve_dirs [of p st "[]" fl max_links "[]"] by (simp add: namei_path_string)

lemma os_Mkdir_existing:
  assumes "names p" and "dirs_to s0 p"
  shows "ensures (\<lambda>st. st = s0) (os_Mkdir (path_string p) m) (\<lambda>_ st. st = s0)"
proof (rule ensures_conseq [OF os_Mkdir_at [OF assms(1) spells_path_string]])
  show "namei s0 False (path_string p) = Inr k \<Longrightarrow> k = p \<and> dirs_to s0 (butlast p)" for k
    using namei_dirs [OF assms] assms(2) by (simp add: dirs_butlast)
  show "case r of None \<Rightarrow> lookup s0 p = None \<and> dirs_to s0 (butlast p) \<and>
      (\<exists>i. kind i = Directory \<and> st = store_put p i s0) | Some _ \<Rightarrow> st = s0 \<Longrightarrow> st = s0" for r :: "goerror option" and st
    using dirs_to_is_dir [OF assms(2)] by (auto simp: is_dir_def split: option.splits)
qed

lemma os_MkdirAll_existing_step:
  assumes "names p" and "dirs_to s0 p"
    and up: "ensures (\<lambda>st. st = s0) (if parent_path (path_string p) \<noteq> '''' then
      os_MkdirAll (parent_path (path_string p)) m else ret None :: ('x world, goerror option) state)
      (\<lambda>_ st. st = s0)"
  shows "ensures (\<lambda>st. st = s0) (os_MkdirAll (path_string p) m :: ('x world, goerror option) state)
    (\<lambda>_ st. st = s0)"
  unfolding os_MkdirAll.simps [of "path_string p"]
proof (rule ensures_bind [OF ensures_ro], goal_cases)
  case (2 d)
  show ?case
  proof (rule ensures_sum)
    show "ensures (\<lambda>st. st = s0) (ret (if IsDir i then None
        else Some (PathError ''mkdir'' (path_string p) ENOTDIR))) (\<lambda>_ st. st = s0)" for i
      by (rule ensures_ret)
  next
    fix e
    have rest: "ensures (\<lambda>st. st = s0) (do {
        r \<leftarrow> os_Mkdir (path_string p) m;
        case r of
          None \<Rightarrow> ret None
        | Some e \<Rightarrow> do {
            again \<leftarrow> os_Lstat (path_string p);
            case again of Inr i \<Rightarrow> ret (if IsDir i then None else Some e) | Inl _ \<Rightarrow> ret (Some e)
          }
      } :: ('x world, goerror option) state) (\<lambda>_ st. st = s0)"
      by (rule ensures_bind [OF os_Mkdir_existing [OF assms(1,2)]])
        (auto intro!: ensures_option ensures_ret ensures_bind [OF ensures_ro] ensures_sum frame_intros)
    show "ensures (\<lambda>st. st = s0) (do {
        up \<leftarrow> (if parent_path (path_string p) \<noteq> '''' then os_MkdirAll (parent_path (path_string p)) m else ret None);
        case up of Some e \<Rightarrow> ret (Some e) | None \<Rightarrow> do {
          r \<leftarrow> os_Mkdir (path_string p) m;
          case r of
            None \<Rightarrow> ret None
          | Some e \<Rightarrow> do {
              again \<leftarrow> os_Lstat (path_string p);
              case again of Inr i \<Rightarrow> ret (if IsDir i then None else Some e) | Inl _ \<Rightarrow> ret (Some e)
            }
        }
      } :: ('x world, goerror option) state) (\<lambda>_ st. st = s0)"
      by (rule ensures_bind [OF up]) (auto intro!: ensures_option ensures_ret rest)
  qed
qed (rule frame_intros)

lemma os_MkdirAll_existing:
  "names p \<Longrightarrow> dirs_to s0 p \<Longrightarrow>
    ensures (\<lambda>st. st = s0) (os_MkdirAll (path_string p) m :: ('x world, goerror option) state) (\<lambda>_ st. st = s0)"
proof (induction p rule: rev_induct)
  case Nil
  then show ?case
    using parent_spells [of "[]"] by (intro os_MkdirAll_existing_step) (auto intro: ensures_ret)
next
  case (snoc c P)
  then have "ensures (\<lambda>st. st = s0) (os_MkdirAll (path_string P) m :: ('x world, goerror option) state)
    (\<lambda>_ st. st = s0)" by (simp add: dirs_append)
  then show ?case
    using snoc.prems parent_spells [OF snoc.prems(1) spells_path_string]
    by (intro os_MkdirAll_existing_step) (auto intro: ensures_ret)
qed

section \<open>Ownership and contents\<close>

definition same_kinds :: "fstore \<Rightarrow> fstore \<Rightarrow> bool" where
  "same_kinds a b \<longleftrightarrow> (\<forall>k. map_option kind (lookup b k) = map_option kind (lookup a k))"

lemma same_kinds_refl [simp]: "same_kinds a a"
  by (simp add: same_kinds_def)

lemma same_kinds_trans: "same_kinds a b \<Longrightarrow> same_kinds b c \<Longrightarrow> same_kinds a c"
  by (simp add: same_kinds_def)

lemma same_kinds_at:
  assumes "same_kinds a b"
  shows "(lookup b k = None) = (lookup a k = None)" "is_dir b k = is_dir a k" "is_file b k x = is_file a k x"
    "current b D = current a D"
proof -
  have e: "map_option kind (lookup b k) = map_option kind (lookup a k)" for k
    using assms by (simp add: same_kinds_def)
  show "(lookup b k = None) = (lookup a k = None)" using e [of k] by (metis map_option_is_None)
  show "is_dir b k = is_dir a k" "is_file b k x = is_file a k x"
    using e [of k] by (cases "lookup a k"; cases "lookup b k"; auto simp: is_dir_def is_file_def)+
  show "current b D = current a D"
    using e [of "data_key D"]
    by (cases "lookup a (data_key D)"; cases "lookup b (data_key D)"; auto simp: current_def)
qed

lemma same_kinds_dirs: "same_kinds a b \<Longrightarrow> dirs b cur cs = dirs a cur cs"
  by (induction cs arbitrary: cur) (simp_all add: same_kinds_at)

lemma plain_below_kinds:
  "plain_below st T \<longleftrightarrow> (\<forall>k. strict_prefix T k \<longrightarrow> lookup st k = None \<or> is_dir st k \<or> (\<exists>c. is_file st k c))"
  by (fastforce simp: plain_below_def is_dir_def is_file_def)

lemma same_kinds_inv: "same_kinds a b \<Longrightarrow> writer_inv a D \<Longrightarrow> writer_inv b D"
  by (simp add: writer_inv_def plain_version_def tree_at_def area_def tree_def plain_below_kinds
      same_kinds_at same_kinds_dirs) blast

lemma same_kinds_up_to_date: "same_kinds a b \<Longrightarrow> up_to_date D es b = up_to_date D es a"
  by (simp add: up_to_date_def same_kinds_at)

lemma os_Chown_kinds:
  "ensures (\<lambda>st. same_kinds s0 st) (os_Chown p u g) (\<lambda>_ st. same_kinds s0 st)"
  unfolding os_Chown_def
proof (rule ensures_map_state, rule ensures_sys_write)
  fix st st'
  assume a: "same_kinds s0 st"
    and c: "st_change (\<lambda>i. i\<lparr>uid := chown_id u (uid i), gid := chown_id g (gid i)\<rparr>) p st = Inr st'"
  from c have "same_kinds st st'"
    by (auto simp: st_change_def same_kinds_def lookup_put split: sum.splits option.splits)
  with a show "same_kinds s0 st'" by (rule same_kinds_trans)
qed


lemma chown_data_dir_kinds:
  "ensures (\<lambda>st. same_kinds s0 st) (chown_data_dir d g) (\<lambda>_ st. same_kinds s0 st)"
  unfolding chown_data_dir_def by (intro ensures_option ensures_ret ensures_map_state os_Chown_kinds)

lemma chown_files_kinds:
  "ensures (\<lambda>st. same_kinds s0 st) (chown_files d g ns) (\<lambda>_ st. same_kinds s0 st)"
proof (induction ns)
  case Nil
  show ?case by (simp add: ensures_ret)
next
  case (Cons x ns)
  show ?case unfolding chown_files.simps
    by (rule ensures_bind [OF os_Chown_kinds]) (intro ensures_option ensures_ret Cons)
qed

section \<open>Writing files\<close>

lemma ensureVolumeDirectory_existing:
  assumes "base_at f B" and "name_comp v" and "dirs_to s0 (data_dir B v)"
  shows "ensures (\<lambda>st. st = s0) (ensureVolumeDirectory f v :: ('x world, goerror option) state)
    (\<lambda>_ st. st = s0)"
proof -
  have n: "names (volume_key B v)" "names (data_dir B v)"
    using assms(1,2) store_names by (simp_all add: base_at_def)
  have d: "dirs_to s0 (volume_key B v)"
    using assms(3) by (rule dirs_to_prefix) (simp add: prefix_def)
  show ?thesis
    unfolding ensureVolumeDirectory_def volume_paths [OF assms(1,2)]
    by (rule ensures_bind [OF os_MkdirAll_existing [OF n(1) d]])
      (intro ensures_option ensures_ret os_MkdirAll_existing [OF n(2) assms(3)])
qed

text \<open>
  A step from one version to the next, or to none: the payload is installed or the current version kept,
  and around it only owners change.
\<close>

definition version_step :: "string list \<Rightarrow> (payload \<Rightarrow> bool) \<Rightarrow> fstore \<Rightarrow> fstore \<Rightarrow> bool" where
  "version_step D P a b \<longleftrightarrow> (\<exists>s t. same_kinds a s \<and> same_kinds t b \<and>
     (kept D s t \<or> (\<exists>es. P es \<and> updated D es s t)))"

lemma version_step_before: "same_kinds a s \<Longrightarrow> version_step D P s b \<Longrightarrow> version_step D P a b"
  unfolding version_step_def by (meson same_kinds_trans)

lemma version_step_after: "version_step D P a t \<Longrightarrow> same_kinds t b \<Longrightarrow> version_step D P a b"
  unfolding version_step_def by (meson same_kinds_trans)

lemma version_step_kinds: "same_kinds a b \<Longrightarrow> version_step D P a b"
  unfolding version_step_def by (meson kept_refl same_kinds_refl)

text \<open>What a run leaves: a step of versions that keeps the invariant and reports success only when the files are there.\<close>

definition write_outcome ::
  "string list \<Rightarrow> (payload \<Rightarrow> bool) \<Rightarrow> fstore \<Rightarrow> goerror option \<Rightarrow> fstore \<Rightarrow> bool" where
  "write_outcome D P a r b \<longleftrightarrow> version_step D P a b \<and> writer_inv b D \<and>
     (r = None \<longrightarrow> (\<exists>es. P es \<and> up_to_date D es b))"

lemma write_outcome_kinds:
  "write_outcome D P a r s \<Longrightarrow> same_kinds s b \<Longrightarrow> (r' = None \<Longrightarrow> r = None) \<Longrightarrow> write_outcome D P a r' b"
  unfolding write_outcome_def
  using version_step_after same_kinds_inv same_kinds_up_to_date by blast

lemma Write_outcome:
  assumes env: "env_laws env" "GOOS env = Linux" and inv: "writer_inv s0 D" and tidy: "tidy p"
  shows "ensures (\<lambda>st. st = s0) (Write env (writer_at D) p :: ('x world, goerror option) state)
    (write_outcome D (\<lambda>es. validatePayload env p = Inr es) s0)"
proof (rule ensuresI)
  fix w w' :: "'x world" and r
  assume w: "store w = s0" and run: "run_state (Write env (writer_at D) p) w = (r, w')"
  have i: "writer_inv (store w) D" using inv w by simp
  have t: "tree (store w')"
    using state_io_relD [OF Write_tree run] i by (simp add: keeps_tree_def writer_inv_def)
  from Write_cases [OF env i tidy run]
  show "write_outcome D (\<lambda>es. validatePayload env p = Inr es) s0 r (store w')"
  proof
    assume k: "kept D (store w) (store w') \<and> (r = None \<longrightarrow> store w' = store w \<and>
      (\<exists>es. validatePayload env p = Inr es \<and> up_to_date D es (store w)))"
    then have "writer_inv (store w') D" using kept_inv [OF i _ t] by simp
    with k w show ?thesis
      unfolding write_outcome_def version_step_def by (metis same_kinds_refl)
  next
    assume "\<exists>es. validatePayload env p = Inr es \<and> updated D es (store w) (store w')"
    then obtain es where es: "validatePayload env p = Inr es" "updated D es (store w) (store w')" by blast
    have "writer_inv (store w') D"
      using updated_inv [OF _ _ t] es validatePayload_good [OF env(1) tidy es(1)] i
      by (auto simp: writer_inv_def)
    moreover have "up_to_date D es (store w')" using es(2) updated_up_to_date by auto
    ultimately show ?thesis
      using es w unfolding write_outcome_def version_step_def by (metis same_kinds_refl)
  qed
qed

abbreviation chown_written ::
  "writer_env \<Rightarrow> string \<Rightarrow> int option \<Rightarrow> file_map \<Rightarrow> ('x world, goerror option) state" where
  "chown_written env d g fs \<equiv> (case g of None \<Rightarrow> ret None | Some g \<Rightarrow>
     chown_files (Join [d, ''..data'']) g (set_order env (map fst fs)))"

lemma NewAtomicWriter_cases:
  "ensures (\<lambda>st. st = s0) (NewAtomicWriter d :: ('x world, goerror + AtomicWriter) state)
    (\<lambda>r st. st = s0 \<and> (\<forall>w. r = Inr w \<longrightarrow> w = \<lparr>targetDir = d\<rparr>))"
  unfolding NewAtomicWriter_def
  by (rule ensures_bind [OF os_Stat_spec], rule ensures_ret) (auto split: sum.splits if_splits)

lemma write_payload_outcome:
  assumes "env_laws env" and "GOOS env = Linux" and inv: "writer_inv s0 D" and "tidy (makePayload fs)"
  shows "ensures (\<lambda>st. st = s0) (write_payload env (path_string D) g fs :: ('x world, goerror option) state)
    (write_outcome D (\<lambda>es. validatePayload env (makePayload fs) = Inr es) s0)"
    (is "ensures _ _ (write_outcome D ?P s0)")
proof -
  have failed: "write_outcome D ?P s0 (Some e) s0" for e
    using inv by (simp add: write_outcome_def version_step_kinds)
  have chown: "ensures (\<lambda>st. st = s1) (chown_written env (path_string D) g fs :: ('x world, goerror option) state) (write_outcome D ?P s0)"
    if "write_outcome D ?P s0 None s1" for s1
  proof (rule ensures_conseq [where P = "same_kinds s1" and Q = "\<lambda>r. same_kinds s1"])
    show "ensures (same_kinds s1) (chown_written env (path_string D) g fs :: ('x world, goerror option) state) (\<lambda>r. same_kinds s1)"
      by (intro ensures_option ensures_ret chown_files_kinds)
  qed (auto intro: write_outcome_kinds [OF that])
  have body: "ensures (\<lambda>st. st = s0) (do {
        e \<leftarrow> Write env (writer_at D) (makePayload fs);
        case e of
          Some err \<Rightarrow> ret (Some err)
        | None \<Rightarrow> chown_written env (path_string D) g fs
      } :: ('x world, goerror option) state) (write_outcome D ?P s0)"
  proof (rule ensures_bind [OF Write_outcome [OF assms]], rule ensures_any)
    fix e s1
    assume "write_outcome D ?P s0 e s1"
    then show "ensures (\<lambda>st. st = s1) ((case e of
          Some err \<Rightarrow> ret (Some err)
        | None \<Rightarrow> chown_written env (path_string D) g fs) :: ('x world, goerror option) state) (write_outcome D ?P s0)"
      using chown by (cases e) (auto intro: ensures_ret)
  qed
  show ?thesis
    unfolding write_payload_def
  proof (rule ensures_bind [OF NewAtomicWriter_cases], rule ensures_any, elim conjE)
    fix a :: "goerror + AtomicWriter" and st
    assume "st = s0" and "\<forall>w. a = Inr w \<longrightarrow> w = writer_at D"
    then show "ensures (\<lambda>t. t = st) ((case a of Inl err \<Rightarrow> ret (Some err) | Inr writer \<Rightarrow> do {
        e \<leftarrow> Write env writer (makePayload fs);
        case e of
          Some err \<Rightarrow> ret (Some err)
        | None \<Rightarrow> chown_written env (path_string D) g fs
      }) :: ('x world, goerror option) state) (write_outcome D ?P s0)"
      using body failed by (cases a) (auto intro: ensures_ret)
  qed
qed

lemma WriteFiles_outcome:
  assumes env: "env_laws env" "GOOS env = Linux" and at: "base_at f B" "name_comp (VolumeID meta)"
    and inv: "writer_inv s0 (data_dir B (VolumeID meta))" and tidy: "tidy (makePayload fs)"
  shows "ensures (\<lambda>st. st = s0) (WriteFiles env f meta fs :: ('x world, goerror option) state)
    (write_outcome (data_dir B (VolumeID meta)) (\<lambda>es. validatePayload env (makePayload fs) = Inr es) s0)"
    (is "ensures _ _ (write_outcome ?D ?P s0)")
proof -
  have d: "dirs_to s0 ?D" using inv by (simp add: writer_inv_def)
  have failed: "write_outcome ?D ?P s0 (Some e) s1" if "same_kinds s0 s1" for e s1
    using same_kinds_inv [OF that inv] that by (simp add: write_outcome_def version_step_kinds)
  have written: "ensures (\<lambda>st. st = s1)
      (write_payload env (path_string ?D) g fs :: ('x world, goerror option) state) (write_outcome ?D ?P s0)"
    if "same_kinds s0 s1" for g s1
    by (rule ensures_conseq [OF write_payload_outcome [OF env same_kinds_inv [OF that inv] tidy]])
      (auto simp: write_outcome_def intro: version_step_before [OF that])
  show ?thesis
    unfolding WriteFiles_def Let_def volume_paths [OF at]
  proof (rule ensures_bind [OF ensureVolumeDirectory_existing [OF at d]], intro ensures_option ensures_sum, goal_cases)
    case (2 e g)
    show ?case
    proof (rule ensures_bind [where R = "\<lambda>_ st. same_kinds s0 st"], goal_cases)
      case 1
      show ?case by (rule ensures_conseq [OF chown_data_dir_kinds [of s0]]) auto
    next
      case (2 r)
      show ?case
        by (rule ensures_any) (auto intro!: ensures_option ensures_ret failed written)
    qed
  qed (auto intro!: ensures_ret failed)
qed

text \<open>
  C14. Writing the files of a registered volume, whichever system calls fail: the files of the current
  version stay as they are or the data link moves to a new directory with the whole payload; the data
  directory keeps its invariant; and without an error the current version holds every file.
\<close>

theorem filesystem_write_files:
  assumes "env_laws env" and "GOOS env = Linux" and "base_at f B" and "name_comp (VolumeID meta)"
    and "writer_inv (store w) (data_dir B (VolumeID meta))" and "tidy (makePayload fs)"
    and "run_state (WriteFiles env f meta fs) w = (r, w')"
  shows "version_step (data_dir B (VolumeID meta)) (\<lambda>es. validatePayload env (makePayload fs) = Inr es)
      (store w) (store w') \<and>
    writer_inv (store w') (data_dir B (VolumeID meta)) \<and>
    (r = None \<longrightarrow> (\<exists>es. validatePayload env (makePayload fs) = Inr es \<and>
       up_to_date (data_dir B (VolumeID meta)) es (store w')))"
  using ensuresD [OF WriteFiles_outcome [OF assms(1-6)] refl assms(7)] by (simp add: write_outcome_def)

text \<open>The concrete volume \<open>v\<close> below \<open>/b\<close>, without data.\<close>

definition volume0 :: fstore where
  "volume0 = [([''b''], inode0 Directory), ([''b'', ''inmemfs''], inode0 Directory),
     ([''b'', ''inmemfs'', ''v''], inode0 Directory), ([''b'', ''inmemfs'', ''v'', ''data''], inode0 Directory)]"

definition filesystem0 :: Filesystem where
  "filesystem0 = \<lparr>baseDir = ''/b'', FixedFSGroup = Some 7, FSGroupVolumeAttributeKey = ''''\<rparr>"

definition metadata0 :: Metadata where
  "metadata0 = \<lparr>VolumeID = ''v'', TargetPath = ''/p'', VolumeContext = []\<rparr>"

lemma volume0_inv: "writer_inv volume0 [''b'', ''inmemfs'', ''v'', ''data'']"
proof -
  have "tree volume0"
    by (rule treeI) (simp add: volume0_def eval0 name_comp_def plain_comp_def)
  then show ?thesis
    by (simp add: writer_inv_def) (simp add: volume0_def eval0 name_comp_def plain_comp_def)
qed

theorem filesystem_write_files_witness:
  "writer_inv (store (snd (run_state (WriteFiles env0 filesystem0 metadata0 [(''token'', ''1'')])
    (world0 volume0)))) [''b'', ''inmemfs'', ''v'', ''data'']"
proof -
  obtain r w' where run: "run_state (WriteFiles env0 filesystem0 metadata0 [(''token'', ''1'')]) (world0 volume0) =
    (r, w')" by fastforce
  have at: "base_at filesystem0 [''b'']" "name_comp (VolumeID metadata0)"
    by (simp_all add: base_at_def filesystem0_def metadata0_def path_string_def name_comp_def plain_comp_def)
  have inv: "writer_inv (store (world0 volume0)) (data_dir [''b''] (VolumeID metadata0))"
    using volume0_inv by (simp add: world0_def metadata0_def)
  have "Clean ''token'' = ''token''" by code_simp
  then have tidy: "tidy (makePayload [(''token'', ''1'')])"
    by (simp add: tidy_def makePayload_def hidden_def HasPrefix_def)
  show ?thesis
    using filesystem_write_files [OF env0_laws at inv tidy run] run by (simp add: metadata0_def)
qed

end
