(* ===== verification/StoreLive.thy ===== *)
theory StoreLive
  imports TreeInv StoreOps
begin

unbundle bit_operations_syntax

text \<open>
  When no system call fails: \<open>works P m Q\<close> says that from a store with \<open>P\<close> every run of \<open>m\<close> without faults
  ends with \<open>Q\<close>. Here the calls on plain paths are shown to succeed whenever the store lets them; what they
  then have done is what \<open>ensures\<close> says of them.
\<close>

section \<open>Rules\<close>

definition faultless :: "'x world \<Rightarrow> bool" where
  "faultless w \<longleftrightarrow> (\<forall>n. faults w n = None)"

definition works ::
  "(fstore \<Rightarrow> bool) \<Rightarrow> ('x world, 'a) state \<Rightarrow> ('a \<Rightarrow> fstore \<Rightarrow> bool) \<Rightarrow> bool" where
  "works P m Q \<longleftrightarrow> (\<forall>w r w'. faultless w \<longrightarrow> P (store w) \<longrightarrow> run_state m w = (r, w') \<longrightarrow>
     faultless w' \<and> Q r (store w'))"

lemma worksD:
  "works P m Q \<Longrightarrow> faultless w \<Longrightarrow> P (store w) \<Longrightarrow> run_state m w = (r, w') \<Longrightarrow> faultless w' \<and> Q r (store w')"
  by (simp add: works_def)

lemma works_ensures:
  assumes "state_io_rel same_env m" and "ensures P m Q"
  shows "works P m Q"
  unfolding works_def
proof (intro allI impI)
  fix w r w'
  assume w: "faultless w" "P (store w)" and run: "run_state m w = (r, w')"
  have "faults w' = faults w" using same_envD [OF assms(1) run] by simp
  with w(1) have "faultless w'" by (simp add: faultless_def)
  with ensuresD [where P = P and Q = Q, OF assms(2) w(2) run] show "faultless w' \<and> Q r (store w')" by simp
qed

lemma works_and:
  assumes "works P m Q" and "ensures P m R"
  shows "works P m (\<lambda>r st. Q r st \<and> R r st)"
  unfolding works_def
proof (intro allI impI)
  fix w r w'
  assume w: "faultless w" "P (store w)" and run: "run_state m w = (r, w')"
  show "faultless w' \<and> Q r (store w') \<and> R r (store w')"
    using worksD [OF assms(1) w run] ensuresD [OF assms(2) w(2) run] by simp
qed

lemma worksI:
  "(\<And>w r w'. faultless w \<Longrightarrow> P (store w) \<Longrightarrow> run_state m w = (r, w') \<Longrightarrow> faultless w' \<and> Q r (store w')) \<Longrightarrow>
    works P m Q"
  by (simp add: works_def)

lemma works_and_works:
  assumes "works P m Q" and "works P m R"
  shows "works P m (\<lambda>r st. Q r st \<and> R r st)"
  by (rule worksI) (use worksD [OF assms(1)] worksD [OF assms(2)] in simp)

lemma works_conseq:
  assumes "works P m Q" and "\<And>st. P' st \<Longrightarrow> P st" and "\<And>r st. Q r st \<Longrightarrow> Q' r st"
  shows "works P' m Q'"
  by (rule worksI) (use worksD [OF assms(1)] assms(2,3) in simp)

lemma works_ret: "(\<And>st. P st \<Longrightarrow> Q x st) \<Longrightarrow> works P (ret x) Q"
  by (rule worksI) simp

lemma works_bind:
  assumes "works P m R" and "\<And>a. works (R a) (f a) Q"
  shows "works P (State_Monad.bind m f) Q"
proof (rule worksI)
  fix w r w'
  assume w: "faultless w" "P (store w)" and run: "run_state (State_Monad.bind m f) w = (r, w')"
  obtain a v where m: "run_state m w = (a, v)" by fastforce
  with run have f: "run_state (f a) v = (r, w')" by simp
  from worksD [OF assms(1) w m] have "faultless v" "R a (store v)" by simp_all
  from worksD [OF assms(2) this f] show "faultless w' \<and> Q r (store w')" .
qed

lemma works_any:
  assumes "\<And>s1. R s1 \<Longrightarrow> works (\<lambda>st. st = s1) m Q"
  shows "works R m Q"
  by (rule worksI) (use worksD [OF assms] in simp)

lemma works_map_state:
  assumes "works P m (\<lambda>r. Q (f r))"
  shows "works P (map_state f m) Q"
proof (rule worksI)
  fix w r w'
  assume w: "faultless w" "P (store w)" and "run_state (map_state f m) w = (r, w')"
  then have "run_state m w = (fst (run_state m w), w')" and r: "r = f (fst (run_state m w))"
    by (auto simp: prod_eq_iff)
  from worksD [OF assms w this(1)] r show "faultless w' \<and> Q r (store w')" by simp
qed

lemma works_sys_write:
  assumes "\<And>st. P st \<Longrightarrow> case f st of Inl e \<Rightarrow> Q (Some e) st | Inr st' \<Rightarrow> Q None st'"
  shows "works P (sys_write f) Q"
proof (rule worksI)
  fix w r w'
  assume w: "faultless w" "P (store w)" and "run_state (sys_write f) w = (r, w')"
  then show "faultless w' \<and> Q r (store w')"
    using assms [OF w(2)] by (auto simp: faultless_def sys_write_def Let_def split: sum.splits)
qed

lemma works_sys_update:
  assumes "\<And>st. P st \<Longrightarrow> case f st of Inl e \<Rightarrow> Q (Inl e) st | Inr (a, st') \<Rightarrow> Q (Inr a) st'"
  shows "works P (sys_update f) Q"
proof (rule worksI)
  fix w r w'
  assume w: "faultless w" "P (store w)" and "run_state (sys_update f) w = (r, w')"
  then show "faultless w' \<and> Q r (store w')"
    using assms [OF w(2)] by (auto simp: faultless_def sys_update_def Let_def split: sum.splits)
qed

lemma works_sys_read:
  assumes "\<And>st. P st \<Longrightarrow> Q (f st) st"
  shows "works P (sys_read f) Q"
proof (rule worksI)
  fix w r w'
  assume w: "faultless w" "P (store w)" and "run_state (sys_read f) w = (r, w')"
  then show "faultless w' \<and> Q r (store w')"
    using assms [OF w(2)] by (auto simp: faultless_def sys_read_def)
qed

lemma works_env:
  assumes "\<And>u. works P (g u) Q"
  shows "works P (State (\<lambda>w. run_state (g (umask w)) w)) Q"
  by (rule worksI) (use worksD [OF assms] in simp)

text \<open>The next step after a call that cannot fail here.\<close>

lemma works_ok:
  assumes "works P m (\<lambda>r st. r = x \<and> R st)" and "works R (f x) Q"
  shows "works P (State_Monad.bind m f) Q"
proof (rule works_bind [OF assms(1)], rule works_any, elim conjE)
  fix a s1
  assume "a = x" and "R s1"
  show "works (\<lambda>st. st = s1) (f a) Q"
    unfolding \<open>a = x\<close> by (rule works_conseq [OF assms(2)]) (use \<open>R s1\<close> in auto)
qed

lemma works_assoc:
  "works P (State_Monad.bind (State_Monad.bind m f) g) Q \<Longrightarrow>
    works P (State_Monad.bind m (\<lambda>a. State_Monad.bind (f a) g)) Q"
  by simp

section \<open>Where plain paths lead\<close>

lemma tree_dirs_to: "tree st \<Longrightarrow> is_dir st p \<Longrightarrow> dirs_to st p"
proof (induction p rule: rev_induct)
  case (snoc c p)
  have "is_dir st p" using is_dir_butlast [OF snoc.prems] by simp
  with snoc show ?case by (simp add: dirs_to_snoc)
qed simp

lemma tree_dirs_above: "tree st \<Longrightarrow> lookup st p \<noteq> None \<Longrightarrow> dirs_to st (butlast p)"
  using tree_parent [of st p] tree_dirs_to [of st "butlast p"] by (cases "p = []") simp_all

lemma namei_dir: "names p \<Longrightarrow> dirs_to st p \<Longrightarrow> spells s p \<Longrightarrow> namei st fl s = Inr p"
  using resolve_dirs [of p st "[]" fl max_links "[]"] resolve_dirs [of p st "[]" fl max_links "['''']"]
  by (auto simp: spells_def namei_path_string namei_path_string_slash)

lemma namei_leaf:
  assumes "names p" and "dirs_to st (butlast p)" and "\<not> is_link st p"
  shows "namei st fl (path_string p) = Inr p"
proof (cases p rule: rev_cases)
  case Nil
  then show ?thesis using namei_dir [of "[]" st] by simp
next
  case (snoc P c)
  then show ?thesis
    using assms resolve_dirs [of P st "[]" fl max_links "[c]"]
    by (simp add: namei_path_string resolve_last_nolink)
qed

text \<open>A path whose components are directories or missing leads to its key, or it does not exist.\<close>

lemma resolve_open:
  assumes "names cs" and "\<And>q. q \<noteq> [] \<Longrightarrow> strict_prefix q cs \<Longrightarrow> lookup st (cur @ q) = None \<or> is_dir st (cur @ q)"
    and "\<not> is_link st (cur @ cs)"
  shows "resolve st fl n cur cs = Inr (cur @ cs) \<or>
    (resolve st fl n cur cs = Inl ENOENT \<and> (\<exists>q. strict_prefix q cs \<and> lookup st (cur @ q) = None))"
  using assms
proof (induction cs arbitrary: cur)
  case (Cons c cs)
  have c: "name_comp c" and cs: "names cs" using Cons.prems(1) by auto
  show ?case
  proof (cases "cs = []")
    case True
    then show ?thesis using resolve_last_nolink [OF c] Cons.prems(3) by simp
  next
    case False
    then have "lookup st (cur @ [c]) = None \<or> is_dir st (cur @ [c])"
      using Cons.prems(2) [of "[c]"] by (auto simp: strict_prefix_def)
    then show ?thesis
    proof
      assume n: "lookup st (cur @ [c]) = None"
      then have "resolve st fl n cur (c # cs) = Inl ENOENT"
        using c False by (auto simp: resolve.simps(2) dest: name_compD)
      moreover have "strict_prefix [c] (c # cs)" using False by (simp add: strict_prefix_def)
      ultimately show ?thesis using n by blast
    next
      assume d: "is_dir st (cur @ [c])"
      then have r: "resolve st fl n cur (c # cs) = resolve st fl n (cur @ [c]) cs"
        using resolve_dirs [of "[c]" st cur fl n cs] c by simp
      have "resolve st fl n (cur @ [c]) cs = Inr ((cur @ [c]) @ cs) \<or>
          (resolve st fl n (cur @ [c]) cs = Inl ENOENT \<and>
            (\<exists>q. strict_prefix q cs \<and> lookup st ((cur @ [c]) @ q) = None))"
      proof (rule Cons.IH [OF cs])
        show "lookup st ((cur @ [c]) @ q) = None \<or> is_dir st ((cur @ [c]) @ q)"
          if "q \<noteq> []" "strict_prefix q cs" for q
          using Cons.prems(2) [of "c # q"] that by simp
        show "\<not> is_link st ((cur @ [c]) @ cs)" using Cons.prems(3) by simp
      qed
      then show ?thesis
      proof (elim disjE conjE exE)
        fix q
        assume "resolve st fl n (cur @ [c]) cs = Inl ENOENT" "strict_prefix q cs"
          "lookup st ((cur @ [c]) @ q) = None"
        then have "strict_prefix (c # q) (c # cs) \<and> lookup st (cur @ c # q) = None" by simp
        with r \<open>resolve st fl n (cur @ [c]) cs = Inl ENOENT\<close> show ?thesis by metis
      qed (use r in simp)
    qed
  qed
qed simp

section \<open>Names in a directory\<close>

lemma os_Symlink_works:
  assumes "names (D @ [c])" and "dirs_to s0 D" and "lookup s0 (D @ [c]) = None" and "t \<noteq> ''''"
  shows "works (\<lambda>st. st = s0) (os_Symlink t (path_string (D @ [c])))
    (\<lambda>r st. r = None \<and> st = store_put (D @ [c]) (link_to t) s0)"
  unfolding os_Symlink_def
  by (rule works_map_state, rule works_sys_write)
    (use assms in \<open>simp add: st_symlink_def st_create_def namei_in_dir\<close>)

lemma os_Readlink_works:
  assumes "names (D @ [c])" and "dirs_to s0 D"
  shows "works (\<lambda>st. st = s0) (os_Readlink (path_string (D @ [c])))
    (\<lambda>r st. st = s0 \<and> (case lookup s0 (D @ [c]) of
       None \<Rightarrow> \<exists>e. r = Inl e \<and> IsNotExist e
     | Some i \<Rightarrow> (case kind i of Symlink t \<Rightarrow> r = Inr t | _ \<Rightarrow> \<exists>e. r = Inl e \<and> \<not> IsNotExist e)))"
  unfolding os_Readlink_def
  by (rule works_map_state, rule works_sys_read)
    (use namei_in_dir [OF assms] in
      \<open>auto simp: lift_err_def st_get_def split: option.splits fkind.splits\<close>)

lemma os_Remove_works:
  assumes "names (D @ [c])" and "dirs_to s0 D" and "lookup s0 (D @ [c]) \<noteq> None"
    and "\<not> is_dir s0 (D @ [c])"
  shows "works (\<lambda>st. st = s0) (os_Remove (path_string (D @ [c])))
    (\<lambda>r st. r = None \<and> st = store_del (D @ [c]) s0)"
proof -
  have "works (\<lambda>st. st = s0) (sys_write (st_unlink (path_string (D @ [c]))))
      (\<lambda>r st. r = None \<and> st = store_del (D @ [c]) s0)"
    by (rule works_sys_write)
      (use assms namei_in_dir [OF assms(1,2)] in \<open>auto simp: st_unlink_def is_dir_def\<close>)
  then show ?thesis
    unfolding os_Remove_def by (rule works_ok) (auto intro: works_ret)
qed

lemma os_Rename_works:
  assumes "names (D @ [a])" and "names (D @ [b])" and "dirs_to s0 D" and "a \<noteq> b"
    and "lookup s0 (D @ [a]) = Some i" and "kind i \<noteq> Directory" and "\<not> is_dir s0 (D @ [b])"
  shows "works (\<lambda>st. st = s0) (os_Rename (path_string (D @ [a])) (path_string (D @ [b])))
    (\<lambda>r st. r = None \<and> st = store_put (D @ [b]) i (store_del (D @ [a]) s0))"
proof -
  let ?old = "path_string (D @ [a])" and ?new = "path_string (D @ [b])"
  note na = namei_in_dir [OF assms(1,3)] and nb = namei_in_dir [OF assms(2,3)]
  have ren: "st_rename ?old ?new s0 = Inr (store_put (D @ [b]) i (store_del (D @ [a]) s0))"
    using na nb assms(4-7) by (auto simp: st_rename_def st_key_def is_dir_def split: option.split)
  have q: "works (\<lambda>st. st = s0) (sys_read (st_key ?new))
      (\<lambda>r st. st = s0 \<and> (\<forall>k x. r = Inr (k, x) \<longrightarrow> \<not> IsDir x))"
    by (rule works_sys_read)
      (use nb assms(7) in \<open>auto simp: st_key_def is_dir_def IsDir_iff split: option.splits\<close>)
  show ?thesis
    unfolding os_Rename_def
  proof (rule works_bind [OF q], rule works_ok [where x = None and R = "\<lambda>st. st = s0"], goal_cases)
    case (1 n)
    show ?case by (rule worksI) (auto split: sum.splits)
  next
    case (2 n)
    show ?case
      unfolding option.case by (rule works_map_state, rule works_sys_write) (use ren in auto)
  qed
qed

section \<open>Directories\<close>

lemma os_Mkdir_works:
  assumes "names p" and "spells s p" and "dirs_to s0 (butlast p)" and "lookup s0 p = None"
  shows "works (\<lambda>st. st = s0) (os_Mkdir s m) (\<lambda>r st. r = None)"
proof -
  have name: "(if s \<noteq> '''' \<and> strip_slashes s = '''' then ''/'' else strip_slashes s) = path_string p"
    using strip_spells [OF assms(1,2)] .
  have "namei s0 False (path_string p) = Inr p"
    by (rule namei_leaf [OF assms(1,3)]) (simp add: is_link_def assms(4))
  then have "works (\<lambda>st. st = s0) (map_state (map_option (PathError ''mkdir'' s))
      (sys_write (st_mkdir (m AND NOT u) s))) (\<lambda>r st. r = None)" for u
    by (intro works_map_state works_sys_write)
      (use name assms(4) in \<open>simp add: st_mkdir_def st_create_def\<close>)
  then show ?thesis unfolding os_Mkdir_def by (rule works_env)
qed

lemma os_Mkdir_exists_works:
  assumes "names (D @ [c])" and "dirs_to s0 D" and "lookup s0 (D @ [c]) \<noteq> None"
  shows "works (\<lambda>st. st = s0) (os_Mkdir (path_string (D @ [c])) m)
    (\<lambda>r st. r = Some (PathError ''mkdir'' (path_string (D @ [c])) EEXIST) \<and> st = s0)"
proof -
  let ?s = "path_string (D @ [c])"
  have name: "(if ?s \<noteq> '''' \<and> strip_slashes ?s = '''' then ''/'' else strip_slashes ?s) = ?s"
    using strip_spells [OF assms(1), of ?s] by simp
  have "works (\<lambda>st. st = s0) (map_state (map_option (PathError ''mkdir'' ?s))
      (sys_write (st_mkdir (m AND NOT u) ?s)))
      (\<lambda>r st. r = Some (PathError ''mkdir'' ?s EEXIST) \<and> st = s0)" for u
    by (intro works_map_state works_sys_write)
      (use name assms(3) namei_in_dir [OF assms(1,2)] in \<open>auto simp: st_mkdir_def st_create_def\<close>)
  then show ?thesis unfolding os_Mkdir_def by (rule works_env)
qed

text \<open>On the way from \<open>T\<close> to \<open>p\<close> nothing but directories is in the way.\<close>

definition clear_way :: "fstore \<Rightarrow> string list \<Rightarrow> string list \<Rightarrow> bool" where
  "clear_way st T p \<longleftrightarrow>
     (\<forall>q. prefix q p \<longrightarrow> strict_prefix T q \<longrightarrow> lookup st q = None \<or> is_dir st q)"

lemma not_prefix_butlast: "p \<noteq> [] \<Longrightarrow> \<not> prefix p (butlast p)"
  by (cases p rule: rev_cases) (auto dest: prefix_length_le)

lemma clear_way_butlast: "clear_way st T p \<Longrightarrow> clear_way st T (butlast p)"
  unfolding clear_way_def using prefix_order.trans [OF _ prefixeq_butlast] by blast

lemma os_Stat_works:
  "works (\<lambda>st. st = s0) (os_Stat s)
    (\<lambda>r st. st = s0 \<and> r = lift_err (PathError ''stat'' s) (st_get True s s0))"
  unfolding os_Stat_def by (rule works_map_state, rule works_sys_read) simp

lemma os_Lstat_works:
  "works (\<lambda>st. st = s0) (os_Lstat s)
    (\<lambda>r st. st = s0 \<and> r = lift_err (PathError ''lstat'' s) (st_get False s s0))"
  unfolding os_Lstat_def by (rule works_map_state, rule works_sys_read) simp

lemma missing_or_dir:
  assumes "tree s0" and "on_area s0 T p" and "clear_way s0 T p" and "\<not> dirs_to s0 p"
  shows "lookup s0 p = None"
proof (rule ccontr)
  assume l: "lookup s0 p \<noteq> None"
  have "is_dir s0 p"
  proof (cases "strict_prefix T p")
    case True
    with assms(3) l show ?thesis by (auto simp: clear_way_def)
  next
    case False
    with assms(2) have "prefix p T" by (auto simp: on_area_def strict_prefix_def)
    with assms(2) show ?thesis
      by (auto simp: on_area_def area_def intro: dirs_to_is_dir dirs_to_prefix)
  qed
  with assms(1,4) tree_dirs_to show False by blast
qed

lemma os_MkdirAll_works:
  assumes "tree s0" and "on_area s0 T p" and "spells s p" and "clear_way s0 T p"
  shows "works (\<lambda>st. st = s0) (os_MkdirAll s m :: ('x world, goerror option) state) (\<lambda>r st. r = None)"
  using assms
proof (induction s m arbitrary: p rule: os_MkdirAll.induct)
  case (1 s m)
  note IH = 1(1) and t = 1(2) and oa = 1(3) and sp = 1(4) and cw = 1(5)
  note np = on_area_path [OF oa]
  let ?P = "butlast p"
  let ?up = "(if parent_path s \<noteq> '''' then os_MkdirAll (parent_path s) m else ret None)
      :: ('x world, goerror option) state"
  show ?case
  proof (cases "dirs_to s0 p")
    case True
    then obtain i where "st_get True s s0 = Inr i" "IsDir i"
      using namei_dir [OF np True sp] dirs_to_is_dir [OF True]
      by (auto simp: st_get_def is_dir_def IsDir_iff)
    then show ?thesis
      unfolding os_MkdirAll.simps [of s m]
      by (intro works_bind [OF os_Stat_works], intro worksI) (auto simp: lift_err_def)
  next
    case False
    then have none: "lookup s0 p = None" using missing_or_dir [OF t oa cw] by blast
    then have ne: "p \<noteq> []" by (auto simp: lookup_def)
    have st: "\<exists>e. st_get True s s0 = Inl e"
      using st_get_spells [OF oa sp, of True] none by (cases "st_get True s s0") auto
    have up: "works (\<lambda>st. st = s0) ?up (\<lambda>r st. r = None \<and> grows T ?P s0 st \<and> dirs_to st ?P)"
    proof (cases "parent_path s = ''''")
      case True
      then have "?P = []" using parent_spells [OF np sp] by (auto simp: path_string_def split: if_splits)
      with True show ?thesis by (auto intro: works_ret)
    next
      case False
      then have ps: "parent_path s = path_string ?P" using parent_spells [OF np sp] by (simp split: if_splits)
      have sP: "spells (parent_path s) ?P" by (simp add: ps)
      from works_and [OF IH [OF False t on_area_butlast [OF oa] sP clear_way_butlast [OF cw]]
          os_MkdirAll_spec [OF on_area_butlast [OF oa] sP]]
      have "works (\<lambda>st. st = s0) (os_MkdirAll (parent_path s) m :: ('x world, goerror option) state)
          (\<lambda>r st. r = None \<and> grows T ?P s0 st \<and> dirs_to st ?P)"
        by (rule works_conseq) auto
      with False show ?thesis by simp
    qed
    have mk: "works (\<lambda>st. grows T ?P s0 st \<and> dirs_to st ?P) (os_Mkdir s m) (\<lambda>r st. r = None)"
    proof (rule works_any, elim conjE)
      fix s1
      assume g: "grows T ?P s0 s1" and d: "dirs_to s1 ?P"
      have "\<not> prefix p ?P" by (rule not_prefix_butlast [OF ne])
      with g none have "lookup s1 p = None" unfolding grows_def by metis
      then show "works (\<lambda>st. st = s1) (os_Mkdir s m) (\<lambda>r st. r = None)"
        by (rule os_Mkdir_works [OF np sp d])
    qed
    show ?thesis
      unfolding os_MkdirAll.simps [of s m]
    proof (rule works_bind [OF os_Stat_works], rule works_any, elim conjE)
      fix a st
      assume a: "st = s0" "a = lift_err (PathError ''stat'' s) (st_get True s s0)"
      then obtain e where e: "a = Inl e" using st by (auto simp: lift_err_def)
      show "works (\<lambda>t. t = st) (case a of
          Inr i \<Rightarrow> ret (if IsDir i then None else Some (PathError ''mkdir'' s ENOTDIR))
        | Inl _ \<Rightarrow> do { up \<leftarrow> ?up; case up of Some e \<Rightarrow> ret (Some e) | None \<Rightarrow> do {
              r \<leftarrow> os_Mkdir s m;
              case r of
                None \<Rightarrow> ret None
              | Some e \<Rightarrow> do {
                  again \<leftarrow> os_Lstat s;
                  case again of Inr i \<Rightarrow> ret (if IsDir i then None else Some e) | Inl _ \<Rightarrow> ret (Some e)
                }
            } }) (\<lambda>r st. r = None)"
        unfolding a(1) e sum.case
        by (rule works_ok [OF up], unfold option.case, rule works_ok [OF works_conseq [OF mk]])
          (auto intro: works_ret)
    qed
  qed
qed

section \<open>Files\<close>

text \<open>A place for a file: its directory is there, and nothing or a regular file is at its name.\<close>

definition file_slot :: "fstore \<Rightarrow> string list \<Rightarrow> bool" where
  "file_slot st p \<longleftrightarrow> names p \<and> dirs_to st (butlast p) \<and>
     (lookup st p = None \<or> (\<exists>c. is_file st p c))"

lemma file_slot_namei: "file_slot st p \<Longrightarrow> namei st fl (path_string p) = Inr p"
  by (rule namei_leaf) (auto simp: file_slot_def is_file_def is_link_def)

lemma os_WriteFile_works:
  assumes "file_slot s0 p"
  shows "works (\<lambda>st. st = s0) (os_WriteFile (path_string p) c m) (\<lambda>r st. r = None)"
proof -
  note n = file_slot_namei [OF assms, of True]
  have op: "works (\<lambda>st. st = s0)
      (State (\<lambda>w. run_state (sys_update (st_open_trunc (path_string p) ((m AND 0x1FF) AND NOT (umask w)))) w))
      (\<lambda>r st. r = Inr p \<and> True)"
    by (rule works_env [where g = "\<lambda>u. sys_update (st_open_trunc (path_string p) ((m AND 0x1FF) AND NOT u))"],
        rule works_sys_update)
      (use n assms in \<open>auto simp: st_open_trunc_def file_slot_def is_file_def\<close>)
  show ?thesis
    unfolding os_WriteFile_def
    by (rule works_ok [OF op], unfold sum.case, rule works_map_state, rule works_sys_write)
      (simp add: st_write_at_def split: option.split fkind.split)
qed

lemma st_change_works:
  assumes "file_slot s0 p \<or> (names p \<and> dirs_to s0 p)" and "lookup s0 p \<noteq> None"
  shows "works (\<lambda>st. st = s0) (map_state (map_option f) (sys_write (st_change g (path_string p))))
    (\<lambda>r st. r = None)"
proof -
  have "namei s0 True (path_string p) = Inr p"
    using assms(1) file_slot_namei namei_dir [OF _ _ spells_path_string] by blast
  then show ?thesis
    using assms(2) by (intro works_map_state works_sys_write) (auto simp: st_change_def)
qed

lemma os_Chmod_works:
  assumes "file_slot s0 p \<or> (names p \<and> dirs_to s0 p)" and "lookup s0 p \<noteq> None"
  shows "works (\<lambda>st. st = s0) (os_Chmod (path_string p) m) (\<lambda>r st. r = None)"
  unfolding os_Chmod_def by (rule st_change_works [OF assms])

lemma os_Chown_works:
  assumes "file_slot s0 p \<or> (names p \<and> dirs_to s0 p)" and "lookup s0 p \<noteq> None"
  shows "works (\<lambda>st. st = s0) (os_Chown (path_string p) u g) (\<lambda>r st. r = None)"
  unfolding os_Chown_def by (rule st_change_works [OF assms])

lemma os_ReadFile_works:
  assumes "file_slot s0 p" and "is_file s0 p c"
  shows "works (\<lambda>st. st = s0) (os_ReadFile (path_string p)) (\<lambda>r st. st = s0 \<and> r = Inr c)"
proof -
  obtain i where i: "lookup s0 p = Some i" "kind i = Regular c" using assms(2) by (auto simp: is_file_def)
  have "works (\<lambda>st. st = s0) (sys_read (st_get True (path_string p))) (\<lambda>r st. r = Inr i \<and> st = s0)"
    by (rule works_sys_read) (simp add: st_get_def file_slot_namei [OF assms(1)] i(1))
  then show ?thesis
    unfolding os_ReadFile_def
    by (rule works_ok, unfold sum.case, intro works_map_state works_sys_read)
      (simp add: lift_err_def i(2))
qed

section \<open>Temporary directories\<close>

lemma try_names_works:
  assumes D: "names D" "dirs_to s0 D" and nm: "\<And>n. name_comp (pattern @ rnd n)"
    and free: "\<exists>m < n. lookup s0 (D @ [pattern @ rnd m]) = None"
  shows "works (\<lambda>st. st = s0) (try_names n rnd (path_string D) pattern :: ('x world, goerror + string) state)
    (\<lambda>r st. \<exists>s. r = Inr s)"
  using free
proof (induction n)
  case (Suc n)
  let ?c = "pattern @ rnd n"
  have name: "join_path (path_string D) pattern @ rnd n = path_string (D @ [?c])"
    using join_path_string [OF D(1) nm] .
  have nms: "names (D @ [?c])" using D nm by simp
  show ?case
  proof (cases "lookup s0 (D @ [?c])")
    case None
    have "works (\<lambda>st. st = s0) (os_Mkdir (path_string (D @ [?c])) 0x1C0) (\<lambda>r st. r = None \<and> True)"
      using os_Mkdir_works [OF nms spells_path_string _ None] D(2) by simp
    then show ?thesis
      unfolding try_names.simps Let_def name by (rule works_ok) (auto intro: works_ret)
  next
    case (Some i)
    have "works (\<lambda>st. st = s0) (try_names n rnd (path_string D) pattern :: ('x world, goerror + string) state)
        (\<lambda>r st. \<exists>s. r = Inr s)"
      by (rule Suc.IH) (use Suc.prems Some less_Suc_eq in auto)
    then show ?thesis
      unfolding try_names.simps Let_def name
      by (intro works_ok [OF os_Mkdir_exists_works [OF nms D(2)]]) (simp_all add: Some)
  qed
qed simp

section \<open>Removing a tree\<close>

text \<open>The keys are taken from the deepest up, so a directory is empty when its turn comes.\<close>

lemma store_del_keys: "fst ` set (store_del k st) = fst ` set st - {k}"
  unfolding store_del_def by (metis delete_keys image_set set_removeAll)

lemma remove_keys_works:
  assumes "sorted_wrt (\<lambda>a b. length b \<le> length a) ks" and "[] \<notin> set ks"
    and "\<forall>k \<in> set ks. \<forall>k' \<in> fst ` set s0. strict_prefix k k' \<longrightarrow> k' \<in> set ks"
  shows "works (\<lambda>st. st = s0) (remove_keys ks :: ('x world, errno option) state) (\<lambda>r st. r = None)"
  using assms
proof (induction ks arbitrary: s0)
  case Nil
  show ?case by (auto intro: works_ret)
next
  case (Cons k ks)
  let ?f = "\<lambda>st. case lookup st k of None \<Rightarrow> Inr st
      | Some i \<Rightarrow> if kind i = Directory then rmdir_at k st else Inr (store_del k st)"
  have ne: "k \<noteq> []" using Cons.prems(2) by auto
  have "\<not> strict_prefix k k'" if k': "k' \<in> fst ` set s0" for k'
  proof
    assume s: "strict_prefix k k'"
    then have "length k < length k'" by (rule prefix_length_less)
    moreover have "k' \<in> set (k # ks)" using bspec [OF bspec [OF Cons.prems(3), of k] k'] s by simp
    then have "length k' \<le> length k" using Cons.prems(1) by auto
    ultimately show False by simp
  qed
  then have empty: "\<not> has_entries k s0" by (force simp: has_entries_def list_ex_iff)
  have gone: "k \<notin> fst ` set s0" if "lookup s0 k = None"
    using that ne by (simp add: lookup_def map_of_eq_None_iff)
  have one: "works (\<lambda>st. st = s0) (sys_write ?f)
      (\<lambda>r st. r = None \<and> fst ` set st = fst ` set s0 - {k})"
  proof (rule works_sys_write, goal_cases)
    case (1 st)
    show ?case
      unfolding 1 using gone store_del_keys [of k s0] ne empty
      by (auto simp: rmdir_at_def split: option.split)
  qed
  show ?case
    unfolding remove_keys.simps
  proof (rule works_ok [OF one], rule works_any)
    fix s1 :: fstore
    assume s1: "fst ` set s1 = fst ` set s0 - {k}"
    have "works (\<lambda>st. st = s1) (remove_keys ks :: ('x world, errno option) state) (\<lambda>r st. r = None)"
      by (rule Cons.IH) (use Cons.prems s1 in auto)
    then have "works (\<lambda>st. st = s1) (remove_keys ks :: ('x world, errno option) state)
        (\<lambda>r st. r = None \<and> True)" by simp
    then show "works (\<lambda>st. st = s1) (do { rs \<leftarrow> remove_keys ks;
          ret (case None of Some e \<Rightarrow> Some e | None \<Rightarrow> rs) } :: ('x world, errno option) state)
        (\<lambda>r st. r = None)"
      by (rule works_ok) (auto intro: works_ret)
  qed
qed

lemma works_option:
  "(x = None \<Longrightarrow> works P m Q) \<Longrightarrow> (\<And>a. x = Some a \<Longrightarrow> works P (f a) Q) \<Longrightarrow>
    works P (case x of None \<Rightarrow> m | Some a \<Rightarrow> f a) Q"
  by (simp split: option.split)

lemma works_if:
  "(b \<Longrightarrow> works P m Q) \<Longrightarrow> (\<not> b \<Longrightarrow> works P n Q) \<Longrightarrow> works P (if b then m else n) Q"
  by simp

lemma subtree_keys_works:
  assumes "p \<noteq> []"
  shows "works (\<lambda>st. st = s0) (remove_keys (subtree_keys s0 p) :: ('x world, errno option) state)
    (\<lambda>r st. r = None)"
proof (rule remove_keys_works)
  have "sorted_wrt (\<lambda>a b. length a \<le> length b) (sort_key length (filter (prefix p) (map fst s0)))"
    using sorted_sort_key [of length "filter (prefix p) (map fst s0)"] by (simp add: sorted_wrt_map)
  then show "sorted_wrt (\<lambda>a b. length b \<le> length a) (subtree_keys s0 p)"
    by (simp add: subtree_keys_def sorted_wrt_rev)
  show "[] \<notin> set (subtree_keys s0 p)" using assms by (auto dest: subtree_keys_prefix)
  show "\<forall>k \<in> set (subtree_keys s0 p). \<forall>k' \<in> fst ` set s0. strict_prefix k k' \<longrightarrow>
      k' \<in> set (subtree_keys s0 p)"
    by (auto simp: subtree_keys_def strict_prefix_def intro: prefix_order.trans)
qed

text \<open>\<open>os.Remove\<close> succeeds, or it leaves everything as it is.\<close>

lemma os_Remove_tries:
  assumes "names (D @ [c])" and "dirs_to s0 D"
  shows "works (\<lambda>st. st = s0) (os_Remove (path_string (D @ [c]))) (\<lambda>r st. r = None \<or> st = s0)"
proof -
  note n = namei_in_dir [OF assms]
  have call: "works (\<lambda>st. st = s0) (sys_write f) (\<lambda>r st. r = None \<or> st = s0)" for f
    by (rule works_sys_write) (simp split: sum.split)
  show ?thesis
    unfolding os_Remove_def
  proof (rule works_bind [OF call], rule works_option, goal_cases)
    case (2 a e)
    show ?case
    proof (rule works_bind [where R = "\<lambda>r st. r = None \<or> st = s0"], rule works_conseq [OF call], goal_cases)
      case (3 x)
      show ?case by (rule works_ret) auto
    qed (use 2 in auto)
  qed (auto intro: works_ret)
qed

lemma path_string_no_dot: "names (D @ [c]) \<Longrightarrow> \<not> ends_with_dot (path_string (D @ [c]))"
proof
  assume n: "names (D @ [c])" and "ends_with_dot (path_string (D @ [c]))"
  then have "suffix ''/.'' (path_string (D @ [c]))" by (auto simp: ends_with_dot_def path_string_def)
  then obtain pre where pre: "path_string (D @ [c]) = pre @ sep # ''.''" by (auto simp: suffix_def)
  have "Split (path_string (D @ [c])) = (pre @ [sep], ''.'')" unfolding pre by (rule Split_last) simp
  moreover have "snd (Split (path_string (D @ [c]))) = c" using Split_path_string [of c D] n by simp
  ultimately show False using n by (auto dest: name_compD)
qed

lemma os_RemoveAll_works:
  assumes "names (D @ [c])" and "dirs_to s0 D"
  shows "works (\<lambda>st. st = s0) (os_RemoveAll (path_string (D @ [c])) :: ('x world, goerror option) state)
    (\<lambda>r st. r = None)"
proof -
  let ?p = "D @ [c]" and ?s = "path_string (D @ [c])"
  note n = namei_in_dir [OF assms]
  have read: "works (\<lambda>st. st = s0) (sys_read (\<lambda>st. case namei st False ?s of
      Inl e \<Rightarrow> Inl e | Inr p \<Rightarrow> Inr (subtree_keys st p)))
      (\<lambda>r st. r = Inr (subtree_keys s0 ?p) \<and> st = s0)"
    by (rule works_sys_read) (simp add: n)
  have drop: "works (\<lambda>st. st = s0)
      (map_state (map_option (PathError ''unlinkat'' ?s)) (remove_keys (subtree_keys s0 ?p))
        :: ('x world, goerror option) state) (\<lambda>r st. r = None)"
    by (rule works_map_state, rule works_conseq [OF subtree_keys_works]) auto
  show ?thesis
    unfolding os_RemoveAll_def
  proof (intro works_if works_ret, goal_cases)
    case 3
    show ?case
    proof (rule works_bind [OF os_Remove_tries [OF assms]], rule works_option, goal_cases)
      case (1 a)
      show ?case by (rule works_ret) simp
    next
      case (2 a e)
      show ?case
      proof (rule works_if, goal_cases)
        case 1
        show ?case by (rule works_ret) simp
      next
        case 2
        show ?case
          by (rule works_conseq [OF works_ok [OF read]]) (use drop \<open>a = Some e\<close> in simp_all)
      qed
    qed
  qed (use path_string_no_dot [OF assms(1)] in auto)
qed

end
