(* ===== verification/PayloadPaths.thy ===== *)
theory PayloadPaths
  imports VolumeProps
begin

text \<open>
  What the validation of payload paths in \<open>third_party/util/atomic_writer.go\<close> guarantees, what it lets through,
  and the loop over the parents of a path.
\<close>

section \<open>Validated paths\<close>

lemma validate_entries_clean:
  "validate_entries p acc = Inr es \<Longrightarrow> \<forall>k \<in> fst ` set acc. k = ''.'' \<or> ok_path k \<Longrightarrow>
    \<forall>k \<in> fst ` set es. k = ''.'' \<or> ok_path k"
proof (induction p acc rule: validate_entries.induct)
  case (2 k content rest clean)
  have v: "validatePath k = None" using 2(2) by (auto split: option.splits)
  have "\<forall>k \<in> fst ` set (AList.update (Clean k) content clean). k = ''.'' \<or> ok_path k"
    using 2(3) validatePath_clean [OF v] by (auto simp: dom_update)
  with 2 v show ?case by simp
qed simp

text \<open>
  C23. A validated path stays below the directory it is joined to, whatever the payload: the joined path is the
  directory's own path, or that path extended by plain names.
\<close>

theorem validated_paths_below:
  assumes "validatePayload env p = Inr es" and "names T" and "T \<noteq> []" and "e \<in> set es"
  shows "\<exists>q. names q \<and> Join [path_string T, fst e] = path_string (T @ q)"
proof -
  have "fst e = ''.'' \<or> ok_path (fst e)"
    using validate_entries_clean [OF assms(1) [unfolded validatePayload_def]] assms(4) by auto
  then show ?thesis
  proof
    assume dot: "fst e = ''.''"
    have "split_on sep (path_string T @ sep # ''.'') = '''' # T @ [''.'']"
      using assms(2,3) split_on_no_sep [of sep "''.''"]
      by (simp add: split_on_append_sep path_string_def split_join_names del: split_on.simps(2))
    then have "Join [path_string T, ''.''] = path_string T"
      using clean_comps_names [OF assms(2), of True "[]" "[''.'']"]
      by (simp add: Join_def Clean_def IsAbs_def path_string_def clean_comps_skip)
    then show ?thesis using dot by (intro exI [of _ "[]"]) simp
  next
    assume "ok_path (fst e)"
    then show ?thesis
      using Join_ok_path [OF assms(2)] by (intro exI [of _ "split_on sep (fst e)"]) (simp add: ok_path_def pkey_def)
  qed
qed

theorem validated_paths_below_witness:
  "\<exists>q. names q \<and> Join [path_string [''t''], ''d/k''] = path_string ([''t''] @ q)"
proof -
  have v: "validatePayload env0 (payload0 ''1'') = Inr [(''token'', file0 ''1''), (''d/k'', file0 ''2'')]"
    by code_simp
  show ?thesis
    using validated_paths_below [OF v, of "[''t'']" "(''d/k'', file0 ''2'')"] names0(1) by simp
qed

text \<open>
  The check for names that start with two dots looks at the path before it is cleaned: \<open>./\<close> in front of such
  a name, \<open>..data_tmp\<close> for one, is accepted and cleaned to the name that the check refuses.
\<close>

theorem dot_slash_bypasses_check:
  assumes "name_comp n" and "hidden n" and "length n \<le> 255"
  shows "validatePath n \<noteq> None \<and> validatePath (''./'' @ n) = None \<and> Clean (''./'' @ n) = n"
proof -
  have n: "n \<noteq> ''''" "n \<noteq> ''.''" "n \<noteq> ''..''" "sep \<notin> set n" using name_compD [OF assms(1)] by simp_all
  have s1: "split_on sep n = [n]" using n(4) by (rule split_on_no_sep)
  have s2: "split_on sep (''./'' @ n) = [''.'', n]"
    using split_on_append [of sep "''.''" n] s1 by (simp del: split_on.simps(2))
  have ab: "\<not> IsAbs n" "\<not> IsAbs (''./'' @ n)" using n(1,4) by (auto simp: IsAbs_def dest: hd_in_set)
  have l: "length n > 2"
  proof -
    obtain r where r: "n = ''..'' @ r" using assms(2) by (auto simp: hidden_def HasPrefix_iff prefix_def)
    with n(3) show ?thesis by (cases r) auto
  qed
  have "validatePath n \<noteq> None"
    unfolding validatePath_def s1 Let_def using n ab l assms(2,3)
    by (auto simp: check_item_def hidden_def split: option.split)
  moreover have "validatePath (''./'' @ n) = None"
    unfolding validatePath_def s2 Let_def using n ab(2) assms(3)
    by (simp add: check_item_def HasPrefix_def)
  moreover have "Clean (''./'' @ n) = n"
    unfolding Clean_def s2 using ab(2) n
    by (simp add: clean_comps_skip clean_comps_keep plain_comp_def)
  ultimately show ?thesis by simp
qed

theorem dot_slash_bypasses_check_witness:
  "validatePath ''./..data_tmp'' = None \<and> Clean ''./..data_tmp'' = ''..data_tmp''"
  using dot_slash_bypasses_check [of "''..data_tmp''"] names0(7) by (simp add: hidden_def HasPrefix_def)

section \<open>The parents of a path\<close>

lemma TrimSuffix_sep: "TrimSuffix (s @ [sep]) [sep] = s"
  by (simp add: TrimSuffix_def)

lemma subpaths_Nil: "subpaths '''' = []"
  by (simp add: subpaths.simps [of "''''"])

lemma subpaths_name: "name_comp c \<Longrightarrow> subpaths c = [c]"
proof -
  assume "name_comp c"
  then have c: "c \<noteq> ''''" "sep \<notin> set c" using name_compD by blast+
  then have "takeWhile (\<lambda>x. x \<noteq> sep) (rev c) = rev c" by (simp add: takeWhile_eq_all_conv) blast
  then have "Split c = ('''', c)" unfolding Split_def by (simp only: Let_def rev_rev_ident) simp
  then show ?thesis using c(1) by (simp add: subpaths.simps [of c] TrimSuffix_def subpaths_Nil)
qed

lemma subpaths_round:
  assumes "names (cs @ [c])" and "cs \<noteq> []"
  shows "subpaths (join_on sep (cs @ [c])) = join_on sep (cs @ [c]) # subpaths (join_on sep cs)"
proof -
  have "sep \<notin> set c" using assms(1) by (auto dest: name_compD)
  then have "Split (join_on sep (cs @ [c])) = (join_on sep cs @ [sep], c)"
    using assms(2) by (simp add: join_on_snoc Split_last)
  moreover have "join_on sep (cs @ [c]) \<noteq> ''''" using assms(2) by (simp add: join_on_snoc)
  ultimately show ?thesis
    by (subst subpaths.simps) (simp add: TrimSuffix_sep)
qed

lemma subpaths_names:
  "names cs \<Longrightarrow> subpaths (join_on sep cs) = map (\<lambda>n. join_on sep (take n cs)) (rev [1..<Suc (length cs)])"
proof (induction cs rule: rev_induct)
  case Nil
  show ?case by (simp add: subpaths_Nil)
next
  case (snoc c cs)
  have "map (\<lambda>n. join_on sep (take n (cs @ [c]))) (rev [1..<Suc (length cs)]) =
      map (\<lambda>n. join_on sep (take n cs)) (rev [1..<Suc (length cs)])"
    by (rule map_cong) auto
  then show ?case
    using snoc subpaths_round [OF snoc.prems] subpaths_name [of c] by (cases "cs = []") simp_all
qed

lemma subpaths_length: "length (subpaths p) \<le> length p"
proof (induction p rule: subpaths.induct)
  case (1 p)
  then show ?case using Split_dir_shorter [of p] by (cases "p = ''''") (simp_all add: subpaths_Nil subpaths.simps [of p])
qed

text \<open>
  C40. The loop over the parents of a file's path ends, for every path, after no more rounds than the path has
  characters; for a cleaned path it makes one round for each component, and visits the path and its parents.
\<close>

theorem parent_loop_ends:
  "length (subpaths p) \<le> length p \<and>
   (names cs \<longrightarrow> subpaths (join_on sep cs) = map (\<lambda>n. join_on sep (take n cs)) (rev [1..<Suc (length cs)]))"
  using subpaths_length subpaths_names by blast

theorem parent_loop_ends_witness: "subpaths ''d/e/k'' = [''d/e/k'', ''d/e'', ''d'']"
proof -
  have "names [''d'', ''e'', ''k'']" by (simp add: name_comp_def plain_comp_def)
  then have "subpaths (join_on sep [''d'', ''e'', ''k'']) =
      map (\<lambda>n. join_on sep (take n [''d'', ''e'', ''k''])) (rev [1..<Suc (length [''d'', ''e'', ''k''])])"
    using parent_loop_ends [of "''''"] by blast
  moreover have "rev [1..<Suc (length [''d'', ''e'', ''k''])] = [3, 2, 1]" by code_simp
  ultimately show ?thesis by simp
qed

section \<open>The fuel of a walk\<close>

text \<open>A walk goes one key deeper with each unit of fuel, so a bound on the length of keys bounds the fuel.\<close>

definition depth_bound :: "fstore \<Rightarrow> nat \<Rightarrow> bool" where
  "depth_bound st m \<longleftrightarrow> (\<forall>k. lookup st k \<noteq> None \<longrightarrow> length k \<le> m)"

lemma walk_more_fuel:
  fixes w :: "'x world"
  assumes t: "tree_at s0 R" and b: "depth_bound s0 m"
  shows "\<And>q w. names q \<Longrightarrow> path = path_string (R @ q) \<Longrightarrow> lookup s0 (R @ q) \<noteq> None \<Longrightarrow>
      m < length (R @ q) + n \<Longrightarrow> store w = s0 \<Longrightarrow>
      run_state (walk (Suc n) path i :: ('x world, string list) state) w = run_state (walk n path i) w"
    and "\<And>q w. names q \<Longrightarrow> path = path_string (R @ q) \<Longrightarrow>
      \<forall>x \<in> set ns. name_comp x \<and> lookup s0 (R @ q @ [x]) \<noteq> None \<Longrightarrow>
      m < Suc (length (R @ q)) + n \<Longrightarrow> store w = s0 \<Longrightarrow>
      run_state (walk_names (Suc n) path ns :: ('x world, string list) state) w = run_state (walk_names n path ns) w"
proof (induction n path i and n path ns rule: walk_walk_names.induct)
  case (1 path i)
  then show ?case using b by (force simp: depth_bound_def)
next
  case (2 n path i)
  show ?case
  proof (cases "IsDir i")
    case True
    obtain a w1 where a: "run_state (readDirNames path) w = (a, w1)" by fastforce
    from ensuresD [OF readDirNames_spec [OF t 2(2)] 2(6)] a 2(3)
    have w1: "store w1 = s0"
      and ns: "\<And>ns. a = Inr ns \<Longrightarrow> \<forall>x \<in> set ns. name_comp x \<and> lookup s0 (R @ q @ [x]) \<noteq> None"
      by auto
    show ?thesis
    proof (cases a)
      case (Inr ns1)
      have "run_state (walk_names (Suc n) path ns1) w1 = run_state (walk_names n path ns1) w1"
        by (rule 2(1) [OF _ 2(2,3) ns [OF Inr] _ w1]) (use True 2(5) in auto)
      then show ?thesis
        using True a Inr by (simp add: walk.simps(2) [of _ path i])
    qed (use True a in \<open>simp add: walk.simps(2) [of _ path i]\<close>)
  qed simp
next
  case (3 n path)
  then show ?case by simp
next
  case (4 n path x ns)
  have x: "name_comp x" "lookup s0 (R @ q @ [x]) \<noteq> None" using 4(5) by auto
  have nR: "names (R @ q)" using t 4(3) by (simp add: tree_at_def)
  have j: "Join [path, x] = path_string (R @ (q @ [x]))"
    using Join_path_string_name [OF nR x(1)] 4(4) by simp
  have nq: "names (q @ [x])" using 4(3) x(1) by simp
  obtain f w1 where f: "run_state (os_Lstat (Join [path, x])) w = (f, w1)" by fastforce
  have w1: "store w1 = s0" using ensuresD [OF os_Lstat_spec 4(7) f] by simp
  have first: "run_state (walk (Suc n) (Join [path, x]) i) w1 = run_state (walk n (Join [path, x]) i) w1"
    if "f = Inr i" for i
    by (rule 4(1) [OF refl that nq j _ _ w1]) (use x 4(6) in auto)
  define here :: "('x world, string list) state"
    where "here = (case f of Inl e \<Rightarrow> ret [Join [path, x]] | Inr i \<Rightarrow> walk n (Join [path, x]) i)"
  obtain h w2 where h: "run_state here w1 = (h, w2)" by fastforce
  have "state_io_rel same_store here"
    unfolding here_def by (cases f) (auto intro: walk_ro_aux ro.io_rules)
  from state_io_relD [OF this h] have w2: "store w2 = s0" using w1 by (simp add: same_store_def)
  have rest: "run_state (walk_names (Suc n) path ns) w2 = run_state (walk_names n path ns) w2"
    by (rule 4(2) [OF refl 4(3,4) _ 4(6) w2]) (use 4(5) in simp)
  show ?case
    using f h first rest unfolding here_def
    by (cases f) (simp_all add: Let_def)
qed

lemma fold_max_le: "x \<in> set xs \<or> x \<le> a \<Longrightarrow> x \<le> fold max xs (a :: nat)"
  by (induction xs arbitrary: a) (auto simp: max.coboundedI1 max.coboundedI2)

lemma depth_bound_fuel: "depth_bound st (fold max (map (\<lambda>(k, _). length k) st) 0)"
  unfolding depth_bound_def
proof (intro allI impI)
  fix k
  assume "lookup st k \<noteq> None"
  show "length k \<le> fold max (map (\<lambda>(k, _). length k) st) 0"
  proof (cases "k = []")
    case False
    with \<open>lookup st k \<noteq> None\<close> have "k \<in> fst ` set st" using lookup_keys by blast
    then show ?thesis by (intro fold_max_le disjI1) force
  qed simp
qed

lemma walk_fuel_enough:
  assumes "tree_at (store w) R"
  shows "run_state (walk (walk_fuel (store w) + j) (path_string R) i) w =
    run_state (walk (walk_fuel (store w)) (path_string R) i) w"
proof (induction j)
  case (Suc j)
  let ?m = "fold max (map (\<lambda>(k, _). length k) (store w)) 0"
  have "is_dir (store w) R" using assms by (auto simp: tree_at_def area_def dest: dirs_to_is_dir)
  then have "lookup (store w) (R @ []) \<noteq> None" by (auto simp: is_dir_def)
  moreover have "?m < length (R @ []) + (walk_fuel (store w) + j)" by (simp add: walk_fuel_def)
  ultimately have "run_state (walk (Suc (walk_fuel (store w) + j)) (path_string R) i) w =
      run_state (walk (walk_fuel (store w) + j) (path_string R) i) w"
    by (intro walk_more_fuel(1) [OF assms depth_bound_fuel, of "[]"]) simp_all
  with Suc show ?case by simp
qed simp

end
