(* ===== verification/AtomicLive.thy ===== *)
theory AtomicLive
  imports AtomicTheorems StoreLive PayloadPaths
begin

text \<open>
  The atomic writer when no system call fails: each step succeeds, under conditions on the store that a
  successful \<open>Write\<close> brings about itself. So an update is not only safe but goes through, and so does
  the next one.
\<close>

section \<open>Writing the files\<close>

lemma ensures_tree: "state_io_rel keeps_tree m \<Longrightarrow> ensures tree m (\<lambda>_. tree)"
  by (rule ensuresI) (auto simp: keeps_tree_def dest!: state_io_relD)

lemma dirs_touched: "touched p a b \<Longrightarrow> dirs_to a (butlast p) \<Longrightarrow> p \<noteq> [] \<Longrightarrow> dirs_to b (butlast p)"
proof (rule dirs_cong)
  fix k
  assume t: "touched p a b" and p: "p \<noteq> []" and "prefix k ([] @ butlast p)"
  then have "k \<noteq> p" by (cases p rule: rev_cases) (auto dest: prefix_length_le)
  then show "lookup b k = lookup a k" using t by (simp add: touched_def)
qed

lemma write_file_works:
  assumes a: "area s0 T" and t: "tree s0" and T: "names T" and k: "ok_path k"
    and way: "clear_way s0 T (butlast (pkey T k))" and free: "\<not> is_dir s0 (pkey T k)"
  shows "works (\<lambda>st. st = s0) (write_file (path_string T) k fp) (\<lambda>r st. r = None)"
proof -
  let ?p = "pkey T k" and ?P = "butlast (pkey T k)"
  have oa: "on_area s0 T ?p" using on_area_pkey [OF a T k] .
  have np: "names ?p" by (rule on_area_path [OF oa])
  have ne: "?p \<noteq> []" by (simp add: pkey_def)
  have strict: "strict_prefix T ?p" by (rule pkey_strict)
  have full: "Join [path_string T, k] = path_string ?p" using Join_ok_path [OF T k] .
  note sp = Split_spells [OF np ne]
  have mk: "works (\<lambda>st. st = s0) (os_MkdirAll (fst (Split (path_string ?p))) 0x1FF)
      (\<lambda>r st. r = None \<and> grows T ?P s0 st \<and> dirs_to st ?P)"
    by (rule works_conseq [OF works_and [OF os_MkdirAll_works [OF t on_area_butlast [OF oa] sp way]
          os_MkdirAll_spec [OF on_area_butlast [OF oa] sp]]]) auto
  have slot: "file_slot st ?p" "on_area st T ?p" if g: "grows T ?P s0 st" and d: "dirs_to st ?P" for st
  proof -
    have "\<not> prefix ?p ?P" by (rule not_prefix_butlast [OF ne])
    with g have "lookup st ?p = lookup s0 ?p" unfolding grows_def by metis
    then have "lookup st ?p = None \<or> (\<exists>c. is_file st ?p c)"
      using area_inode [OF a strict] free by (fastforce simp: is_dir_def is_file_def)
    with np d grows_on_area [OF g oa] show "file_slot st ?p" "on_area st T ?p"
      by (simp_all add: file_slot_def)
  qed
  have own: "works (\<lambda>st. st = s2) (case fp_FsUser fp of
        None \<Rightarrow> ret None | Some u \<Rightarrow> os_Chown (path_string ?p) u (- 1)) (\<lambda>r st. r = None)"
    if "file_slot s2 ?p" "lookup s2 ?p \<noteq> None" for s2
    using os_Chown_works [OF disjI1 [OF that(1)] that(2)] by (cases "fp_FsUser fp") (auto intro: works_ret)
  have mode: "works (\<lambda>st. st = s1) (os_Chmod (path_string ?p) (fp_Mode fp))
      (\<lambda>r st. r = None \<and> file_slot st ?p \<and> lookup st ?p \<noteq> None)"
    if s: "file_slot s1 ?p" and f: "is_file s1 ?p c" and oa1: "on_area s1 T ?p" for s1 c
  proof -
    have l: "lookup s1 ?p \<noteq> None" using f by (auto simp: is_file_def)
    have "file_slot (store_put ?p (i\<lparr>perm := m\<rparr>) s1) ?p" if i: "lookup s1 ?p = Some i" for i m
    proof -
      have kd: "kind (i\<lparr>perm := m\<rparr>) = Regular c" using f i by (auto simp: is_file_def)
      have "dirs_to (store_put ?p (i\<lparr>perm := m\<rparr>) s1) ?P"
        by (rule dirs_touched [OF touched_put [OF ne kd] _ ne]) (use s in \<open>simp add: file_slot_def\<close>)
      then show ?thesis using np kd by (auto simp: file_slot_def is_file_def lookup_put ne)
    qed
    then show ?thesis
      by (intro works_conseq [OF works_and [OF os_Chmod_works [OF disjI1 [OF s] l] os_Chmod_spec [OF oa1 ne]]])
        (auto simp: lookup_put ne)
  qed
  have wr: "works (\<lambda>st. st = s1) (os_WriteFile (path_string ?p) (fp_Data fp) (fp_Mode fp))
      (\<lambda>r st. r = None \<and> file_slot st ?p \<and> is_file st ?p (fp_Data fp) \<and> on_area st T ?p)"
    if s: "file_slot s1 ?p" and oa1: "on_area s1 T ?p" for s1
  proof -
    have "file_slot st ?p \<and> on_area st T ?p"
      if "touched ?p s1 st" "is_file st ?p c" for st c
      using that s oa1 dirs_touched [OF that(1) _ ne] touched_area [OF that(1) _ strict]
      by (auto simp: file_slot_def on_area_def)
    then show ?thesis
      by (intro works_conseq [OF works_and [OF os_WriteFile_works [OF s] os_WriteFile_spec [OF oa1 strict]]]) auto
  qed
  show ?thesis
    unfolding write_file_def Let_def full
    apply (rule works_ok [OF mk], unfold option.case, rule works_any, elim conjE)
    apply (rule works_ok [OF wr [OF slot]], assumption+, unfold option.case, rule works_any, elim conjE)
    apply (rule works_ok [OF mode], assumption+, unfold option.case, rule works_any, elim conjE)
    by (rule own)
qed

text \<open>No path of the payload is a directory above another one.\<close>

definition conflict_free :: "payload \<Rightarrow> bool" where
  "conflict_free es \<longleftrightarrow> (\<forall>a \<in> fst ` set es. \<forall>b \<in> fst ` set es.
     \<not> strict_prefix (split_on sep a) (split_on sep b))"

lemma pkey_strict_iff: "strict_prefix (pkey T a) (pkey T b) \<longleftrightarrow> strict_prefix (split_on sep a) (split_on sep b)"
  by (simp add: pkey_def strict_prefix_def)

text \<open>Below the new directory there are files of the payload and directories above them, nothing else.\<close>

definition layout :: "string list \<Rightarrow> payload \<Rightarrow> fstore \<Rightarrow> bool" where
  "layout T all st \<longleftrightarrow> (\<forall>k. strict_prefix T k \<longrightarrow> lookup st k = None \<or>
     (is_dir st k \<and> (\<exists>e \<in> set all. strict_prefix k (pkey T (fst e)))) \<or>
     ((\<exists>c. is_file st k c) \<and> k \<in> pkeys T all))"

lemma filled_layout:
  assumes "filled T (pkey T (fst e)) a b" and "layout T all a" and "e \<in> set all"
  shows "layout T all b"
  unfolding layout_def
proof (intro allI impI)
  fix k
  assume k: "strict_prefix T k"
  show "lookup b k = None \<or> (is_dir b k \<and> (\<exists>e \<in> set all. strict_prefix k (pkey T (fst e)))) \<or>
     ((\<exists>c. is_file b k c) \<and> k \<in> pkeys T all)"
  proof (cases "lookup b k = lookup a k")
    case True
    then show ?thesis using assms(2) k by (auto simp: layout_def is_dir_def is_file_def)
  next
    case False
    show ?thesis
    proof (cases "k = pkey T (fst e)")
      case True
      then have "\<exists>c. is_file b k c" using assms(1) False by (auto simp: filled_def)
      with True assms(3) show ?thesis by (auto simp: pkeys_def)
    next
      case ne: False
      then have "is_dir b k" "prefix k (pkey T (fst e))"
        using assms(1) False unfolding filled_def by blast+
      with ne assms(3) show ?thesis by (auto simp: strict_prefix_def)
    qed
  qed
qed

lemma layout_way:
  assumes "layout T all st" and "conflict_free all" and e: "e \<in> set all"
  shows "clear_way st T (butlast (pkey T (fst e)))" and "\<not> is_dir st (pkey T (fst e))"
proof -
  let ?p = "pkey T (fst e)"
  have cf: "\<not> strict_prefix (pkey T (fst x)) (pkey T (fst y))" if "x \<in> set all" "y \<in> set all" for x y
    using assms(2) that unfolding conflict_free_def pkey_strict_iff by blast
  have l: "lookup st k = None \<or> (is_dir st k \<and> (\<exists>e \<in> set all. strict_prefix k (pkey T (fst e)))) \<or>
     ((\<exists>c. is_file st k c) \<and> k \<in> pkeys T all)" if "strict_prefix T k" for k
    using assms(1) that unfolding layout_def by blast
  show "clear_way st T (butlast ?p)"
    unfolding clear_way_def
  proof (intro allI impI)
    fix q
    assume q: "prefix q (butlast ?p)" "strict_prefix T q"
    have "?p \<noteq> []" by (simp add: pkey_def)
    then have "strict_prefix q ?p" using strict_prefix_butlast q(1) prefix_order.le_less_trans by blast
    then have "q \<notin> pkeys T all" using cf [OF _ e] unfolding pkeys_def by blast
    with l [OF q(2)] show "lookup st q = None \<or> is_dir st q" by blast
  qed
  show "\<not> is_dir st ?p"
    using l [OF pkey_strict, of "fst e"] cf e by (auto simp: is_dir_def is_file_def)
qed

lemma write_file_tree: "state_io_rel keeps_tree (write_file dir k fp)"
  unfolding write_file_def Let_def
  by (intro tr.io_rules os_MkdirAll_tree os_WriteFile_tree os_Chmod_tree os_Chown_tree)

lemma write_files_works:
  assumes "area s0 T" and "tree s0" and "names T" and "layout T all s0" and "conflict_free all"
    and "set es \<subseteq> set all" and "\<forall>e \<in> set es. ok_path (fst e)"
  shows "works (\<lambda>st. st = s0) (write_files es (path_string T) :: ('x world, goerror option) state)
    (\<lambda>r st. r = None)"
  using assms
proof (induction es arbitrary: s0)
  case Nil
  show ?case by (auto intro: works_ret)
next
  case (Cons e es)
  obtain k fp where e: "e = (k, fp)" by fastforce
  have ok: "ok_path k" and mem: "(k, fp) \<in> set all" using Cons.prems(6,7) e by simp_all
  note way = layout_way [OF Cons.prems(4,5) mem, unfolded fst_conv]
  note run = write_file_works [OF Cons.prems(1-3) ok way]
  have "ensures (\<lambda>st. st = s0) (write_file (path_string T) k fp :: ('x world, goerror option) state)
      (\<lambda>_. tree)"
    by (rule ensures_conseq [OF ensures_tree [OF write_file_tree]]) (use Cons.prems(2) in auto)
  from works_and [OF works_and [OF run write_file_spec [OF Cons.prems(1,3) ok]] this]
  have one: "works (\<lambda>st. st = s0) (write_file (path_string T) k fp :: ('x world, goerror option) state)
      (\<lambda>r st. r = None \<and> filled T (pkey T k) s0 st \<and> tree st)"
    by (rule works_conseq) auto
  show ?case
    unfolding e write_files.simps
  proof (rule works_ok [OF one], unfold option.case, rule works_any, elim conjE)
    fix s1
    assume f: "filled T (pkey T k) s0 s1" and t: "tree s1"
    have "area s1 T" using f by (simp add: filled_def)
    moreover have "layout T all s1"
      by (rule filled_layout [OF _ Cons.prems(4) mem]) (simp add: f)
    ultimately show "works (\<lambda>st. st = s1) (write_files es (path_string T) :: ('x world, goerror option) state)
        (\<lambda>r st. r = None)"
      using Cons t by simp
  qed
qed

section \<open>The visible links\<close>

definition linked :: "string list \<Rightarrow> payload \<Rightarrow> fstore \<Rightarrow> fstore \<Rightarrow> bool" where
  "linked D es a b \<longleftrightarrow> (\<forall>e \<in> set es. lookup b (D @ [first_comp (fst e)]) \<noteq> None) \<and>
     (\<forall>k. lookup b k = lookup a k \<or> (lookup a k = None \<and> is_link b k))"

lemma linked_Cons:
  assumes "linked D [e] a b" and "linked D es b c"
  shows "linked D (e # es) a c"
proof -
  have 1: "lookup b (D @ [first_comp (fst e)]) \<noteq> None" using assms(1) by (simp add: linked_def)
  have 2: "lookup c k = lookup b k" if "lookup b k \<noteq> None" for k
    using assms(2) that unfolding linked_def by metis
  have "lookup c k = lookup a k \<or> (lookup a k = None \<and> is_link c k)" for k
    using assms 2 [of k] unfolding linked_def is_link_def by metis
  moreover have "\<forall>x \<in> set es. lookup c (D @ [first_comp (fst x)]) \<noteq> None"
    using assms(2) by (simp add: linked_def)
  ultimately show ?thesis using 1 2 by (simp add: linked_def)
qed

lemma create_visible_works:
  assumes "names D" and "dirs_to s0 D" and "\<forall>e \<in> set es. ok_path (fst e)"
  shows "works (\<lambda>st. st = s0) (create_visible es (path_string D) :: ('x world, goerror option) state)
    (\<lambda>r st. r = None \<and> linked D es s0 st)"
  using assms
proof (induction es arbitrary: s0)
  case Nil
  show ?case by (auto intro!: works_ret simp: linked_def)
next
  case (Cons e es)
  obtain k fp where e: "e = (k, fp)" by fastforce
  let ?l = "first_comp k"
  have l: "name_comp ?l" using first_comp_name Cons.prems(3) e by simp
  have nms: "names (D @ [?l])" using Cons.prems(1) l by simp
  have j: "Join [path_string D, ?l] = path_string (D @ [?l])"
    by (rule Join_path_string_name [OF Cons.prems(1) l])
  have ne: "Join [dataDirName, ?l] \<noteq> ''''"
    using Join_rel_names [OF data_names(1) l] by simp
  have one: "works (\<lambda>st. st = s0) (do {
        r \<leftarrow> os_Readlink (path_string (D @ [?l]));
        (if (case r of Inl err \<Rightarrow> IsNotExist err | Inr _ \<Rightarrow> False)
          then os_Symlink (Join [dataDirName, ?l]) (path_string (D @ [?l])) else ret None)
      }) (\<lambda>r st. r = None \<and> linked D [e] s0 st)"
  proof (rule works_bind [OF os_Readlink_works [OF nms Cons.prems(2)]], rule works_any, elim conjE)
    fix r :: "goerror + string" and s1
    assume s1: "s1 = s0" and r: "case lookup s0 (D @ [?l]) of
       None \<Rightarrow> \<exists>e. r = Inl e \<and> IsNotExist e
     | Some i \<Rightarrow> (case kind i of Symlink t \<Rightarrow> r = Inr t | _ \<Rightarrow> \<exists>e. r = Inl e \<and> \<not> IsNotExist e)"
    show "works (\<lambda>st. st = s1) (if (case r of Inl err \<Rightarrow> IsNotExist err | Inr _ \<Rightarrow> False)
          then os_Symlink (Join [dataDirName, ?l]) (path_string (D @ [?l])) else ret None)
        (\<lambda>r st. r = None \<and> linked D [e] s0 st)"
    proof (cases "lookup s0 (D @ [?l])")
      case None
      with r have "case r of Inl err \<Rightarrow> IsNotExist err | Inr _ \<Rightarrow> False" by auto
      then show ?thesis
        unfolding s1
        by (simp only: if_True, intro works_conseq [OF os_Symlink_works [OF nms Cons.prems(2) None ne]])
          (auto simp: linked_def e lookup_put is_link_def None)
    next
      case (Some i)
      with r have "\<not> (case r of Inl err \<Rightarrow> IsNotExist err | Inr _ \<Rightarrow> False)"
        by (auto split: fkind.splits)
      then show ?thesis
        unfolding s1 by (simp only: if_False, intro works_ret) (auto simp: linked_def e Some)
    qed
  qed
  have rest: "works (linked D [e] s0) (create_visible es (path_string D) :: ('x world, goerror option) state)
      (\<lambda>r st. r = None \<and> linked D (e # es) s0 st)"
  proof (rule works_any)
    fix s1
    assume a: "linked D [e] s0 s1"
    have "is_dir s1 k" if "is_dir s0 k" for k
      using a that unfolding linked_def is_dir_def by (metis option.distinct(1))
    then have "dirs_to s1 D" using Cons.prems(2) by (rule dirs_mono)
    then have "works (\<lambda>st. st = s1) (create_visible es (path_string D) :: ('x world, goerror option) state)
        (\<lambda>r st. r = None \<and> linked D es s1 st)"
      using Cons by simp
    then show "works (\<lambda>st. st = s1) (create_visible es (path_string D) :: ('x world, goerror option) state)
        (\<lambda>r st. r = None \<and> linked D (e # es) s0 st)"
      by (rule works_conseq) (auto intro: linked_Cons [OF a])
  qed
  show ?case
    unfolding e create_visible.simps Let_def j
    by (rule works_assoc, rule works_ok [OF one [unfolded e]], unfold option.case, rule rest [unfolded e])
qed

end
