(* ===== verification/AtomicUpdate.thy ===== *)
theory AtomicUpdate
  imports AtomicLive
begin

text \<open>
  An update by the atomic writer goes through when no system call fails, and leaves the target directory in
  a state in which the next update goes through as well.
\<close>

section \<open>Installation\<close>

text \<open>What a user sees in the target directory: the names that do not begin with two dots.\<close>

definition links_only :: "string list \<Rightarrow> fstore \<Rightarrow> fstore \<Rightarrow> bool" where
  "links_only D a b \<longleftrightarrow> (\<forall>n. \<not> hidden n \<longrightarrow> lookup b (D @ [n]) = lookup a (D @ [n]) \<or>
     (lookup a (D @ [n]) = None \<and> is_link b (D @ [n])))"

definition has_links :: "string list \<Rightarrow> payload \<Rightarrow> fstore \<Rightarrow> bool" where
  "has_links D es st \<longleftrightarrow> (\<forall>e \<in> set es. lookup st (D @ [first_comp (fst e)]) \<noteq> None)"

text \<open>One of the names that are tried for the new version is not in use.\<close>

definition free_name :: "writer_env \<Rightarrow> fstore \<Rightarrow> string list \<Rightarrow> bool" where
  "free_name env st D \<longleftrightarrow> (\<exists>n < 10000. lookup st (D @ [ts_prefix (now env) @ rnd env n]) = None)"

lemma newTimestampDir_works:
  assumes env: "env_laws env" and D: "names D" "dirs_to s0 D" "closed_at s0 D"
    and free: "free_name env s0 D"
  shows "works (\<lambda>st. st = s0) (newTimestampDir env \<lparr>targetDir = path_string D\<rparr>)
    (\<lambda>r st. \<exists>c. r = Inr (path_string (D @ [c])) \<and> fresh_dir D c s0 st)"
proof -
  have nm: "stamped (ts_prefix (now env) @ rnd env n)" for n
  proof -
    obtain k where "rnd env n = show_nat k" using env unfolding env_laws_def by blast
    then show ?thesis using ts_prefix_stamped by simp
  qed
  have tmp: "works (\<lambda>st. st = s0) (TempDir (rnd env) (path_string D) (ts_prefix (now env)))
      (\<lambda>r st. \<exists>c. r = Inr (path_string (D @ [c])) \<and> fresh_dir D c s0 st)"
    unfolding TempDir_def
  proof (rule works_conseq [OF works_and [OF try_names_works [OF D(1,2) stamped_name [OF nm]]
          try_names_spec [OF D(1,2) stamped_name [OF nm]]]])
    show "\<exists>m < 10000. lookup s0 (D @ [ts_prefix (now env) @ rnd env m]) = None"
      using free by (simp add: free_name_def)
    fix r :: "goerror + string" and st
    assume "(\<exists>s. r = Inr s) \<and> (case r of
       Inl _ \<Rightarrow> st = s0
     | Inr s \<Rightarrow> \<exists>m i. s = path_string (D @ [ts_prefix (now env) @ rnd env m]) \<and>
         lookup s0 (D @ [ts_prefix (now env) @ rnd env m]) = None \<and> kind i = Directory \<and>
         st = store_put (D @ [ts_prefix (now env) @ rnd env m]) i s0)"
    then obtain m i where "r = Inr (path_string (D @ [ts_prefix (now env) @ rnd env m]))"
      and n: "lookup s0 (D @ [ts_prefix (now env) @ rnd env m]) = None" and i: "kind i = Directory"
      and st: "st = store_put (D @ [ts_prefix (now env) @ rnd env m]) i s0"
      by auto
    moreover have "fresh_dir D (ts_prefix (now env) @ rnd env m) s0 st"
      using n i nm by (simp add: fresh_dir_def st lookup_put is_dir_def)
    ultimately show "\<exists>c. r = Inr (path_string (D @ [c])) \<and> fresh_dir D c s0 st" by blast
  qed auto
  show ?thesis
    unfolding newTimestampDir_def targetDir_simp
  proof (rule works_bind [OF tmp], rule works_any, elim exE conjE)
    fix t :: "goerror + string" and s1 c
    assume t: "t = Inr (path_string (D @ [c]))" and f: "fresh_dir D c s0 s1"
    have c: "stamped c" using f by (simp add: fresh_dir_def)
    have a: "area s1 (D @ [c])" by (rule fresh_dir_area [OF f D(2,3)])
    have oa: "on_area s1 (D @ [c]) (D @ [c])"
      using a D(1) stamped_name [OF c] by (simp add: on_area_def)
    have "names (D @ [c]) \<and> dirs_to s1 (D @ [c])" using a D(1) stamped_name [OF c] by (simp add: area_def)
    moreover have "lookup s1 (D @ [c]) \<noteq> None" using f by (auto simp: fresh_dir_def is_dir_def)
    ultimately have ch: "works (\<lambda>st. st = s1) (os_Chmod (path_string (D @ [c])) 0x1ED)
        (\<lambda>r st. r = None \<and> fresh_dir D c s0 st)"
      by (intro works_conseq [OF works_and [OF os_Chmod_works os_Chmod_spec [OF oa]]])
        (use f in \<open>auto simp: fresh_dir_def is_dir_def lookup_put split: option.splits\<close>)
    show "works (\<lambda>st. st = s1) (case t of Inl err \<Rightarrow> ret (Inl err)
        | Inr tsDir \<Rightarrow> do {
            e \<leftarrow> os_Chmod tsDir 0x1ED;
            ret (case e of Some err \<Rightarrow> Inl err | None \<Rightarrow> Inr tsDir)
          }) (\<lambda>r st. \<exists>c. r = Inr (path_string (D @ [c])) \<and> fresh_dir D c s0 st)"
      unfolding t sum.case by (rule works_ok [OF ch]) (auto intro: works_ret)
  qed
qed

lemma switch_version_works:
  assumes os: "GOOS env = Linux" and D: "names D" "dirs_to s0 D" and c: "stamped c"
    and link: "\<not> is_dir s0 (data_key D)" and tmp: "lookup s0 (tmp_key D) = None"
  shows "works (\<lambda>st. st = s0)
    (switch_version env \<lparr>targetDir = path_string D\<rparr> (path_string (D @ [c])) :: ('x world, goerror option) state)
    (\<lambda>r st. r = None \<and> switched D c s0 st)"
proof -
  have nc: "names (D @ [c])" "names (data_key D)" "names (tmp_key D)"
    using D(1) stamped_name [OF c] data_names by simp_all
  have base: "Base (path_string (D @ [c])) = c" using Base_path_string [OF nc(1)] .
  have jd: "Join [path_string D, dataDirName] = path_string (data_key D)"
    "Join [path_string D, newDataDirName] = path_string (tmp_key D)"
    using Join_path_string_name [OF D(1)] data_names by auto
  have ne: "c \<noteq> ''''" using stamped_name [OF c] by (auto dest: name_compD)
  let ?s1 = "store_put (tmp_key D) (link_to c) s0"
  have d1: "dirs_to ?s1 D"
    by (rule dirs_put_leaf [OF D(2), where c = newDataDirName]) (simp add: lookup_put)
  have l1: "lookup ?s1 (tmp_key D) = Some (link_to c)" "\<not> is_dir ?s1 (data_key D)"
    using link data_names(5) by (simp_all add: is_dir_def lookup_put)
  have ren: "works (\<lambda>st. st = ?s1)
      (os_Rename (path_string (tmp_key D)) (path_string (data_key D)) :: ('x world, goerror option) state)
      (\<lambda>r st. r = None \<and> True)"
    by (rule works_conseq [OF os_Rename_works [OF nc(3,2) d1 _ l1(1) _ l1(2)]])
      (use data_names in auto)
  have "works (\<lambda>st. st = s0)
    (switch_version env \<lparr>targetDir = path_string D\<rparr> (path_string (D @ [c])) :: ('x world, goerror option) state)
    (\<lambda>r st. r = None)"
    unfolding switch_version_def Let_def targetDir_simp jd base os
    by (rule works_ok [OF os_Symlink_works [OF nc(3) D(2) tmp ne]],
        simp only: option.case goos.distinct if_False, rule works_ok [OF ren])
      (auto intro: works_ret)
  from works_and [OF this switch_version_spec [OF os D c link]] show ?thesis
    by (rule works_conseq) auto
qed

lemma install_version_works:
  assumes env: "env_laws env" and os: "GOOS env = Linux" and t0: "tree s0"
    and D: "names D" "dirs_to s0 D"
    and link: "\<not> is_dir s0 (data_key D)" and es: "good_entries es" and cf: "conflict_free es"
    and tmp: "lookup s0 (tmp_key D) = None" and free: "free_name env s0 D"
  shows "works (\<lambda>st. st = s0) (install_version env (writer_at D) es :: ('x world, goerror option) state)
    (\<lambda>r st. r = None \<and> links_only D s0 st \<and> has_links D es st \<and> lookup st (tmp_key D) = None)"
proof -
  note cl = tree_closed [OF t0, of D]
  note g2 = good_entries_order [OF env es, of 2] and g3 = good_entries_order [OF env es, of 3]
  have new: "works (\<lambda>st. st = s0) (newTimestampDir env (writer_at D))
      (\<lambda>r st. (\<exists>c. r = Inr (path_string (D @ [c])) \<and> fresh_dir D c s0 st) \<and> tree st)"
  proof (rule works_and [OF newTimestampDir_works [OF env D cl free]], rule ensures_conseq [OF ensures_tree])
    show "state_io_rel keeps_tree (newTimestampDir env (writer_at D))"
      unfolding newTimestampDir_def by (intro tr.io_rules TempDir_tree os_Chmod_tree)
  qed (use t0 in auto)
  show ?thesis
    unfolding install_version_def
  proof (rule works_bind [OF new], rule works_any, elim exE conjE)
    fix t :: "goerror + string" and s1 c
    assume t: "t = Inr (path_string (D @ [c]))" and f: "fresh_dir D c s0 s1" and t1: "tree s1"
    let ?T = "D @ [c]"
    have c: "stamped c" using f by (simp add: fresh_dir_def)
    have nT: "names ?T" using D(1) stamped_name [OF c] by simp
    have a: "area s1 ?T" by (rule fresh_dir_area [OF f D(2) cl])
    have none: "lookup s1 k = None" if "strict_prefix ?T k" for k
    proof -
      have "k \<noteq> ?T" using that by auto
      then have "lookup s1 k = lookup s0 k" using f by (simp add: fresh_dir_def)
      also have "\<dots> = None" using f cl that unfolding fresh_dir_def closed_at_def by blast
      finally show ?thesis .
    qed
    then have lay: "layout ?T (map_order env 2 es) s1" by (simp add: layout_def)
    have cf2: "conflict_free (map_order env 2 es)" using cf by (simp add: conflict_free_def g2(2))
    have ok: "\<forall>e \<in> set (map_order env 2 es). ok_path (fst e)" "distinct (map fst (map_order env 2 es))"
      "\<forall>e \<in> set (map_order env 3 es). ok_path (fst e)"
      using g2(1) g3(1) by (simp_all add: good_entries_def)
    have wr: "works (\<lambda>st. st = s1) (writePayloadToDir env es (path_string ?T) :: ('x world, goerror option) state)
        (\<lambda>r st. r = None \<and> prepared D c es s0 st \<and> links_only D s0 st)"
      unfolding writePayloadToDir_def
    proof (rule works_conseq [OF works_and [OF write_files_works [OF a t1 nT lay cf2 subset_refl ok(1)]
            write_files_spec [OF a nT ok(1,2)]]], assumption, elim conjE, intro conjI)
      fix r :: "goerror option" and st
      assume w: "wrote ?T (map_order env 2 es) s1 st"
      show "prepared D c es s0 st" by (rule wrote_prepared [OF fresh_prepared [OF f] w])
      show "links_only D s0 st"
        unfolding links_only_def
      proof (intro allI impI)
        fix n
        assume n: "\<not> hidden n"
        then have "n \<noteq> c" using stamped_hidden [OF c] by blast
        moreover have "\<not> strict_prefix ?T (D @ [n])" by (auto dest: prefix_length_less)
        ultimately have "lookup st (D @ [n]) = lookup s0 (D @ [n])"
          using w f by (simp add: wrote_def fresh_dir_def)
        then show "lookup st (D @ [n]) = lookup s0 (D @ [n]) \<or>
            lookup s0 (D @ [n]) = None \<and> is_link st (D @ [n])" by blast
      qed
    qed
    have vis: "works (\<lambda>st. prepared D c es s0 st \<and> links_only D s0 st)
        (createUserVisibleFiles env (writer_at D) es :: ('x world, goerror option) state)
        (\<lambda>r st. r = None \<and> prepared D c es s0 st \<and> links_only D s0 st \<and> has_links D es st)"
    proof (rule works_any, elim conjE)
      fix s2
      assume p: "prepared D c es s0 s2" and lo: "links_only D s0 s2"
      note d = prepared_dirs [OF p D(2)]
      show "works (\<lambda>st. st = s2) (createUserVisibleFiles env (writer_at D) es :: ('x world, goerror option) state)
          (\<lambda>r st. r = None \<and> prepared D c es s0 st \<and> links_only D s0 st \<and> has_links D es st)"
        unfolding createUserVisibleFiles_def targetDir_simp
      proof (rule works_conseq [OF works_and [OF create_visible_works [OF D(1) d ok(3)]
              create_visible_spec [OF D(1) d ok(3)]]], assumption, elim conjE, intro conjI)
        fix r :: "goerror option" and st
        assume l: "linked D (map_order env 3 es) s2 st" and la: "links_added D (map_order env 3 es) s2 st"
        have "links_added D es s2 st" using la by (simp add: links_added_def entry_link_def g3(2))
        then show "prepared D c es s0 st" by (rule links_prepared [OF p])
        show "links_only D s0 st" using lo l unfolding links_only_def linked_def is_link_def by metis
        show "has_links D es st" using l by (simp add: has_links_def linked_def g3(2))
      qed
    qed
    have sw: "works (\<lambda>st. prepared D c es s0 st \<and> links_only D s0 st \<and> has_links D es st)
        (switch_version env (writer_at D) (path_string ?T) :: ('x world, goerror option) state)
        (\<lambda>r st. r = None \<and> links_only D s0 st \<and> has_links D es st \<and> lookup st (tmp_key D) = None)"
    proof (rule works_any, elim conjE)
      fix s3
      assume p: "prepared D c es s0 s3" and lo: "links_only D s0 s3" and hl: "has_links D es s3"
      have "lookup s3 (data_key D) = lookup s0 (data_key D)"
        using prepared_untouched [OF p es] by (simp add: untouched_def)
      then have l3: "\<not> is_dir s3 (data_key D)" using link by (simp add: is_dir_def)
      have tmp3: "lookup s3 (tmp_key D) = None"
        using prepared_keeps_hidden [OF p es data_names(4)] stamped_not_data [OF c] tmp by auto
      show "works (\<lambda>st. st = s3) (switch_version env (writer_at D) (path_string ?T) :: ('x world, goerror option) state)
          (\<lambda>r st. r = None \<and> links_only D s0 st \<and> has_links D es st \<and> lookup st (tmp_key D) = None)"
      proof (rule works_conseq [OF switch_version_works [OF os D(1) prepared_dirs [OF p D(2)] c l3 tmp3]],
          assumption, elim conjE, intro conjI)
        fix r :: "goerror option" and st
        assume s: "switched D c s3 st"
        have same: "lookup st (D @ [n]) = lookup s3 (D @ [n])" if "\<not> hidden n" for n
        proof -
          have "D @ [n] \<noteq> data_key D" "D @ [n] \<noteq> tmp_key D" using that data_names(3,4) by auto
          then show ?thesis using s by (simp add: switched_def)
        qed
        show "links_only D s0 st" using lo same unfolding links_only_def is_link_def by metis
        show "has_links D es st" using hl es same by (auto simp: has_links_def good_entries_def)
        show "lookup st (tmp_key D) = None" using s by (simp add: switched_def)
      qed
    qed
    show "works (\<lambda>st. st = s1) ((case t of
          Inl err \<Rightarrow> ret (Some err)
        | Inr tsDir \<Rightarrow> do {
            e \<leftarrow> writePayloadToDir env es tsDir;
            case e of Some err \<Rightarrow> ret (Some err)
            | None \<Rightarrow> do {
                e \<leftarrow> createUserVisibleFiles env (writer_at D) es;
                case e of Some err \<Rightarrow> ret (Some err) | None \<Rightarrow> switch_version env (writer_at D) tsDir
              }
          }) :: ('x world, goerror option) state)
        (\<lambda>r st. r = None \<and> links_only D s0 st \<and> has_links D es st \<and> lookup st (tmp_key D) = None)"
      unfolding t sum.case
      by (rule works_ok [OF wr], unfold option.case, rule works_ok [OF vis], unfold option.case, rule sw)
  qed
qed

end
