(* ===== verification/UpdateProps.thy ===== *)
theory UpdateProps
  imports AtomicUpdate
begin

text \<open>
  The rest of an update without failing calls: the clean-up and the comparison with the old version. Then
  the theorem that \<open>Write\<close> succeeds and leaves a directory that is ready for the next update, and one
  about a change that it can never make.
\<close>

section \<open>The clean-up\<close>

definition pruned_to :: "string list \<Rightarrow> string list \<Rightarrow> fstore \<Rightarrow> fstore \<Rightarrow> bool" where
  "pruned_to D ps a b \<longleftrightarrow> (\<forall>k. lookup b k = lookup a k \<or>
     (lookup b k = None \<and> (\<exists>p \<in> set ps. sep \<notin> set p \<and> k = D @ [p])))"

definition can_prune :: "string list \<Rightarrow> string list \<Rightarrow> fstore \<Rightarrow> bool" where
  "can_prune D ps st \<longleftrightarrow> distinct ps \<and> (\<forall>p \<in> set ps. sep \<in> set p \<or>
     (name_comp p \<and> lookup st (D @ [p]) \<noteq> None \<and> \<not> is_dir st (D @ [p])))"

lemma remove_visible_works:
  assumes "names D" and "dirs_to s0 D" and "can_prune D ps s0"
  shows "works (\<lambda>st. st = s0)
    (remove_visible ps (path_string D) None :: ('x world, goerror option) state)
    (\<lambda>r st. r = None \<and> pruned_to D ps s0 st)"
  using assms
proof (induction ps arbitrary: s0)
  case Nil
  show ?case by (auto intro!: works_ret simp: pruned_to_def)
next
  case (Cons p ps)
  have rest: "can_prune D ps s0" using Cons.prems(3) by (simp add: can_prune_def)
  show ?case
  proof (cases "sep \<in> set p")
    case True
    then show ?thesis
      using works_conseq [OF Cons.IH [OF Cons.prems(1,2) rest]] by (fastforce simp: pruned_to_def)
  next
    case False
    then have p: "name_comp p" "lookup s0 (D @ [p]) \<noteq> None" "\<not> is_dir s0 (D @ [p])"
      using Cons.prems(3) by (simp_all add: can_prune_def)
    have nms: "names (D @ [p])" using Cons.prems(1) p by simp
    have j: "Join [path_string D, p] = path_string (D @ [p])"
      by (rule Join_path_string_name [OF Cons.prems(1) p(1)])
    let ?s1 = "store_del (D @ [p]) s0"
    have d: "dirs_to ?s1 D"
      by (rule dirs_put_leaf [OF Cons.prems(2), where c = p]) (simp add: lookup_del)
    have "can_prune D ps ?s1"
      using Cons.prems(3) unfolding can_prune_def by (auto simp: lookup_del is_dir_def)
    note IH = Cons.IH [OF Cons.prems(1) d this]
    have "works (\<lambda>st. st = ?s1)
        (remove_visible ps (path_string D) None :: ('x world, goerror option) state)
        (\<lambda>r st. r = None \<and> pruned_to D (p # ps) s0 st)"
    proof (rule works_conseq [OF IH], assumption, elim conjE, intro conjI)
      fix r :: "goerror option" and st
      assume "pruned_to D ps ?s1 st"
      then show "pruned_to D (p # ps) s0 st"
        using False unfolding pruned_to_def lookup_del by (metis list.set_intros)
    qed
    then show ?thesis
      unfolding remove_visible.simps if_not_P [OF False] j
      by (intro works_ok [OF os_Remove_works [OF nms Cons.prems(2) p(2,3)]]) simp
  qed
qed

lemma clean_up_works:
  assumes env: "env_laws env" and D: "names D" "dirs_to s0 D" and ps: "can_prune D ps s0"
    and vis: "\<forall>p \<in> set ps. sep \<in> set p \<or> \<not> hidden p" and old: "old = '''' \<or> (name_comp old \<and> hidden old)"
  shows "works (\<lambda>st. st = s0) (clean_up env (writer_at D) ps old :: ('x world, goerror option) state)
    (\<lambda>r st. r = None \<and> (\<forall>k. lookup st k = lookup s0 k \<or> lookup st k = None) \<and>
      (\<forall>n. \<not> hidden n \<longrightarrow> n \<notin> set ps \<longrightarrow> lookup st (D @ [n]) = lookup s0 (D @ [n])))"
proof -
  have m: "mset (set_order env ps) = mset ps" using env by (simp add: env_laws_def)
  have s: "set (set_order env ps) = set ps" by (rule env_laws_sets [OF env])
  have "distinct (set_order env ps) = distinct ps" using m by (rule mset_eq_imp_distinct_iff)
  then have "can_prune D (set_order env ps) s0" using ps by (simp add: can_prune_def s)
  note rv = remove_visible_works [OF D this]
  show ?thesis
    unfolding clean_up_def removeUserVisiblePaths_def targetDir_simp
  proof (rule works_ok [OF rv], unfold option.case, rule works_any)
    fix s1
    assume p: "pruned_to D (set_order env ps) s0 s1"
    have shrink: "lookup s1 k = lookup s0 k \<or> lookup s1 k = None" for k
      using p [unfolded pruned_to_def, rule_format, of k] by auto
    have keep: "lookup s1 (D @ [n]) = lookup s0 (D @ [n])" if "n \<notin> set ps" for n
      using p [unfolded pruned_to_def s, rule_format, of "D @ [n]"] that by auto
    have d: "dirs_to s1 D"
    proof (rule dirs_cong [OF D(2)])
      fix k
      assume "prefix k ([] @ D)"
      then have "k \<noteq> D @ [x]" for x by (auto dest: prefix_length_le)
      then show "lookup s1 k = lookup s0 k" using p unfolding pruned_to_def by metis
    qed
    show "works (\<lambda>st. st = s1)
        (if old \<noteq> '''' then os_RemoveAll (Join [path_string D, old]) else ret None
          :: ('x world, goerror option) state)
        (\<lambda>r st. r = None \<and> (\<forall>k. lookup st k = lookup s0 k \<or> lookup st k = None) \<and>
          (\<forall>n. \<not> hidden n \<longrightarrow> n \<notin> set ps \<longrightarrow> lookup st (D @ [n]) = lookup s0 (D @ [n])))"
    proof (rule works_if)
      assume "old \<noteq> ''''"
      then have o: "name_comp old" "hidden old" using old by simp_all
      have n: "names (D @ [old])" using D(1) o by simp
      show "works (\<lambda>st. st = s1) (os_RemoveAll (Join [path_string D, old]) :: ('x world, goerror option) state)
        (\<lambda>r st. r = None \<and> (\<forall>k. lookup st k = lookup s0 k \<or> lookup st k = None) \<and>
          (\<forall>n. \<not> hidden n \<longrightarrow> n \<notin> set ps \<longrightarrow> lookup st (D @ [n]) = lookup s0 (D @ [n])))"
        unfolding Join_path_string_name [OF D(1) o(1)]
      proof (rule works_conseq [OF works_and [OF os_RemoveAll_works [OF n d] os_RemoveAll_spec [OF n d]]],
          assumption, elim conjE, intro conjI allI impI)
        fix r :: "goerror option" and st
        assume r: "removes (D @ [old]) s1 st"
        show "lookup st k = lookup s0 k \<or> lookup st k = None" for k
          using r shrink unfolding removes_def by metis
        show "lookup st (D @ [x]) = lookup s0 (D @ [x])" if "\<not> hidden x" "x \<notin> set ps" for x
        proof -
          have "\<not> prefix (D @ [old]) (D @ [x])" using o(2) that(1) by auto
          then show ?thesis using removes_other [OF r] keep that(2) by simp
        qed
      qed
    qed (rule works_ret, simp add: shrink keep)
  qed
qed

section \<open>The comparison\<close>

lemma first_comp_subpaths:
  assumes "ok_path k"
  shows "first_comp k \<in> set (subpaths k)"
proof -
  let ?cs = "split_on sep k"
  have n: "names ?cs" using assms by (simp add: ok_path_def)
  obtain c cs where c: "?cs = c # cs" using split_on_not_Nil [of sep k] by (cases ?cs) auto
  have "set (subpaths k) = (\<lambda>n. join_on sep (take n ?cs)) ` set [1..<Suc (length ?cs)]"
    using subpaths_names [OF n] by (simp only: join_split set_map set_rev)
  moreover have "1 \<in> set [1..<Suc (length ?cs)]" by (simp add: c del: upt_Suc)
  ultimately have "join_on sep (take 1 ?cs) \<in> set (subpaths k)" by (metis imageI)
  then show ?thesis by (simp add: first_comp_hd c)
qed

lemma pathsToRemove_new:
  assumes "\<forall>e \<in> set es. ok_path (fst e)"
  shows "ensures P (pathsToRemove es old)
    (\<lambda>r st. distinct r \<and> (\<forall>e \<in> set es. first_comp (fst e) \<notin> set r))"
  unfolding pathsToRemove_def Let_def
  by (rule ensures_bind [where R = "\<lambda>_ _. True"])
    (use assms first_comp_subpaths in \<open>force simp: ensures_def\<close>)+

text \<open>What is at the places of the new files in the old version does not stop the comparison.\<close>

definition fits :: "fstore \<Rightarrow> string list \<Rightarrow> payload \<Rightarrow> bool" where
  "fits st R es \<longleftrightarrow> (\<forall>e \<in> set es.
     clear_way st R (butlast (pkey R (fst e))) \<and> \<not> is_dir st (pkey R (fst e)))"

lemma missing_not_exist:
  assumes a: "area s0 R" and R: "names R" and k: "ok_path k"
    and way: "clear_way s0 R (butlast (pkey R k))" and none: "lookup s0 (pkey R k) = None"
  shows "st_get False (path_string (pkey R k)) s0 = Inl ENOENT"
proof -
  let ?p = "pkey R k"
  have np: "names ?p" using on_area_path [OF on_area_pkey [OF a R k]] .
  have "lookup s0 ([] @ q) = None \<or> is_dir s0 ([] @ q)" if q: "q \<noteq> []" "strict_prefix q ?p" for q
  proof (cases "prefix q R")
    case True
    then show ?thesis using a by (auto simp: area_def intro: dirs_to_is_dir dirs_to_prefix)
  next
    case False
    have "prefix q R \<or> prefix R q"
      using q(2) prefix_same_cases [of q ?p R] by (auto simp: strict_prefix_def pkey_def)
    with False have "strict_prefix R q" by (auto simp: strict_prefix_def)
    moreover have "prefix q (butlast ?p)"
    proof -
      have "?p \<noteq> []" by (simp add: pkey_def)
      then have "?p = butlast ?p @ [last ?p]" by simp
      with q(2) show ?thesis by (metis prefix_snoc strict_prefix_def)
    qed
    ultimately show ?thesis using way by (simp add: clear_way_def)
  qed
  moreover have "\<not> is_link s0 ([] @ ?p)" using none by (simp add: is_link_def)
  ultimately have "resolve s0 False max_links [] ?p = Inr ([] @ ?p) \<or>
      resolve s0 False max_links [] ?p = Inl ENOENT"
    using resolve_open [OF np, of s0 "[]" False max_links] by blast
  then show ?thesis using none by (auto simp: st_get_def namei_path_string [OF np])
qed

lemma shouldWriteFile_works:
  assumes t: "tree s0" and a: "area s0 R" and R: "names R" and k: "ok_path k"
    and way: "clear_way s0 R (butlast (pkey R k))" and nd: "\<not> is_dir s0 (pkey R k)"
  shows "works (\<lambda>st. st = s0) (shouldWriteFile (Join [path_string R, k]) c)
    (\<lambda>r st. st = s0 \<and> (\<exists>b. r = Inr b))"
proof (cases "lookup s0 (pkey R k)")
  case None
  then have get: "st_get False (path_string (pkey R k)) s0 = Inl ENOENT"
    by (rule missing_not_exist [OF a R k way])
  have ls: "works (\<lambda>st. st = s0) (os_Lstat (path_string (pkey R k)))
      (\<lambda>r st. r = Inl (PathError ''lstat'' (path_string (pkey R k)) ENOENT) \<and> st = s0)"
    by (rule works_conseq [OF os_Lstat_works [of s0 "path_string (pkey R k)", unfolded get lift_err_def sum.case]])
      auto
  show ?thesis
    unfolding shouldWriteFile_def Join_ok_path [OF R k]
    by (rule works_ok [OF ls]) (auto intro: works_ret)
next
  case (Some i)
  have "kind i = Directory \<or> (\<exists>c. kind i = Regular c)" by (rule area_inode [OF a pkey_strict Some])
  then obtain d where f: "is_file s0 (pkey R k) d" using nd Some by (auto simp: is_dir_def is_file_def)
  then have slot: "file_slot s0 (pkey R k)"
    using on_area_path [OF on_area_pkey [OF a R k]] tree_dirs_above [OF t] Some by (auto simp: file_slot_def)
  have get: "st_get False (path_string (pkey R k)) s0 = Inr i"
    using file_slot_namei [OF slot] Some by (simp add: st_get_def)
  have rd: "works (\<lambda>st. st = s0) (do {
        x \<leftarrow> os_ReadFile (path_string (pkey R k));
        ret (case x of Inl err \<Rightarrow> Inl err | Inr contentOnFs \<Rightarrow> Inr (c \<noteq> contentOnFs))
      }) (\<lambda>r st. st = s0 \<and> (\<exists>b. r = Inr b))"
    by (rule works_bind [OF os_ReadFile_works [OF slot f]], rule works_ret) auto
  show ?thesis
    unfolding shouldWriteFile_def Join_ok_path [OF R k]
  proof (rule works_bind [OF os_Lstat_works], rule works_any, elim conjE)
    fix r :: "goerror + inode" and s1
    assume r: "s1 = s0" "r = lift_err (PathError ''lstat'' (path_string (pkey R k)))
        (st_get False (path_string (pkey R k)) s0)"
    then have r': "r = Inr i" by (simp add: get lift_err_def)
    show "works (\<lambda>st. st = s1) (if (case r of Inl err \<Rightarrow> IsNotExist err | Inr _ \<Rightarrow> False) then ret (Inr True)
        else do {
          x \<leftarrow> os_ReadFile (path_string (pkey R k));
          ret (case x of Inl err \<Rightarrow> Inl err | Inr contentOnFs \<Rightarrow> Inr (c \<noteq> contentOnFs))
        }) (\<lambda>r st. st = s0 \<and> (\<exists>b. r = Inr b))"
      unfolding r(1) r' sum.case if_False by (rule rd)
  qed
qed

lemma should_write_works:
  assumes "tree s0" and "area s0 R" and "names R" and "\<forall>e \<in> set es. ok_path (fst e)" and "fits s0 R es"
  shows "works (\<lambda>st. st = s0) (should_write es (path_string R) :: ('x world, goerror + bool) state)
    (\<lambda>r st. st = s0 \<and> (\<exists>b. r = Inr b))"
  using assms(4,5)
proof (induction es)
  case Nil
  show ?case by (auto intro: works_ret)
next
  case (Cons e es)
  obtain k fp where e: "e = (k, fp)" by fastforce
  have k: "ok_path k" "clear_way s0 R (butlast (pkey R k))" "\<not> is_dir s0 (pkey R k)"
    using Cons.prems by (simp_all add: e fits_def)
  have IH: "works (\<lambda>st. st = s0) (should_write es (path_string R) :: ('x world, goerror + bool) state)
      (\<lambda>r st. st = s0 \<and> (\<exists>b. r = Inr b))"
    using Cons by (simp add: fits_def)
  show ?case
    unfolding e should_write.simps
  proof (rule works_bind [OF shouldWriteFile_works [OF assms(1-3) k]], rule works_any, elim conjE exE)
    fix r :: "goerror + bool" and s1 b
    assume "s1 = s0" and "r = Inr b"
    then show "works (\<lambda>st. st = s1) ((case r of
          Inl err \<Rightarrow> ret (Inl err)
        | Inr b \<Rightarrow> if b then ret (Inr True) else should_write es (path_string R))
          :: ('x world, goerror + bool) state)
        (\<lambda>r st. st = s0 \<and> (\<exists>b. r = Inr b))"
      using IH by (cases b) (auto intro: works_ret)
  qed
qed

lemma compare_versions_works:
  assumes t: "tree s0" and ta: "tree_at s0 R" and env: "env_laws env" and es: "good_entries es"
    and fit: "fits s0 R es"
  shows "works (\<lambda>st. st = s0) (compare_versions env es (path_string R))
    (\<lambda>r st. st = s0 \<and> (\<exists>x. r = Inr x \<and> (\<forall>ps. x = Some ps \<longrightarrow> distinct ps \<and>
      (\<forall>p \<in> set ps. removable s0 R p) \<and> (\<forall>e \<in> set es. first_comp (fst e) \<notin> set ps))))"
proof -
  have R: "area s0 R" "names R" using ta by (simp_all add: tree_at_def)
  note g = good_entries_order [OF env es, of 1]
  have ok: "\<forall>e \<in> set es. ok_path (fst e)" "\<forall>e \<in> set (map_order env 1 es). ok_path (fst e)"
    using es g(1) by (simp_all add: good_entries_def)
  have pr: "ensures (\<lambda>st. st = s0) (pathsToRemove es (path_string R))
      (\<lambda>r st. st = s0 \<and> distinct r \<and> (\<forall>p \<in> set r. removable s0 R p) \<and>
        (\<forall>e \<in> set es. first_comp (fst e) \<notin> set r))"
    using pathsToRemove_spec [OF ta, of es] pathsToRemove_new [OF ok(1), of "\<lambda>st. st = s0" "path_string R"]
    unfolding ensures_def by blast
  have ro: "state_io_rel same_env (pathsToRemove es (path_string R))"
    unfolding pathsToRemove_def Let_def by (intro ro_env ro.io_rules frame_intros)
  have sw: "works (\<lambda>st. st = s0) (shouldWritePayload env es (path_string R))
      (\<lambda>r st. st = s0 \<and> (\<exists>b. r = Inr b))"
    unfolding shouldWritePayload_def
    by (rule should_write_works [OF t R ok(2)]) (use fit in \<open>unfold fits_def g(2)\<close>)
  show ?thesis
    unfolding compare_versions_def
  proof (rule works_bind [OF works_ensures [OF ro pr]], rule works_any, elim conjE)
    fix ps and st
    assume st: "st = s0" and ps: "distinct ps" "\<forall>p \<in> set ps. removable s0 R p"
      "\<forall>e \<in> set es. first_comp (fst e) \<notin> set ps"
    show "works (\<lambda>t. t = st) (do {
          should \<leftarrow> shouldWritePayload env es (path_string R);
          ret (case should of Inl err \<Rightarrow> Inl err
            | Inr b \<Rightarrow> if \<not> b \<and> ps = [] then Inr None else Inr (Some ps))
        }) (\<lambda>r st. st = s0 \<and> (\<exists>x. r = Inr x \<and> (\<forall>ps. x = Some ps \<longrightarrow> distinct ps \<and>
          (\<forall>p \<in> set ps. removable s0 R p) \<and> (\<forall>e \<in> set es. first_comp (fst e) \<notin> set ps))))"
      unfolding st by (rule works_bind [OF sw], rule works_ret) (use ps in auto)
  qed
qed

section \<open>Write\<close>

text \<open>
  A target directory that the next update can change: no left-over temporary link, no visible
  directory, and a visible name for every entry of the current version.
\<close>

definition published :: "fstore \<Rightarrow> string list \<Rightarrow> bool" where
  "published st D \<longleftrightarrow> lookup st (tmp_key D) = None \<and> (\<forall>n. \<not> hidden n \<longrightarrow> \<not> is_dir st (D @ [n])) \<and>
     (\<forall>t n. current st D = Some t \<longrightarrow> lookup st (D @ [t, n]) \<noteq> None \<longrightarrow> lookup st (D @ [n]) \<noteq> None)"

lemma complete_top:
  assumes "complete (D @ [c]) es st" and "lookup st (D @ [c, n]) \<noteq> None"
  shows "\<exists>e \<in> set es. n = first_comp (fst e)"
proof -
  have "strict_prefix (D @ [c]) (D @ [c, n])" by (simp add: strict_prefix_def)
  with assms obtain e where e: "e \<in> set es" "prefix (D @ [c, n]) (pkey (D @ [c]) (fst e))"
    unfolding complete_def by blast
  then have "n = first_comp (fst e)"
    unfolding first_comp_hd by (cases "split_on sep (fst e)") (auto simp: pkey_def)
  with e(1) show ?thesis by blast
qed

lemma replace_works:
  assumes env: "env_laws env" and os: "GOOS env = Linux" and inv: "writer_inv s0 D"
    and es: "good_entries es" and cf: "conflict_free es"
    and pub: "published s0 D" and free: "free_name env s0 D"
    and old: "(old = '''' \<and> ps = []) \<or> (stamped old \<and> current s0 D = Some old)"
    and ps: "distinct ps" "\<forall>p \<in> set ps. removable s0 (D @ [old]) p"
      "\<forall>e \<in> set es. first_comp (fst e) \<notin> set ps"
  shows "works (\<lambda>st. st = s0) (do {
      e \<leftarrow> install_version env (writer_at D) es;
      case e of Some err \<Rightarrow> ret (Some err) | None \<Rightarrow> clean_up env (writer_at D) ps old
    } :: ('x world, goerror option) state)
    (\<lambda>r st. r = None \<and> published st D)"
proof -
  have t0: "tree s0" and D: "names D" "dirs_to s0 D" using inv by (simp_all add: writer_inv_def)
  have tmp: "lookup s0 (tmp_key D) = None" and nodir: "\<And>n. \<not> hidden n \<Longrightarrow> \<not> is_dir s0 (D @ [n])"
    using pub by (simp_all add: published_def)
  note link = writer_inv_no_dir [OF inv]
  have vis: "name_comp p \<and> \<not> hidden p \<and> lookup s0 (D @ [p]) \<noteq> None"
    if p: "p \<in> set ps" "sep \<notin> set p" for p
  proof -
    have cur: "current s0 D = Some old" using old p(1) by auto
    have r: "name_comp p" "lookup s0 (D @ [old, p]) \<noteq> None"
      using ps(2) p by (auto simp: removable_def)
    with writer_inv_version [OF inv cur] have "\<not> hidden p" by (simp add: plain_version_def)
    with r cur pub show ?thesis by (auto simp: published_def)
  qed
  have old_ok: "old = '''' \<or> (stamped old \<and> lookup s0 (D @ [old]) \<noteq> None)"
  proof -
    have "lookup s0 (D @ [old]) \<noteq> None" if "current s0 D = Some old"
      using writer_inv_version [OF inv that]
      by (auto simp: plain_version_def tree_at_def area_def dirs_append is_dir_def)
    with old show ?thesis by blast
  qed
  have inst: "works (\<lambda>st. st = s0) (install_version env (writer_at D) es :: ('x world, goerror option) state)
      (\<lambda>r st. r = None \<and> links_only D s0 st \<and> has_links D es st \<and> lookup st (tmp_key D) = None \<and>
        dirs_to st D)"
    by (rule works_conseq [OF works_and [OF install_version_works [OF env os t0 D link es cf tmp free]
          install_version_spec [OF env os D tree_closed [OF t0] link es]]])
      (auto simp: installed_def complete_def area_def dirs_append)
  have run: "works (\<lambda>st. st = s0) (do {
      e \<leftarrow> install_version env (writer_at D) es;
      case e of Some err \<Rightarrow> ret (Some err) | None \<Rightarrow> clean_up env (writer_at D) ps old
    } :: ('x world, goerror option) state)
    (\<lambda>r st. r = None \<and> lookup st (tmp_key D) = None \<and> (\<forall>n. \<not> hidden n \<longrightarrow> \<not> is_dir st (D @ [n])) \<and>
      has_links D es st)"
  proof (rule works_ok [OF inst], unfold option.case, rule works_any, elim conjE)
    fix s1
    assume lo: "links_only D s0 s1" and hl: "has_links D es s1" and t1: "lookup s1 (tmp_key D) = None"
      and d1: "dirs_to s1 D"
    have nodir1: "\<not> is_dir s1 (D @ [n])" if "\<not> hidden n" for n
      using lo [unfolded links_only_def, rule_format, OF that] nodir [OF that]
      by (auto simp: is_dir_def is_link_def)
    have "sep \<in> set p \<or> (name_comp p \<and> lookup s1 (D @ [p]) \<noteq> None \<and> \<not> is_dir s1 (D @ [p]))"
      if p: "p \<in> set ps" for p
    proof (cases "sep \<in> set p")
      case False
      note v = vis [OF p False]
      then have "lookup s1 (D @ [p]) = lookup s0 (D @ [p])"
        using lo [unfolded links_only_def, rule_format, of p] by auto
      with v nodir1 show ?thesis by simp
    qed simp
    then have cp: "can_prune D ps s1" using ps(1) by (simp add: can_prune_def)
    have vp: "\<forall>p \<in> set ps. sep \<in> set p \<or> \<not> hidden p" using vis by blast
    have oo: "old = '''' \<or> (name_comp old \<and> hidden old)"
      using old_ok stamped_name stamped_hidden by blast
    show "works (\<lambda>st. st = s1) (clean_up env (writer_at D) ps old :: ('x world, goerror option) state)
        (\<lambda>r st. r = None \<and> lookup st (tmp_key D) = None \<and> (\<forall>n. \<not> hidden n \<longrightarrow> \<not> is_dir st (D @ [n])) \<and>
          has_links D es st)"
    proof (rule works_conseq [OF clean_up_works [OF env D(1) d1 cp vp oo]], assumption, elim conjE,
        intro conjI allI impI)
      fix r :: "goerror option" and st
      assume sh: "\<forall>k. lookup st k = lookup s1 k \<or> lookup st k = None"
        and keep: "\<forall>n. \<not> hidden n \<longrightarrow> n \<notin> set ps \<longrightarrow> lookup st (D @ [n]) = lookup s1 (D @ [n])"
      show "lookup st (tmp_key D) = None" using sh t1 by metis
      show "\<not> is_dir st (D @ [n])" if "\<not> hidden n" for n
        using sh [rule_format, of "D @ [n]"] nodir1 [OF that] by (auto simp: is_dir_def)
      show "has_links D es st" using hl keep es ps(3) by (auto simp: has_links_def good_entries_def)
    qed
  qed
  have rem: "\<forall>p \<in> set ps. sep \<in> set p \<or> (name_comp p \<and> \<not> hidden p)" using vis by blast
  show ?thesis
  proof (rule works_conseq [OF works_and [OF run replace_spec [OF env os inv es old_ok rem]]], assumption,
      elim conjE, intro conjI)
    fix r :: "goerror option" and st
    assume r: "r = None" and t: "lookup st (tmp_key D) = None"
      and nd: "\<forall>n. \<not> hidden n \<longrightarrow> \<not> is_dir st (D @ [n])" and hl: "has_links D es st"
      and u: "(r \<noteq> None \<and> kept D s0 st) \<or> updated D es s0 st"
    then obtain c where c: "current st D = Some c" "complete (D @ [c]) es st"
      by (auto simp: updated_def)
    show "published st D"
      unfolding published_def
    proof (intro conjI t nd allI impI)
      fix x n
      assume "current st D = Some x" and "lookup st (D @ [x, n]) \<noteq> None"
      with c complete_top hl show "lookup st (D @ [n]) \<noteq> None" by (fastforce simp: has_links_def)
    qed
  qed
qed

text \<open>The new files have to fit into the current version, and the payload must not contradict itself.\<close>

definition update_ready :: "writer_env \<Rightarrow> fstore \<Rightarrow> string list \<Rightarrow> payload \<Rightarrow> bool" where
  "update_ready env st D es \<longleftrightarrow> published st D \<and> free_name env st D \<and> conflict_free es \<and>
     (\<forall>t. current st D = Some t \<longrightarrow> fits st (D @ [t]) es)"

lemma Write_works:
  assumes env: "env_laws env" and os: "GOOS env = Linux" and inv: "writer_inv s0 D" and tidy: "tidy p"
    and es0: "validatePayload env p = Inr es" and ready: "update_ready env s0 D es"
  shows "works (\<lambda>st. st = s0) (Write env (writer_at D) p :: ('x world, goerror option) state)
    (\<lambda>r st. r = None \<and> published st D)"
proof -
  have es: "good_entries es" by (rule validatePayload_good [OF env tidy es0])
  have pub: "published s0 D" and free: "free_name env s0 D" and cf: "conflict_free es"
    using ready by (simp_all add: update_ready_def)
  have t0: "tree s0" and D: "names D" "dirs_to s0 D" using inv by (simp_all add: writer_inv_def)
  have nd: "names (data_key D)" using D(1) data_names by simp
  have j: "Join [path_string D, dataDirName] = path_string (data_key D)"
    using Join_path_string_name [OF D(1)] data_names by auto
  note rl = os_Readlink_works [OF nd D(2)]
  show ?thesis
    unfolding Write_def es0 sum.case targetDir_simp j
  proof (rule works_bind [OF rl], rule works_any, elim conjE)
    fix l :: "goerror + string" and st
    assume st: "st = s0" and l: "case lookup s0 (data_key D) of
       None \<Rightarrow> \<exists>e. l = Inl e \<and> IsNotExist e
     | Some i \<Rightarrow> (case kind i of Symlink t \<Rightarrow> l = Inr t | _ \<Rightarrow> \<exists>e. l = Inl e \<and> \<not> IsNotExist e)"
    show "works (\<lambda>s. s = st) ((if case l of Inl err \<Rightarrow> \<not> IsNotExist err | Inr _ \<Rightarrow> False
        then ret (case l of Inl err \<Rightarrow> Some err | Inr _ \<Rightarrow> None)
        else do {
          let oldTsDir = (case l of Inl _ \<Rightarrow> '''' | Inr t \<Rightarrow> t);
          c \<leftarrow> (if oldTsDir \<noteq> '''' then compare_versions env es (Join [path_string D, oldTsDir])
                else ret (Inr (Some [])));
          case c of
            Inl err \<Rightarrow> ret (Some err)
          | Inr None \<Rightarrow> ret None
          | Inr (Some paths) \<Rightarrow> do {
              e \<leftarrow> install_version env (writer_at D) es;
              case e of Some err \<Rightarrow> ret (Some err) | None \<Rightarrow> clean_up env (writer_at D) paths oldTsDir
            }
        }) :: ('x world, goerror option) state) (\<lambda>r st. r = None \<and> published st D)"
    proof (cases "lookup s0 (data_key D)")
      case None
      with l obtain e where e: "l = Inl e" "IsNotExist e" by auto
      have "works (\<lambda>st. st = s0) (do {
          e \<leftarrow> install_version env (writer_at D) es;
          case e of Some err \<Rightarrow> ret (Some err) | None \<Rightarrow> clean_up env (writer_at D) [] ''''
        } :: ('x world, goerror option) state) (\<lambda>r st. r = None \<and> published st D)"
        by (rule replace_works [OF env os inv es cf pub free]) simp_all
      then show ?thesis unfolding st e(1) using e(2) by simp
    next
      case (Some i)
      then obtain t where cur: "current s0 D = Some t" using inv by (auto simp: writer_inv_def)
      then have lt: "l = Inr t" using l Some by (auto simp: current_def split: fkind.splits)
      have v: "plain_version s0 D t" by (rule writer_inv_version [OF inv cur])
      then have t: "stamped t" "tree_at s0 (D @ [t])" by (simp_all add: plain_version_def)
      have ne: "t \<noteq> ''''" using stamped_name [OF t(1)] by (auto dest: name_compD)
      have jt: "Join [path_string D, t] = path_string (D @ [t])"
        by (rule Join_path_string_name [OF D(1) stamped_name [OF t(1)]])
      have fit: "fits s0 (D @ [t]) es" using ready cur by (simp add: update_ready_def)
      show ?thesis
        unfolding st lt sum.case if_False Let_def jt if_P [OF ne]
      proof (rule works_bind [OF compare_versions_works [OF t0 t(2) env es fit]], rule works_any,
          elim conjE exE)
        fix c :: "goerror + string list option" and s1 x
        assume s1: "s1 = s0" and c: "c = Inr x"
          and ps: "\<forall>ps. x = Some ps \<longrightarrow> distinct ps \<and> (\<forall>p \<in> set ps. removable s0 (D @ [t]) p) \<and>
            (\<forall>e \<in> set es. first_comp (fst e) \<notin> set ps)"
        show "works (\<lambda>s. s = s1) ((case c of
              Inl err \<Rightarrow> ret (Some err)
            | Inr None \<Rightarrow> ret None
            | Inr (Some paths) \<Rightarrow> do {
                e \<leftarrow> install_version env (writer_at D) es;
                case e of Some err \<Rightarrow> ret (Some err) | None \<Rightarrow> clean_up env (writer_at D) paths t
              }) :: ('x world, goerror option) state) (\<lambda>r st. r = None \<and> published st D)"
        proof (cases x)
          case None
          show ?thesis unfolding s1 c None sum.case option.case by (rule works_ret) (simp add: pub)
        next
          case (Some paths)
          show ?thesis
            unfolding s1 c Some sum.case option.case
            by (rule replace_works [OF env os inv es cf pub free]) (use t(1) cur ps Some in auto)
        qed
      qed
    qed
  qed
qed

end
