(* ===== verification/UpdateTheorems.thy ===== *)
theory UpdateTheorems
  imports UpdateProps
begin

text \<open>
  Liveness of the atomic writer: without failing calls an update goes through and the next one can follow.
  And the updates that cannot go through: a file in the place of a directory.
\<close>

section \<open>Updates go through\<close>

lemma conflict_free0: "conflict_free [(''token'', f), (''d/k'', g)]"
  by (simp add: conflict_free_def strict_prefix_def)

lemma published0: "published store0 [''t'']"
proof -
  have h: "hidden ''..2024''" by (simp add: hidden_def HasPrefix_def)
  have "\<not> is_dir store0 ([''t''] @ [n])" if "\<not> hidden n" for n
    using that h by (auto simp: eval0)
  moreover have "current store0 [''t''] = Some ''..2024''" by (simp add: current_def eval0)
  moreover have "lookup store0 ([''t''] @ [n]) \<noteq> None" if "lookup store0 ([''t''] @ [''..2024'', n]) \<noteq> None" for n
    using that by (auto simp: eval0 split: if_splits)
  moreover have "lookup store0 (tmp_key [''t'']) = None" by (simp add: eval0)
  ultimately show ?thesis by (simp add: published_def)
qed

lemma free_name0: "free_name env0 store0 [''t'']"
proof -
  have "ts_prefix (now env0) @ rnd env0 0 = ''..2024_05_01_12_30_07.0''" by code_simp
  then have "lookup store0 ([''t''] @ [ts_prefix (now env0) @ rnd env0 0]) = None" by (simp add: eval0)
  then show ?thesis unfolding free_name_def by (intro exI [of _ 0]) simp
qed

lemma fits0: "fits store0 [''t'', ''..2024''] [(''token'', f), (''d/k'', g)]"
proof -
  have k: "pkey [''t'', ''..2024''] ''token'' = [''t'', ''..2024'', ''token'']"
    "pkey [''t'', ''..2024''] ''d/k'' = [''t'', ''..2024'', ''d'', ''k'']" by (simp_all add: pkey_def)
  have "clear_way store0 [''t'', ''..2024''] [''t'', ''..2024'']"
    by (auto simp: clear_way_def strict_prefix_def dest: prefix_order.antisym)
  moreover have "clear_way store0 [''t'', ''..2024''] [''t'', ''..2024'', ''d'']"
    unfolding clear_way_def
  proof (intro allI impI)
    fix q
    assume "prefix q [''t'', ''..2024'', ''d'']" and s: "strict_prefix [''t'', ''..2024''] q"
    then have "q = [''t'', ''..2024'', ''d'']"
      by (auto simp: strict_prefix_def prefix_Cons)
    then show "lookup store0 q = None \<or> is_dir store0 q" by (simp add: eval0)
  qed
  moreover have "\<not> is_dir store0 [''t'', ''..2024'', ''token'']" "\<not> is_dir store0 [''t'', ''..2024'', ''d'', ''k'']"
    by (simp_all add: eval0)
  ultimately show ?thesis by (simp add: fits_def k)
qed

lemma ready0: "update_ready env0 store0 [''t''] [(''token'', f), (''d/k'', g)]"
  using published0 free_name0 conflict_free0 fits0
  by (simp add: update_ready_def) (simp add: current_def eval0)

lemma faultless0: "faultless (world0 st)"
  by (simp add: faultless_def world0_def)

text \<open>C9. When no system call fails, \<open>Write\<close> succeeds on every directory in which earlier updates succeeded:
  with a temporary name free, no path of the payload above another one, and new files only where the
  current version has files or nothing. Then the current version holds the payload, every entry of it
  is visible, and the directory is again one that \<open>Write\<close> succeeds on.\<close>

theorem update_succeeds:
  assumes "env_laws env" and "GOOS env = Linux" and "writer_inv (store w) D" and "tidy p"
    and "validatePayload env p = Inr es" and "update_ready env (store w) D es" and "faultless w"
  shows "\<exists>w'. run_state (Write env \<lparr>targetDir = path_string D\<rparr> p) w = (None, w') \<and>
    up_to_date D es (store w') \<and> writer_inv (store w') D \<and> published (store w') D \<and> faultless w'"
proof -
  obtain r w' where run: "run_state (Write env (writer_at D) p) w = (r, w')" by fastforce
  from worksD [OF Write_works [OF assms(1-6)] assms(7) refl run]
  have w: "faultless w'" "r = None" "published (store w') D" by simp_all
  have inv: "writer_inv (store w') D" by (rule Write_inv [OF assms(1-4) run])
  from Write_cases [OF assms(1-4) run] w(2) assms(5) have "up_to_date D es (store w')"
    using updated_up_to_date by auto
  with w inv run show ?thesis by auto
qed

theorem update_succeeds_witness:
  "\<exists>w'. run_state (Write env0 \<lparr>targetDir = path_string [''t'']\<rparr> (payload0 ''3'')) (world0 store0) = (None, w') \<and>
    up_to_date [''t''] [(''token'', file0 ''3''), (''d/k'', file0 ''2'')] (store w') \<and> published (store w') [''t'']"
proof -
  have "writer_inv (store (world0 store0)) [''t'']"
    and "update_ready env0 (store (world0 store0)) [''t''] [(''token'', file0 ''3''), (''d/k'', file0 ''2'')]"
    using inv0 ready0 by (simp_all add: world0_def)
  moreover have "validatePayload env0 (payload0 ''3'') = Inr [(''token'', file0 ''3''), (''d/k'', file0 ''2'')]"
    by code_simp
  ultimately show ?thesis
    using update_succeeds [OF env0_laws _ tidy0 _ _ faultless0, of store0 "[''t'']" "''3''"] by blast
qed

section \<open>Updates that never go through\<close>


text \<open>
  The payload, in the order in which the comparison visits it: the files are as in the current version, up to
  one in whose place the current version has a directory.
\<close>

fun blocked_first :: "fstore \<Rightarrow> string list \<Rightarrow> payload \<Rightarrow> bool" where
  "blocked_first st R [] \<longleftrightarrow> False"
| "blocked_first st R (e # es) \<longleftrightarrow> is_dir st (pkey R (fst e)) \<or>
     (is_file st (pkey R (fst e)) (fp_Data (snd e)) \<and> blocked_first st R es)"

text \<open>When nothing else has changed, this is so in every order.\<close>

lemma only_change_blocked_first:
  assumes "\<forall>e \<in> set es. is_dir st (pkey R (fst e)) \<or> is_file st (pkey R (fst e)) (fp_Data (snd e))"
    and "\<exists>e \<in> set es. is_dir st (pkey R (fst e))"
  shows "blocked_first st R es"
  using assms by (induction es) auto





end
