(* ===== verification/VolumeLive.thy ===== *)
theory VolumeLive
  imports VolumeWrite UpdateTheorems
begin

unbundle bit_operations_syntax

text \<open>
  Writing the files of a volume when no system call fails: the directory is there, the update goes through,
  and the change of ownership finds every file behind the data link.
\<close>

section \<open>Ownership\<close>

lemma os_MkdirAll_existing_works:
  assumes "names p" and "dirs_to s0 p"
  shows "works (\<lambda>st. st = s0) (os_MkdirAll (path_string p) m :: ('x world, goerror option) state)
    (\<lambda>r st. r = None \<and> st = s0)"
proof -
  obtain i where i: "st_get True (path_string p) s0 = Inr i" "IsDir i"
    using namei_dir [OF assms spells_path_string, of True] dirs_to_is_dir [OF assms(2)]
    by (auto simp: st_get_def is_dir_def IsDir_iff)
  have "works (\<lambda>st. st = s0) (os_Stat (path_string p)) (\<lambda>r st. r = Inr i \<and> st = s0)"
    by (rule works_conseq [OF os_Stat_works [of s0 "path_string p", unfolded i(1) lift_err_def sum.case]]) auto
  then show ?thesis
    unfolding os_MkdirAll.simps [of "path_string p"]
    by (rule works_ok) (use i(2) in \<open>auto intro: works_ret\<close>)
qed

text \<open>A path through the data link leads to the file in the current version.\<close>

lemma resolve_through_link:
  assumes D: "names D" "dirs_to st D" and l: "current st D = Some t" "name_comp t"
    and cs: "names cs" "dirs_to st (butlast (D @ t # cs))" "is_file st (D @ t # cs) x" "cs \<noteq> []"
  shows "resolve st True (Suc m) D (dataDirName # cs) = Inr (D @ t # cs)"
proof -
  obtain i where i: "lookup st (D @ [dataDirName]) = Some i" "kind i = Symlink t"
    using currentD [OF l(1)] by auto
  obtain cs' c where c: "cs = cs' @ [c]" using cs(4) by (cases cs rule: rev_cases) auto
  have bl: "butlast (D @ t # cs) = D @ t # cs'" by (simp add: c butlast_append)
  have d: "dirs st D (t # cs')" using cs(2) unfolding bl by (simp add: dirs_append)
  have dn: "dataDirName \<noteq> ''''" "dataDirName \<noteq> ''.''" "dataDirName \<noteq> ''..''" by (simp_all add: dataDirName_def)
  have st: "split_on sep t = [t]" using name_compD [OF l(2)] by (intro split_on_no_sep) simp
  have lb: "link_base t D = D" using name_compD [OF l(2)] by (cases t) (auto simp: link_base_def IsAbs_def)
  have "resolve st True (Suc m) D (dataDirName # cs) = resolve st True m D (t # cs)"
    by (subst resolve.simps(2)) (use dn i cs(4) in \<open>simp add: st lb\<close>)
  also have "\<dots> = resolve st True m (D @ t # cs') [c]"
    using resolve_dirs [OF _ d, of True m "[c]"] l(2) cs(1) by (simp add: c)
  also have "\<dots> = Inr (D @ t # cs)"
    using resolve_last_nolink [of c st "D @ t # cs'" True m] cs(1,3) by (auto simp: c is_file_def is_link_def)
  finally show ?thesis .
qed

lemma namei_through_link:
  assumes D: "names D" "dirs_to st D" and l: "current st D = Some t" "name_comp t"
    and cs: "names cs" "dirs_to st (butlast (D @ t # cs))" "is_file st (D @ t # cs) x" "cs \<noteq> []"
  shows "namei st True (path_string (D @ dataDirName # cs)) = Inr (D @ t # cs)"
proof -
  have n: "names (D @ dataDirName # cs)" using D(1) cs(1) data_names by simp
  have "max_links = Suc 39" by (simp add: max_links_def)
  then show ?thesis
    using namei_path_string [OF n] resolve_dirs [OF D, of True max_links "dataDirName # cs"]
      resolve_through_link [OF assms, of 39] by simp
qed

lemma Join_raw:
  assumes "names P" and "validatePath k = None" and "ok_path (Clean k)"
  shows "Join [path_string P, k] = path_string (P @ split_on sep (Clean k))"
proof -
  let ?cs = "filter (\<lambda>c. c \<noteq> '''' \<and> c \<noteq> ''.'') (split_on sep k)"
  have k: "k \<noteq> ''''" "\<not> IsAbs k" "''..'' \<notin> set (split_on sep k)"
    using assms(2) by (auto simp: validatePath_def Let_def check_items_None split: if_splits option.splits)
  have cs: "split_on sep (Clean k) = ?cs"
  proof -
    have f: "clean_comps False [] (split_on sep k) = ?cs" using k(3) by (simp add: clean_comps_no_dotdot)
    have "?cs \<noteq> []"
    proof
      assume "?cs = []"
      then have "Clean k = ''.''" using f k(1,2) by (simp add: Clean_def)
      with assms(3) show False by (simp add: ok_path_def name_comp_def plain_comp_def)
    qed
    moreover have "names ?cs"
    proof -
      have "name_comp c" if "c \<in> set ?cs" for c
      proof -
        from that have c: "c \<in> set (split_on sep k)" "c \<noteq> ''''" "c \<noteq> ''.''" by auto
        moreover have "c \<noteq> ''..''" using k(3) c(1) by metis
        ultimately show ?thesis by (intro piece_name)
      qed
      then show ?thesis by (simp add: list_all_iff)
    qed
    moreover from this f k(1,2) \<open>?cs \<noteq> []\<close> have "Clean k = join_on sep ?cs"
      by (cases ?cs) (simp_all add: Clean_def)
    ultimately show ?thesis using split_join_names by metis
  qed
  have "split_on sep (path_string P @ sep # k) = '''' # (if P = [] then [''''] else P) @ split_on sep k"
    using assms(1) by (simp add: split_on_append_sep path_string_def split_join_names del: split_on.simps(2))
  moreover have "clean_comps True [] ('''' # (if P = [] then [''''] else P) @ split_on sep k) = P @ ?cs"
    using clean_comps_names [OF assms(1), of True "[]" "split_on sep k"] k(3)
    by (cases "P = []") (simp_all add: clean_comps_skip clean_comps_no_dotdot)
  ultimately show ?thesis
    unfolding cs by (simp add: Join_def Clean_def IsAbs_def path_string_def)
qed

lemma validate_entries_keys:
  "validate_entries p acc = Inr es \<Longrightarrow>
    fst ` set es = Clean ` fst ` set p \<union> fst ` set acc \<and> (\<forall>k \<in> fst ` set p. validatePath k = None)"
proof (induction p acc rule: validate_entries.induct)
  case (2 k content rest clean)
  have v: "validatePath k = None" using 2(2) by (auto split: option.splits)
  have "fst ` set (AList.update (Clean k) content clean) = insert (Clean k) (fst ` set clean)"
    by (simp add: dom_update)
  with 2 v show ?case by auto
qed simp

lemma validatePayload_keys:
  assumes "env_laws env" and "validatePayload env p = Inr es"
  shows "fst ` set es = Clean ` fst ` set p" and "\<forall>k \<in> fst ` set p. validatePath k = None"
proof -
  have "set (map_order env 0 p) = set p" using assms(1) by (simp add: env_laws_sets)
  then show "fst ` set es = Clean ` fst ` set p" "\<forall>k \<in> fst ` set p. validatePath k = None"
    using validate_entries_keys [OF assms(2) [unfolded validatePayload_def]] by simp_all
qed

text \<open>
  An inode belongs to the group \<open>x\<close>, as the system call takes it: modulo \<open>2 ^ 32\<close>, and 4294967295 is the
  \<open>-1\<close> that leaves the group as it was.
\<close>

definition has_group :: "int \<Rightarrow> fstore \<Rightarrow> string list \<Rightarrow> bool" where
  "has_group x st p \<longleftrightarrow> (case lookup st p of None \<Rightarrow> False
     | Some i \<Rightarrow> x mod 4294967296 = 4294967295 \<or> gid i = x mod 4294967296)"

text \<open>Changing the owner of one more inode leaves the others with the group they have.\<close>

lemma chown_one_works:
  assumes "namei s0 True s = Inr p" and "lookup s0 p \<noteq> None" and "p \<noteq> []"
  shows "works (\<lambda>st. st = s0) (os_Chown s u g)
    (\<lambda>r st. r = None \<and> same_kinds s0 st \<and> has_group g st p \<and> (\<forall>q. has_group g s0 q \<longrightarrow> has_group g st q))"
proof -
  obtain i where i: "lookup s0 p = Some i" using assms(2) by blast
  have "works (\<lambda>st. st = s0) (os_Chown s u g)
      (\<lambda>r st. r = None \<and> has_group g st p \<and> (\<forall>q. has_group g s0 q \<longrightarrow> has_group g st q))"
    unfolding os_Chown_def
    by (rule works_map_state, rule works_sys_write)
      (use assms(1,3) i in \<open>auto simp: st_change_def has_group_def lookup_put chown_id_def\<close>)
  moreover have "ensures (\<lambda>st. st = s0) (os_Chown s u g) (\<lambda>_ st. same_kinds s0 st)"
    by (rule ensures_conseq [OF os_Chown_kinds [of s0]]) auto
  ultimately show ?thesis by (rule works_conseq [OF works_and]) auto
qed

lemma chown_files_works:
  assumes D: "names D" and inv: "writer_inv s0 D" and u: "up_to_date D es s0"
    and ks: "\<forall>k \<in> set ks. validatePath k = None \<and> ok_path (Clean k) \<and> Clean k \<in> fst ` set es"
    and t: "current s0 D = Some t"
  shows "works (\<lambda>st. same_kinds s0 st \<and> (\<forall>p \<in> G. has_group g st p))
    (chown_files (Join [path_string D, dataDirName]) g ks :: ('x world, goerror option) state)
    (\<lambda>r st. r = None \<and> same_kinds s0 st \<and>
      (\<forall>p \<in> G \<union> (\<lambda>k. pkey (D @ [t]) (Clean k)) ` set ks. has_group g st p))"
  using ks
proof (induction ks arbitrary: G)
  case Nil
  show ?case by (auto intro: works_ret)
next
  case (Cons k ks)
  have j: "Join [path_string D, dataDirName] = path_string (data_key D)"
    using Join_path_string_name [OF D] data_names by auto
  have nd: "names (data_key D)" using D data_names by simp
  let ?cs = "split_on sep (Clean k)"
  have k: "validatePath k = None" "ok_path (Clean k)" "Clean k \<in> fst ` set es" using Cons.prems by simp_all
  have ncs: "names ?cs" using k(2) by (simp add: ok_path_def)
  obtain e where e: "e \<in> set es" "fst e = Clean k"
    and fl: "is_file s0 (pkey (D @ [t]) (fst e)) (fp_Data (snd e))"
    using u k(3) t by (auto simp: up_to_date_def)
  let ?p = "pkey (D @ [t]) (Clean k)"
  have st: "name_comp t"
    using writer_inv_version [OF inv t] stamped_name by (auto simp: plain_version_def)
  have one: "works (\<lambda>st. same_kinds s0 st \<and> (\<forall>p \<in> G. has_group g st p))
      (os_Chown (Join [path_string (data_key D), k]) (- 1) g)
      (\<lambda>r st. r = None \<and> same_kinds s0 st \<and> (\<forall>p \<in> insert ?p G. has_group g st p))"
  proof (rule works_any, elim conjE)
    fix s1
    assume sk: "same_kinds s0 s1" and G: "\<forall>p \<in> G. has_group g s1 p"
    have inv1: "writer_inv s1 D" by (rule same_kinds_inv [OF sk inv])
    have f1: "is_file s1 (D @ t # ?cs) (fp_Data (snd e))"
      using fl e(2) by (simp add: same_kinds_at [OF sk] pkey_def)
    then have l1: "lookup s1 (D @ t # ?cs) \<noteq> None" by (auto simp: is_file_def)
    have n1: "namei s1 True (path_string (D @ dataDirName # ?cs)) = Inr (D @ t # ?cs)"
    proof (rule namei_through_link [OF D _ _ st ncs _ f1])
      show "dirs_to s1 D" using inv1 by (simp add: writer_inv_def)
      show "current s1 D = Some t" using t by (simp add: same_kinds_at [OF sk])
      show "dirs_to s1 (butlast (D @ t # ?cs))"
        using tree_dirs_above [OF _ l1] inv1 by (simp add: writer_inv_def)
    qed (rule split_on_not_Nil)
    have jk: "Join [path_string (data_key D), k] = path_string (D @ dataDirName # ?cs)"
      using Join_raw [OF nd k(1,2)] by simp
    have p: "D @ t # ?cs \<noteq> []" "?p = D @ t # ?cs" by (simp_all add: pkey_def)
    show "works (\<lambda>st. st = s1) (os_Chown (Join [path_string (data_key D), k]) (- 1) g)
        (\<lambda>r st. r = None \<and> same_kinds s0 st \<and> (\<forall>p \<in> insert ?p G. has_group g st p))"
      unfolding jk p(2)
      by (rule works_conseq [OF chown_one_works [OF n1 l1 p(1)]]) (use G in \<open>auto intro: same_kinds_trans [OF sk]\<close>)
  qed
  have "\<forall>k \<in> set ks. validatePath k = None \<and> ok_path (Clean k) \<and> Clean k \<in> fst ` set es"
    using Cons.prems by simp
  note ih = Cons.IH [OF this, of "insert ?p G", unfolded j]
  have eq: "insert ?p G \<union> (\<lambda>k. pkey (D @ [t]) (Clean k)) ` set ks =
      G \<union> (\<lambda>k. pkey (D @ [t]) (Clean k)) ` set (k # ks)"
    by auto
  note rest = ih [unfolded eq]
  show ?case
    unfolding chown_files.simps j by (rule works_ok [OF one], unfold option.case, rule rest)
qed

lemma chown_data_dir_works:
  assumes "names D" and "dirs_to s0 D" and "D \<noteq> []"
  shows "works (\<lambda>st. st = s0) (chown_data_dir (path_string D) g)
    (\<lambda>r st. r = None \<and> same_kinds s0 st \<and> (\<forall>x. g = Some x \<longrightarrow> has_group x st D))"
proof (cases g)
  case None
  then show ?thesis by (auto simp: chown_data_dir_def intro: works_ret)
next
  case (Some x)
  have "lookup s0 D \<noteq> None" using dirs_to_is_dir [OF assms(2)] by (auto simp: is_dir_def)
  from chown_one_works [OF namei_dir [OF assms(1,2) spells_path_string] this assms(3), of "- 1" x]
  have "works (\<lambda>st. st = s0) (os_Chown (path_string D) (- 1) x)
      (\<lambda>r st. r = None \<and> same_kinds s0 st \<and> has_group x st D)"
    by (rule works_conseq) auto
  then show ?thesis
    unfolding Some chown_data_dir_def option.case by (intro works_map_state) simp
qed

section \<open>Writing\<close>

lemma same_kinds_ready:
  assumes "same_kinds a b"
  shows "update_ready env b D es = update_ready env a D es" "published b D = published a D"
proof -
  show p: "published b D = published a D"
    by (simp add: published_def same_kinds_at [OF assms])
  show "update_ready env b D es = update_ready env a D es"
    by (simp add: update_ready_def p free_name_def fits_def clear_way_def same_kinds_at [OF assms])
qed

text \<open>What an update that went through leaves behind.\<close>

definition up_and_ready :: "string list \<Rightarrow> payload \<Rightarrow> fstore \<Rightarrow> bool" where
  "up_and_ready D es st \<longleftrightarrow> up_to_date D es st \<and> writer_inv st D \<and> published st D"

lemma same_kinds_up: "same_kinds a b \<Longrightarrow> up_and_ready D es a \<Longrightarrow> up_and_ready D es b"
  by (simp add: up_and_ready_def same_kinds_up_to_date same_kinds_inv same_kinds_ready)

text \<open>The data directory and the files of the current version belong to the group of the volume, if it has one.\<close>

definition grouped :: "string list \<Rightarrow> payload \<Rightarrow> int option \<Rightarrow> fstore \<Rightarrow> bool" where
  "grouped D es g st \<longleftrightarrow> (case g of None \<Rightarrow> True | Some x \<Rightarrow> has_group x st D \<and>
     (case current st D of None \<Rightarrow> False
      | Some t \<Rightarrow> (\<forall>e \<in> set es. has_group x st (pkey (D @ [t]) (fst e)))))"

lemma Write_up:
  assumes "env_laws env" and "GOOS env = Linux" and "writer_inv s0 D" and "tidy p"
    and "validatePayload env p = Inr es" and "update_ready env s0 D es"
  shows "works (\<lambda>st. st = s0) (Write env (writer_at D) p :: ('x world, goerror option) state)
    (\<lambda>r st. r = None \<and> up_and_ready D es st \<and> lookup st D = lookup s0 D)"
proof (rule worksI)
  fix w w' :: "'x world" and r
  assume w: "faultless w" "store w = s0" and run: "run_state (Write env (writer_at D) p) w = (r, w')"
  from worksD [OF Write_works [OF assms] w run] have r: "faultless w'" "r = None" "published (store w') D"
    by simp_all
  have "write_outcome D (\<lambda>es. validatePayload env p = Inr es) s0 r (store w')"
    by (rule ensuresD [OF Write_outcome [OF assms(1-4)] w(2) run])
  moreover have "lookup (store w') D = lookup s0 D"
  proof -
    have i: "writer_inv (store w) D" using assms(3) w(2) by simp
    have "inside D (store w) (store w')"
      using Write_cases [OF assms(1,2) i assms(4) run] unfolding kept_def updated_def by blast
    from inside_above [OF this, of D] w(2) show ?thesis by simp
  qed
  ultimately show "faultless w' \<and> r = None \<and> up_and_ready D es (store w') \<and> lookup (store w') D = lookup s0 D"
    using r assms(5) by (simp add: write_outcome_def up_and_ready_def)
qed

lemma write_payload_works:
  assumes env: "env_laws env" "GOOS env = Linux" and inv: "writer_inv s0 D" and tidy: "tidy (makePayload fs)"
    and v: "validatePayload env (makePayload fs) = Inr es" and ready: "update_ready env s0 D es"
    and g: "\<forall>x. g = Some x \<longrightarrow> has_group x s0 D"
  shows "works (\<lambda>st. st = s0) (write_payload env (path_string D) g fs :: ('x world, goerror option) state)
    (\<lambda>r st. r = None \<and> up_and_ready D es st \<and> grouped D es g st)"
proof -
  have D: "names D" "dirs_to s0 D" using inv by (simp_all add: writer_inv_def)
  obtain i where i: "st_get True (path_string D) s0 = Inr i"
    using namei_dir [OF D spells_path_string, of True] dirs_to_is_dir [OF D(2)]
    by (auto simp: st_get_def is_dir_def)
  have new: "works (\<lambda>st. st = s0) (NewAtomicWriter (path_string D))
      (\<lambda>r st. r = Inr (writer_at D) \<and> st = s0)"
    unfolding NewAtomicWriter_def
    by (rule works_bind [OF os_Stat_works], rule works_ret) (auto simp: i lift_err_def)
  have keys: "fst ` set (makePayload fs) = set (map fst fs)"
    by (force simp: makePayload_def)
  note vk = validatePayload_keys [OF env(1) v]
  have es: "good_entries es" by (rule validatePayload_good [OF env(1) tidy v])
  have so: "set (set_order env (map fst fs)) = set (map fst fs)" by (rule env_laws_sets [OF env(1)])
  have ks: "\<forall>k \<in> set (set_order env (map fst fs)). validatePath k = None \<and> ok_path (Clean k) \<and>
      Clean k \<in> fst ` set es"
  proof
    fix k
    assume k: "k \<in> set (set_order env (map fst fs))"
    then have m: "Clean k \<in> fst ` set es" using vk(1) by (simp add: keys so)
    then have "ok_path (Clean k)" using es by (auto simp: good_entries_def)
    moreover have "validatePath k = None" using k by (intro bspec [OF vk(2)]) (simp only: keys so)
    ultimately show "validatePath k = None \<and> ok_path (Clean k) \<and> Clean k \<in> fst ` set es" using m by simp
  qed
  have covered: "fst ` set es = Clean ` set (set_order env (map fst fs))" using vk(1) by (simp add: keys so)
  have chown: "works (\<lambda>st. up_and_ready D es st \<and> lookup st D = lookup s0 D)
      (chown_written env (path_string D) g fs :: ('x world, goerror option) state)
      (\<lambda>r st. r = None \<and> up_and_ready D es st \<and> grouped D es g st)"
  proof (rule works_any, elim conjE)
    fix s1
    assume u: "up_and_ready D es s1" and top: "lookup s1 D = lookup s0 D"
    obtain t where t: "current s1 D = Some t" using u by (auto simp: up_and_ready_def up_to_date_def)
    let ?at = "\<lambda>k. pkey (D @ [t]) (Clean k)"
    show "works (\<lambda>st. st = s1) (chown_written env (path_string D) g fs :: ('x world, goerror option) state)
        (\<lambda>r st. r = None \<and> up_and_ready D es st \<and> grouped D es g st)"
    proof (cases g)
      case None
      then show ?thesis using u by (auto simp: grouped_def intro: works_ret)
    next
      case (Some x)
      then have D1: "has_group x s1 D" using g top by (simp add: has_group_def)
      have "works (\<lambda>st. same_kinds s1 st \<and> (\<forall>p \<in> {D}. has_group x st p))
          (chown_files (Join [path_string D, dataDirName]) x (set_order env (map fst fs))
            :: ('x world, goerror option) state)
          (\<lambda>r st. r = None \<and> same_kinds s1 st \<and>
            (\<forall>p \<in> {D} \<union> ?at ` set (set_order env (map fst fs)). has_group x st p))"
        by (rule chown_files_works [OF D(1) _ _ ks t]) (use u in \<open>simp_all add: up_and_ready_def\<close>)
      note c = this [unfolded dataDirName_def]
      have "grouped D es g st" if sk: "same_kinds s1 st"
        and gr: "\<forall>p \<in> {D} \<union> ?at ` set (set_order env (map fst fs)). has_group x st p" for st
      proof -
        have "has_group x st (pkey (D @ [t]) (fst e))" if "e \<in> set es" for e
        proof -
          from that covered have "fst e \<in> Clean ` set (set_order env (map fst fs))" by blast
          with gr show ?thesis by auto
        qed
        then show ?thesis using gr t Some by (simp add: grouped_def same_kinds_at [OF sk])
      qed
      then show ?thesis
        unfolding Some option.case
        by (intro works_conseq [OF c]) (use same_kinds_up [OF _ u] D1 Some in auto)
    qed
  qed
  show ?thesis
    unfolding write_payload_def
    by (rule works_ok [OF new], unfold sum.case,
        rule works_ok [OF Write_up [OF env inv tidy v ready]], unfold option.case, rule chown)
qed

lemma WriteFiles_works:
  assumes "env_laws env" and "GOOS env = Linux" and "base_at f B" and "name_comp (VolumeID meta)"
    and "writer_inv s0 (data_dir B (VolumeID meta))" and "tidy (makePayload fs)"
    and "validatePayload env (makePayload fs) = Inr es"
    and "update_ready env s0 (data_dir B (VolumeID meta)) es"
    and "fsGroupForMetadata f meta = Inr g"
  shows "works (\<lambda>st. st = s0) (WriteFiles env f meta fs :: ('x world, goerror option) state)
    (\<lambda>r st. r = None \<and> up_and_ready (data_dir B (VolumeID meta)) es st \<and>
      grouped (data_dir B (VolumeID meta)) es g st)"
proof -
  let ?D = "data_dir B (VolumeID meta)" and ?V = "volume_key B (VolumeID meta)"
  have D: "names ?D" "dirs_to s0 ?D" using assms(5) by (simp_all add: writer_inv_def)
  have D_ne: "?D \<noteq> []" by simp
  have V: "names ?V" "dirs_to s0 ?V"
    using D by (auto intro: dirs_to_prefix [of _ ?D] simp: prefix_def)
  have mk: "works (\<lambda>st. st = s0) (ensureVolumeDirectory f (VolumeID meta)) (\<lambda>r st. r = None \<and> st = s0)"
    unfolding ensureVolumeDirectory_def volume_paths [OF assms(3,4)]
    by (rule works_ok [OF os_MkdirAll_existing_works [OF V]], unfold option.case,
        rule os_MkdirAll_existing_works [OF D])
  have wr: "works (\<lambda>st. same_kinds s0 st \<and> (\<forall>x. g = Some x \<longrightarrow> has_group x st ?D))
      (write_payload env (path_string ?D) g fs)
      (\<lambda>r st. r = None \<and> up_and_ready ?D es st \<and> grouped ?D es g st)"
    by (rule works_any, rule write_payload_works [OF assms(1,2) _ assms(6,7)])
      (use same_kinds_inv [OF _ assms(5)] same_kinds_ready assms(8) in auto)
  show ?thesis
    unfolding WriteFiles_def Let_def volume_paths [OF assms(3,4)]
    by (rule works_ok [OF mk], unfold option.case assms(9) sum.case,
        rule works_ok [OF chown_data_dir_works [OF D D_ne]], unfold option.case, rule wr)
qed

text \<open>
  C10. When no system call fails, writing the files of a registered volume succeeds: its data directory ends
  with a current version that holds every file and is ready for the next write, and when the volume has a group
  the data directory and every file of that version belong to it. The group number is taken modulo \<open>2 ^ 32\<close>;
  4294967295, which the code accepts, means to the system call that the group stays as it is.
\<close>

theorem filesystem_write_succeeds:
  assumes "env_laws env" and "GOOS env = Linux" and "base_at f B" and "name_comp (VolumeID meta)"
    and "writer_inv (store w) (data_dir B (VolumeID meta))" and "tidy (makePayload fs)"
    and "validatePayload env (makePayload fs) = Inr es"
    and "update_ready env (store w) (data_dir B (VolumeID meta)) es"
    and "fsGroupForMetadata f meta = Inr g" and "faultless w"
  shows "\<exists>w'. run_state (WriteFiles env f meta fs) w = (None, w') \<and>
    up_and_ready (data_dir B (VolumeID meta)) es (store w') \<and>
    (\<forall>x. g = Some x \<longrightarrow> has_group x (store w') (data_dir B (VolumeID meta)) \<and>
      (\<exists>t. current (store w') (data_dir B (VolumeID meta)) = Some t \<and>
        (\<forall>e \<in> set es. has_group x (store w') (pkey (data_dir B (VolumeID meta) @ [t]) (fst e))))) \<and>
    faultless w'"
  using worksD [OF WriteFiles_works [OF assms(1-9)] assms(10) refl]
  by (cases "run_state (WriteFiles env f meta fs) w") (auto simp: grouped_def split: option.splits)

theorem filesystem_write_succeeds_witness:
  "\<exists>w'. run_state (WriteFiles env0 filesystem0 metadata0 [(''token'', ''1'')]) (world0 volume0) = (None, w') \<and>
    up_and_ready [''b'', ''inmemfs'', ''v'', ''data'']
      [(''token'', \<lparr>fp_Data = ''1'', fp_Mode = readOnlyUserAndGroupFileMode, fp_FsUser = None\<rparr>)] (store w') \<and>
    has_group 7 (store w') [''b'', ''inmemfs'', ''v'', ''data'']"
proof -
  let ?es = "[(''token'', \<lparr>fp_Data = ''1'', fp_Mode = readOnlyUserAndGroupFileMode, fp_FsUser = None\<rparr>)]"
  let ?D = "[''b'', ''inmemfs'', ''v'', ''data'']"
  have at: "base_at filesystem0 [''b'']" "name_comp (VolumeID metadata0)"
    by (simp_all add: base_at_def filesystem0_def metadata0_def path_string_def name_comp_def plain_comp_def)
  have inv: "writer_inv (store (world0 volume0)) (data_dir [''b''] (VolumeID metadata0))"
    using volume0_inv by (simp add: world0_def metadata0_def)
  have "Clean ''token'' = ''token''" by code_simp
  then have tidy: "tidy (makePayload [(''token'', ''1'')])"
    by (simp add: tidy_def makePayload_def hidden_def HasPrefix_def)
  have v: "validatePayload env0 (makePayload [(''token'', ''1'')]) = Inr ?es" by code_simp
  have cur: "current volume0 ?D = None" by (simp add: current_def volume0_def eval0)
  have pub: "published volume0 ?D" by (simp add: published_def cur) (simp add: volume0_def eval0)
  have free: "free_name env0 volume0 ?D"
    unfolding free_name_def by (intro exI [of _ 0]) (simp add: volume0_def eval0)
  have cf: "conflict_free ?es" by (simp add: conflict_free_def)
  have ready: "update_ready env0 (store (world0 volume0)) (data_dir [''b''] (VolumeID metadata0)) ?es"
    using pub free cf cur by (simp add: update_ready_def world0_def metadata0_def)
  have g: "fsGroupForMetadata filesystem0 metadata0 = Inr (Some 7)"
    by (simp add: fsGroupForMetadata_def filesystem0_def)
  show ?thesis
    using filesystem_write_succeeds [OF env0_laws at inv tidy v ready g faultless0]
    by (auto simp: metadata0_def)
qed

end
