(* ===== verification/Recovery.thy ===== *)
theory Recovery
  imports VolumeLive
begin

text \<open>
  What an update that was interrupted leaves behind: whichever of its calls failed, the next update goes
  through unless \<open>..data_tmp\<close> was left or the current version has an entry without a visible name. The
  second can happen in a run that reports success.
\<close>

section \<open>Directories that appear\<close>

definition no_new_dirs :: "'x world \<Rightarrow> 'x world \<Rightarrow> bool" where
  "no_new_dirs w w' \<longleftrightarrow> (\<forall>k. is_dir (store w') k \<longrightarrow> is_dir (store w) k)"

interpretation nd: step_order no_new_dirs
  by unfold_locales (auto simp: no_new_dirs_def)

lemma ro_nd: "state_io_rel same_store m \<Longrightarrow> state_io_rel no_new_dirs m"
  by (auto simp: state_io_rel_def same_store_def no_new_dirs_def)

lemma sys_write_nd:
  "(\<And>st st' k. f st = Inr st' \<Longrightarrow> is_dir st' k \<Longrightarrow> is_dir st k) \<Longrightarrow> state_io_rel no_new_dirs (sys_write f)"
  by (auto simp: sys_write_def state_io_rel_def no_new_dirs_def Let_def split: option.splits sum.splits)

lemma is_dir_del: "is_dir (store_del p st) k \<Longrightarrow> is_dir st k"
  by (auto simp: is_dir_def lookup_del split: if_splits)

lemma st_unlink_nd: "st_unlink p st = Inr st' \<Longrightarrow> is_dir st' k \<Longrightarrow> is_dir st k"
  by (auto simp: st_unlink_def split: sum.splits option.splits if_splits intro: is_dir_del)

lemma rmdir_at_nd: "rmdir_at p st = Inr st' \<Longrightarrow> is_dir st' k \<Longrightarrow> is_dir st k"
  by (auto simp: rmdir_at_def split: option.splits if_splits intro: is_dir_del)

lemma os_Symlink_nd: "state_io_rel no_new_dirs (os_Symlink old new)"
proof -
  have "is_dir st k" if new: "st_symlink old new st = Inr st'" and d: "is_dir st' k" for st st' k
  proof -
    obtain p where "lookup st p = None" "st' = store_put p (link_to old) st"
      using new by (auto simp: st_symlink_def st_create_def split: if_splits sum.splits option.splits)
    moreover from this have "p \<noteq> []" by (auto simp: lookup_def)
    ultimately show ?thesis using d by (auto simp: is_dir_def lookup_put split: if_splits)
  qed
  then show ?thesis unfolding os_Symlink_def by (intro map_state_frame sys_write_nd)
qed

lemma os_Remove_nd: "state_io_rel no_new_dirs (os_Remove path)"
proof -
  have "state_io_rel no_new_dirs (sys_write (st_unlink path))" by (rule sys_write_nd, rule st_unlink_nd)
  moreover have "state_io_rel no_new_dirs (sys_write (st_rmdir path))"
    by (rule sys_write_nd) (auto simp: st_rmdir_def split: sum.splits intro: rmdir_at_nd)
  ultimately show ?thesis unfolding os_Remove_def by (intro nd.io_rules)
qed

lemma remove_keys_nd: "state_io_rel no_new_dirs (remove_keys ks)"
proof (induction ks)
  case (Cons k ks)
  have "state_io_rel no_new_dirs (sys_write (\<lambda>st. case lookup st k of
      None \<Rightarrow> Inr st
    | Some i \<Rightarrow> if kind i = Directory then rmdir_at k st else Inr (store_del k st)))"
    by (rule sys_write_nd) (auto split: option.splits if_splits intro: rmdir_at_nd is_dir_del)
  with Cons show ?case unfolding remove_keys.simps by (intro nd.io_rules)
qed (simp add: nd.io_return)

lemma os_RemoveAll_nd: "state_io_rel no_new_dirs (os_RemoveAll path)"
proof -
  have step: "state_io_rel no_new_dirs
      (case p of Inl ENOENT \<Rightarrow> ret None | Inl e \<Rightarrow> ret (Some (PathError ''open'' path e))
       | Inr ks \<Rightarrow> map_state (map_option (PathError ''unlinkat'' path)) (remove_keys ks))"
    for p :: "errno + string list list"
    by (simp add: nd.io_return map_state_frame remove_keys_nd split: sum.split errno.split)
  show ?thesis
    unfolding os_RemoveAll_def by (intro nd.io_rules os_Remove_nd step ro_nd sys_read_frame)
qed

lemma create_visible_nd: "state_io_rel no_new_dirs (create_visible es dir)"
proof (induction es)
  case (Cons e es)
  then show ?case
    by (cases e) (auto simp: Let_def intro!: nd.io_rules os_Symlink_nd ro_nd [OF os_Readlink_ro])
qed (simp add: nd.io_return)

lemma remove_visible_nd: "state_io_rel no_new_dirs (remove_visible ps dir e)"
proof (induction ps arbitrary: e)
  case (Cons p ps)
  then show ?case by (auto intro!: nd.io_rules os_Remove_nd)
qed (simp add: nd.io_return)

lemma clean_up_nd: "state_io_rel no_new_dirs (clean_up env w ps old)"
  unfolding clean_up_def removeUserVisiblePaths_def
  by (intro nd.io_rules remove_visible_nd os_RemoveAll_nd)

lemma ensures_nd:
  "state_io_rel no_new_dirs m \<Longrightarrow> ensures (\<lambda>st. st = s0) m (\<lambda>_ st. \<forall>k. is_dir st k \<longrightarrow> is_dir s0 k)"
  by (rule ensuresI) (auto simp: no_new_dirs_def dest: state_io_relD)

section \<open>Visible directories\<close>

text \<open>No directory of a visible name appears, whatever fails.\<close>

definition no_new_visible :: "string list \<Rightarrow> fstore \<Rightarrow> fstore \<Rightarrow> bool" where
  "no_new_visible D a b \<longleftrightarrow> (\<forall>n. \<not> hidden n \<longrightarrow> is_dir b (D @ [n]) \<longrightarrow> is_dir a (D @ [n]))"

lemma nnv_trans: "no_new_visible D a b \<Longrightarrow> no_new_visible D b c \<Longrightarrow> no_new_visible D a c"
  by (simp add: no_new_visible_def)

lemma nnv_dirs: "\<forall>k. is_dir b k \<longrightarrow> is_dir a k \<Longrightarrow> no_new_visible D a b"
  by (simp add: no_new_visible_def)

lemma nnv_same: "(\<And>n. \<not> hidden n \<Longrightarrow> lookup b (D @ [n]) = lookup a (D @ [n])) \<Longrightarrow> no_new_visible D a b"
  by (simp add: no_new_visible_def is_dir_def)

lemma install_version_nnv:
  assumes env: "env_laws env" and os: "GOOS env = Linux" and D: "names D" "dirs_to s0 D" "closed_at s0 D"
    and link: "\<not> is_dir s0 (data_key D)" and es: "good_entries es"
  shows "ensures (\<lambda>st. st = s0) (install_version env (writer_at D) es :: ('x world, goerror option) state)
    (\<lambda>r st. no_new_visible D s0 st)"
proof -
  note g2 = good_entries_order [OF env es, of 2] and g3 = good_entries_order [OF env es, of 3]
  have ok: "\<forall>e \<in> set (map_order env 2 es). ok_path (fst e)" "distinct (map fst (map_order env 2 es))"
      "\<forall>e \<in> set (map_order env 3 es). ok_path (fst e)"
    using g2(1) g3(1) by (simp_all add: good_entries_def)
  let ?Q = "\<lambda>(r :: goerror option) st. no_new_visible D s0 st"
  have sw: "ensures (\<lambda>st. st = s)
      (switch_version env (writer_at D) (path_string (D @ [c])) :: ('x world, goerror option) state) ?Q"
    if p: "prepared D c es s0 s" and v: "no_new_visible D s0 s" for c s
  proof -
    have c: "stamped c" using p by (simp add: prepared_def)
    have "lookup s (data_key D) = lookup s0 (data_key D)"
      using prepared_untouched [OF p es] by (simp add: untouched_def)
    then have l: "\<not> is_dir s (data_key D)" using link by (simp add: is_dir_def)
    show ?thesis
    proof (rule ensures_conseq [OF switch_version_spec [OF os D(1) prepared_dirs [OF p D(2)] c l]], assumption)
      fix r :: "goerror option" and st
      assume q: "if r = None then switched D c s st else abandoned D c s st"
      have "no_new_visible D s st"
      proof (rule nnv_same)
        fix n
        assume n: "\<not> hidden n"
        then have "D @ [n] \<noteq> data_key D" "D @ [n] \<noteq> tmp_key D" "\<not> prefix (D @ [c]) (D @ [n])"
          using data_names(3,4) stamped_hidden [OF c] by auto
        with q show "lookup st (D @ [n]) = lookup s (D @ [n])"
          by (cases r) (auto simp: switched_def abandoned_def)
      qed
      with v show "?Q r st" by (rule nnv_trans)
    qed
  qed
  have vis: "ensures (\<lambda>st. st = s) (do {
        e \<leftarrow> createUserVisibleFiles env (writer_at D) es;
        case e of Some err \<Rightarrow> ret (Some err)
        | None \<Rightarrow> switch_version env (writer_at D) (path_string (D @ [c]))
      } :: ('x world, goerror option) state) ?Q"
    if p: "prepared D c es s0 s" and v: "no_new_visible D s0 s" for c s
  proof -
    have d: "dirs_to s D" by (rule prepared_dirs [OF p D(2)])
    have cv: "ensures (\<lambda>st. st = s)
        (createUserVisibleFiles env (writer_at D) es :: ('x world, goerror option) state)
        (\<lambda>r st. prepared D c es s0 st \<and> no_new_visible D s0 st)"
      unfolding createUserVisibleFiles_def targetDir_simp
    proof (rule ensuresI)
      fix w w' :: "'x world" and r
      assume w: "store w = s" and run: "run_state (create_visible (map_order env 3 es) (path_string D)) w = (r, w')"
      have "links_added D (map_order env 3 es) s (store w')"
        using ensuresD [OF create_visible_spec [OF D(1) d ok(3)] w run] .
      then have "links_added D es s (store w')" by (simp add: links_added_def entry_link_def g3(2))
      moreover have "\<forall>k. is_dir (store w') k \<longrightarrow> is_dir s k"
        using ensuresD [OF ensures_nd [OF create_visible_nd] w run] .
      ultimately show "prepared D c es s0 (store w') \<and> no_new_visible D s0 (store w')"
        using links_prepared [OF p] nnv_trans [OF v nnv_dirs] by blast
    qed
    show ?thesis
    proof (rule ensures_bind [OF cv], rule ensures_any, elim conjE)
      fix e :: "goerror option" and s2
      assume p2: "prepared D c es s0 s2" and v2: "no_new_visible D s0 s2"
      show "ensures (\<lambda>st. st = s2) ((case e of Some err \<Rightarrow> ret (Some err)
          | None \<Rightarrow> switch_version env (writer_at D) (path_string (D @ [c])))
          :: ('x world, goerror option) state) ?Q"
        using sw [OF p2 v2] v2 by (cases e) (auto intro: ensures_ret)
    qed
  qed
  show ?thesis
    unfolding install_version_def
  proof (rule ensures_bind [OF newTimestampDir_spec [OF env D]], rule ensures_any)
    fix t :: "goerror + string" and s1
    assume q: "(\<exists>c. fresh_dir D c s0 s1 \<and> (\<forall>s. t = Inr s \<longrightarrow> s = path_string (D @ [c]))) \<or>
      (s1 = s0 \<and> (\<exists>e. t = Inl e))"
    have v1: "no_new_visible D s0 s1"
      using q
    proof
      assume "\<exists>c. fresh_dir D c s0 s1 \<and> (\<forall>s. t = Inr s \<longrightarrow> s = path_string (D @ [c]))"
      then obtain c where f: "fresh_dir D c s0 s1" by blast
      then have "hidden c" using stamped_hidden by (simp add: fresh_dir_def)
      with f show ?thesis by (intro nnv_same) (auto simp: fresh_dir_def)
    qed (simp add: no_new_visible_def)
    show "ensures (\<lambda>st. st = s1) ((case t of
          Inl err \<Rightarrow> ret (Some err)
        | Inr tsDir \<Rightarrow> do {
            e \<leftarrow> writePayloadToDir env es tsDir;
            case e of Some err \<Rightarrow> ret (Some err)
            | None \<Rightarrow> do {
                e \<leftarrow> createUserVisibleFiles env (writer_at D) es;
                case e of Some err \<Rightarrow> ret (Some err) | None \<Rightarrow> switch_version env (writer_at D) tsDir
              }
          }) :: ('x world, goerror option) state) ?Q"
    proof (cases t)
      case (Inl err)
      then show ?thesis using v1 by (auto intro: ensures_ret)
    next
      case (Inr s)
      with q obtain c where f: "fresh_dir D c s0 s1" and s: "s = path_string (D @ [c])" by auto
      have c: "stamped c" using f by (simp add: fresh_dir_def)
      have nT: "names (D @ [c])" using D(1) stamped_name [OF c] by simp
      have a: "area s1 (D @ [c])" by (rule fresh_dir_area [OF f D(2,3)])
      have wr: "ensures (\<lambda>st. st = s1)
          (writePayloadToDir env es (path_string (D @ [c])) :: ('x world, goerror option) state)
          (\<lambda>r st. prepared D c es s0 st \<and> no_new_visible D s0 st)"
        unfolding writePayloadToDir_def
      proof (rule ensures_conseq [OF write_files_spec [OF a nT ok(1,2)]], assumption, elim conjE, intro conjI)
        fix st
        assume w: "wrote (D @ [c]) (map_order env 2 es) s1 st"
        show "prepared D c es s0 st" by (rule wrote_prepared [OF fresh_prepared [OF f] w])
        have "no_new_visible D s1 st"
        proof (rule nnv_same)
          fix n
          have "\<not> strict_prefix (D @ [c]) (D @ [n])" by (auto dest: prefix_length_less)
          then show "lookup st (D @ [n]) = lookup s1 (D @ [n])" using w by (simp add: wrote_def)
        qed
        with v1 show "no_new_visible D s0 st" by (rule nnv_trans)
      qed
      show ?thesis
        unfolding Inr s sum.case
      proof (rule ensures_bind [OF wr], rule ensures_any, elim conjE)
        fix e :: "goerror option" and s2
        assume p2: "prepared D c es s0 s2" and v2: "no_new_visible D s0 s2"
        show "ensures (\<lambda>st. st = s2) ((case e of Some err \<Rightarrow> ret (Some err)
            | None \<Rightarrow> do {
                e \<leftarrow> createUserVisibleFiles env (writer_at D) es;
                case e of Some err \<Rightarrow> ret (Some err)
                | None \<Rightarrow> switch_version env (writer_at D) (path_string (D @ [c]))
              }) :: ('x world, goerror option) state) ?Q"
          using vis [OF p2 v2] v2 by (cases e) (auto intro: ensures_ret)
      qed
    qed
  qed
qed

lemma Write_nnv:
  assumes env: "env_laws env" and os: "GOOS env = Linux" and inv: "writer_inv s0 D" and tidy: "tidy p"
  shows "ensures (\<lambda>st. st = s0) (Write env (writer_at D) p :: ('x world, goerror option) state)
    (\<lambda>r st. no_new_visible D s0 st)"
proof (cases "validatePayload env p")
  case (Inl err)
  then show ?thesis by (auto simp: Write_def no_new_visible_def intro: ensures_ret)
next
  case (Inr es)
  let ?Q = "\<lambda>(r :: goerror option) st. no_new_visible D s0 st"
  have es: "good_entries es" by (rule validatePayload_good [OF env tidy Inr])
  have D: "names D" "dirs_to s0 D" "closed_at s0 D"
    using inv tree_closed by (simp_all add: writer_inv_def)
  have stop: "ensures (\<lambda>st. st = s0) (ret x :: ('x world, goerror option) state) ?Q" for x
    by (auto simp: no_new_visible_def intro: ensures_ret)
  have replace: "ensures (\<lambda>st. st = s0) (do {
        e \<leftarrow> install_version env (writer_at D) es;
        case e of Some err \<Rightarrow> ret (Some err) | None \<Rightarrow> clean_up env (writer_at D) ps old
      } :: ('x world, goerror option) state) ?Q" for ps old
  proof (rule ensures_bind [OF install_version_nnv [OF env os D writer_inv_no_dir [OF inv] es]],
      rule ensures_any)
    fix e :: "goerror option" and s1
    assume v: "no_new_visible D s0 s1"
    have "ensures (\<lambda>st. st = s1) (clean_up env (writer_at D) ps old :: ('x world, goerror option) state) ?Q"
      by (rule ensures_conseq [OF ensures_nd [OF clean_up_nd]]) (auto intro: nnv_trans [OF v nnv_dirs])
    with v show "ensures (\<lambda>st. st = s1) ((case e of Some err \<Rightarrow> ret (Some err)
        | None \<Rightarrow> clean_up env (writer_at D) ps old) :: ('x world, goerror option) state) ?Q"
      by (cases e) (auto intro: ensures_ret)
  qed
  have cmp: "ensures (\<lambda>st. st = s0) (if old \<noteq> '''' then compare_versions env es dir else ret (Inr (Some [])))
      (\<lambda>_ st. st = s0)" for old dir
    by (simp add: ensures_ro [OF compare_versions_ro] ensures_ret)
  have rest: "ensures (\<lambda>st. st = s0) ((case c of
        Inl err \<Rightarrow> ret (Some err)
      | Inr None \<Rightarrow> ret None
      | Inr (Some paths) \<Rightarrow> do {
          e \<leftarrow> install_version env (writer_at D) es;
          case e of Some err \<Rightarrow> ret (Some err) | None \<Rightarrow> clean_up env (writer_at D) paths old
        }) :: ('x world, goerror option) state) ?Q" for c :: "goerror + string list option" and old
    using stop replace by (simp split: sum.split option.split)
  show ?thesis
    unfolding Write_def Inr sum.case Let_def
    by (rule ensures_bind [OF ensures_ro [OF os_Readlink_ro]], rule ensures_if [OF stop],
        rule ensures_bind [OF cmp], rule rest)
qed

section \<open>The next update\<close>

definition entries_visible :: "fstore \<Rightarrow> string list \<Rightarrow> bool" where
  "entries_visible st D \<longleftrightarrow>
     (\<forall>t n. current st D = Some t \<longrightarrow> lookup st (D @ [t, n]) \<noteq> None \<longrightarrow> lookup st (D @ [n]) \<noteq> None)"

lemma fits_cong:
  assumes "fits a R es" and "\<And>k. prefix R k \<Longrightarrow> lookup b k = lookup a k"
  shows "fits b R es"
proof -
  have "is_dir b k = is_dir a k" if "prefix R k" for k using assms(2) [OF that] by (simp add: is_dir_def)
  moreover have "prefix R (pkey R x)" for x by (simp add: pkey_def)
  ultimately show ?thesis
    using assms unfolding fits_def clear_way_def by (metis prefix_order.less_imp_le)
qed

lemma complete_fits:
  assumes c: "complete R es st" and cf: "conflict_free es"
  shows "fits st R es"
  unfolding fits_def
proof (intro ballI conjI)
  fix e
  assume e: "e \<in> set es"
  let ?p = "pkey R (fst e)"
  show "\<not> is_dir st ?p"
    using c e by (auto simp: complete_def holds_def is_dir_def)
  show "clear_way st R (butlast ?p)"
    unfolding clear_way_def
  proof (intro allI impI)
    fix q
    assume q: "prefix q (butlast ?p)" and s: "strict_prefix R q"
    have ne: "?p \<noteq> []" using pkey_strict [of R "fst e"] by auto
    have qp: "strict_prefix q ?p"
      using q not_prefix_butlast [OF ne] prefix_order.trans [OF q prefixeq_butlast] by (auto simp: strict_prefix_def)
    show "lookup st q = None \<or> is_dir st q"
    proof (rule disjCI)
      assume nd: "\<not> is_dir st q"
      show "lookup st q = None"
      proof (rule ccontr)
        assume "lookup st q \<noteq> None"
        then obtain x where "is_file st q x"
          using c s nd unfolding complete_def area_def plain_below_def is_dir_def is_file_def by blast
        then have "q \<in> pkeys R es" using c s unfolding complete_def by blast
        then obtain e' where "e' \<in> set es" "q = pkey R (fst e')" by (auto simp: pkeys_def)
        with qp cf e show False by (auto simp: conflict_free_def pkey_strict_iff)
      qed
    qed
  qed
qed

lemma update_ready_after:
  assumes "env_laws env" and "GOOS env = Linux" and inv: "writer_inv (store w) D" and "tidy p"
    and es: "validatePayload env p = Inr es" and ready: "update_ready env (store w) D es"
    and run: "run_state (Write env (writer_at D) p) w = (r, w')"
    and tmp: "lookup (store w') (tmp_key D) = None" and vis: "entries_visible (store w') D"
    and free: "free_name env2 (store w') D"
  shows "update_ready env2 (store w') D es"
proof -
  have pub: "published (store w) D" and cf: "conflict_free es"
    and fit: "\<And>t. current (store w) D = Some t \<Longrightarrow> fits (store w) (D @ [t]) es"
    using ready by (simp_all add: update_ready_def)
  have "no_new_visible D (store w) (store w')"
    by (rule ensuresD [OF Write_nnv [OF assms(1,2) inv assms(4)] refl run])
  with pub have "\<not> is_dir (store w') (D @ [n])" if "\<not> hidden n" for n
    using that by (auto simp: published_def no_new_visible_def)
  with tmp vis have "published (store w') D" by (simp add: published_def entries_visible_def)
  moreover have "fits (store w') (D @ [t]) es" if t: "current (store w') D = Some t" for t
    using Write_cases [OF assms(1,2) inv assms(4) run]
  proof (elim disjE conjE exE)
    assume k: "kept D (store w) (store w')"
    then have c: "current (store w) D = Some t" using t by (simp add: kept_def current_def)
    show ?thesis by (rule fits_cong [OF fit [OF c]]) (use k c in \<open>auto simp: kept_def\<close>)
  next
    fix es'
    assume "validatePayload env p = Inr es'" and u: "updated D es' (store w) (store w')"
    with es have "updated D es (store w) (store w')" by simp
    with t have "complete (D @ [t]) es (store w')" by (auto simp: updated_def)
    then show ?thesis using cf by (rule complete_fits)
  qed
  ultimately show ?thesis using free cf by (simp add: update_ready_def)
qed

text \<open>C11. Whichever calls of an update fail, and also when the process is killed, the update can be made up for: if
  \<open>..data_tmp\<close> was not left behind, every entry of the current version has its visible name and a name
  for a new version is free, then the same payload is written without an error as soon as no call fails.\<close>

theorem interrupted_update_resumes:
  assumes "env_laws env" and "GOOS env = Linux" and "writer_inv (store w) D" and "tidy p"
    and "validatePayload env p = Inr es" and "update_ready env (store w) D es"
    and "run_state (Write env \<lparr>targetDir = path_string D\<rparr> p) w = (r, w')"
    and "lookup (store w') (D @ [newDataDirName]) = None" and "entries_visible (store w') D"
    and "env_laws env2" and "GOOS env2 = Linux" and "validatePayload env2 p = Inr es"
    and "free_name env2 (store w') D"
  shows "\<exists>w''. run_state (Write env2 \<lparr>targetDir = path_string D\<rparr> p) (w'\<lparr>faults := \<lambda>_. None\<rparr>) = (None, w'') \<and>
    up_to_date D es (store w'') \<and> published (store w'') D"
proof -
  let ?v = "w'\<lparr>faults := \<lambda>_. None\<rparr>"
  have s: "store ?v = store w'" "faultless ?v" by (simp_all add: faultless_def)
  have inv': "writer_inv (store w') D" using Write_inv [OF assms(1-4,7)] .
  obtain r2 w2 where run2: "run_state (Write env2 (writer_at D) p) ?v = (r2, w2)" by fastforce
  have ready: "update_ready env2 (store w') D es"
    by (rule update_ready_after [OF assms(1-9,13)])
  have "r2 = None \<and> up_to_date D es (store w2) \<and> writer_inv (store w2) D \<and> published (store w2) D"
    using worksD [OF Write_up [OF assms(10,11) inv' assms(4,12) ready] s(2) s(1) run2]
    by (simp add: up_and_ready_def)
  with run2 show ?thesis by auto
qed

text \<open>A run in which the first call fails, and the one that makes up for it.\<close>

definition broken0 :: "unit world" where
  "broken0 = (world0 store0)\<lparr>faults := (\<lambda>_. Some EIO)\<rparr>"

lemma broken_run0:
  "\<exists>e w'. run_state (Write env0 (writer_at [''t'']) (payload0 ''3'')) broken0 = (Some e, w') \<and> store w' = store0"
proof -
  have "validatePayload env0 (payload0 ''3'') = Inr [(''token'', file0 ''3''), (''d/k'', file0 ''2'')]"
    by code_simp
  then show ?thesis
    by (simp add: Write_def os_Readlink_def sys_read_def broken0_def world0_def lift_err_def)
qed

lemma entries_visible0: "entries_visible store0 [''t'']"
  using published0 by (simp add: published_def entries_visible_def)

theorem interrupted_update_resumes_witness:
  "\<exists>e w' w''. run_state (Write env0 \<lparr>targetDir = path_string [''t'']\<rparr> (payload0 ''3'')) broken0 = (Some e, w') \<and>
    run_state (Write env0 \<lparr>targetDir = path_string [''t'']\<rparr> (payload0 ''3'')) (w'\<lparr>faults := \<lambda>_. None\<rparr>) = (None, w'')"
proof -
  obtain e w' where run: "run_state (Write env0 \<lparr>targetDir = path_string [''t'']\<rparr> (payload0 ''3'')) broken0 = (Some e, w')"
      and s: "store w' = store0"
    using broken_run0 by blast
  have b: "store broken0 = store0" by (simp add: broken0_def world0_def)
  have v: "validatePayload env0 (payload0 ''3'') = Inr [(''token'', file0 ''3''), (''d/k'', file0 ''2'')]"
    by code_simp
  have tmp: "lookup (store w') ([''t''] @ [newDataDirName]) = None" by (simp add: s eval0)
  have "\<exists>w''. run_state (Write env0 \<lparr>targetDir = path_string [''t'']\<rparr> (payload0 ''3'')) (w'\<lparr>faults := \<lambda>_. None\<rparr>) = (None, w'')"
    using interrupted_update_resumes [OF env0_laws _ tidy0 v _ run tmp _ env0_laws v]
      inv0 ready0 entries_visible0 free_name0 by (auto simp: b s)
  with run show ?thesis by blast
qed

section \<open>Errors that are not looked at\<close>

text \<open>
  When reading a visible name fails otherwise than by its absence, \<open>createUserVisibleFiles\<close> goes on as if the
  name were there and reports success. So a version can become the current one while a file of it is not
  visible, and as the data is then up to date, later updates do not make the link either.
\<close>

theorem unreadable_name_skipped:
  assumes "env_laws env" and "faults w (calls w) = Some e"
  shows "run_state (createUserVisibleFiles env writer [(k, fp)]) w = (None, w\<lparr>calls := Suc (calls w)\<rparr>)"
proof -
  have "mset (map_order env 3 [(k, fp)]) = mset [(k, fp)]" using assms(1) by (simp add: env_laws_def)
  then have "map_order env 3 [(k, fp)] = [(k, fp)]" by simp
  then show ?thesis
    using assms(2) by (simp add: createUserVisibleFiles_def Let_def os_Readlink_def sys_read_def lift_err_def)
qed

end
