(* ===== verification/Storage.thy ===== *)
theory Storage
  imports MemoryStore
begin

text \<open>
  \<open>storage.Interface\<close>: the operations that a storage backend offers, the store in memory as one of them, and
  what a backend promises, as a refinement of a map from volumes to their contexts. A request for a volume
  whose identifier a backend cannot keep, and the data that \<open>WriteFiles\<close> stores, are outside the contract.
\<close>

section \<open>The interface\<close>

record 's storage_interface =
  i_PathForVolume :: "string \<Rightarrow> ('s, string) state"
  i_RemoveVolume :: "string \<Rightarrow> ('s, goerror option) state"
  i_ReadMetadata :: "string \<Rightarrow> ('s, goerror + Metadata) state"
  i_ListVolumes :: "('s, goerror + string list) state"
  i_WriteMetadata :: "string \<Rightarrow> Metadata \<Rightarrow> ('s, goerror option) state"
  i_RegisterMetadata :: "Metadata \<Rightarrow> ('s, goerror + bool) state"
  i_WriteFiles :: "Metadata \<Rightarrow> file_map \<Rightarrow> ('s, goerror option) state"

definition memory_storage ::
  "(string \<Rightarrow> string) \<Rightarrow> (string list \<Rightarrow> string list) \<Rightarrow> MemoryFS storage_interface" where
  "memory_storage msg ord = \<lparr>
    i_PathForVolume = mem_PathForVolume,
    i_RemoveVolume = mem_RemoveVolume,
    i_ReadMetadata = mem_ReadMetadata,
    i_ListVolumes = mem_ListVolumes ord,
    i_WriteMetadata = mem_WriteMetadata,
    i_RegisterMetadata = mem_RegisterMetadata msg,
    i_WriteFiles = mem_WriteFiles\<rparr>"

section \<open>The abstract store\<close>

text \<open>A volume is registered with a context, or it is not there.\<close>

type_synonym volume_context = "string \<rightharpoonup> string"
type_synonym contexts = "string \<rightharpoonup> volume_context"

definition context_of :: "Metadata \<Rightarrow> volume_context" where
  "context_of m = map_of (VolumeContext m)"

datatype storage_request =
    Register_request Metadata
  | Read_request string
  | Write_request string Metadata
  | Remove_request string
  | List_request

datatype storage_answer =
    Registered bool
  | Known string volume_context
  | Missing
  | Done
  | Volumes "string set"
  | Failed

fun storage_spec :: "storage_request \<Rightarrow> contexts \<Rightarrow> storage_answer \<times> contexts" where
  "storage_spec (Register_request m) a =
    (Registered (a (VolumeID m) \<noteq> Some (context_of m)), a(VolumeID m \<mapsto> context_of m))"
| "storage_spec (Read_request v) a = ((case a v of None \<Rightarrow> Missing | Some c \<Rightarrow> Known v c), a)"
| "storage_spec (Write_request v m) a =
    (case a v of None \<Rightarrow> (Failed, a) | Some _ \<Rightarrow> (Done, a(v \<mapsto> context_of m)))"
| "storage_spec (Remove_request v) a = (Done, a(v := None))"
| "storage_spec List_request a = (Volumes (dom a), a)"

fun storage_specs :: "storage_request list \<Rightarrow> contexts \<Rightarrow> storage_answer list" where
  "storage_specs [] a = []"
| "storage_specs (r # rs) a = (case storage_spec r a of (x, b) \<Rightarrow> x # storage_specs rs b)"

text \<open>What a backend answers, without the wording of errors.\<close>

fun serve_request :: "'s storage_interface \<Rightarrow> storage_request \<Rightarrow> ('s, storage_answer) state" where
  "serve_request S (Register_request m) =
    map_state (\<lambda>r. case r of Inl _ \<Rightarrow> Failed | Inr b \<Rightarrow> Registered b) (i_RegisterMetadata S m)"
| "serve_request S (Read_request v) =
    map_state (\<lambda>r. case r of
        Inl e \<Rightarrow> if errors_Is e ErrNotFound then Missing else Failed
      | Inr m \<Rightarrow> Known (VolumeID m) (context_of m)) (i_ReadMetadata S v)"
| "serve_request S (Write_request v m) =
    map_state (\<lambda>r. case r of None \<Rightarrow> Done | Some _ \<Rightarrow> Failed) (i_WriteMetadata S v m)"
| "serve_request S (Remove_request v) =
    map_state (\<lambda>r. case r of None \<Rightarrow> Done | Some _ \<Rightarrow> Failed) (i_RemoveVolume S v)"
| "serve_request S List_request =
    map_state (\<lambda>r. case r of Inl _ \<Rightarrow> Failed | Inr vs \<Rightarrow> Volumes (set vs)) (i_ListVolumes S)"

fun serve_requests :: "'s storage_interface \<Rightarrow> storage_request list \<Rightarrow> ('s, storage_answer list) state" where
  "serve_requests S [] = ret []"
| "serve_requests S (r # rs) = do {
    x \<leftarrow> serve_request S r;
    xs \<leftarrow> serve_requests S rs;
    ret (x # xs)
  }"

text \<open>Requests for volumes that a backend can keep: \<open>able\<close> says which identifiers these are.\<close>

fun may_request :: "(string \<Rightarrow> bool) \<Rightarrow> storage_request \<Rightarrow> bool" where
  "may_request able (Register_request m) \<longleftrightarrow> able (VolumeID m) \<and> utf8_metadata m"
| "may_request able (Read_request v) \<longleftrightarrow> able v"
| "may_request able (Write_request v m) \<longleftrightarrow> able v \<and> VolumeID m = v \<and> utf8_metadata m"
| "may_request able (Remove_request v) \<longleftrightarrow> able v"
| "may_request able List_request \<longleftrightarrow> True"

section \<open>The contract\<close>

text \<open>One request behaves as on the abstract store, and leaves the backend able to serve the next.\<close>

definition answers ::
  "('s \<Rightarrow> bool) \<Rightarrow> ('s \<Rightarrow> contexts) \<Rightarrow> ('s, 'a) state \<Rightarrow> 's \<Rightarrow> ('a \<Rightarrow> bool) \<Rightarrow> contexts \<Rightarrow> bool" where
  "answers good view m s P a \<longleftrightarrow>
    P (fst (run_state m s)) \<and> good (snd (run_state m s)) \<and> view (snd (run_state m s)) = a"

locale storage_contract =
  fixes S :: "'s storage_interface"
    and good :: "'s \<Rightarrow> bool"
    and view :: "'s \<Rightarrow> contexts"
    and able :: "string \<Rightarrow> bool"
  assumes register: "good s \<Longrightarrow> able (VolumeID m) \<Longrightarrow> utf8_metadata m \<Longrightarrow>
      answers good view (i_RegisterMetadata S m) s
        (\<lambda>r. r = Inr (view s (VolumeID m) \<noteq> Some (context_of m))) ((view s)(VolumeID m \<mapsto> context_of m))"
    and read_known: "good s \<Longrightarrow> able v \<Longrightarrow> view s v = Some c \<Longrightarrow>
      answers good view (i_ReadMetadata S v) s
        (\<lambda>r. \<exists>m. r = Inr m \<and> VolumeID m = v \<and> context_of m = c) (view s)"
    and read_missing: "good s \<Longrightarrow> able v \<Longrightarrow> view s v = None \<Longrightarrow>
      answers good view (i_ReadMetadata S v) s (\<lambda>r. \<exists>e. r = Inl e \<and> errors_Is e ErrNotFound) (view s)"
    and write_known: "good s \<Longrightarrow> able (VolumeID m) \<Longrightarrow> utf8_metadata m \<Longrightarrow> view s (VolumeID m) \<noteq> None \<Longrightarrow>
      answers good view (i_WriteMetadata S (VolumeID m) m) s (\<lambda>r. r = None)
        ((view s)(VolumeID m \<mapsto> context_of m))"
    and write_missing: "good s \<Longrightarrow> able v \<Longrightarrow> view s v = None \<Longrightarrow>
      answers good view (i_WriteMetadata S v m) s (\<lambda>r. r \<noteq> None) (view s)"
    and remove: "good s \<Longrightarrow> able v \<Longrightarrow>
      answers good view (i_RemoveVolume S v) s (\<lambda>r. r = None) ((view s)(v := None))"
    and list: "good s \<Longrightarrow>
      answers good view (i_ListVolumes S) s (\<lambda>r. \<exists>vs. r = Inr vs \<and> set vs = dom (view s)) (view s)"
begin

lemma serve_request_spec:
  assumes "good s" and "may_request able r"
  shows "answers good view (serve_request S r) s (\<lambda>x. x = fst (storage_spec r (view s))) (snd (storage_spec r (view s)))"
proof (cases r)
  case (Register_request m)
  then show ?thesis using register [of s m] assms by (auto simp: answers_def)
next
  case (Read_request v)
  then show ?thesis
    using read_known [of s v] read_missing [of s v] assms
    by (cases "view s v") (auto simp: answers_def)
next
  case (Write_request v m)
  then show ?thesis
    using write_known [of s m] write_missing [of s v m] assms
    by (cases "view s v") (auto simp: answers_def split: option.split)
next
  case (Remove_request v)
  then show ?thesis using remove [of s v] assms by (auto simp: answers_def)
next
  case List_request
  then show ?thesis using list [of s] assms by (auto simp: answers_def)
qed

lemma serve_requests_spec:
  assumes "good s" and "\<forall>r \<in> set rs. may_request able r"
  shows "fst (run_state (serve_requests S rs) s) = storage_specs rs (view s)"
  using assms
proof (induction rs arbitrary: s)
  case (Cons r rs)
  obtain x t where run: "run_state (serve_request S r) s = (x, t)" by fastforce
  have "x = fst (storage_spec r (view s)) \<and> good t \<and> view t = snd (storage_spec r (view s))"
    using serve_request_spec [of s r] Cons.prems run by (auto simp: answers_def)
  with Cons.IH [of t] Cons.prems run show ?case by (simp add: split_beta)
qed simp

end

section \<open>The store in memory\<close>

text \<open>Every volume has metadata, of its own.\<close>

definition mem_good :: "MemoryFS \<Rightarrow> bool" where
  "mem_good m \<longleftrightarrow> (\<forall>v. has_volume m v \<longrightarrow>
     (\<exists>f meta. mem_file m v meta_file = Some f \<and> Unmarshal f = Some meta \<and> VolumeID meta = v))"

definition mem_view :: "MemoryFS \<Rightarrow> contexts" where
  "mem_view m v = map_option context_of (Option.bind (mem_file m v meta_file) Unmarshal)"

lemma mem_good_new: "mem_good NewMemoryFS" "mem_view NewMemoryFS = Map.empty"
  by (simp_all add: mem_good_def mem_view_def has_volume_def NewMemoryFS_def mem_file_def fun_eq_iff)

lemma mem_file_has: "mem_file m v n = Some f \<Longrightarrow> has_volume m v"
  by (cases "map_of (files m) v") (simp_all add: mem_file_def has_volume_def)

lemma mem_viewD:
  assumes "mem_good m"
  shows "mem_view m v = None \<longleftrightarrow> \<not> has_volume m v"
    "mem_view m v = Some c \<longleftrightarrow>
      (\<exists>f meta. mem_file m v meta_file = Some f \<and> Unmarshal f = Some meta \<and> VolumeID meta = v \<and> context_of meta = c)"
  using assms mem_file_has [of m v meta_file]
  by (fastforce simp: mem_good_def mem_view_def bind_eq_None_conv split: option.splits bind_splits)+

lemma mem_put_metadata:
  assumes "mem_good m" and "utf8_metadata meta"
  shows "mem_good (put_file (VolumeID meta) meta_file (Marshal meta) (add_volume (VolumeID meta) m))"
    "mem_view (put_file (VolumeID meta) meta_file (Marshal meta) (add_volume (VolumeID meta) m)) =
      (mem_view m)(VolumeID meta \<mapsto> context_of meta)"
proof -
  have u: "Unmarshal (Marshal meta) = Some (stored meta)" by (rule Unmarshal_Marshal(1) [OF assms(2)])
  have s: "VolumeID (stored meta) = VolumeID meta" "context_of (stored meta) = context_of meta"
    using stored_context [of meta] assms(2) by (simp_all add: context_of_def utf8_metadata_def) (simp add: stored_def)
  show "mem_good (put_file (VolumeID meta) meta_file (Marshal meta) (add_volume (VolumeID meta) m))"
    using assms(1) u s by (simp add: mem_good_def mem_file_put)
  show "mem_view (put_file (VolumeID meta) meta_file (Marshal meta) (add_volume (VolumeID meta) m)) =
      (mem_view m)(VolumeID meta \<mapsto> context_of meta)"
    using u s by (simp add: mem_view_def mem_file_put fun_eq_iff)
qed

lemma add_volume_has: "has_volume m v \<Longrightarrow> add_volume v m = m"
  by (auto simp: has_volume_def add_volume_def)

text \<open>The order in which a map is listed leaves nothing out and adds nothing.\<close>

abbreviation lists_all :: "(string list \<Rightarrow> string list) \<Rightarrow> bool" where
  "lists_all ord \<equiv> \<forall>l. set (ord l) = set l"

lemma memory_storage_contract:
  assumes "lists_all ord"
  shows "storage_contract (memory_storage msg ord) mem_good mem_view (\<lambda>_. True)"
proof (unfold_locales, goal_cases)
  case (1 s m)
  note v = mem_viewD [OF 1(1)]
  show ?case
  proof (cases rule: mem_register_cases [of s m msg])
    case new
    then have "mem_view s (VolumeID m) = None" by (simp add: mem_view_def)
    then show ?thesis using new mem_put_metadata [OF 1(1,3)] by (simp add: answers_def memory_storage_def)
  next
    case (bad f)
    then show ?thesis using 1(1) mem_file_has [OF bad(1)] by (auto simp: mem_good_def)
  next
    case (keep f old)
    then have "mem_view s (VolumeID m) = Some (context_of m)" by (simp add: mem_view_def context_of_def)
    then show ?thesis using keep 1(1) add_volume_has [OF mem_file_has [OF keep(1)]]
      by (auto simp: answers_def memory_storage_def fun_eq_iff)
  next
    case (change f old)
    then have "mem_view s (VolumeID m) \<noteq> Some (context_of m)" by (simp add: mem_view_def context_of_def)
    then show ?thesis using change mem_put_metadata [OF 1(1,3)] by (simp add: answers_def memory_storage_def)
  qed
next
  case (2 s v c)
  then show ?case
    using mem_viewD(2) [OF 2(1)] by (auto simp: answers_def memory_storage_def read_metadata_eq)
next
  case (3 s v)
  then have "mem_file s v meta_file = None"
    using mem_viewD(1) [OF 3(1)] mem_file_has [of s v meta_file] by (cases "mem_file s v meta_file") auto
  then show ?case using 3 by (simp add: answers_def memory_storage_def read_metadata_eq ErrNotFound_def)
next
  case (4 s m)
  then have h: "has_volume s (VolumeID m)" using mem_viewD(1) [OF 4(1), of "VolumeID m"] by simp
  then show ?case
    using mem_put_metadata [OF 4(1,3)] add_volume_has [OF h]
    by (auto simp: answers_def memory_storage_def mem_WriteMetadata_def has_volume_def)
next
  case (5 s v m)
  then show ?case
    using mem_viewD(1) [OF 5(1), of v]
    by (simp add: answers_def memory_storage_def mem_WriteMetadata_def has_volume_def)
next
  case (6 s v)
  have "has_volume (s\<lparr>files := AList.delete v (files s)\<rparr>) u \<longleftrightarrow> u \<noteq> v \<and> has_volume s u" for u
    by (simp add: has_volume_def map_of_delete_AList)
  then show ?case
    using 6(1) by (auto simp: answers_def memory_storage_def mem_RemoveVolume_def mem_good_def mem_view_def
        mem_file_delete fun_eq_iff)
next
  case (7 s)
  have "set (map fst (files s)) = dom (mem_view s)"
    using mem_viewD(1) [OF 7] by (auto simp: dom_def has_volume_def map_of_eq_None_iff)
  then show ?case using 7 assms by (simp add: answers_def memory_storage_def mem_ListVolumes_def)
qed

text \<open>A map is listed in some order; the order of the list is one that leaves nothing out.\<close>

interpretation ms: storage_contract "memory_storage msg id" mem_good mem_view "\<lambda>_. True" for msg
  by (rule memory_storage_contract) simp

end
