(* ===== verification/RelPath.thy ===== *)
theory RelPath
  imports VolumeProps StoreLive
begin

text \<open>
  Calls on relative paths of plain names when no system call fails, and \<open>Open\<close> of the file system that is
  rooted at \<open>/\<close>. The store on disk can read what it wrote only when its base directory is such a path.
\<close>

unbundle bit_operations_syntax

section \<open>Relative paths\<close>

abbreviation rel :: "string list \<Rightarrow> string" where
  "rel p \<equiv> join_on sep p"

lemma namei_rel: "names p \<Longrightarrow> p \<noteq> [] \<Longrightarrow> namei st fl (rel p) = namei st fl (path_string p)"
proof -
  assume n: "names p" and ne: "p \<noteq> []"
  show ?thesis
    unfolding namei_path_string [OF n]
    using join_on_not_Nil [OF ne n] split_join_names [OF n ne] by (simp add: namei_def del: split_on.simps)
qed

lemma namei_root_name:
  assumes "names p" and "p \<noteq> []"
  shows "namei st fl (root_name (rel p)) = namei st fl (path_string p)"
proof -
  have "root_name (rel p) = sep # sep # rel p" by (simp add: root_name_def)
  then show ?thesis
    unfolding namei_path_string [OF assms(1)]
    using split_join_names [OF assms] by (simp add: namei_def del: split_on.simps(2))
qed

lemma strip_rel: "names (p @ [c]) \<Longrightarrow> strip_slashes (rel (p @ [c])) = rel (p @ [c])"
proof -
  assume "names (p @ [c])"
  then have "c \<noteq> ''''" "sep \<notin> set c" by (auto dest: name_compD)
  then obtain c' x where c: "c = c' @ [x]" "x \<noteq> sep" by (cases c rule: rev_cases) auto
  have "\<exists>pre. rel (p @ [c]) = pre @ [x]" using c by (cases "p = []") (auto simp: join_on_snoc)
  then show ?thesis using c(2) by (auto simp: strip_slashes_def)
qed

lemma parent_rel: "names (p @ [c]) \<Longrightarrow> parent_path (rel (p @ [c])) = (if p = [] then '''' else rel p)"
proof (cases "p = []")
  case True
  assume n: "names (p @ [c])"
  then have "sep \<notin> set c" by (auto dest: name_compD)
  then have "takeWhile (\<lambda>x. x \<noteq> sep) (rev c) = rev c" by (subst takeWhile_eq_all_conv) auto
  then have "Split c = ('''', c)" by (simp add: Split_def del: takeWhile_eq_all_conv)
  with True strip_rel [OF n] show ?thesis by (simp add: parent_path_def)
next
  case False
  assume n: "names (p @ [c])"
  then have "sep \<notin> set c" by (auto dest: name_compD)
  with False strip_rel [OF n] show ?thesis by (simp add: parent_path_def join_on_snoc Split_last)
qed

lemma not_IsAbs_rel: "names p \<Longrightarrow> p \<noteq> [] \<Longrightarrow> \<not> IsAbs (rel p)"
proof (cases p)
  case (Cons c cs)
  assume "names p"
  with Cons have "c \<noteq> ''''" "sep \<notin> set c" by (auto dest: name_compD)
  then obtain x c' where "c = x # c'" "x \<noteq> sep" by (cases c) auto
  with Cons show ?thesis by (cases cs) (simp_all add: IsAbs_def)
qed simp

lemma Join_rel:
  assumes "names p" and "p \<noteq> []" and "name_comp c"
  shows "Join [rel p, c] = rel (p @ [c])"
proof -
  have n: "names (p @ [c])" using assms by simp
  have e: "rel (p @ [c]) = rel p @ sep # c" by (rule join_on_snoc [OF assms(2)])
  have "rel p \<noteq> ''''" "c \<noteq> ''''" using assms join_on_not_Nil [of p] by (auto dest: name_compD)
  then have "Join [rel p, c] = Clean (rel (p @ [c]))" by (simp add: Join_def e)
  also have "\<dots> = rel (p @ [c])"
    using n not_IsAbs_rel [OF n] clean_names [OF n, of False] join_on_not_Nil [OF _ n]
    by (simp add: Clean_def split_join_names del: split_on.simps split: list.split)
  finally show ?thesis .
qed

section \<open>Calls on relative paths\<close>

text \<open>What a call that makes the name \<open>p\<close> changes.\<close>

definition only_at :: "string list \<Rightarrow> fstore \<Rightarrow> fstore \<Rightarrow> bool" where
  "only_at p st st' \<longleftrightarrow> (\<forall>k. k \<noteq> p \<longrightarrow> lookup st' k = lookup st k)"

lemma only_at_refl [simp]: "only_at p st st"
  by (simp add: only_at_def)

lemma only_at_put: "p \<noteq> [] \<Longrightarrow> only_at p st (store_put p i st)"
  by (simp add: only_at_def lookup_put)

lemma only_at_dirs:
  assumes "only_at p st st'" and "dirs_to st q" and "\<not> prefix p q"
  shows "dirs_to st' q"
proof (rule dirs_cong [OF assms(2)])
  fix k
  assume "prefix k ([] @ q)"
  with assms(3) have "k \<noteq> p" by auto
  with assms(1) show "lookup st' k = lookup st k" by (simp add: only_at_def)
qed


lemma Mkdir_rel_works:
  assumes "names p" and "p \<noteq> []" and "dirs_to s0 (butlast p)" and "lookup s0 p = None"
  shows "works (\<lambda>st. st = s0) (os_Mkdir (rel p) m) (\<lambda>r st. r = None \<and> is_dir st p \<and> only_at p s0 st)"
proof -
  obtain P c where p: "p = P @ [c]" using assms(2) by (cases p rule: rev_cases) auto
  have name: "(if rel p \<noteq> '''' \<and> strip_slashes (rel p) = '''' then ''/'' else strip_slashes (rel p)) = rel p"
    using strip_rel [of P c] assms(1) unfolding p by simp
  have n: "namei s0 False (rel p) = Inr p"
    unfolding namei_rel [OF assms(1,2)]
    by (rule namei_leaf [OF assms(1,3)]) (simp add: is_link_def assms(4))
  have "works (\<lambda>st. st = s0) (map_state (map_option (PathError ''mkdir'' (rel p)))
      (sys_write (st_mkdir (m AND NOT u) (rel p)))) (\<lambda>r st. r = None \<and> is_dir st p \<and> only_at p s0 st)" for u
    by (rule works_map_state, rule works_sys_write)
      (use name n assms(2,4) in \<open>simp add: st_mkdir_def st_create_def is_dir_def lookup_put only_at_put\<close>)
  then show ?thesis unfolding os_Mkdir_def by (rule works_env)
qed

lemma MkdirAll_rel_existing:
  assumes "names p" and "p \<noteq> []" and "dirs_to s0 p"
  shows "works (\<lambda>st. st = s0) (os_MkdirAll (rel p) m :: ('x world, goerror option) state)
    (\<lambda>r st. r = None \<and> st = s0)"
proof -
  obtain i where i: "st_get True (rel p) s0 = Inr i" "IsDir i"
    using namei_dir [OF assms(1,3) spells_path_string, of True] dirs_to_is_dir [OF assms(3)]
    by (auto simp: st_get_def is_dir_def IsDir_iff namei_rel [OF assms(1,2)])
  have "works (\<lambda>st. st = s0) (os_Stat (rel p)) (\<lambda>r st. r = Inr i \<and> st = s0)"
    by (rule works_conseq [OF os_Stat_works [of s0 "rel p", unfolded i(1) lift_err_def sum.case]]) auto
  then show ?thesis
    unfolding os_MkdirAll.simps [of "rel p"]
    by (rule works_ok) (use i(2) in \<open>auto intro: works_ret\<close>)
qed

text \<open>One directory below directories that are there.\<close>

lemma MkdirAll_rel_works:
  assumes "names p" and "p \<noteq> []" and "dirs_to s0 (butlast p)" and "lookup s0 p = None \<or> is_dir s0 p"
  shows "works (\<lambda>st. st = s0) (os_MkdirAll (rel p) m :: ('x world, goerror option) state)
    (\<lambda>r st. r = None \<and> is_dir st p \<and> only_at p s0 st)"
proof (cases "is_dir s0 p")
  case True
  then have "dirs_to s0 p" using assms(2,3) by (cases p rule: rev_cases) (simp_all add: dirs_to_snoc)
  from MkdirAll_rel_existing [OF assms(1,2) this] show ?thesis
    by (rule works_conseq) (use True in simp_all)
next
  case False
  with assms(4) have none: "lookup s0 p = None" by simp
  obtain P c where p: "p = P @ [c]" using assms(2) by (cases p rule: rev_cases) auto
  let ?up = "(if parent_path (rel p) \<noteq> '''' then os_MkdirAll (parent_path (rel p)) m else ret None)
      :: ('x world, goerror option) state"
  have n: "namei s0 True (rel p) = Inr p"
    unfolding namei_rel [OF assms(1,2)]
    by (rule namei_leaf [OF assms(1,3)]) (simp add: is_link_def none)
  then have g: "lift_err (PathError ''stat'' (rel p)) (st_get True (rel p) s0) =
      Inl (PathError ''stat'' (rel p) ENOENT)"
    by (simp add: st_get_def none lift_err_def)
  have up: "works (\<lambda>st. st = s0) ?up (\<lambda>r st. r = None \<and> st = s0)"
  proof (cases "P = []")
    case True
    then show ?thesis using parent_rel [of P c] assms(1) by (auto simp: p intro: works_ret)
  next
    case False
    have P: "names P" "dirs_to s0 P" using assms(1,3) by (simp_all add: p)
    have "parent_path (rel p) = rel P" "rel P \<noteq> ''''"
      using parent_rel [of P c] assms(1) join_on_not_Nil [OF False P(1)] False by (simp_all add: p)
    then show ?thesis using MkdirAll_rel_existing [OF P(1) False P(2)] by simp
  qed
  have mk: "works (\<lambda>st. st = s0) (os_Mkdir (rel p) m) (\<lambda>r st. r = None \<and> is_dir st p \<and> only_at p s0 st)"
    by (rule Mkdir_rel_works [OF assms(1-3) none])
  have stat: "works (\<lambda>st. st = s0) (os_Stat (rel p)) (\<lambda>r st. r = Inl (PathError ''stat'' (rel p) ENOENT) \<and> st = s0)"
    by (rule works_conseq [OF os_Stat_works [of s0 "rel p", unfolded g]]) auto
  show ?thesis
    unfolding os_MkdirAll.simps [of "rel p"]
    by (rule works_ok [OF stat], unfold sum.case, rule works_ok [OF up], unfold option.case,
        rule works_ok [OF mk]) (auto intro: works_ret)
qed

lemma WriteFile_rel_works:
  assumes "file_slot s0 p" and "p \<noteq> []"
  shows "works (\<lambda>st. st = s0) (os_WriteFile (rel p) c m) (\<lambda>r st. r = None \<and> is_file st p c \<and> only_at p s0 st)"
proof -
  have np: "names p" using assms(1) by (simp add: file_slot_def)
  have n: "namei s0 True (rel p) = Inr p" using namei_rel [OF np assms(2)] file_slot_namei [OF assms(1)] by simp
  have op: "works (\<lambda>st. st = s0)
      (State (\<lambda>w. run_state (sys_update (st_open_trunc (rel p) ((m AND 0x1FF) AND NOT (umask w)))) w))
      (\<lambda>r st. r = Inr p \<and> is_file st p '''' \<and> only_at p s0 st)"
    by (rule works_env [where g = "\<lambda>u. sys_update (st_open_trunc (rel p) ((m AND 0x1FF) AND NOT u))"],
        rule works_sys_update)
      (use n assms in \<open>auto simp: st_open_trunc_def file_slot_def is_file_def lookup_put only_at_put\<close>)
  show ?thesis
    unfolding os_WriteFile_def
    by (rule works_ok [OF op], unfold sum.case, rule works_map_state, rule works_sys_write)
      (use assms(2) in \<open>auto simp: st_write_at_def is_file_def lookup_put only_at_def split: option.splits\<close>)
qed

lemma ValidPath_rel: "names p \<Longrightarrow> p \<noteq> [] \<Longrightarrow> valid_utf8 (rel p) \<Longrightarrow> ValidPath (rel p)"
  by (auto simp: ValidPath_def split_join_names list_all_iff dest!: name_compD simp del: split_on.simps)

lemma fs_Open_works:
  assumes "names p" and "p \<noteq> []" and "valid_utf8 (rel p)"
  shows "works (\<lambda>st. st = s0) (fs_Open (rel p))
    (\<lambda>r st. st = s0 \<and> r = lift_err (PathError ''open'' (rel p)) (st_get True (path_string p) s0))"
proof -
  have "st_get True (root_name (rel p)) = st_get True (path_string p)"
    by (simp add: st_get_def fun_eq_iff namei_root_name [OF assms(1,2)])
  then show ?thesis
    unfolding fs_Open_def using ValidPath_rel [OF assms]
    by (simp, intro works_map_state works_sys_read) simp
qed

end
