(* ===== verification/RelCalls.thy ===== *)
theory RelCalls
  imports RelPath AtomicProps
begin

text \<open>
  The process runs in the root directory, so a relative path and the path with a slash in front lead to the
  same place. Two programs are \<open>alike\<close> when they change the world in the same way and return the same up to
  the paths in their errors; the calls on a relative path are alike those on the absolute one.
\<close>

section \<open>Programs that do the same\<close>

text \<open>Errors that differ in the path they name, also inside a wrapper.\<close>

inductive same_error :: "goerror \<Rightarrow> goerror \<Rightarrow> bool" where
  same: "same_error e e"
| one_path: "same_error (PathError op p e) (PathError op q e)"
| two_paths: "same_error (LinkError op p q e) (LinkError op p' q' e)"
| wrapped: "same_error a b \<Longrightarrow> same_error (WrapError (m @ error_text a) a) (WrapError (m @ error_text b) b)"

lemma same_error_facts:
  assumes "same_error a b"
  shows "IsNotExist a = IsNotExist b" "(\<exists>op p. a = PathError op p EEXIST) = (\<exists>op p. b = PathError op p EEXIST)"
  using assms by (cases; auto)+

definition alike :: "('a \<Rightarrow> 'a \<Rightarrow> bool) \<Rightarrow> ('x world, 'a) state \<Rightarrow> ('x world, 'a) state \<Rightarrow> bool" where
  "alike R m n \<longleftrightarrow> (\<forall>w. tree (store w) \<longrightarrow> snd (run_state m w) = snd (run_state n w) \<and>
     tree (store (snd (run_state n w))) \<and> R (fst (run_state m w)) (fst (run_state n w)))"

abbreviation same_failure :: "goerror option \<Rightarrow> goerror option \<Rightarrow> bool" where
  "same_failure \<equiv> rel_option same_error"

abbreviation same_result :: "('a \<Rightarrow> 'a \<Rightarrow> bool) \<Rightarrow> goerror + 'a \<Rightarrow> goerror + 'a \<Rightarrow> bool" where
  "same_result R \<equiv> rel_sum same_error R"

lemma same_failure_refl [simp]: "same_failure e e"
  by (cases e) (simp_all add: same_error.same)

lemma same_result_eq_refl [simp]: "same_result (=) r r"
  by (cases r) (simp_all add: same_error.same)

lemma same_failure_map: "(\<And>e. same_error (f e) (g e)) \<Longrightarrow> same_failure (map_option f x) (map_option g x)"
  by (cases x) simp_all

lemma same_failure_maps:
  "same_failure x y \<Longrightarrow> (\<And>a b. same_error a b \<Longrightarrow> same_error (f a) (g b)) \<Longrightarrow>
    same_failure (map_option f x) (map_option g y)"
  by (cases x; cases y) simp_all

lemma same_result_lift: "(\<And>e. same_error (f e) (g e)) \<Longrightarrow> same_result (=) (lift_err f x) (lift_err g x)"
  by (cases x) (simp_all add: lift_err_def)

lemmas same_intros = same_failure_map same_result_lift same_error.intros

lemma alike_ret: "R x y \<Longrightarrow> alike R (ret x) (ret y)"
  by (simp add: alike_def)

lemma alikeI:
  "state_io_rel keeps_tree n \<Longrightarrow>
    (\<And>w. snd (run_state m w) = snd (run_state n w) \<and> R (fst (run_state m w)) (fst (run_state n w))) \<Longrightarrow> alike R m n"
  by (simp add: alike_def state_io_rel_def keeps_tree_def)

lemma alike_bind:
  fixes m n :: "('x world, 'a) state"
  assumes "alike R m n" and "\<And>a b. R a b \<Longrightarrow> alike Q (f a) (g b)"
  shows "alike Q (State_Monad.bind m f) (State_Monad.bind n g)"
  unfolding alike_def
proof (intro allI impI)
  fix w :: "'x world"
  assume t: "tree (store w)"
  obtain a v where m: "run_state m w = (a, v)" by fastforce
  obtain b v' where n: "run_state n w = (b, v')" by fastforce
  have s: "v = v'" "tree (store v')" "R a b"
    using assms(1) [unfolded alike_def, rule_format, OF t] m n by simp_all
  show "snd (run_state (State_Monad.bind m f) w) = snd (run_state (State_Monad.bind n g) w) \<and>
      tree (store (snd (run_state (State_Monad.bind n g) w))) \<and>
      Q (fst (run_state (State_Monad.bind m f) w)) (fst (run_state (State_Monad.bind n g) w))"
    using assms(2) [OF s(3), unfolded alike_def, rule_format, OF s(2)] by (simp add: m n s(1))
qed

text \<open>The same for one world, and with what the second program returns there.\<close>

definition alike_from :: "'x world \<Rightarrow> ('a \<Rightarrow> 'a \<Rightarrow> bool) \<Rightarrow> ('x world, 'a) state \<Rightarrow> ('x world, 'a) state \<Rightarrow> bool" where
  "alike_from w R m n \<longleftrightarrow> snd (run_state m w) = snd (run_state n w) \<and>
     tree (store (snd (run_state n w))) \<and> R (fst (run_state m w)) (fst (run_state n w))"

lemma alike_alike_from: "alike R m n \<Longrightarrow> tree (store w) \<Longrightarrow> alike_from w R m n"
  by (simp add: alike_def alike_from_def)

lemma alike_fromD:
  "alike_from w R m n \<Longrightarrow> run_state n w = (b, w') \<Longrightarrow> \<exists>a. run_state m w = (a, w') \<and> R a b"
  by (cases "run_state m w") (simp add: alike_from_def)

lemma alike_from_bind:
  assumes "alike_from w R m n"
    and "\<And>a b v. R a b \<Longrightarrow> run_state n w = (b, v) \<Longrightarrow> tree (store v) \<Longrightarrow> alike_from v Q (f a) (g b)"
  shows "alike_from w Q (State_Monad.bind m f) (State_Monad.bind n g)"
proof -
  obtain a v where m: "run_state m w = (a, v)" by fastforce
  obtain b v' where n: "run_state n w = (b, v')" by fastforce
  have s: "v = v'" "tree (store v')" "R a b" using assms(1) m n by (simp_all add: alike_from_def)
  show ?thesis using assms(2) [OF s(3) n s(2)] by (simp add: alike_from_def m n s(1))
qed

lemma alike_refl: "state_io_rel keeps_tree m \<Longrightarrow> (\<And>x. R x x) \<Longrightarrow> alike R m m"
  by (simp add: alike_def state_io_rel_def keeps_tree_def)

lemma alike_map_state:
  "state_io_rel keeps_tree m \<Longrightarrow> (\<And>x. R (h x) (k x)) \<Longrightarrow> alike R (map_state h m) (map_state k m)"
  by (simp add: alike_def state_io_rel_def keeps_tree_def)

lemma alike_if: "(b \<Longrightarrow> alike R m n) \<Longrightarrow> (\<not> b \<Longrightarrow> alike R m' n') \<Longrightarrow>
    alike R (if b then m else m') (if b then n else n')"
  by simp

lemma alike_failure:
  assumes "same_failure e e'" and "alike R m n" and "\<And>a b. same_error a b \<Longrightarrow> alike R (f a) (g b)"
  shows "alike R (case e of None \<Rightarrow> m | Some a \<Rightarrow> f a) (case e' of None \<Rightarrow> n | Some b \<Rightarrow> g b)"
  using assms by (cases e; cases e') simp_all

lemma alike_result:
  assumes "same_result S r r'" and "\<And>a b. same_error a b \<Longrightarrow> alike R (f a) (g b)"
    and "\<And>x y. S x y \<Longrightarrow> alike R (h x) (k y)"
  shows "alike R (case r of Inl a \<Rightarrow> f a | Inr x \<Rightarrow> h x) (case r' of Inl b \<Rightarrow> g b | Inr y \<Rightarrow> k y)"
  using assms by (cases r; cases r') simp_all

lemmas alike_result_eq = alike_result [where S = "(=)"]

lemma alike_world:
  "(\<And>w. alike R (f w) (g w)) \<Longrightarrow> alike R (State (\<lambda>w. run_state (f w) w)) (State (\<lambda>w. run_state (g w) w))"
  by (simp add: alike_def)

lemma alike_weaken: "alike R m n \<Longrightarrow> (\<And>x y. R x y \<Longrightarrow> Q x y) \<Longrightarrow> alike Q m n"
  by (simp add: alike_def)

section \<open>Calls\<close>

definition relative :: "string \<Rightarrow> bool" where
  "relative s \<longleftrightarrow> s \<noteq> '''' \<and> hd s \<noteq> sep"

lemma relative_rel: "names p \<Longrightarrow> p \<noteq> [] \<Longrightarrow> relative (rel p)"
  using not_IsAbs_rel [of p] join_on_not_Nil [of p] by (cases "rel p") (simp_all add: relative_def IsAbs_def)

lemma namei_sep: "s \<noteq> '''' \<Longrightarrow> namei st fl (sep # s) = namei st fl s"
  by (simp add: namei_def del: split_on.simps(2))

lemma st_sep:
  assumes "relative s"
  shows "st_get fl (sep # s) = st_get fl s" "st_change g (sep # s) = st_change g s"
    "st_create (sep # s) i = st_create s i" "st_key (sep # s) = st_key s"
    "st_unlink (sep # s) = st_unlink s" "st_rmdir (sep # s) = st_rmdir s"
    "st_open_trunc (sep # s) m = st_open_trunc s m" "st_read_dir (sep # s) = st_read_dir s"
  using namei_sep [of s] assms
  by (simp_all add: fun_eq_iff st_get_def st_change_def st_create_def st_key_def st_unlink_def st_rmdir_def
      st_open_trunc_def st_read_dir_def relative_def)

lemma strip_sep: "relative s \<Longrightarrow> strip_slashes (sep # s) = sep # strip_slashes s \<and> relative (strip_slashes s)"
proof -
  assume "relative s"
  then obtain x t where s: "s = x # t" "x \<noteq> sep" by (cases s) (auto simp: relative_def)
  have "dropWhile (\<lambda>c. c = sep) (rev t @ [x]) = dropWhile (\<lambda>c. c = sep) (rev t) @ [x]"
    using s(2) by (induction "rev t" rule: rev_induct) (auto simp: dropWhile_append)
  moreover have "dropWhile (\<lambda>c. c = sep) ((rev t @ [x]) @ [sep]) = dropWhile (\<lambda>c. c = sep) (rev t @ [x]) @ [sep]"
    using s(2) by (subst dropWhile_append1 [of x]) auto
  ultimately show ?thesis by (simp add: s strip_slashes_def relative_def)
qed

lemma st_mkdir_sep: "relative s \<Longrightarrow> st_mkdir m (sep # s) = st_mkdir m s"
  using strip_sep [of s] st_sep(3) [of "strip_slashes s"]
  by (auto simp: st_mkdir_def fun_eq_iff relative_def)

lemma os_Lstat_alike: "relative s \<Longrightarrow> alike (same_result (=)) (os_Lstat s) (os_Lstat (sep # s))"
  unfolding os_Lstat_def st_sep by (intro alike_map_state ro_tree sys_read_frame same_intros)

lemma os_Stat_alike: "relative s \<Longrightarrow> alike (same_result (=)) (os_Stat s) (os_Stat (sep # s))"
  unfolding os_Stat_def st_sep by (intro alike_map_state ro_tree sys_read_frame same_intros)

lemma os_Readlink_alike: "relative s \<Longrightarrow> alike (same_result (=)) (os_Readlink s) (os_Readlink (sep # s))"
  unfolding os_Readlink_def st_sep by (intro alike_map_state ro_tree sys_read_frame same_intros)

lemma os_ReadFile_alike: "relative s \<Longrightarrow> alike (same_result (=)) (os_ReadFile s) (os_ReadFile (sep # s))"
proof -
  assume r: "relative s"
  have op: "alike (=) (sys_read (st_get True s)) (sys_read (st_get True (sep # s)) :: ('x world, _) state)"
    unfolding st_sep [OF r] by (intro alike_refl ro_tree sys_read_frame) (rule refl)
  show ?thesis
    unfolding os_ReadFile_def
    by (rule alike_bind [OF op])
      (auto intro!: alike_ret alike_map_state ro_tree sys_read_frame same_intros split: sum.split)
qed

lemma os_Symlink_alike: "relative s \<Longrightarrow> alike same_failure (os_Symlink t s) (os_Symlink t (sep # s))"
proof (rule alikeI [OF os_Symlink_tree])
  fix w :: "'x world"
  assume r: "relative s"
  have "st_symlink t (sep # s) = st_symlink t s" by (simp add: st_symlink_def fun_eq_iff st_sep [OF r])
  then show "snd (run_state (os_Symlink t s) w) = snd (run_state (os_Symlink t (sep # s)) w) \<and>
      same_failure (fst (run_state (os_Symlink t s) w)) (fst (run_state (os_Symlink t (sep # s)) w))"
    by (simp add: os_Symlink_def same_intros)
qed

lemma os_Mkdir_alike: "relative s \<Longrightarrow> alike same_failure (os_Mkdir s m) (os_Mkdir (sep # s) m)"
  by (rule alikeI [OF os_Mkdir_tree]) (simp add: os_Mkdir_def st_mkdir_sep same_intros)

lemma os_Chmod_alike: "relative s \<Longrightarrow> alike same_failure (os_Chmod s m) (os_Chmod (sep # s) m)"
  by (rule alikeI [OF os_Chmod_tree]) (simp add: os_Chmod_def st_sep same_intros)

lemma os_Chown_alike: "relative s \<Longrightarrow> alike same_failure (os_Chown s u g) (os_Chown (sep # s) u g)"
  by (rule alikeI [OF os_Chown_tree]) (simp add: os_Chown_def st_sep same_intros)

lemma os_WriteFile_alike: "relative s \<Longrightarrow> alike same_failure (os_WriteFile s c m) (os_WriteFile (sep # s) c m)"
  by (rule alikeI [OF os_WriteFile_tree])
    (auto simp: os_WriteFile_def st_sep same_intros split: prod.split sum.split)

lemma os_Rename_alike:
  "relative s \<Longrightarrow> relative t \<Longrightarrow> alike same_failure (os_Rename s t) (os_Rename (sep # s) (sep # t))"
proof (rule alikeI [OF os_Rename_tree])
  fix w :: "'x world"
  assume r: "relative s" "relative t"
  have nt: "t \<noteq> ''''" using r(2) by (simp add: relative_def)
  have "st_rename (sep # s) (sep # t) = st_rename s t"
    by (rule ext) (simp only: st_rename_def st_sep [OF r(1)] namei_sep [OF nt])
  then show "snd (run_state (os_Rename s t) w) = snd (run_state (os_Rename (sep # s) (sep # t)) w) \<and>
      same_failure (fst (run_state (os_Rename s t) w)) (fst (run_state (os_Rename (sep # s) (sep # t)) w))"
    by (auto simp: os_Rename_def st_sep [OF r(1)] st_sep [OF r(2)] same_intros split: prod.split sum.split)
qed

lemma os_Remove_alike: "relative s \<Longrightarrow> alike same_failure (os_Remove s) (os_Remove (sep # s))"
  by (rule alikeI [OF os_Remove_tree])
    (auto simp: os_Remove_def st_sep same_intros split: prod.split option.split)

lemma ends_with_dot_sep: "relative s \<Longrightarrow> ends_with_dot (sep # s) = ends_with_dot s"
  by (cases s) (auto simp: ends_with_dot_def relative_def suffix_Cons)

lemma os_RemoveAll_alike: "relative s \<Longrightarrow> alike same_failure (os_RemoveAll s) (os_RemoveAll (sep # s))"
proof -
  assume r: "relative s"
  then have ne: "s \<noteq> ''''" by (simp add: relative_def)
  have rd: "alike (=) (sys_read (\<lambda>st. case namei st False s of Inl e \<Rightarrow> Inl e | Inr p \<Rightarrow> Inr (subtree_keys st p)))
      (sys_read (\<lambda>st. case namei st False (sep # s) of Inl e \<Rightarrow> Inl e | Inr p \<Rightarrow> Inr (subtree_keys st p))
        :: ('x world, _) state)"
    unfolding namei_sep [OF ne] by (intro alike_refl ro_tree sys_read_frame) (rule refl)
  have keys: "alike same_failure
      (case p of Inl ENOENT \<Rightarrow> ret None | Inl e \<Rightarrow> ret (Some (PathError ''open'' s e))
       | Inr ks \<Rightarrow> map_state (map_option (PathError ''unlinkat'' s)) (remove_keys ks))
      (case p of Inl ENOENT \<Rightarrow> ret None | Inl e \<Rightarrow> ret (Some (PathError ''open'' (sep # s) e))
       | Inr ks \<Rightarrow> map_state (map_option (PathError ''unlinkat'' (sep # s))) (remove_keys ks))"
    for p :: "errno + string list list"
    by (auto intro!: alike_ret alike_map_state remove_keys_tree same_intros split: sum.split errno.split)
  show ?thesis
    unfolding os_RemoveAll_def ends_with_dot_sep [OF r] if_not_P [OF ne] if_not_P [OF list.distinct(2)]
    by (intro alike_if alike_ret alike_bind [OF os_Remove_alike [OF r]])
      (auto intro!: alike_failure alike_ret alike_bind [OF rd] keys same_error.one_path simp: same_error_facts split: option.split)
qed

lemma Split_dir: "fst (Split s) = rev (dropWhile (\<lambda>c. c \<noteq> sep) (rev s))"
proof -
  let ?tw = "takeWhile (\<lambda>c. c \<noteq> sep) (rev s)" and ?dw = "dropWhile (\<lambda>c. c \<noteq> sep) (rev s)"
  have "rev ?dw @ rev ?tw = s" by (metis rev_append rev_rev_ident takeWhile_dropWhile_id)
  moreover have "fst (Split s) @ rev ?tw = s" using Split_append [of s] by (simp add: Split_def Let_def)
  ultimately show ?thesis by (metis append_same_eq)
qed

lemma Split_sep: "Split (sep # s) = (sep # fst (Split s), snd (Split s))"
proof -
  have "takeWhile (\<lambda>c. c \<noteq> sep) (rev s @ [sep]) = takeWhile (\<lambda>c. c \<noteq> sep) (rev s)"
    by (induction "rev s" arbitrary: s) (simp_all, metis rev_rev_ident takeWhile.simps append_Cons)
  then have "snd (Split (sep # s)) = snd (Split s)"
    by (simp add: Split_def Let_def)
  moreover from this have "fst (Split (sep # s)) = sep # fst (Split s)"
    using Split_append [of "sep # s"] Split_append [of s] by (metis append_Cons append_same_eq)
  ultimately show ?thesis by (simp add: prod_eq_iff)
qed

lemma Base_sep: "relative s \<Longrightarrow> Base (sep # s) = Base s"
  using strip_sep [of s] Split_sep [of "strip_slashes s"] by (auto simp: Base_def relative_def Let_def)

lemma parent_sep:
  assumes "relative s"
  shows "parent_path (sep # s) = (if parent_path s = '''' then '''' else sep # parent_path s)"
    "parent_path s = '''' \<or> relative (parent_path s)"
proof -
  let ?t = "strip_slashes s" and ?d = "fst (Split (strip_slashes s))"
  have t: "strip_slashes (sep # s) = sep # ?t" "relative ?t" using strip_sep [OF assms] by simp_all
  have "hd ?t = hd ?d" if "?d \<noteq> ''''"
    using hd_append2 [OF that, of "snd (Split ?t)"] unfolding Split_append .
  then have first: "?d = '''' \<or> hd ?d \<noteq> sep" using t(2) by (auto simp: relative_def)
  have last: "?d = '''' \<or> last ?d = sep"
    unfolding Split_dir using hd_dropWhile [of "\<lambda>c. c \<noteq> sep" "rev ?t"] by (auto simp: last_rev)
  show "parent_path s = '''' \<or> relative (parent_path s)"
    using first unfolding parent_path_def relative_def by (cases ?d) auto
  show "parent_path (sep # s) = (if parent_path s = '''' then '''' else sep # parent_path s)"
    unfolding parent_path_def t(1) Split_sep using first last by (cases ?d) auto
qed

lemma os_MkdirAll_alike:
  "relative s \<Longrightarrow> alike same_failure (os_MkdirAll s m :: ('x world, goerror option) state) (os_MkdirAll (sep # s) m)"
proof (induction s m rule: os_MkdirAll.induct)
  case (1 s m)
  note r = 1(2) and p = parent_sep [OF 1(2)]
  have up: "alike same_failure
      ((if parent_path s \<noteq> '''' then os_MkdirAll (parent_path s) m else ret None) :: ('x world, goerror option) state)
      (if parent_path (sep # s) \<noteq> '''' then os_MkdirAll (parent_path (sep # s)) m else ret None)"
    using p 1(1) by (auto intro: alike_ret)
  show ?case
    unfolding os_MkdirAll.simps [of s m] os_MkdirAll.simps [of "sep # s" m]
    by (intro alike_bind [OF os_Stat_alike [OF r]] alike_bind [OF up] alike_bind [OF os_Mkdir_alike [OF r]]
        alike_bind [OF os_Lstat_alike [OF r]] alike_result_eq alike_failure alike_ret)
      (auto intro: same_error.intros)
qed

lemma case_exists:
  "(case e of PathError _ _ EEXIST \<Rightarrow> a | _ \<Rightarrow> b) = (if \<exists>op p. e = PathError op p EEXIST then a else b)"
  by (auto split: goerror.split errno.split)

section \<open>The same place\<close>

text \<open>A relative path of names and the absolute one.\<close>

definition same_place :: "string \<Rightarrow> string \<Rightarrow> bool" where
  "same_place a b \<longleftrightarrow> (\<exists>p. names p \<and> p \<noteq> [] \<and> a = rel p \<and> b = path_string p)"

lemma same_placeI: "names p \<Longrightarrow> p \<noteq> [] \<Longrightarrow> same_place (rel p) (path_string p)"
  by (auto simp: same_place_def)

lemma same_placeD: "same_place a b \<Longrightarrow> relative a \<and> b = sep # a"
  by (auto simp: same_place_def path_string_def relative_rel)

definition pieces :: "string \<Rightarrow> string list" where
  "pieces x = filter (\<lambda>c. c \<noteq> '''' \<and> c \<noteq> ''.'') (split_on sep x)"

definition no_dotdot :: "string \<Rightarrow> bool" where
  "no_dotdot x \<longleftrightarrow> ''..'' \<notin> set (split_on sep x)"

lemma names_pieces: "no_dotdot x \<Longrightarrow> names (pieces x)"
  unfolding pieces_def no_dotdot_def list_all_iff
proof
  fix c
  assume nd: "''..'' \<notin> set (split_on sep x)" and "c \<in> set (filter (\<lambda>c. c \<noteq> '''' \<and> c \<noteq> ''.'') (split_on sep x))"
  then have c: "c \<in> set (split_on sep x)" "c \<noteq> ''''" "c \<noteq> ''.''" by auto
  moreover have "c \<noteq> ''..''" using nd c(1) by metis
  ultimately show "name_comp c" by (rule piece_name)
qed

lemma no_dotdot_names: "names cs \<Longrightarrow> no_dotdot (join_on sep cs)"
  by (cases "cs = []") (auto simp: no_dotdot_def split_join_names list_all_iff dest: name_compD simp del: split_on.simps(2))

lemma no_dotdot_name: "name_comp c \<Longrightarrow> no_dotdot c"
  using no_dotdot_names [of "[c]"] by simp

lemma no_dotdot_ok: "ok_path k \<Longrightarrow> no_dotdot k"
  using no_dotdot_names [of "split_on sep k"] by (simp add: ok_path_def join_split)

lemma Join_pieces:
  assumes "names p" and "p \<noteq> []" and "no_dotdot x"
  shows "Join [rel p, x] = rel (p @ pieces x)" "Join [path_string p, x] = path_string (p @ pieces x)"
proof -
  have s: "split_on sep (rel p @ sep # x) = p @ split_on sep x"
    using assms(1,2) by (simp add: split_on_append_sep split_join_names del: split_on.simps(2))
  have c: "clean_comps r [] (p @ split_on sep x) = p @ pieces x" for r
    using clean_comps_names [OF assms(1), of r "[]" "split_on sep x"] assms(3)
    by (simp add: clean_comps_no_dotdot no_dotdot_def pieces_def)
  have ne: "rel p \<noteq> ''''" "hd (rel p) \<noteq> sep"
    using relative_rel [OF assms(1,2)] by (simp_all add: relative_def)
  have "Join [rel p, x] = Clean (rel p @ sep # x)"
    using ne by (simp add: Join_def)
  also have "\<dots> = rel (p @ pieces x)"
    unfolding Clean_def s c using ne assms(2) by (cases "p @ pieces x") (auto simp: IsAbs_def hd_append)
  finally show "Join [rel p, x] = rel (p @ pieces x)" .
  have "Join [path_string p, x] = Clean (sep # (rel p @ sep # x))"
    by (simp add: Join_def path_string_def)
  also have "\<dots> = path_string (p @ pieces x)"
    unfolding Clean_def using c [of True] by (simp add: IsAbs_def s path_string_def clean_comps_skip)
  finally show "Join [path_string p, x] = path_string (p @ pieces x)" .
qed

lemma same_place_Join: "same_place a b \<Longrightarrow> no_dotdot x \<Longrightarrow> same_place (Join [a, x]) (Join [b, x])"
  unfolding same_place_def using Join_pieces names_pieces
  by (metis append_is_Nil_conv list_all_append)

text \<open>The names that a temporary directory gets are in the directory.\<close>

lemma join_path_rel:
  assumes "names p" and "p \<noteq> []"
  shows "join_path (rel p) pat @ x = rel (p @ [pat @ x])" "join_path (path_string p) pat @ x = path_string (p @ [pat @ x])"
proof -
  obtain q c where p: "p = q @ [c]" using assms(2) by (cases p rule: rev_cases) auto
  have c: "c \<noteq> ''''" "sep \<notin> set c" using assms(1) unfolding p by (auto dest: name_compD)
  then have "last c \<noteq> sep" using last_in_set by metis
  note c = c(1) this
  have r: "rel p \<noteq> ''''" by (rule join_on_not_Nil [OF assms(2,1)])
  have "last (rel p) \<noteq> sep" unfolding p by (cases "q = []") (use c in \<open>simp_all add: join_on_snoc\<close>)
  with r assms(2) show "join_path (rel p) pat @ x = rel (p @ [pat @ x])"
      "join_path (path_string p) pat @ x = path_string (p @ [pat @ x])"
    by (simp_all add: join_path_def path_string_def join_on_snoc)
qed

lemma try_names_alike:
  assumes "names p" and "p \<noteq> []" and nm: "\<And>n. name_comp (pat @ suf n)"
  shows "alike (same_result same_place)
    (try_names n suf (rel p) pat :: ('x world, goerror + string) state) (try_names n suf (path_string p) pat)"
proof (induction n)
  case 0
  show ?case by (auto intro!: alike_ret same_error.one_path)
next
  case (Suc n)
  let ?s = "rel p" and ?t = "path_string p"
  have pl: "same_place ?s ?t" by (rule same_placeI [OF assms(1,2)])
  have t: "?t = sep # ?s" "relative ?s" using same_placeD [OF pl] by simp_all
  have j: "same_place (join_path ?s pat @ suf n) (join_path ?t pat @ suf n)"
    unfolding join_path_rel [OF assms(1,2)] using assms(1) nm by (intro same_placeI) simp_all
  have st: "alike (same_result same_place) (do {
        r \<leftarrow> os_Stat ?s;
        ret (case r of Inl es \<Rightarrow> if IsNotExist es then Inl es else Inl e | Inr _ \<Rightarrow> Inl e)
      }) (do {
        r \<leftarrow> os_Stat ?t;
        ret (case r of Inl es \<Rightarrow> if IsNotExist es then Inl es else Inl e' | Inr _ \<Rightarrow> Inl e')
      })" if "same_error e e'" for e e'
    unfolding t(1)
    by (rule alike_bind [OF os_Stat_alike [OF t(2)]], rule alike_ret)
      (use that same_error_facts(1) in \<open>auto elim!: rel_sum.cases\<close>)
  have err: "alike (same_result same_place)
      ((case e of PathError _ _ EEXIST \<Rightarrow> try_names n suf ?s pat
       | _ \<Rightarrow> if IsNotExist e then do {
               r \<leftarrow> os_Stat ?s;
               ret (case r of Inl es \<Rightarrow> if IsNotExist es then Inl es else Inl e | Inr _ \<Rightarrow> Inl e)
             } else ret (Inl e)) :: ('x world, goerror + string) state)
      (case e' of PathError _ _ EEXIST \<Rightarrow> try_names n suf ?t pat
       | _ \<Rightarrow> if IsNotExist e' then do {
               r \<leftarrow> os_Stat ?t;
               ret (case r of Inl es \<Rightarrow> if IsNotExist es then Inl es else Inl e' | Inr _ \<Rightarrow> Inl e')
             } else ret (Inl e'))" if "same_error e e'" for e e'
    unfolding case_exists same_error_facts [OF that]
    by (rule alike_if, rule Suc.IH, rule alike_if, rule st [OF that], rule alike_ret) (simp add: that)
  have mk: "alike same_failure (os_Mkdir (join_path ?s pat @ suf n) 0x1C0) (os_Mkdir (join_path ?t pat @ suf n) 0x1C0)"
    using os_Mkdir_alike same_placeD [OF j] by metis
  show ?case
    unfolding try_names.simps Let_def
    by (intro alike_bind [OF mk] alike_failure err alike_ret) (simp_all add: j)
qed

lemmas TempDir_alike = try_names_alike [where n = 10000, folded TempDir_def]

text \<open>The calls on the same place.\<close>

lemma place_calls:
  assumes "same_place a b"
  shows "alike (same_result (=)) (os_Stat a) (os_Stat b)" "alike (same_result (=)) (os_Lstat a) (os_Lstat b)"
    "alike (same_result (=)) (os_Readlink a) (os_Readlink b)" "alike (same_result (=)) (os_ReadFile a) (os_ReadFile b)"
    "alike same_failure (os_Symlink t a) (os_Symlink t b)" "alike same_failure (os_Chmod a m) (os_Chmod b m)"
    "alike same_failure (os_Chown a u g) (os_Chown b u g)" "alike same_failure (os_WriteFile a c m) (os_WriteFile b c m)"
    "alike same_failure (os_Remove a) (os_Remove b)" "alike same_failure (os_RemoveAll a) (os_RemoveAll b)"
    "alike same_failure (os_MkdirAll a m) (os_MkdirAll b m)" "Base a = Base b"
    "same_place a' b' \<Longrightarrow> alike same_failure (os_Rename a a') (os_Rename b b')"
proof -
  have b: "b = sep # a" "relative a" using same_placeD [OF assms] by simp_all
  note calls = os_Stat_alike os_Lstat_alike os_Readlink_alike os_ReadFile_alike os_Symlink_alike os_Chmod_alike
    os_Chown_alike os_WriteFile_alike os_Remove_alike os_RemoveAll_alike os_MkdirAll_alike
  show "alike (same_result (=)) (os_Stat a) (os_Stat b)" "alike (same_result (=)) (os_Lstat a) (os_Lstat b)"
    "alike (same_result (=)) (os_Readlink a) (os_Readlink b)" "alike (same_result (=)) (os_ReadFile a) (os_ReadFile b)"
    "alike same_failure (os_Symlink t a) (os_Symlink t b)" "alike same_failure (os_Chmod a m) (os_Chmod b m)"
    "alike same_failure (os_Chown a u g) (os_Chown b u g)" "alike same_failure (os_WriteFile a c m) (os_WriteFile b c m)"
    "alike same_failure (os_Remove a) (os_Remove b)" "alike same_failure (os_RemoveAll a) (os_RemoveAll b)"
    "alike same_failure (os_MkdirAll a m) (os_MkdirAll b m)"
    unfolding b(1) by (rule calls [OF b(2)])+
  show "Base a = Base b" using b Base_sep by simp
  show "alike same_failure (os_Rename a a') (os_Rename b b')" if "same_place a' b'"
    using os_Rename_alike [OF b(2), of a'] same_placeD [OF that] unfolding b(1) by simp
qed

text \<open>The directory of a file, with the slash at the end.\<close>

lemma MkdirAll_above_alike:
  assumes "names (p @ [c])" and "p \<noteq> []"
  shows "alike same_failure (os_MkdirAll (fst (Split (rel (p @ [c])))) m)
    (os_MkdirAll (fst (Split (path_string (p @ [c])))) m)"
proof -
  have t: "path_string (p @ [c]) = sep # rel (p @ [c])" by (simp add: path_string_def)
  have n: "names p" "sep \<notin> set c" using assms(1) by (auto dest: name_compD)
  have "fst (Split (rel (p @ [c]))) = rel p @ [sep]" using Split_last [OF n(2)] assms(2) by (simp add: join_on_snoc)
  moreover have "relative (rel p @ [sep])" using relative_rel [OF n(1) assms(2)] by (auto simp: relative_def)
  ultimately show ?thesis unfolding t Split_sep fst_conv by (simp add: os_MkdirAll_alike)
qed

end
