(* ===== verification/Registry.thy ===== *)
theory Registry
  imports RelPath VolumeWrite
begin

text \<open>
  Registering, reading and listing volumes in a store on disk whose base directory is a relative path, when
  no system call fails. A registered volume is a directory with a metadata file that decodes.
\<close>

section \<open>Where a volume is kept\<close>

definition rel_base :: "Filesystem \<Rightarrow> string list \<Rightarrow> bool" where
  "rel_base f B \<longleftrightarrow> names B \<and> B \<noteq> [] \<and> baseDir f = rel B"

abbreviation meta_key :: "string list \<Rightarrow> string \<Rightarrow> string list" where
  "meta_key B v \<equiv> B @ [''inmemfs'', v, ''metadata.json'']"

lemma rel_paths:
  assumes "rel_base f B"
  shows "tempfsPath f = rel (tempfs_key B)"
    "name_comp v \<Longrightarrow> volumePath f v = rel (volume_key B v)"
    "name_comp v \<Longrightarrow> dataPathForVolumeID f v = rel (data_dir B v)"
    "name_comp v \<Longrightarrow> metadataPathForVolumeID f v = rel (meta_key B v)"
proof -
  have B: "names B" "B \<noteq> []" "baseDir f = rel B" using assms by (simp_all add: rel_base_def)
  show t: "tempfsPath f = rel (tempfs_key B)"
    unfolding tempfsPath_def B(3) by (rule Join_rel [OF B(1,2) store_names(1)])
  assume nv: "name_comp v"
  show v: "volumePath f v = rel (volume_key B v)"
    unfolding volumePath_def t using Join_rel [of "tempfs_key B" v] B(1) store_names nv by simp
  show "dataPathForVolumeID f v = rel (data_dir B v)" "metadataPathForVolumeID f v = rel (meta_key B v)"
    unfolding dataPathForVolumeID_def metadataPathForVolumeID_def v
    using Join_rel [of "volume_key B v"] B(1) store_names nv by simp_all
qed

lemma rel_names:
  assumes "rel_base f B" and "name_comp v"
  shows "names (tempfs_key B)" "names (volume_key B v)" "names (data_dir B v)" "names (meta_key B v)"
  using assms store_names by (simp_all add: rel_base_def)

text \<open>Nothing but what the store itself makes is where the volume is kept.\<close>

definition volume_place :: "fstore \<Rightarrow> string list \<Rightarrow> string \<Rightarrow> bool" where
  "volume_place st B v \<longleftrightarrow> dirs_to st (tempfs_key B) \<and>
     (lookup st (volume_key B v) = None \<or> is_dir st (volume_key B v)) \<and>
     (lookup st (data_dir B v) = None \<or> is_dir st (data_dir B v)) \<and>
     (lookup st (meta_key B v) = None \<or> (\<exists>c. is_file st (meta_key B v) c))"

definition registered :: "fstore \<Rightarrow> string list \<Rightarrow> string \<Rightarrow> Metadata \<Rightarrow> bool" where
  "registered st B v m \<longleftrightarrow> dirs_to st (volume_key B v) \<and>
     (\<exists>c. is_file st (meta_key B v) c \<and> Decode c = Some m)"

text \<open>What a registration may change: the directory of the volume, its data directory and its metadata file.\<close>

abbreviation registration_keys :: "string list \<Rightarrow> string \<Rightarrow> string list set" where
  "registration_keys B v \<equiv> {volume_key B v, data_dir B v, meta_key B v}"

definition only_registered :: "string list \<Rightarrow> string \<Rightarrow> fstore \<Rightarrow> fstore \<Rightarrow> bool" where
  "only_registered B v st st' \<longleftrightarrow> (\<forall>k. k \<notin> registration_keys B v \<longrightarrow> lookup st' k = lookup st k)"

lemma only_at_registered: "only_at p st st' \<Longrightarrow> p \<in> registration_keys B v \<Longrightarrow> only_registered B v st st'"
  by (auto simp: only_at_def only_registered_def)

lemma only_registeredD: "only_registered B v a b \<Longrightarrow> k \<notin> registration_keys B v \<Longrightarrow> lookup b k = lookup a k"
  unfolding only_registered_def by blast

lemma only_registered_trans: "only_registered B v a b \<Longrightarrow> only_registered B v b c \<Longrightarrow> only_registered B v a c"
  by (simp add: only_registered_def)

section \<open>Directories and metadata\<close>

lemma ensureVolumeDirectory_works:
  assumes "rel_base f B" and "name_comp v" and "volume_place s0 B v"
  shows "works (\<lambda>st. st = s0) (ensureVolumeDirectory f v)
    (\<lambda>r st. r = None \<and> dirs_to st (volume_key B v) \<and> is_dir st (data_dir B v) \<and>
      lookup st (meta_key B v) = lookup s0 (meta_key B v) \<and> only_registered B v s0 st)"
proof -
  note n = rel_names [OF assms(1,2)]
  let ?V = "volume_key B v" and ?D = "data_dir B v"
  have vol: "works (\<lambda>st. st = s0) (os_MkdirAll (rel ?V) 0x1A4 :: ('x world, goerror option) state)
      (\<lambda>r st. r = None \<and> is_dir st ?V \<and> only_at ?V s0 st)"
    by (rule MkdirAll_rel_works [OF n(2)])
      (use assms(3) in \<open>simp_all add: volume_place_def butlast_append\<close>)
  have data: "works (\<lambda>st. is_dir st ?V \<and> only_at ?V s0 st)
      (os_MkdirAll (rel ?D) 0x168 :: ('x world, goerror option) state)
      (\<lambda>r st. r = None \<and> dirs_to st ?V \<and> is_dir st ?D \<and>
        lookup st (meta_key B v) = lookup s0 (meta_key B v) \<and> only_registered B v s0 st)"
  proof (rule works_any, elim conjE)
    fix s1
    assume d: "is_dir s1 ?V" and o: "only_at ?V s0 s1"
    have "dirs_to s1 (tempfs_key B)"
      by (rule only_at_dirs [OF o]) (use assms(3) in \<open>auto simp: volume_place_def dest: prefix_length_le\<close>)
    with d have dv: "dirs_to s1 ?V" using dirs_to_snoc [of s1 "tempfs_key B" v] by simp
    have "lookup s1 ?D = lookup s0 ?D" "lookup s1 (meta_key B v) = lookup s0 (meta_key B v)"
      using o by (simp_all add: only_at_def)
    then have free: "lookup s1 ?D = None \<or> is_dir s1 ?D"
      and keep: "lookup s1 (meta_key B v) = lookup s0 (meta_key B v)"
      using assms(3) by (simp_all add: volume_place_def is_dir_def)
    have mk: "works (\<lambda>st. st = s1) (os_MkdirAll (rel ?D) 0x168 :: ('x world, goerror option) state)
        (\<lambda>r st. r = None \<and> is_dir st ?D \<and> only_at ?D s1 st)"
      by (rule MkdirAll_rel_works [OF n(3)]) (use dv free in \<open>simp_all add: butlast_append\<close>)
    have post: "dirs_to st ?V \<and> lookup st (meta_key B v) = lookup s0 (meta_key B v) \<and> only_registered B v s0 st"
      if o2: "only_at ?D s1 st" for st
    proof (intro conjI)
      show "dirs_to st ?V" by (rule only_at_dirs [OF o2 dv]) (auto dest: prefix_length_le)
      show "lookup st (meta_key B v) = lookup s0 (meta_key B v)" using o2 keep by (simp add: only_at_def)
      show "only_registered B v s0 st"
        by (rule only_registered_trans [OF only_at_registered [OF o] only_at_registered [OF o2]]) simp_all
    qed
    show "works (\<lambda>st. st = s1) (os_MkdirAll (rel ?D) 0x168 :: ('x world, goerror option) state)
        (\<lambda>r st. r = None \<and> dirs_to st ?V \<and> is_dir st ?D \<and>
          lookup st (meta_key B v) = lookup s0 (meta_key B v) \<and> only_registered B v s0 st)"
      by (rule works_conseq [OF mk]) (use post in auto)
  qed
  show ?thesis
    unfolding ensureVolumeDirectory_def rel_paths(2,3) [OF assms(1,2)]
    by (rule works_ok [OF vol], unfold option.case, rule data)
qed

lemma WriteMetadata_works:
  assumes "rel_base f B" and "name_comp v" and "dirs_to s0 (volume_key B v)" and "utf8_metadata m"
    and "lookup s0 (meta_key B v) = None \<or> (\<exists>c. is_file s0 (meta_key B v) c)"
  shows "works (\<lambda>st. st = s0) (WriteMetadata f v m)
    (\<lambda>r st. r = None \<and> registered st B v (stored m) \<and> only_at (meta_key B v) s0 st)"
proof -
  have slot: "file_slot s0 (meta_key B v)"
    using rel_names(4) [OF assms(1,2)] assms(3,5) by (auto simp: file_slot_def is_file_def butlast_append)
  have post: "registered st B v (stored m)"
    if o: "only_at (meta_key B v) s0 st" and fl: "is_file st (meta_key B v) (Marshal m)" for st
  proof -
    have "dirs_to st (volume_key B v)" by (rule only_at_dirs [OF o assms(3)]) (auto dest: prefix_length_le)
    with fl Unmarshal_Marshal(2) [OF assms(4)] show ?thesis by (auto simp: registered_def)
  qed
  show ?thesis
    unfolding WriteMetadata_def rel_paths(4) [OF assms(1,2)]
    by (rule works_conseq [OF WriteFile_rel_works [OF slot]]) (use post in auto)
qed

lemma write_registered_works:
  assumes "rel_base f B" and "name_comp v" and "volume_place s0 B v" and "VolumeID m = v" and "utf8_metadata m"
  shows "works (\<lambda>st. st = s0) (write_registered f v m)
    (\<lambda>r st. r = Inr True \<and> registered st B v (stored m) \<and> is_dir st (data_dir B v) \<and> only_registered B v s0 st)"
proof -
  have wr: "works (\<lambda>st. dirs_to st (volume_key B v) \<and> is_dir st (data_dir B v) \<and>
        lookup st (meta_key B v) = lookup s0 (meta_key B v) \<and> only_registered B v s0 st)
      (WriteMetadata f (VolumeID m) m)
      (\<lambda>r st. r = None \<and> registered st B v (stored m) \<and> is_dir st (data_dir B v) \<and> only_registered B v s0 st)"
  proof (rule works_any, elim conjE)
    fix s1
    assume d: "dirs_to s1 (volume_key B v)" and l: "lookup s1 (meta_key B v) = lookup s0 (meta_key B v)"
      and o: "only_registered B v s0 s1" and data: "is_dir s1 (data_dir B v)"
    have slot: "lookup s1 (meta_key B v) = None \<or> (\<exists>c. is_file s1 (meta_key B v) c)"
      using l assms(3) by (simp add: volume_place_def is_file_def)
    have post: "is_dir st (data_dir B v) \<and> only_registered B v s0 st" if o2: "only_at (meta_key B v) s1 st" for st
      using data o2 only_registered_trans [OF o only_at_registered [OF o2]] by (simp add: is_dir_def only_at_def)
    show "works (\<lambda>st. st = s1) (WriteMetadata f (VolumeID m) m)
        (\<lambda>r st. r = None \<and> registered st B v (stored m) \<and> is_dir st (data_dir B v) \<and> only_registered B v s0 st)"
      unfolding assms(4)
      by (rule works_conseq [OF WriteMetadata_works [OF assms(1,2) d assms(5) slot]]) (use post in auto)
  qed
  show ?thesis
    unfolding write_registered_def
    by (rule works_ok [OF ensureVolumeDirectory_works [OF assms(1-3)]], unfold option.case, rule works_ok [OF wr])
      (auto intro: works_ret)
qed

text \<open>A metadata file that is there can be opened and read, whatever it holds.\<close>

definition metadata_file :: "fstore \<Rightarrow> string list \<Rightarrow> string \<Rightarrow> inode \<Rightarrow> string \<Rightarrow> bool" where
  "metadata_file st B v i c \<longleftrightarrow> dirs_to st (volume_key B v) \<and> lookup st (meta_key B v) = Some i \<and> kind i = Regular c"

lemma Open_metadata_works:
  assumes "rel_base f B" and "name_comp v" and "valid_utf8 (metadataPathForVolumeID f v)"
    and "metadata_file s0 B v i c"
  shows "works (\<lambda>st. st = s0) (fs_Open (rel (meta_key B v))) (\<lambda>r st. r = Inr i \<and> st = s0)"
proof -
  note n = rel_names(4) [OF assms(1,2)]
  have i: "dirs_to s0 (volume_key B v)" "lookup s0 (meta_key B v) = Some i" "kind i = Regular c"
    using assms(4) by (simp_all add: metadata_file_def)
  have "namei s0 True (path_string (meta_key B v)) = Inr (meta_key B v)"
    by (rule namei_leaf [OF n]) (use i in \<open>simp_all add: butlast_append is_link_def\<close>)
  then have g: "st_get True (path_string (meta_key B v)) s0 = Inr i" by (simp add: st_get_def i(2))
  show ?thesis
    by (rule works_conseq [OF fs_Open_works [OF n, of s0, unfolded g lift_err_def sum.case]])
      (use assms(3) rel_paths(4) [OF assms(1,2)] in simp_all)
qed

lemma ReadMetadata_file_works:
  assumes "rel_base f B" and "name_comp v" and "valid_utf8 (metadataPathForVolumeID f v)"
    and "metadata_file s0 B v i c"
  shows "works (\<lambda>st. st = s0) (ReadMetadata msg f v) (\<lambda>r st. st = s0 \<and> r =
    (case Decode c of
       None \<Rightarrow> Inl (WrapError (''reading metadata file: invalid JSON: '' @ msg c) ErrInvalidJSON)
     | Some m \<Rightarrow> Inr m))"
proof -
  have k: "kind i = Regular c" using assms(4) by (simp add: metadata_file_def)
  have st: "works (\<lambda>st. st = s0) (sys_read (\<lambda>_. Inr i)) (\<lambda>r st. r = Inr i \<and> st = s0)"
    by (rule works_sys_read) simp
  have rd: "works (\<lambda>st. st = s0) (read_file i) (\<lambda>r st. r = Inr c \<and> st = s0)"
    unfolding read_file_def k by (rule works_sys_read) simp
  show ?thesis
    unfolding ReadMetadata_def Let_def rel_paths(4) [OF assms(1,2)]
    by (rule works_ok [OF Open_metadata_works [OF assms]], unfold sum.case, rule works_ok [OF st], unfold sum.case,
        rule works_ok [OF rd], unfold sum.case, rule works_ret) simp
qed

lemma registered_file: "registered st B v m \<Longrightarrow> \<exists>i c. metadata_file st B v i c \<and> Decode c = Some m"
  by (auto simp: registered_def metadata_file_def is_file_def)

lemma ReadMetadata_works:
  assumes "rel_base f B" and "name_comp v" and "valid_utf8 (metadataPathForVolumeID f v)" and "registered s0 B v m"
  shows "works (\<lambda>st. st = s0) (ReadMetadata msg f v) (\<lambda>r st. r = Inr m \<and> st = s0)"
proof -
  obtain i c where f: "metadata_file s0 B v i c" and d: "Decode c = Some m" using registered_file [OF assms(4)] by blast
  show ?thesis by (rule works_conseq [OF ReadMetadata_file_works [OF assms(1-3) f]]) (simp_all add: d)
qed

lemma ReadMetadata_missing_works:
  assumes "rel_base f B" and "name_comp v" and "valid_utf8 (metadataPathForVolumeID f v)"
    and "volume_place s0 B v" and "lookup s0 (meta_key B v) = None"
  shows "works (\<lambda>st. st = s0) (ReadMetadata msg f v) (\<lambda>r st. r = Inl not_found_wrapped \<and> st = s0)"
proof -
  note n = rel_names [OF assms(1,2)]
  have p: "metadataPathForVolumeID f v = rel (meta_key B v)" using rel_paths(4) [OF assms(1,2)] .
  have way: "lookup s0 (tempfs_key B @ q) = None \<or> is_dir s0 (tempfs_key B @ q)"
    if "q \<noteq> []" "strict_prefix q [v, ''metadata.json'']" for q
  proof -
    have "q = [v]" using that by (auto simp: strict_prefix_def prefix_Cons)
    then show ?thesis using assms(4) by (auto simp: volume_place_def)
  qed
  have "resolve s0 True max_links (tempfs_key B) [v, ''metadata.json''] =
      Inr (tempfs_key B @ [v, ''metadata.json'']) \<or>
    resolve s0 True max_links (tempfs_key B) [v, ''metadata.json''] = Inl ENOENT"
    using resolve_open [of "[v, ''metadata.json'']" s0 "tempfs_key B" True max_links, OF _ way]
      assms(2,5) store_names(3) by (auto simp: is_link_def)
  then have "\<exists>e. st_get True (path_string (meta_key B v)) s0 = Inl e"
    using resolve_dirs [of "tempfs_key B" s0 "[]" True max_links "[v, ''metadata.json'']"] n assms(4,5)
    by (auto simp: st_get_def namei_path_string volume_place_def)
  then obtain e where g: "st_get True (path_string (meta_key B v)) s0 = Inl e" ..
  have op: "works (\<lambda>st. st = s0) (fs_Open (rel (meta_key B v)))
      (\<lambda>r st. r = Inl (PathError ''open'' (rel (meta_key B v)) e) \<and> st = s0)"
    by (rule works_conseq [OF fs_Open_works [OF n(4), of s0, unfolded g lift_err_def sum.case]])
      (use assms(3) in \<open>simp_all add: p\<close>)
  show ?thesis
    unfolding ReadMetadata_def Let_def p
    by (rule works_ok [OF op]) (auto intro: works_ret)
qed

section \<open>Registration\<close>

definition agrees :: "Metadata \<Rightarrow> Metadata \<Rightarrow> bool" where
  "agrees m m' \<longleftrightarrow> VolumeID m' = VolumeID m \<and> map_of (VolumeContext m') = map_of (VolumeContext m)"

text \<open>A place for a volume that is not there, or is registered with its own identifier.\<close>

definition may_register :: "fstore \<Rightarrow> string list \<Rightarrow> string \<Rightarrow> bool" where
  "may_register st B v \<longleftrightarrow> volume_place st B v \<and> (lookup st (meta_key B v) = None \<or>
     (\<exists>old. registered st B v old \<and> VolumeID old = v \<and> utf8_metadata old))"

lemma registered_unique: "registered st B v a \<Longrightarrow> registered st B v b \<Longrightarrow> a = b"
  by (auto simp: registered_def is_file_def)

lemma agrees_stored: "utf8_metadata m \<Longrightarrow> agrees m (stored m)"
  using stored_context [of m] by (simp add: agrees_def stored_def utf8_metadata_def)

lemma utf8_stored: "utf8_metadata m \<Longrightarrow> utf8_metadata (stored m)"
  by (simp add: utf8_metadata_def stored_def sort_key_distinct list_all_iff)

lemma known_context_utf8:
  "utf8_metadata old \<Longrightarrow> utf8_metadata m \<Longrightarrow> utf8_metadata (old\<lparr>VolumeContext := VolumeContext m\<rparr>)"
  by (simp add: utf8_metadata_def)

lemma RegisterMetadata_works:
  assumes "rel_base f B" and "VolumeID m = v" and "name_comp v" and "valid_utf8 (metadataPathForVolumeID f v)"
    and "utf8_metadata m" and "may_register s0 B v"
  shows "works (\<lambda>st. st = s0) (RegisterMetadata msg f m) (\<lambda>r st. only_registered B v s0 st \<and>
    (r = Inr True \<longrightarrow> is_dir st (data_dir B v)) \<and> (r = Inr False \<longrightarrow> st = s0) \<and>
    (\<exists>m'. agrees m m' \<and> utf8_metadata m' \<and> registered st B v m') \<and>
    r = Inr (\<not> (\<exists>old. registered s0 B v old \<and> agrees m old)))"
proof (cases "lookup s0 (meta_key B v) = None")
  case True
  have place: "volume_place s0 B v" using assms(6) by (simp add: may_register_def)
  have none: "\<not> registered s0 B v old" for old using True by (simp add: registered_def is_file_def)
  have nf: "errors_Is not_found_wrapped ErrNotFound" by (simp add: not_found_wrapped_def ErrNotFound_def)
  show ?thesis
    unfolding RegisterMetadata_def assms(2)
    by (rule works_ok [OF ReadMetadata_missing_works [OF assms(1,3,4) place True]], simp add: nf,
        rule works_conseq [OF write_registered_works [OF assms(1,3) place assms(2,5)]])
      (use none agrees_stored [OF assms(5)] utf8_stored [OF assms(5)] in auto)
next
  case False
  have place: "volume_place s0 B v" using assms(6) by (simp add: may_register_def)
  obtain old where old: "registered s0 B v old" "VolumeID old = v" "utf8_metadata old"
    using False assms(6) by (auto simp: may_register_def)
  have same: "(\<exists>o'. registered s0 B v o' \<and> agrees m o') \<longleftrightarrow> context_equal (VolumeContext old) (VolumeContext m)"
  proof -
    have "(\<exists>o'. registered s0 B v o' \<and> agrees m o') \<longleftrightarrow> agrees m old"
      using registered_unique old(1) by metis
    then show ?thesis using old(2) assms(2) by (simp add: agrees_def context_equal_iff)
  qed
  let ?new = "old\<lparr>VolumeContext := VolumeContext m\<rparr>"
  have new: "VolumeID ?new = v" "utf8_metadata ?new"
    using old known_context_utf8 [OF old(3) assms(5)] by simp_all
  have agr: "agrees m (stored ?new)" using agrees_stored [OF new(2)] old(2) assms(2) by (simp add: agrees_def)
  show ?thesis
  proof (cases "context_equal (VolumeContext old) (VolumeContext m)")
    case True
    then have "agrees m old" using old(2) assms(2) by (simp add: agrees_def context_equal_iff)
    with old(1,3) have post: "only_registered B v s0 s0 \<and> (\<exists>m'. agrees m m' \<and> utf8_metadata m' \<and> registered s0 B v m')"
      by (auto simp: only_registered_def)
    show ?thesis
      unfolding RegisterMetadata_def assms(2) same
      by (rule works_ok [OF ReadMetadata_works [OF assms(1,3,4) old(1)]], simp add: True, rule works_ret)
        (use post in simp)
  next
    case diff: False
    show ?thesis
      unfolding RegisterMetadata_def assms(2) same
      by (rule works_ok [OF ReadMetadata_works [OF assms(1,3,4) old(1)]], simp add: diff,
          rule works_conseq [OF write_registered_works [OF assms(1,3) place new]]) (use agr utf8_stored [OF new(2)] in auto)
  qed
qed

lemma RegisterMetadata_again_works:
  assumes "rel_base f B" and "VolumeID m = v" and "name_comp v" and "valid_utf8 (metadataPathForVolumeID f v)"
    and "registered s0 B v m'" and "agrees m m'"
  shows "works (\<lambda>st. st = s0) (RegisterMetadata msg f m) (\<lambda>r st. r = Inr False \<and> st = s0)"
  unfolding RegisterMetadata_def assms(2)
  by (rule works_ok [OF ReadMetadata_works [OF assms(1,3-5)]])
    (use assms(6) in \<open>auto simp: agrees_def context_equal_iff intro!: works_ret\<close>)

text \<open>
  C16. With a relative base directory, in a process whose working directory is the root and when no system call
  fails, a registration succeeds. It reports whether the metadata was written, which is so exactly when the
  volume was not registered with the same context. Afterwards the metadata that is read has the identifier and
  the context of the request, the same request changes nothing, and nothing but the directory of the volume,
  its data directory and its metadata file is touched.
\<close>

theorem registration_persists:
  assumes "rel_base f B" and "name_comp (VolumeID m)" and "valid_utf8 (metadataPathForVolumeID f (VolumeID m))"
    and "utf8_metadata m" and "may_register (store w) B (VolumeID m)" and "faultless w"
  shows "\<exists>w1 w2 m'. run_state (RegisterMetadata msg f m) w =
      (Inr (\<not> (\<exists>old. registered (store w) B (VolumeID m) old \<and> agrees m old)), w1) \<and>
    agrees m m' \<and> fst (run_state (ReadMetadata msg f (VolumeID m)) w1) = Inr m' \<and>
    run_state (RegisterMetadata msg f m) w1 = (Inr False, w2) \<and> store w2 = store w1 \<and>
    only_registered B (VolumeID m) (store w) (store w1)"
proof -
  let ?v = "VolumeID m"
  obtain b w1 where run: "run_state (RegisterMetadata msg f m) w = (b, w1)" by fastforce
  from worksD [OF RegisterMetadata_works [OF assms(1) refl assms(2-5)] assms(6) refl this]
  obtain m' where w1: "faultless w1" "only_registered B ?v (store w) (store w1)" "agrees m m'"
      "registered (store w1) B ?v m'" and b: "b = Inr (\<not> (\<exists>old. registered (store w) B ?v old \<and> agrees m old))"
    by blast
  obtain r u where rd: "run_state (ReadMetadata msg f ?v) w1 = (r, u)" by fastforce
  have r: "r = Inr m'" using worksD [OF ReadMetadata_works [OF assms(1-3) w1(4)] w1(1) refl rd] by simp
  obtain b2 w2 where run2: "run_state (RegisterMetadata msg f m) w1 = (b2, w2)" by fastforce
  have "b2 = Inr False \<and> store w2 = store w1"
    using worksD [OF RegisterMetadata_again_works [OF assms(1) refl assms(2,3) w1(4,3)] w1(1) refl run2] by simp
  then show ?thesis
    using run rd r run2 w1(2,3) b
    by (intro exI [of _ w1] exI [of _ w2] exI [of _ m']) (simp only: fst_conv simp_thms)
qed

definition relative0 :: Filesystem where
  "relative0 = \<lparr>baseDir = ''b'', FixedFSGroup = None, FSGroupVolumeAttributeKey = ''''\<rparr>"

definition tempfs0 :: fstore where
  "tempfs0 = [([''b''], inode0 Directory), ([''b'', ''inmemfs''], inode0 Directory)]"

lemma relative0_base: "rel_base relative0 [''b'']"
  by (simp add: rel_base_def relative0_def name_comp_def plain_comp_def)

theorem registration_persists_witness:
  "\<exists>w1. run_state (RegisterMetadata (\<lambda>_. '''') relative0 metadata0) (world0 tempfs0) = (Inr True, w1) \<and>
    (\<exists>m'. fst (run_state (ReadMetadata (\<lambda>_. '''') relative0 ''v'') w1) = Inr m' \<and> agrees metadata0 m')"
proof -
  have v: "VolumeID metadata0 = ''v''" by (simp add: metadata0_def)
  have nv: "name_comp ''v''" by (simp add: name_comp_def plain_comp_def)
  have none: "lookup tempfs0 (volume_key [''b''] ''v'') = None" "lookup tempfs0 (data_dir [''b''] ''v'') = None"
      "lookup tempfs0 (meta_key [''b''] ''v'') = None"
    by (simp_all add: tempfs0_def lookup_def)
  moreover have "dirs_to tempfs0 (tempfs_key [''b''])"
    by (simp add: tempfs0_def is_dir_def lookup_def inode0_def)
  ultimately have place: "may_register tempfs0 [''b''] ''v''"
    by (simp add: may_register_def volume_place_def)
  have not: "\<not> registered tempfs0 [''b''] ''v'' old" for old
    using none(3) by (simp add: registered_def is_file_def)
  have "valid_utf8 (metadataPathForVolumeID relative0 ''v'')"
    unfolding rel_paths(4) [OF relative0_base nv] by code_simp
  moreover have "utf8_metadata metadata0" by code_simp
  moreover have "faultless (world0 tempfs0)" by (simp add: faultless_def world0_def)
  ultimately show ?thesis
    using registration_persists [OF relative0_base, of metadata0 "world0 tempfs0" "\<lambda>_. ''''"] nv place not
    by (auto simp: v world0_def)
qed

section \<open>Listing\<close>

text \<open>Whatever the entries are called, each of them is registered under a name that can be read.\<close>

definition all_registered :: "Filesystem \<Rightarrow> fstore \<Rightarrow> string list \<Rightarrow> string list \<Rightarrow> bool" where
  "all_registered f st B vs \<longleftrightarrow>
     (\<forall>v \<in> set vs. name_comp v \<and> valid_utf8 (metadataPathForVolumeID f v) \<and> (\<exists>m. registered st B v m))"

lemma list_volumes_works:
  assumes "rel_base f B" and "all_registered f s0 B vs"
  shows "works (\<lambda>st. st = s0) (list_volumes f vs) (\<lambda>r st. r = Inr vs \<and> st = s0)"
  using assms(2)
proof (induction vs)
  case (Cons v vs)
  have nv: "name_comp v" "valid_utf8 (metadataPathForVolumeID f v)" and "\<exists>m. registered s0 B v m"
    and rest: "all_registered f s0 B vs"
    using Cons.prems by (simp_all add: all_registered_def)
  then obtain i c where "metadata_file s0 B v i c" using registered_file by blast
  note op = Open_metadata_works [OF assms(1) nv this]
  show ?case
    unfolding list_volumes.simps rel_paths(4) [OF assms(1) nv(1)]
    by (rule works_ok [OF op], unfold sum.case, rule works_map_state, rule works_conseq [OF Cons.IH [OF rest]]) auto
qed (simp add: works_ret)

lemma set_child_names: "set (child_names st p) = {v. \<exists>i. (p @ [v], i) \<in> set st}"
proof (rule set_eqI)
  fix v
  have "v \<in> set (child_names st p) \<longleftrightarrow> (\<exists>k \<in> fst ` set st. k \<noteq> [] \<and> butlast k = p \<and> last k = v)"
    unfolding child_names_def by (simp add: image_iff) blast
  also have "\<dots> \<longleftrightarrow> (\<exists>k \<in> fst ` set st. k = p @ [v])"
    by (rule bex_cong) (auto simp: snoc_eq_iff_butlast)
  also have "\<dots> \<longleftrightarrow> (\<exists>i. (p @ [v], i) \<in> set st)" by (simp add: image_iff) force
  finally show "v \<in> set (child_names st p) \<longleftrightarrow> v \<in> {v. \<exists>i. (p @ [v], i) \<in> set st}" by simp
qed

lemma child_names_entries: "set (child_names st p) = {v. lookup st (p @ [v]) \<noteq> None}"
  unfolding set_child_names by (simp add: lookup_def map_of_eq_None_iff) force

lemma ReadDir_works:
  assumes "rel_base f B" and "valid_utf8 (tempfsPath f)" and "dirs_to s0 (tempfs_key B)"
  shows "works (\<lambda>st. st = s0) (fs_ReadDir (tempfsPath f)) (\<lambda>r st. r = Inr (child_names s0 (tempfs_key B)) \<and> st = s0)"
proof -
  let ?T = "tempfs_key B"
  have nT: "names ?T" using assms(1) store_names by (simp add: rel_base_def)
  obtain i where i: "lookup s0 ?T = Some i" "kind i = Directory"
    using dirs_to_is_dir [OF assms(3)] by (auto simp: is_dir_def)
  have n: "namei s0 True (path_string ?T) = Inr ?T" "namei s0 True (root_name (rel ?T)) = Inr ?T"
    using namei_dir [OF nT assms(3) spells_path_string, of True] namei_root_name [OF nT] by simp_all
  have g: "st_get True (path_string ?T) s0 = Inr i" by (simp add: st_get_def n i)
  have op: "works (\<lambda>st. st = s0) (fs_Open (rel ?T)) (\<lambda>r st. r = Inr i \<and> st = s0)"
    by (rule works_conseq [OF fs_Open_works [OF nT, of s0, unfolded g lift_err_def sum.case]])
      (use assms(2) rel_paths(1) [OF assms(1)] in simp_all)
  show ?thesis
    unfolding fs_ReadDir_def rel_paths(1) [OF assms(1)]
    by (rule works_ok [OF op], unfold sum.case, rule works_map_state, rule works_sys_read)
      (simp add: st_read_dir_def n i lift_err_def)
qed

lemma ListVolumes_works:
  assumes "rel_base f B" and "valid_utf8 (tempfsPath f)" and "dirs_to s0 (tempfs_key B)"
    and "all_registered f s0 B (child_names s0 (tempfs_key B))"
  shows "works (\<lambda>st. st = s0) (ListVolumes f) (\<lambda>r st. r = Inr (child_names s0 (tempfs_key B)) \<and> st = s0)"
  unfolding ListVolumes_def
  by (rule works_ok [OF ReadDir_works [OF assms(1-3)]], unfold sum.case, rule list_volumes_works [OF assms(1,4)])

text \<open>
  C17. With a relative base directory, in a process whose working directory is the root and when no system call
  fails: if every entry of the directory of volumes is a registered volume, listing the volumes succeeds,
  changes nothing, and gives exactly the names of the entries, in order.
\<close>

theorem registered_volumes_listed:
  assumes "rel_base f B" and "valid_utf8 (tempfsPath f)" and "dirs_to (store w) (tempfs_key B)"
    and "all_registered f (store w) B (child_names (store w) (tempfs_key B))" and "faultless w"
  shows "\<exists>vs w'. run_state (ListVolumes f) w = (Inr vs, w') \<and> store w' = store w \<and> sorted vs \<and>
    set vs = {v. lookup (store w) (tempfs_key B @ [v]) \<noteq> None}"
proof -
  let ?T = "tempfs_key B" and ?s = "store w"
  let ?vs = "child_names ?s ?T"
  obtain r w' where run: "run_state (ListVolumes f) w = (r, w')" by fastforce
  have "r = Inr ?vs \<and> store w' = ?s" using worksD [OF ListVolumes_works [OF assms(1-4)] assms(5) refl run] by simp
  moreover have "set ?vs = {v. lookup ?s (?T @ [v]) \<noteq> None}" by (rule child_names_entries)
  moreover have "sorted ?vs" by (simp add: child_names_def)
  ultimately show ?thesis using run by blast
qed

text \<open>A store with one registered volume.\<close>

definition registry0 :: fstore where
  "registry0 = [([''b'', ''inmemfs'', ''v'', ''metadata.json''], inode0 (Regular (Marshal metadata0))),
     ([''b'', ''inmemfs'', ''v''], inode0 Directory)] @ tempfs0"

theorem registered_volumes_listed_witness:
  "\<exists>vs w'. run_state (ListVolumes relative0) (world0 registry0) = (Inr vs, w') \<and> ''v'' \<in> set vs"
proof -
  have nv: "name_comp ''v''" by (simp add: name_comp_def plain_comp_def)
  have c: "child_names registry0 (tempfs_key [''b'']) = [''v'']"
    by (simp add: child_names_def registry0_def tempfs0_def)
  have d: "dirs_to registry0 (tempfs_key [''b''])"
    by (simp add: registry0_def tempfs0_def is_dir_def lookup_def inode0_def)
  have "utf8_metadata metadata0" by code_simp
  then have "Decode (Marshal metadata0) = Some (stored metadata0)" by (rule Unmarshal_Marshal)
  then have "registered registry0 [''b''] ''v'' (stored metadata0)"
    by (simp add: registered_def is_file_def registry0_def tempfs0_def is_dir_def lookup_def inode0_def)
  moreover have "valid_utf8 (metadataPathForVolumeID relative0 ''v'')"
    unfolding rel_paths(4) [OF relative0_base nv] by code_simp
  ultimately have all: "all_registered relative0 registry0 [''b''] (child_names registry0 (tempfs_key [''b'']))"
    unfolding c using nv by (auto simp: all_registered_def)
  have u: "valid_utf8 (tempfsPath relative0)"
    unfolding rel_paths(1) [OF relative0_base] by code_simp
  have s: "store (world0 registry0) = registry0" "faultless (world0 registry0)"
    by (simp_all add: world0_def faultless_def)
  have "lookup registry0 (tempfs_key [''b''] @ [''v'']) \<noteq> None"
    by (simp add: registry0_def lookup_def)
  then show ?thesis
    using registered_volumes_listed [OF relative0_base u, of "world0 registry0", unfolded s, OF d all] s(2) by auto
qed

end
