(* ===== verification/RelWrite.thy ===== *)
theory RelWrite
  imports RelCalls Registry VolumeLive
begin

text \<open>
  The atomic writer and the store's \<open>WriteFiles\<close> on a relative base directory do what they do on the absolute
  path of the same directory, so what holds of updates there holds of the store that can read back what it
  wrote. As everywhere, the working directory is the root: the absolute path of \<open>b\<close> is \<open>/b\<close>.
\<close>

unbundle bit_operations_syntax

section \<open>The comparison\<close>

lemma shouldWriteFile_alike: "same_place a b \<Longrightarrow> alike (same_result (=)) (shouldWriteFile a c) (shouldWriteFile b c)"
  unfolding shouldWriteFile_def
  by (rule alike_bind, rule place_calls(2), assumption)
    (auto elim!: rel_sum.cases simp: same_error_facts intro!: alike_ret alike_bind [OF place_calls(4)] split: sum.split)

lemma should_write_alike:
  assumes "same_place a b" and "\<forall>k \<in> fst ` set es. no_dotdot k"
  shows "alike (same_result (=)) (should_write es a :: ('x world, goerror + bool) state) (should_write es b)"
  using assms(2)
proof (induction es)
  case Nil
  show ?case by (auto intro: alike_ret)
next
  case (Cons e es)
  obtain k fp where e: "e = (k, fp)" by fastforce
  have p: "same_place (Join [a, k]) (Join [b, k])" using same_place_Join [OF assms(1)] Cons.prems by (simp add: e)
  show ?case
    unfolding e should_write.simps
    by (rule alike_bind [OF shouldWriteFile_alike [OF p]], rule alike_result_eq, assumption)
      (use Cons in \<open>auto intro!: alike_ret\<close>)
qed

text \<open>A walk visits the same names.\<close>

definition below_same :: "string list \<Rightarrow> string \<Rightarrow> string \<Rightarrow> bool" where
  "below_same P a b \<longleftrightarrow> (\<exists>cs. names cs \<and> a = rel (P @ cs) \<and> b = path_string (P @ cs))"

lemma below_same_place: "names P \<Longrightarrow> P \<noteq> [] \<Longrightarrow> below_same P a b \<Longrightarrow> same_place a b"
  unfolding below_same_def same_place_def by (metis append_is_Nil_conv list_all_append)

lemma below_same_Join:
  assumes "names P" and "P \<noteq> []" and "below_same P a b" and "name_comp c"
  shows "below_same P (Join [a, c]) (Join [b, c])"
proof -
  obtain cs where cs: "names cs" "a = rel (P @ cs)" "b = path_string (P @ cs)"
    using assms(3) by (auto simp: below_same_def)
  have "names (P @ cs)" "P @ cs \<noteq> []" using assms(1,2) cs(1) by simp_all
  then have "Join [a, c] = rel (P @ cs @ [c])" "Join [b, c] = path_string (P @ cs @ [c])"
    using Join_rel [of "P @ cs" c] Join_path_string_name [of "P @ cs" c] assms(4) by (simp_all add: cs)
  then show ?thesis using cs(1) assms(4) unfolding below_same_def by (intro exI [of _ "cs @ [c]"]) simp
qed

lemma readDirNames_alike:
  assumes "same_place a b"
  shows "alike (same_result (\<lambda>ns ms. ns = ms \<and> names ns)) (readDirNames a) (readDirNames b)"
  unfolding alike_def
proof (intro allI impI)
  fix w :: "'x world"
  assume t: "tree (store w)"
  have b: "b = sep # a" "relative a" using same_placeD [OF assms] by simp_all
  have n: "names ns" if "st_read_dir a (store w) = Inr ns" for ns
  proof -
    from that obtain p where ns: "ns = child_names (store w) p"
      by (auto simp: st_read_dir_def split: sum.splits option.splits if_splits)
    have "name_comp n" if "n \<in> set ns" for n
    proof -
      from that obtain k where k: "k \<in> fst ` set (store w)" "k \<noteq> []" "n = last k"
        by (auto simp: ns child_names_def)
      then have "lookup (store w) k \<noteq> None" by (simp add: lookup_def map_of_eq_None_iff)
      then have "names k" using tree_names [OF t] by simp
      with k(2,3) show ?thesis by (metis last_in_set list_all_iff)
    qed
    then show ?thesis by (simp add: list_all_iff)
  qed
  show "snd (run_state (readDirNames a) w) = snd (run_state (readDirNames b) w) \<and>
      tree (store (snd (run_state (readDirNames b) w))) \<and>
      same_result (\<lambda>ns ms. ns = ms \<and> names ns) (fst (run_state (readDirNames a) w)) (fst (run_state (readDirNames b) w))"
    using t n by (auto simp: readDirNames_def b(1) st_sep [OF b(2)] sys_read_def lift_err_def
        intro: same_error.intros split: option.split sum.split)
qed

lemma alike_map_list:
  assumes "alike Q m n" and "\<And>x y. Q x y \<Longrightarrow> R (f x) (g y)"
  shows "alike R (map_state f m) (map_state g n)"
  using assms by (simp add: alike_def)

lemma walk_alike:
  assumes P: "names P" "P \<noteq> []"
  shows "below_same P a b \<Longrightarrow>
      alike (list_all2 (below_same P)) (walk n a i :: ('x world, string list) state) (walk n b i)"
    and "below_same P a b \<Longrightarrow> names ns \<Longrightarrow>
      alike (list_all2 (below_same P)) (walk_names n a ns :: ('x world, string list) state) (walk_names n b ns)"
proof (induction n a i and n a ns arbitrary: b and b rule: walk_walk_names.induct)
  case (1 path i)
  then show ?case by (auto intro: alike_ret)
next
  case (2 n path i)
  note pl = below_same_place [OF P 2(2)]
  show ?case
    unfolding walk.simps
    by (rule alike_if, rule alike_ret, simp add: 2(2), rule alike_bind [OF readDirNames_alike [OF pl]],
        rule alike_result, assumption)
      (use 2 in \<open>auto intro!: alike_ret alike_map_list\<close>)
next
  case (3 n path)
  then show ?case by (auto intro: alike_ret)
next
  case (4 n path name ns)
  have nm: "name_comp name" "names ns" using 4(4) by simp_all
  note j = below_same_Join [OF P 4(3) nm(1)]
  let ?A = "Join [path, name]" and ?B = "Join [b, name]"
  have here: "alike (list_all2 (below_same P))
      ((case f of Inl e \<Rightarrow> ret [?A] | Inr i \<Rightarrow> walk n ?A i) :: ('x world, string list) state)
      (case g of Inl e \<Rightarrow> ret [?B] | Inr i \<Rightarrow> walk n ?B i)"
    if "same_result (=) f g" for f g :: "goerror + inode"
    by (rule alike_result_eq [OF that]) (use 4(1) j in \<open>auto intro!: alike_ret\<close>)
  have rest: "alike (list_all2 (below_same P)) (walk_names n path ns :: ('x world, string list) state)
      (walk_names n b ns)"
    by (rule 4(2) [OF refl 4(3) nm(2)])
  show ?case
    unfolding walk_names.simps Let_def
    by (rule alike_bind [OF place_calls(2) [OF below_same_place [OF P j]]], rule alike_bind [OF here], assumption,
        rule alike_bind [OF rest], rule alike_ret, rule list_all2_appendI)
qed

lemma Walk_alike:
  assumes P: "names P" "P \<noteq> []"
  shows "alike (list_all2 (below_same P)) (Walk (rel P)) (Walk (path_string P))"
proof -
  have b: "below_same P (rel P) (path_string P)" unfolding below_same_def by (intro exI [of _ "[]"]) simp
  show ?thesis
    unfolding Walk_def
    by (rule alike_bind [OF place_calls(2) [OF below_same_place [OF P b]]], rule alike_result_eq, assumption)
      (auto intro!: alike_ret alike_world walk_alike(1) [OF P] b)
qed

lemma relative_to_rel:
  assumes "names P" and "P \<noteq> []" and "names cs"
  shows "relative_to (rel P) (rel (P @ cs)) = join_on sep cs"
proof (cases "cs = []")
  case True
  then show ?thesis by (simp add: relative_to_def TrimPrefix_def HasPrefix_def)
next
  case False
  then show ?thesis using assms by (simp add: relative_to_def TrimPrefix_def HasPrefix_iff join_on_append)
qed

lemma pathsToRemove_alike:
  assumes P: "names P" "P \<noteq> []"
  shows "alike (\<lambda>ps qs. ps = qs \<and> (\<forall>p \<in> set ps. no_dotdot p))
    (pathsToRemove es (rel P)) (pathsToRemove es (path_string P))"
  unfolding pathsToRemove_def
proof (rule alike_bind [OF Walk_alike [OF P]])
  fix vs us
  assume "list_all2 (below_same P) vs us"
  then have "map (relative_to (rel P)) vs = map (relative_to (path_string P)) us \<and>
      (\<forall>r \<in> set (map (relative_to (path_string P)) us). no_dotdot r)"
  proof induction
    case (Cons v vs u us)
    then obtain cs where "names cs" "v = rel (P @ cs)" "u = path_string (P @ cs)" by (auto simp: below_same_def)
    with Cons(3) show ?case
      using relative_to_rel [OF P] relative_to_node [OF P] no_dotdot_names by simp
  qed simp
  then show "alike (\<lambda>ps qs. ps = qs \<and> (\<forall>p \<in> set ps. no_dotdot p))
      (let paths = remdups (filter (\<lambda>r. r \<noteq> '''') (map (relative_to (rel P)) vs));
           newPaths = concat (map (subpaths \<circ> fst) es)
       in ret (filter (\<lambda>r. r \<notin> set newPaths) paths))
      (let paths = remdups (filter (\<lambda>r. r \<noteq> '''') (map (relative_to (path_string P)) us));
           newPaths = concat (map (subpaths \<circ> fst) es)
       in ret (filter (\<lambda>r. r \<notin> set newPaths) paths))"
    unfolding Let_def by (intro alike_ret) (auto simp del: set_map)
qed

lemma compare_versions_alike:
  assumes "env_laws env" and P: "names P" "P \<noteq> []" and es: "\<forall>k \<in> fst ` set es. ok_path k"
  shows "alike (same_result (\<lambda>x y. x = y \<and> (\<forall>ps. x = Some ps \<longrightarrow> (\<forall>p \<in> set ps. no_dotdot p))))
    (compare_versions env es (rel P)) (compare_versions env es (path_string P))"
proof -
  have o: "\<forall>k \<in> fst ` set (map_order env 1 es). no_dotdot k"
    using es no_dotdot_ok assms(1) by (simp add: env_laws_sets)
  show ?thesis
    unfolding compare_versions_def shouldWritePayload_def
    by (rule alike_bind [OF pathsToRemove_alike [OF P]], rule alike_bind [OF should_write_alike [OF same_placeI [OF P] o]],
        rule alike_ret)
      (auto elim!: rel_sum.cases)
qed

section \<open>The new version\<close>

lemma write_file_alike:
  assumes "same_place a b" and "ok_path k"
  shows "alike same_failure (write_file a k fp) (write_file b k fp)"
proof -
  obtain p where p: "names p" "p \<noteq> []" "a = rel p" "b = path_string p"
    using assms(1) by (auto simp: same_place_def)
  have ne: "pieces k \<noteq> []"
    using assms(2) by (cases "split_on sep k") (auto simp: ok_path_def pieces_def dest: name_compD)
  note nd = no_dotdot_ok [OF assms(2)]
  obtain q c where q: "p @ pieces k = q @ [c]" "q \<noteq> []"
    using ne p(2) by (cases "pieces k" rule: rev_cases) auto
  have n: "names (q @ [c])" using p(1) names_pieces [OF nd] by (simp flip: q(1))
  note j = Join_pieces [OF p(1,2) nd, unfolded q(1), folded p(3,4)]
  have pl: "same_place (rel (q @ [c])) (path_string (q @ [c]))" using n by (intro same_placeI) simp_all
  show ?thesis
    unfolding write_file_def Let_def j
    by (rule alike_bind [OF MkdirAll_above_alike [OF n q(2)]], rule alike_failure, assumption,
        rule alike_bind [OF place_calls(8) [OF pl]], rule alike_failure, assumption,
        rule alike_bind [OF place_calls(6) [OF pl]], rule alike_failure, assumption)
      (auto intro: alike_ret place_calls(7) [OF pl] split: option.split)
qed

lemma write_files_alike:
  assumes "same_place a b" and "\<forall>k \<in> fst ` set es. ok_path k"
  shows "alike same_failure (write_files es a) (write_files es b)"
  using assms(2)
proof (induction es)
  case (Cons e es)
  obtain k fp where e: "e = (k, fp)" by fastforce
  have ok: "ok_path k" using Cons.prems by (simp add: e)
  show ?case
    unfolding e write_files.simps
    by (rule alike_bind [OF write_file_alike [OF assms(1) ok]], rule alike_failure, assumption)
      (use Cons in \<open>auto intro: alike_ret\<close>)
qed (auto intro: alike_ret)

lemma create_visible_alike:
  assumes "same_place a b" and "\<forall>k \<in> fst ` set es. ok_path k"
  shows "alike same_failure (create_visible es a) (create_visible es b)"
  using assms(2)
proof (induction es)
  case (Cons e es)
  obtain k fp where e: "e = (k, fp)" by fastforce
  have "ok_path k" using Cons.prems by (simp add: e)
  note pl = same_place_Join [OF assms(1) no_dotdot_name [OF first_comp_name [OF this]]]
  have mk: "alike same_failure
      (if (case r of Inl err \<Rightarrow> IsNotExist err | Inr _ \<Rightarrow> False)
       then os_Symlink t (Join [a, first_comp k]) else ret None)
      (if (case r' of Inl err \<Rightarrow> IsNotExist err | Inr _ \<Rightarrow> False)
       then os_Symlink t (Join [b, first_comp k]) else ret None)"
    if "same_result (=) r r'" for r r' :: "goerror + string" and t
    using that by (auto elim!: rel_sum.cases simp: same_error_facts intro!: alike_ret place_calls(5) [OF pl])
  show ?case
    unfolding e create_visible.simps Let_def
    by (rule alike_bind [OF place_calls(3) [OF pl]], rule alike_bind [OF mk], assumption, rule alike_failure, assumption)
      (use Cons in \<open>auto intro: alike_ret\<close>)
qed (auto intro: alike_ret)

lemma remove_visible_alike:
  assumes "same_place a b"
  shows "\<forall>p \<in> set ps. no_dotdot p \<Longrightarrow> same_failure e e' \<Longrightarrow>
    alike same_failure (remove_visible ps a e) (remove_visible ps b e')"
proof (induction ps arbitrary: e e')
  case (Cons p ps)
  note pl = same_place_Join [OF assms, of p]
  show ?case
    unfolding remove_visible.simps
    by (rule alike_if, rule Cons.IH, simp add: Cons.prems, rule Cons.prems(2), rule alike_bind [OF place_calls(9) [OF pl]])
      (use Cons in \<open>auto split: option.split\<close>)
qed (auto intro: alike_ret)

lemma newTimestampDir_alike:
  assumes "env_laws env" and P: "names P" "P \<noteq> []"
  shows "alike (same_result same_place) (newTimestampDir env \<lparr>targetDir = rel P\<rparr>) (newTimestampDir env (writer_at P))"
proof -
  have "name_comp (ts_prefix (now env) @ rnd env n)" for n
  proof -
    have "\<exists>k. rnd env n = show_nat k" using assms(1) by (simp add: env_laws_def)
    then show ?thesis using stamped_name [OF ts_prefix_stamped] by auto
  qed
  note tmp = TempDir_alike [OF P this]
  have ch: "alike (same_result same_place) (do { e \<leftarrow> os_Chmod a 0x1ED; ret (case e of Some err \<Rightarrow> Inl err | None \<Rightarrow> Inr a) })
      (do { e \<leftarrow> os_Chmod b 0x1ED; ret (case e of Some err \<Rightarrow> Inl err | None \<Rightarrow> Inr b) })"
    if "same_place a b" for a b
    by (rule alike_bind [OF place_calls(6) [OF that]], rule alike_ret) (use that in \<open>auto elim!: option.rel_cases\<close>)
  show ?thesis
    unfolding newTimestampDir_def targetDir_simp
    by (rule alike_bind [OF tmp], rule alike_result, assumption) (auto intro: alike_ret ch)
qed

lemma switch_version_alike:
  assumes P: "names P" "P \<noteq> []" and t: "same_place a b"
  shows "alike same_failure (switch_version env \<lparr>targetDir = rel P\<rparr> a) (switch_version env (writer_at P) b)"
proof -
  have dirs: "same_place (Join [rel P, dataDirName]) (Join [path_string P, dataDirName])"
    "same_place (Join [rel P, newDataDirName]) (Join [path_string P, newDataDirName])"
    using data_names by (auto intro!: same_place_Join same_placeI P no_dotdot_name)
  note call = place_calls
  show ?thesis
    unfolding switch_version_def targetDir_simp Let_def call(12) [OF t]
    by (rule alike_bind [OF call(5) [OF dirs(2)]], rule alike_failure, assumption, rule alike_bind,
        rule alike_if, rule alike_bind [OF call(9) [OF dirs(1)]], rule alike_bind [OF call(5) [OF dirs(1)]],
        rule alike_bind [OF call(9) [OF dirs(2)]], rule alike_ret, assumption, rule call(13) [OF dirs(2,1)],
        rule alike_failure, assumption)
      (auto intro!: alike_ret alike_bind [OF call(9) [OF dirs(2)]] alike_bind [OF call(10) [OF t]])
qed

lemma install_version_alike:
  assumes "env_laws env" and P: "names P" "P \<noteq> []" and es: "\<forall>k \<in> fst ` set es. ok_path k"
  shows "alike same_failure (install_version env \<lparr>targetDir = rel P\<rparr> es) (install_version env (writer_at P) es)"
proof -
  have o: "\<forall>k \<in> fst ` set (map_order env n es). ok_path k" for n
    using es assms(1) by (simp add: env_laws_sets)
  show ?thesis
    unfolding install_version_def writePayloadToDir_def createUserVisibleFiles_def targetDir_simp
    by (rule alike_bind [OF newTimestampDir_alike [OF assms(1) P]], rule alike_result, assumption, rule alike_ret, simp,
        rule alike_bind [OF write_files_alike [OF _ o]], assumption, rule alike_failure, assumption,
        rule alike_bind [OF create_visible_alike [OF same_placeI [OF P] o]], rule alike_failure, assumption)
      (auto intro!: alike_ret switch_version_alike [OF P])
qed

lemma clean_up_alike:
  assumes "env_laws env" and P: "names P" "P \<noteq> []" and ps: "\<forall>p \<in> set ps. no_dotdot p" and old: "no_dotdot old"
  shows "alike same_failure (clean_up env \<lparr>targetDir = rel P\<rparr> ps old) (clean_up env (writer_at P) ps old)"
proof -
  have o: "\<forall>p \<in> set (set_order env ps). no_dotdot p"
    using ps assms(1) by (simp add: env_laws_sets)
  show ?thesis
    unfolding clean_up_def removeUserVisiblePaths_def targetDir_simp
    by (rule alike_bind [OF remove_visible_alike [OF same_placeI [OF P] o]], simp, rule alike_failure, assumption)
      (auto intro!: alike_ret place_calls(10) same_place_Join same_placeI P old)
qed

section \<open>The update\<close>

text \<open>What follows once the data directory's link has been read: \<open>t\<close> is the old version, if there is one.\<close>

definition update_from :: "writer_env \<Rightarrow> string \<Rightarrow> payload \<Rightarrow> string \<Rightarrow> ('x world, goerror option) state" where
  "update_from env d es t = do {
    c \<leftarrow> (if t \<noteq> '''' then compare_versions env es (Join [d, t]) else ret (Inr (Some [])));
    case c of
      Inl err \<Rightarrow> ret (Some err)
    | Inr None \<Rightarrow> ret None
    | Inr (Some paths) \<Rightarrow> do {
        e \<leftarrow> install_version env \<lparr>targetDir = d\<rparr> es;
        case e of Some err \<Rightarrow> ret (Some err) | None \<Rightarrow> clean_up env \<lparr>targetDir = d\<rparr> paths t
      }
  }"

lemma Write_update_from:
  "validatePayload env p = Inr es \<Longrightarrow> Write env \<lparr>targetDir = d\<rparr> p = do {
    l \<leftarrow> os_Readlink (Join [d, dataDirName]);
    case l of
      Inl err \<Rightarrow> if IsNotExist err then update_from env d es '''' else ret (Some err)
    | Inr t \<Rightarrow> update_from env d es t
  }"
  by (auto simp: Write_def targetDir_simp update_from_def Let_def intro!: arg_cong2 [where f = State_Monad.bind] ext split: sum.split)

lemma update_from_alike:
  assumes env: "env_laws env" and P: "names P" "P \<noteq> []" and es: "\<forall>k \<in> fst ` set es. ok_path k"
    and t: "t = '''' \<or> name_comp t"
  shows "alike same_failure (update_from env (rel P) es t) (update_from env (path_string P) es t)"
proof -
  have nd: "no_dotdot t" using t by (auto simp: no_dotdot_name) (simp add: no_dotdot_def)
  have cmp: "alike (same_result (\<lambda>x y. x = y \<and> (\<forall>ps. x = Some ps \<longrightarrow> (\<forall>p \<in> set ps. no_dotdot p))))
      (if t \<noteq> '''' then compare_versions env es (Join [rel P, t]) else ret (Inr (Some [])))
      (if t \<noteq> '''' then compare_versions env es (Join [path_string P, t]) else ret (Inr (Some [])))"
  proof (cases "t = ''''")
    case False
    with t have t: "name_comp t" by simp
    have "names (P @ [t])" using P(1) t by simp
    from compare_versions_alike [OF env this _ es] show ?thesis
      unfolding Join_rel [OF P t] Join_path_string_name [OF P(1) t] using False by simp
  qed (auto intro: alike_ret)
  have inst: "alike same_failure (do {
        e \<leftarrow> install_version env \<lparr>targetDir = rel P\<rparr> es;
        case e of Some err \<Rightarrow> ret (Some err) | None \<Rightarrow> clean_up env \<lparr>targetDir = rel P\<rparr> ps t
      }) (do {
        e \<leftarrow> install_version env (writer_at P) es;
        case e of Some err \<Rightarrow> ret (Some err) | None \<Rightarrow> clean_up env (writer_at P) ps t
      })" if "\<forall>p \<in> set ps. no_dotdot p" for ps
    by (rule alike_bind [OF install_version_alike [OF env P es]], rule alike_failure, assumption)
      (auto intro: alike_ret clean_up_alike [OF env P that nd])
  show ?thesis
    unfolding update_from_def
    by (intro alike_bind [OF cmp], elim rel_sum.cases)
      (auto intro!: alike_ret inst split: option.split)
qed

lemma Write_alike:
  assumes env: "env_laws env" and P: "P \<noteq> []" and inv: "writer_inv (store w) P" and tidy: "tidy p"
  shows "alike_from w same_failure (Write env \<lparr>targetDir = rel P\<rparr> p) (Write env (writer_at P) p)"
proof (cases "validatePayload env p")
  case (Inl err)
  then show ?thesis using inv by (simp add: Write_def alike_from_def writer_inv_def same_error.same)
next
  case (Inr es)
  have es: "\<forall>k \<in> fst ` set es. ok_path k"
    using validatePayload_good [OF env tidy Inr] by (auto simp: good_entries_def)
  have nP: "names P" "dirs_to (store w) P" "tree (store w)" using inv by (simp_all add: writer_inv_def)
  have nd: "names (data_key P)" and jd: "Join [path_string P, dataDirName] = path_string (data_key P)"
    using nP(1) data_names Join_path_string_name [OF nP(1)] by auto
  have j: "same_place (Join [rel P, dataDirName]) (Join [path_string P, dataDirName])"
    using data_names by (auto intro!: same_place_Join same_placeI nP(1) P no_dotdot_name)
  have old: "name_comp t" if "run_state (os_Readlink (path_string (data_key P))) w = (Inr t, v)" for t v
  proof -
    from ensuresD [OF os_Readlink_spec [OF nd nP(2)] refl that]
    have "current (store w) P = Some t" by (auto simp: current_def)
    from writer_inv_version [OF inv this] show ?thesis by (simp add: plain_version_def stamped_name)
  qed
  note go = update_from_alike [OF env nP(1) P es]
  show ?thesis
    unfolding Write_update_from [OF Inr]
  proof (rule alike_from_bind [OF alike_alike_from [OF place_calls(3) [OF j] nP(3)]], rule alike_alike_from)
    fix l l' :: "goerror + string" and v :: "'a world"
    assume l: "same_result (=) l l'" and run: "run_state (os_Readlink (Join [path_string P, dataDirName])) w = (l', v)"
    have t: "name_comp t" if "l' = Inr t" for t using old run unfolding jd that by simp
    show "alike same_failure
        (case l of Inl err \<Rightarrow> if IsNotExist err then update_from env (rel P) es '''' else ret (Some err)
         | Inr t \<Rightarrow> update_from env (rel P) es t)
        (case l' of Inl err \<Rightarrow> if IsNotExist err then update_from env (path_string P) es '''' else ret (Some err)
         | Inr t \<Rightarrow> update_from env (path_string P) es t)"
      using l by cases (auto simp: same_error_facts(1) t intro!: go alike_ret)
  qed
qed

section \<open>The store\<close>

text \<open>The store whose base directory is the same place.\<close>

definition at_root :: "Filesystem \<Rightarrow> Filesystem" where
  "at_root f = f\<lparr>baseDir := sep # baseDir f\<rparr>"

lemma at_root_base: "rel_base f B \<Longrightarrow> base_at (at_root f) B"
  by (simp add: rel_base_def base_at_def at_root_def path_string_def)

lemma at_root_group: "fsGroupForMetadata (at_root f) meta = fsGroupForMetadata f meta"
proof -
  have "FixedFSGroup (at_root f) = FixedFSGroup f"
    "FSGroupVolumeAttributeKey (at_root f) = FSGroupVolumeAttributeKey f"
    by (simp_all add: at_root_def)
  then show ?thesis unfolding fsGroupForMetadata_def by (simp only:)
qed

lemma ensureVolumeDirectory_alike:
  assumes "rel_base f B" and "name_comp v"
  shows "alike same_failure (ensureVolumeDirectory f v) (ensureVolumeDirectory (at_root f) v)"
proof -
  have pl: "same_place (rel (volume_key B v)) (path_string (volume_key B v))"
    "same_place (rel (data_dir B v)) (path_string (data_dir B v))"
    using rel_names [OF assms] by (auto intro!: same_placeI)
  show ?thesis
    unfolding ensureVolumeDirectory_def rel_paths(2,3) [OF assms] volume_paths [OF at_root_base [OF assms(1)] assms(2)]
    by (rule alike_bind [OF place_calls(11) [OF pl(1)]], rule alike_failure, assumption)
      (auto intro: alike_ret place_calls(11) [OF pl(2)])
qed

lemma chown_data_dir_alike: "same_place a b \<Longrightarrow> alike same_failure (chown_data_dir a g) (chown_data_dir b g)"
proof (cases g)
  case (Some x)
  assume p: "same_place a b"
  have wrap: "same_error
      (WrapError (''failed to chown data dir to gid '' @ show_int x @ '': '' @ error_text e) e)
      (WrapError (''failed to chown data dir to gid '' @ show_int x @ '': '' @ error_text e') e')"
    if "same_error e e'" for e e'
    using same_error.wrapped [OF that, of "''failed to chown data dir to gid '' @ show_int x @ '': ''"] by simp
  show ?thesis
    unfolding Some chown_data_dir_def option.case
    by (rule alike_map_list [OF place_calls(7) [OF p]], rule same_failure_maps, assumption, rule wrap)
qed (simp add: chown_data_dir_def alike_ret)

lemma chown_files_alike:
  assumes "same_place a b"
  shows "\<forall>k \<in> set ks. no_dotdot k \<Longrightarrow> alike same_failure (chown_files a g ks) (chown_files b g ks)"
proof (induction ks)
  case (Cons k ks)
  then have "no_dotdot k" by simp
  note pl = same_place_Join [OF assms this]
  show ?case
    unfolding chown_files.simps
    by (rule alike_bind [OF place_calls(7) [OF pl]], rule alike_failure, assumption)
      (use Cons in \<open>auto intro: alike_ret\<close>)
qed (simp add: alike_ret)

lemma NewAtomicWriter_alike:
  assumes "same_place a b"
  shows "alike (same_result (\<lambda>u v. u = \<lparr>targetDir = a\<rparr> \<and> v = \<lparr>targetDir = b\<rparr>)) (NewAtomicWriter a) (NewAtomicWriter b)"
  unfolding NewAtomicWriter_def
  by (rule alike_bind [OF place_calls(1) [OF assms]], rule alike_ret)
    (auto elim!: rel_sum.cases simp: same_error_facts)

lemma validatePath_no_dotdot: "validatePath k = None \<Longrightarrow> no_dotdot k"
  by (auto simp: no_dotdot_def validatePath_def Let_def check_items_None split: if_splits option.splits)

lemma chown_written_alike:
  assumes env: "env_laws env" and P: "names P" "P \<noteq> []" and v: "validatePayload env (makePayload fs) = Inr es"
  shows "alike same_failure (chown_written env (rel P) g fs) (chown_written env (path_string P) g fs)"
proof -
  have keys: "fst ` set (makePayload fs) = set (map fst fs)" by (force simp: makePayload_def)
  have "set (set_order env (map fst fs)) = set (map fst fs)" using env by (simp add: env_laws_sets)
  then have ks: "\<forall>k \<in> set (set_order env (map fst fs)). no_dotdot k"
    using validatePayload_keys(2) [OF env v] validatePath_no_dotdot unfolding keys by metis
  have "same_place (Join [rel P, ''..data'']) (Join [path_string P, ''..data''])"
    by (rule same_place_Join [OF same_placeI [OF P]]) (simp add: no_dotdot_def)
  from chown_files_alike [OF this ks] show ?thesis by (auto intro: alike_ret split: option.split)
qed

lemma write_payload_alike:
  assumes env: "env_laws env" and P: "P \<noteq> []" and inv: "writer_inv (store w) P" and tidy: "tidy (makePayload fs)"
  shows "alike_from w same_failure (write_payload env (rel P) g fs) (write_payload env (path_string P) g fs)"
proof -
  have nP: "names P" "tree (store w)" using inv by (simp_all add: writer_inv_def)
  have ch: "alike_from v same_failure
      (case e of Some err \<Rightarrow> ret (Some err) | None \<Rightarrow> chown_written env (rel P) g fs)
      (case e' of Some err \<Rightarrow> ret (Some err) | None \<Rightarrow> chown_written env (path_string P) g fs)"
    if e: "same_failure e e'" "e' = None \<Longrightarrow> \<exists>es. validatePayload env (makePayload fs) = Inr es" "tree (store v)"
    for e e' and v :: "'a world"
  proof (cases e')
    case None
    then have "e = None" using e(1) by (cases e) simp_all
    with None show ?thesis using e(2,3) chown_written_alike [OF env nP(1) P] by (auto intro: alike_alike_from)
  next
    case (Some y)
    then obtain x where "e = Some x" "same_error x y" using e(1) by (cases e) simp_all
    then show ?thesis using Some e(3) by (simp add: alike_from_def)
  qed
  show ?thesis
    unfolding write_payload_def
  proof (rule alike_from_bind [OF alike_alike_from [OF NewAtomicWriter_alike [OF same_placeI [OF nP(1) P]] nP(2)]])
    fix a b :: "goerror + AtomicWriter" and v :: "'a world"
    assume ab: "same_result (\<lambda>u v. u = \<lparr>targetDir = rel P\<rparr> \<and> v = writer_at P) a b"
      and run: "run_state (NewAtomicWriter (path_string P)) w = (b, v)" and v: "tree (store v)"
    have inv': "writer_inv (store v) P" using ensuresD [OF NewAtomicWriter_cases refl run] inv by simp
    from ab show "alike_from v same_failure
        (case a of Inl err \<Rightarrow> ret (Some err) | Inr writer \<Rightarrow> do {
           e \<leftarrow> Write env writer (makePayload fs);
           case e of Some err \<Rightarrow> ret (Some err) | None \<Rightarrow> chown_written env (rel P) g fs })
        (case b of Inl err \<Rightarrow> ret (Some err) | Inr writer \<Rightarrow> do {
           e \<leftarrow> Write env writer (makePayload fs);
           case e of Some err \<Rightarrow> ret (Some err) | None \<Rightarrow> chown_written env (path_string P) g fs })"
    proof cases
      case (1 e e')
      then show ?thesis using v by (simp add: alike_from_def)
    next
      case (2 u u')
      then have u: "u = \<lparr>targetDir = rel P\<rparr>" "u' = writer_at P" by simp_all
      show ?thesis
        unfolding 2(1,2) u sum.case
        by (rule alike_from_bind [OF Write_alike [OF env P inv' tidy]], rule ch)
          (auto simp: Write_def split: sum.splits)
    qed
  qed
qed

lemma WriteFiles_alike:
  assumes env: "env_laws env" and at: "rel_base f B" "name_comp (VolumeID meta)"
    and inv: "writer_inv (store w) (data_dir B (VolumeID meta))" and tidy: "tidy (makePayload fs)"
  shows "alike_from w same_failure (WriteFiles env f meta fs) (WriteFiles env (at_root f) meta fs)"
proof -
  let ?D = "data_dir B (VolumeID meta)"
  note rt = at_root_base [OF at(1)]
  have D: "names ?D" "?D \<noteq> []" "dirs_to (store w) ?D" "tree (store w)" using inv by (simp_all add: writer_inv_def)
  have written: "alike_from v same_failure
      (case e of Some err \<Rightarrow> ret (Some err) | None \<Rightarrow> write_payload env (rel ?D) g fs)
      (case e' of Some err \<Rightarrow> ret (Some err) | None \<Rightarrow> write_payload env (path_string ?D) g fs)"
    if "same_failure e e'" "same_kinds (store w) (store v)" for e e' g and v :: "'a world"
  proof -
    have i: "writer_inv (store v) ?D" by (rule same_kinds_inv [OF that(2) inv])
    then have t: "tree (store v)" by (simp add: writer_inv_def)
    show ?thesis
      using that(1) write_payload_alike [OF env D(2) i tidy] t
      by (cases e; cases e') (simp_all add: alike_from_def)
  qed
  have chowned: "alike_from v same_failure (do {
        e \<leftarrow> chown_data_dir (rel ?D) g;
        case e of Some err \<Rightarrow> ret (Some err) | None \<Rightarrow> write_payload env (rel ?D) g fs })
      (do {
        e \<leftarrow> chown_data_dir (path_string ?D) g;
        case e of Some err \<Rightarrow> ret (Some err) | None \<Rightarrow> write_payload env (path_string ?D) g fs })"
    if "same_kinds (store w) (store v)" "tree (store v)" for g and v :: "'a world"
    by (rule alike_from_bind [OF alike_alike_from [OF chown_data_dir_alike [OF same_placeI [OF D(1,2)]] that(2)]],
        rule written, assumption, rule ensuresD [OF chown_data_dir_kinds that(1)])
  show ?thesis
    unfolding WriteFiles_def Let_def rel_paths(3) [OF at] volume_paths(3) [OF rt at(2)] at_root_group
  proof (rule alike_from_bind [OF alike_alike_from [OF ensureVolumeDirectory_alike [OF at] D(4)]])
    fix e e' and v :: "'a world"
    assume e: "same_failure e e'" and t: "tree (store v)"
      and run: "run_state (ensureVolumeDirectory (at_root f) (VolumeID meta)) w = (e', v)"
    have k: "same_kinds (store w) (store v)"
      using ensuresD [OF ensureVolumeDirectory_existing [OF rt at(2) D(3)] refl run] by simp
    show "alike_from v same_failure
        (case e of Some err \<Rightarrow> ret (Some err) | None \<Rightarrow> (case fsGroupForMetadata f meta of
           Inl err \<Rightarrow> ret (Some err)
         | Inr g \<Rightarrow> do {
             e \<leftarrow> chown_data_dir (rel ?D) g;
             case e of Some err \<Rightarrow> ret (Some err) | None \<Rightarrow> write_payload env (rel ?D) g fs }))
        (case e' of Some err \<Rightarrow> ret (Some err) | None \<Rightarrow> (case fsGroupForMetadata f meta of
           Inl err \<Rightarrow> ret (Some err)
         | Inr g \<Rightarrow> do {
             e \<leftarrow> chown_data_dir (path_string ?D) g;
             case e of Some err \<Rightarrow> ret (Some err) | None \<Rightarrow> write_payload env (path_string ?D) g fs }))"
      using e t chowned [OF k t]
      by (cases e; cases e'; cases "fsGroupForMetadata f meta") (simp_all add: alike_from_def same_error.same)
  qed
qed

end
