(* ===== verification/Lifecycle.thy ===== *)
theory Lifecycle
  imports RelWrite
begin

unbundle bit_operations_syntax

text \<open>
  The life of a volume on a store with a relative base directory: it is registered, its files are written, and
  a reader that opens the files by their names finds what was written.
\<close>

section \<open>Visible names lead to the current version\<close>

lemma same_kinds_links: "same_kinds a b \<Longrightarrow> visible_links a D \<Longrightarrow> visible_links b D"
  unfolding visible_links_def
proof (intro allI impI)
  fix n i
  assume s: "same_kinds a b" and n: "\<not> hidden n" and i: "lookup b (D @ [n]) = Some i"
    and a: "\<forall>n i. \<not> hidden n \<longrightarrow> lookup a (D @ [n]) = Some i \<longrightarrow> kind i = Symlink (Join [dataDirName, n])"
  have "map_option kind (lookup a (D @ [n])) = Some (kind i)"
    using s [unfolded same_kinds_def, rule_format, of "D @ [n]"] i by simp
  then obtain j where "lookup a (D @ [n]) = Some j" "kind j = kind i" by auto
  with a n show "kind i = Symlink (Join [dataDirName, n])" by metis
qed

lemma version_step_links: "version_step D P a b \<Longrightarrow> visible_links a D \<Longrightarrow> visible_links b D"
  unfolding version_step_def kept_def updated_def using same_kinds_links visible_step_links by metis

lemma namei_visible:
  assumes D: "names D" "dirs_to st D" and l: "current st D = Some t" "name_comp t"
    and cs: "names cs" "dirs_to st (butlast (D @ t # cs))" "is_file st (D @ t # cs) x" "cs \<noteq> []"
    and v: "visible_links st D" "\<not> hidden (hd cs)" "lookup st (D @ [hd cs]) \<noteq> None"
  shows "namei st True (path_string (D @ cs)) = Inr (D @ t # cs)"
proof -
  obtain n rest where c: "cs = n # rest" using cs(4) by (cases cs) auto
  have n: "name_comp n" "names (D @ cs)" using cs(1) D(1) by (simp_all add: c)
  obtain i where i: "lookup st (D @ [n]) = Some i" "kind i = Symlink (Join [dataDirName, n])"
    using v by (auto simp: c visible_links_def)
  have dn: "name_comp dataDirName" by (rule data_names(1))
  have j: "Join [dataDirName, n] = dataDirName @ sep # n" by (rule Join_rel_names [OF dn n(1)])
  have ns: "sep \<notin> set dataDirName" "sep \<notin> set n" "n \<noteq> ''''" "n \<noteq> ''.''" "n \<noteq> ''..''" "dataDirName \<noteq> ''''"
    using name_compD [OF dn] name_compD [OF n(1)] by auto
  have sp: "split_on sep (Join [dataDirName, n]) = [dataDirName, n]"
    unfolding j by (simp add: split_on_append_sep split_on_no_sep ns)
  have lb: "link_base (Join [dataDirName, n]) D = D"
    unfolding j by (simp add: link_base_def IsAbs_def dataDirName_def)
  have ml: "max_links = Suc (Suc 38)" by (simp add: max_links_def)
  have "namei st True (path_string (D @ cs)) = resolve st True max_links D (n # rest)"
    using namei_path_string [OF n(2)] resolve_dirs [OF D, of True max_links cs] by (simp add: c)
  also have "\<dots> = resolve st True (Suc 38) D (dataDirName # cs)"
    by (subst resolve.simps(2)) (use i ns in \<open>simp add: ml sp lb c\<close>)
  also have "\<dots> = Inr (D @ t # cs)" by (rule resolve_through_link [OF D l cs])
  finally show ?thesis .
qed

section \<open>Reading a file\<close>

text \<open>A volume whose data directory holds a payload that is visible.\<close>

definition serves :: "string list \<Rightarrow> payload \<Rightarrow> fstore \<Rightarrow> bool" where
  "serves D es st \<longleftrightarrow> up_and_ready D es st \<and> visible_links st D"

lemma served_file:
  assumes s: "serves D es st" and e: "e \<in> set es" "ok_path (fst e)" "\<not> hidden (first_comp (fst e))"
  shows "\<exists>i. st_get True (path_string (pkey D (fst e))) st = Inr i \<and> kind i = Regular (fp_Data (snd e))"
proof -
  let ?cs = "split_on sep (fst e)"
  have inv: "writer_inv st D" and pub: "published st D" and vl: "visible_links st D"
    using s by (simp_all add: serves_def up_and_ready_def)
  have D: "names D" "dirs_to st D" "tree st" using inv by (simp_all add: writer_inv_def)
  obtain t where t: "current st D = Some t" and fl: "is_file st (pkey (D @ [t]) (fst e)) (fp_Data (snd e))"
    using s e(1) by (auto simp: serves_def up_and_ready_def up_to_date_def)
  have nt: "name_comp t"
    using writer_inv_version [OF inv t] stamped_name by (auto simp: plain_version_def)
  have cs: "names ?cs" using e(2) by (simp add: ok_path_def)
  have ne: "?cs \<noteq> []" by (rule split_on_not_Nil)
  have fls: "is_file st (D @ t # ?cs) (fp_Data (snd e))" using fl by (simp add: pkey_def)
  then obtain i where i: "lookup st (D @ t # ?cs) = Some i" "kind i = Regular (fp_Data (snd e))"
    by (auto simp: is_file_def)
  have above: "dirs_to st (butlast (D @ t # ?cs))" by (rule tree_dirs_above [OF D(3)]) (simp add: i)
  have top: "lookup st (D @ [t, hd ?cs]) \<noteq> None"
  proof (cases "tl ?cs = []")
    case True
    then have "?cs = [hd ?cs]" using ne by (metis list.collapse)
    then show ?thesis using i by (metis option.distinct(1))
  next
    case False
    then have "prefix (D @ [t, hd ?cs]) (butlast (D @ t # ?cs))"
      using ne by (cases ?cs) (auto simp: butlast_append prefix_def)
    then have "is_dir st (D @ [t, hd ?cs])"
      using dirs_to_is_dir [OF dirs_to_prefix [OF above]] by blast
    then show ?thesis by (auto simp: is_dir_def)
  qed
  have vis: "\<not> hidden (hd ?cs)" using e(3) by (simp add: first_comp_hd)
  have "lookup st (D @ [hd ?cs]) \<noteq> None" using pub t top by (simp add: published_def)
  from namei_visible [OF D(1,2) t nt cs above fls ne vl vis this] i show ?thesis
    by (simp add: st_get_def pkey_def)
qed

lemma ReadFile_serves:
  assumes at: "rel_base f B" "name_comp v" and s: "serves (data_dir B v) es s0"
    and e: "e \<in> set es" "ok_path (fst e)" "\<not> hidden (first_comp (fst e))"
    and u: "valid_utf8 (Join [dataPathForVolumeID f v, fst e])"
  shows "works (\<lambda>st. st = s0) (ReadFile f v (fst e)) (\<lambda>r st. r = Inr (fp_Data (snd e)) \<and> st = s0)"
proof -
  let ?D = "data_dir B v" and ?cs = "split_on sep (fst e)"
  obtain i where i: "st_get True (path_string (pkey ?D (fst e))) s0 = Inr i" "kind i = Regular (fp_Data (snd e))"
    using served_file [OF s e] by blast
  have D: "names ?D" using rel_names [OF at] by simp
  have cs: "names ?cs" using e(2) by (simp add: ok_path_def)
  have np: "names (pkey ?D (fst e))" "pkey ?D (fst e) \<noteq> []" using D cs by (simp_all add: pkey_def)
  have pc: "pieces (fst e) = ?cs"
    unfolding pieces_def using cs by (auto simp: filter_id_conv list_all_iff dest: name_compD)
  have j: "Join [dataPathForVolumeID f v, fst e] = rel (pkey ?D (fst e))"
    unfolding rel_paths(3) [OF at] using Join_pieces(1) [OF D _ no_dotdot_ok [OF e(2)]]
    by (simp add: pc pkey_def)
  have op: "works (\<lambda>st. st = s0) (fs_Open (rel (pkey ?D (fst e)))) (\<lambda>r st. r = Inr i \<and> st = s0)"
    by (rule works_conseq [OF fs_Open_works [OF np u [unfolded j], of s0, unfolded i(1) lift_err_def sum.case]]) simp_all
  have rd: "works (\<lambda>st. st = s0) (read_file i) (\<lambda>r st. r = Inr (fp_Data (snd e)) \<and> st = s0)"
    unfolding read_file_def by (rule works_sys_read) (simp add: i)
  show ?thesis
    unfolding ReadFile_def Let_def j
    by (rule works_ok [OF op], unfold sum.case, rule works_map_state, rule works_conseq [OF rd])
      (simp_all add: lift_err_def)
qed

section \<open>Writing the files\<close>

lemma version_step_inside:
  "version_step D P a b \<Longrightarrow> \<not> strict_prefix D k \<Longrightarrow> map_option kind (lookup b k) = map_option kind (lookup a k)"
  by (auto simp: version_step_def same_kinds_def kept_def updated_def inside_def)

text \<open>Outside the data directory nothing changes but, perhaps, owners.\<close>

definition same_outside :: "string list \<Rightarrow> fstore \<Rightarrow> fstore \<Rightarrow> bool" where
  "same_outside D a b \<longleftrightarrow> (\<forall>k. \<not> strict_prefix D k \<longrightarrow> map_option kind (lookup b k) = map_option kind (lookup a k))"

lemma WriteFiles_serves:
  assumes "env_laws env" and "GOOS env = Linux" and at: "rel_base f B" "name_comp (VolumeID m)"
    and inv: "writer_inv s0 (data_dir B (VolumeID m))" and tidy: "tidy (makePayload fs)"
    and v: "validatePayload env (makePayload fs) = Inr es" and "update_ready env s0 (data_dir B (VolumeID m)) es"
    and g: "fsGroupForMetadata f m = Inr g" and vl: "visible_links s0 (data_dir B (VolumeID m))"
  shows "works (\<lambda>st. st = s0) (WriteFiles env f m fs :: ('x world, goerror option) state)
    (\<lambda>r st. r = None \<and> serves (data_dir B (VolumeID m)) es st \<and> same_outside (data_dir B (VolumeID m)) s0 st)"
proof (rule worksI)
  let ?D = "data_dir B (VolumeID m)"
  fix w w' :: "'x world" and r
  assume w: "faultless w" "store w = s0" and run: "run_state (WriteFiles env f m fs) w = (r, w')"
  note rt = at_root_base [OF at(1)]
  have g': "fsGroupForMetadata (at_root f) m = Inr g" using g by (simp add: at_root_group)
  have i: "writer_inv (store w) ?D" using inv w(2) by simp
  obtain r' u where run': "run_state (WriteFiles env (at_root f) m fs) w = (r', u)" by fastforce
  with alike_fromD [OF WriteFiles_alike [OF assms(1) at i tidy] run'] run
  have same: "u = w'" "same_failure r r'" by simp_all
  from worksD [OF WriteFiles_works [OF assms(1,2) rt at(2) inv tidy v assms(8) g'] w run']
  have up: "faultless w'" "r' = None" "up_and_ready ?D es (store w')" by (simp_all add: same(1))
  have "version_step ?D (\<lambda>es. validatePayload env (makePayload fs) = Inr es) s0 (store w')"
    using ensuresD [OF WriteFiles_outcome [OF assms(1,2) rt at(2) inv tidy] w(2) run']
    by (simp add: write_outcome_def same(1))
  note step = version_step_links [OF this vl] version_step_inside [OF this]
  have "r = None" using same(2) up(2) by simp
  with up step show "faultless w' \<and> r = None \<and> serves ?D es (store w') \<and> same_outside ?D s0 (store w')"
    unfolding serves_def same_outside_def by blast
qed

section \<open>A new volume\<close>

definition fresh_volume :: "fstore \<Rightarrow> string list \<Rightarrow> string \<Rightarrow> bool" where
  "fresh_volume st B v \<longleftrightarrow> tree st \<and> dirs_to st (tempfs_key B) \<and> lookup st (volume_key B v) = None"

lemma fresh_volume_below:
  "fresh_volume st B v \<Longrightarrow> prefix (volume_key B v) k \<Longrightarrow> lookup st k = None"
  using tree_below_leaf [of st "volume_key B v" k] by (cases "k = volume_key B v") (auto simp: fresh_volume_def is_dir_def)

lemma fresh_may_register: "fresh_volume st B v \<Longrightarrow> may_register st B v"
  using fresh_volume_below [of st B v] by (auto simp: may_register_def volume_place_def fresh_volume_def prefix_def)

lemma fs_Open_ro [frame_intros]: "state_io_rel same_store (fs_Open name)"
  unfolding fs_Open_def by (intro ro.io_rules frame_intros)

lemma ReadMetadata_ro: "state_io_rel same_store (ReadMetadata msg f v)"
  unfolding ReadMetadata_def Let_def read_file_def by (intro ro.io_rules frame_intros)

lemma RegisterMetadata_tree: "state_io_rel keeps_tree (RegisterMetadata msg f m)"
proof -
  have "state_io_rel keeps_tree (write_registered f v m)" for v m
    unfolding write_registered_def ensureVolumeDirectory_def WriteMetadata_def
    by (intro tr.io_rules os_MkdirAll_tree os_WriteFile_tree)
  then show ?thesis
    unfolding RegisterMetadata_def Let_def by (intro tr.io_rules ro_tree [OF ReadMetadata_ro])
qed

text \<open>The data directory that a registration makes is empty, and the first update can follow.\<close>

lemma registered_ready:
  assumes env: "env_laws env" and fresh: "fresh_volume a B v" and names: "names B" "name_comp v"
    and reg: "only_registered B v a b" "registered b B v m" "is_dir b (data_dir B v)" "tree b"
    and es: "conflict_free es"
  shows "writer_inv b (data_dir B v)" "visible_links b (data_dir B v)" "update_ready env b (data_dir B v) es"
proof -
  let ?D = "data_dir B v"
  have empty: "lookup b (?D @ k) = None" if "k \<noteq> []" for k
  proof -
    have "?D @ k \<notin> registration_keys B v" using that by auto
    then have "lookup b (?D @ k) = lookup a (?D @ k)" using reg(1) unfolding only_registered_def by blast
    also have "\<dots> = None" by (rule fresh_volume_below [OF fresh]) (simp add: prefix_def)
    finally show ?thesis .
  qed
  have one: "lookup b (?D @ [x]) = None" for x by (rule empty) simp
  have cur: "current b ?D = None" unfolding current_def one by simp
  have "dirs_to b (volume_key B v)" using reg(2) by (simp add: registered_def)
  with reg(3) have "dirs_to b ?D" using dirs_to_snoc [of b "volume_key B v" "''data''"] by simp
  moreover have "names ?D" using names store_names by simp
  ultimately show "writer_inv b ?D" unfolding writer_inv_def one using reg(4) by simp
  show "visible_links b ?D" unfolding visible_links_def one by simp
  have "published b ?D" unfolding published_def one cur is_dir_def by simp
  moreover have "free_name env b ?D" unfolding free_name_def one by (intro exI [of _ 0]) simp
  ultimately show "update_ready env b ?D es" unfolding update_ready_def cur using es by simp
qed

lemma same_outside_registered:
  assumes "same_outside (data_dir B v) a b" and "registered a B v m" and "writer_inv b (data_dir B v)"
  shows "registered b B v m"
proof -
  have k: "map_option kind (lookup b k) = map_option kind (lookup a k)" if "\<not> strict_prefix (data_dir B v) k" for k
    using assms(1) that by (simp add: same_outside_def)
  have not: "\<not> strict_prefix (data_dir B v) (meta_key B v)"
    by (simp add: strict_prefix_def)
  have "dirs_to b (data_dir B v)" using assms(3) by (simp add: writer_inv_def)
  then have "dirs_to b (volume_key B v)" by (rule dirs_to_prefix) (simp add: prefix_def)
  moreover have "is_file b (meta_key B v) c = is_file a (meta_key B v) c" for c
    using k [OF not] by (cases "lookup a (meta_key B v)"; cases "lookup b (meta_key B v)") (auto simp: is_file_def)
  ultimately show ?thesis using assms(2) by (simp add: registered_def)
qed

text \<open>
  C12. On a store with a relative base directory, in a process whose working directory is the root and when no
  system call fails, a volume that is not there yet can be registered and its files written, and then its
  metadata is read back with the same identifier and context and every file of the cleaned payload, opened by
  its visible name, has the data that was written.
\<close>

theorem new_volume_served:
  assumes "env_laws env" and "GOOS env = Linux" and "rel_base f B" and "name_comp (VolumeID m)"
    and "valid_utf8 (metadataPathForVolumeID f (VolumeID m))" and "utf8_metadata m"
    and "fresh_volume (store w) B (VolumeID m)" and "tidy (makePayload fs)"
    and "validatePayload env (makePayload fs) = Inr es" and "conflict_free es"
    and "fsGroupForMetadata f m = Inr g" and "faultless w"
  shows "\<exists>w1 w2 m'. run_state (RegisterMetadata msg f m) w = (Inr True, w1) \<and>
    run_state (WriteFiles env f m fs) w1 = (None, w2) \<and>
    fst (run_state (ReadMetadata msg f (VolumeID m)) w2) = Inr m' \<and> agrees m m' \<and>
    (\<forall>e \<in> set es. valid_utf8 (Join [dataPathForVolumeID f (VolumeID m), fst e]) \<longrightarrow>
      fst (run_state (ReadFile f (VolumeID m) (fst e)) w2) = Inr (fp_Data (snd e)))"
proof -
  let ?v = "VolumeID m"
  let ?D = "data_dir B ?v"
  have none: "\<not> registered (store w) B ?v old" for old
    using fresh_volume_below [OF assms(7), of "meta_key B ?v"] by (simp add: registered_def is_file_def)
  obtain b w1 where run: "run_state (RegisterMetadata msg f m) w = (b, w1)" by fastforce
  from worksD [OF RegisterMetadata_works [OF assms(3) refl assms(4-6) fresh_may_register [OF assms(7)]] assms(12) refl run]
  obtain m' where w1: "faultless w1" "only_registered B ?v (store w) (store w1)" "is_dir (store w1) ?D"
      "agrees m m'" "registered (store w1) B ?v m'" and b: "b = Inr True"
    using none by blast
  have t: "tree (store w1)"
    using state_io_relD [OF RegisterMetadata_tree run] assms(7) by (simp add: keeps_tree_def fresh_volume_def)
  have nB: "names B" using assms(3) by (simp add: rel_base_def)
  note ready = registered_ready [OF assms(1,7) nB assms(4) w1(2,5,3) t assms(10)]
  obtain r w2 where run2: "run_state (WriteFiles env f m fs) w1 = (r, w2)" by fastforce
  from worksD [OF WriteFiles_serves [OF assms(1-4) ready(1) assms(8,9) ready(3) assms(11) ready(2)] w1(1) refl run2]
  have w2: "faultless w2" "r = None" "serves ?D es (store w2)" "same_outside ?D (store w1) (store w2)" by simp_all
  have "writer_inv (store w2) ?D" using w2(3) by (simp add: serves_def up_and_ready_def)
  then have reg: "registered (store w2) B ?v m'" by (rule same_outside_registered [OF w2(4) w1(5)])
  have meta: "fst (run_state (ReadMetadata msg f ?v) w2) = Inr m'"
    using worksD [OF ReadMetadata_works [OF assms(3-5) reg] w2(1) refl]
    by (cases "run_state (ReadMetadata msg f ?v) w2") auto
  have good: "good_entries es" by (rule validatePayload_good [OF assms(1,8,9)])
  have "fst (run_state (ReadFile f ?v (fst e)) w2) = Inr (fp_Data (snd e))"
    if e: "e \<in> set es" "valid_utf8 (Join [dataPathForVolumeID f ?v, fst e])" for e
  proof -
    have "ok_path (fst e)" "\<not> hidden (first_comp (fst e))" using good e(1) by (simp_all add: good_entries_def)
    from worksD [OF ReadFile_serves [OF assms(3,4) w2(3) e(1) this e(2)] w2(1) refl] show ?thesis
      by (cases "run_state (ReadFile f ?v (fst e)) w2") auto
  qed
  with run b run2 w2(2) meta w1(4) show ?thesis by blast
qed

theorem new_volume_served_witness:
  "\<exists>w1 w2. run_state (RegisterMetadata (\<lambda>_. '''') relative0 metadata0) (world0 tempfs0) = (Inr True, w1) \<and>
    run_state (WriteFiles env0 relative0 metadata0 [(''./token'', ''1'')]) w1 = (None, w2) \<and>
    fst (run_state (ReadFile relative0 ''v'' ''token'') w2) = Inr ''1''"
proof -
  let ?p = "[(''./token'', ''1'')]"
  let ?es = "[(''token'', \<lparr>fp_Data = ''1'', fp_Mode = readOnlyUserAndGroupFileMode, fp_FsUser = None\<rparr>)]"
  have v: "VolumeID metadata0 = ''v''" by (simp add: metadata0_def)
  have nv: "name_comp ''v''" by (simp add: name_comp_def plain_comp_def)
  have "tree tempfs0"
    by (rule treeI) (simp add: tempfs0_def is_dir_def lookup_def inode0_def root_dir_def name_comp_def plain_comp_def)
  then have fresh: "fresh_volume (store (world0 tempfs0)) [''b''] (VolumeID metadata0)"
    unfolding v fresh_volume_def world0_def
    by (simp add: tempfs0_def is_dir_def lookup_def inode0_def)
  have "Clean ''./token'' = ''token''" by code_simp
  then have tidy: "tidy (makePayload ?p)" by (simp add: tidy_def makePayload_def hidden_def HasPrefix_def)
  have es: "validatePayload env0 (makePayload ?p) = Inr ?es" by code_simp
  have cf: "conflict_free ?es" by (simp add: conflict_free_def)
  have g: "fsGroupForMetadata relative0 metadata0 = Inr None"
    by (simp add: fsGroupForMetadata_def relative0_def)
  have u: "valid_utf8 (metadataPathForVolumeID relative0 (VolumeID metadata0))"
    unfolding v rel_paths(4) [OF relative0_base nv] by code_simp
  have u2: "valid_utf8 (Join [dataPathForVolumeID relative0 ''v'', ''token''])" by code_simp
  have "utf8_metadata metadata0" by code_simp
  from new_volume_served [OF env0_laws relative0_base _ u this fresh tidy es cf g faultless0, of "\<lambda>_. ''''"] nv u2
  show ?thesis unfolding v by fastforce
qed

end
