(* ===== verification/DiskStorage.thy ===== *)
theory DiskStorage
  imports Storage Lifecycle
begin

unbundle bit_operations_syntax

text \<open>
  The store on disk as a storage backend: with a relative base directory, and when no system call fails, it
  keeps the contract of \<open>Storage\<close>, and so answers every sequence of requests as the store in memory does.
\<close>

section \<open>The store on disk as a backend\<close>

definition disk_storage ::
  "(string \<Rightarrow> string) \<Rightarrow> writer_env \<Rightarrow> Filesystem \<Rightarrow> 'x world storage_interface" where
  "disk_storage msg env f = \<lparr>
    i_PathForVolume = (\<lambda>v. ret (PathForVolume f v)),
    i_RemoveVolume = RemoveVolume f,
    i_ReadMetadata = ReadMetadata msg f,
    i_ListVolumes = ListVolumes f,
    i_WriteMetadata = WriteMetadata f,
    i_RegisterMetadata = RegisterMetadata msg f,
    i_WriteFiles = WriteFiles env f\<rparr>"

text \<open>The volumes whose identifiers name a directory below that of the store, and can be opened.\<close>

definition disk_able :: "Filesystem \<Rightarrow> string \<Rightarrow> bool" where
  "disk_able f v \<longleftrightarrow> name_comp v \<and> valid_utf8 (metadataPathForVolumeID f v)"

definition volume_ok :: "Filesystem \<Rightarrow> string list \<Rightarrow> fstore \<Rightarrow> string \<Rightarrow> bool" where
  "volume_ok f B st v \<longleftrightarrow> disk_able f v \<and>
     (\<exists>m. registered st B v m \<and> VolumeID m = v \<and> utf8_metadata m) \<and>
     (lookup st (data_dir B v) = None \<or> is_dir st (data_dir B v))"

definition disk_good :: "Filesystem \<Rightarrow> string list \<Rightarrow> 'x world \<Rightarrow> bool" where
  "disk_good f B w \<longleftrightarrow> rel_base f B \<and> valid_utf8 (tempfsPath f) \<and> faultless w \<and> tree (store w) \<and>
     dirs_to (store w) (tempfs_key B) \<and>
     (\<forall>v. lookup (store w) (volume_key B v) \<noteq> None \<longrightarrow> volume_ok f B (store w) v)"

definition decoded :: "string list \<Rightarrow> fstore \<Rightarrow> string \<Rightarrow> Metadata option" where
  "decoded B st v =
    (case lookup st (meta_key B v) of
       None \<Rightarrow> None
     | Some i \<Rightarrow> (case kind i of Regular c \<Rightarrow> Decode c | _ \<Rightarrow> None))"

definition disk_view :: "string list \<Rightarrow> 'x world \<Rightarrow> contexts" where
  "disk_view B w v = map_option context_of (decoded B (store w) v)"

lemma decoded_registered: "registered st B v m \<Longrightarrow> decoded B st v = Some m"
  by (auto simp: registered_def decoded_def is_file_def)

lemma disk_fresh: "disk_good f B w \<Longrightarrow> lookup (store w) (volume_key B v) = None \<Longrightarrow> fresh_volume (store w) B v"
  by (simp add: disk_good_def fresh_volume_def)

text \<open>A volume is either registered with metadata of its own, or nothing is there.\<close>

lemma disk_cases:
  assumes "disk_good f B w"
  obtains (there) m where "registered (store w) B v m" "VolumeID m = v" "utf8_metadata m"
      "disk_view B w v = Some (context_of m)" "volume_ok f B (store w) v"
  | (absent) "fresh_volume (store w) B v" "lookup (store w) (meta_key B v) = None" "disk_view B w v = None"
proof (cases "lookup (store w) (volume_key B v) = None")
  case True
  note fr = disk_fresh [OF assms True]
  have "lookup (store w) (meta_key B v) = None" by (rule fresh_volume_below [OF fr]) (simp add: prefix_def)
  with fr show ?thesis by (intro absent) (simp_all add: disk_view_def decoded_def)
next
  case False
  then have ok: "volume_ok f B (store w) v" using assms by (simp add: disk_good_def)
  then obtain m where "registered (store w) B v m" "VolumeID m = v" "utf8_metadata m" by (auto simp: volume_ok_def)
  with ok show ?thesis by (intro there) (simp_all add: disk_view_def decoded_registered)
qed

lemma disk_may_register:
  assumes "disk_good f B w"
  shows "may_register (store w) B v"
  using assms
proof (cases rule: disk_cases [where v = v])
  case (there m)
  then have "volume_place (store w) B v"
    using assms dirs_to_is_dir [of "store w" "volume_key B v"]
    by (auto simp: volume_place_def volume_ok_def disk_good_def registered_def)
  with there show ?thesis by (auto simp: may_register_def)
next
  case absent
  then show ?thesis by (simp add: fresh_may_register)
qed

text \<open>An operation that changes nothing outside one volume, and leaves that volume in order.\<close>

lemma dirs_elsewhere:
  assumes "\<And>k. \<not> prefix p k \<Longrightarrow> lookup b k = lookup a k" and "\<not> prefix p q"
  shows "dirs_to b q \<longleftrightarrow> dirs_to a q"
proof -
  have eq: "lookup b k = lookup a k" if "prefix k ([] @ q)" for k
    by (rule assms(1)) (use that assms(2) prefix_order.trans in auto)
  show ?thesis by (rule iffI) (erule dirs_cong, simp add: eq)+
qed

lemma disk_changed:
  assumes good: "disk_good f B w" and w': "faultless w'" "tree (store w')"
    and other: "\<And>k. \<not> prefix (volume_key B v) k \<Longrightarrow> lookup (store w') k = lookup (store w) k"
    and new: "lookup (store w') (volume_key B v) \<noteq> None \<Longrightarrow> volume_ok f B (store w') v"
  shows "disk_good f B w'" and "disk_view B w' = (disk_view B w)(v := disk_view B w' v)"
proof -
  have same: "lookup (store w') (volume_key B u @ q) = lookup (store w) (volume_key B u @ q)" if "u \<noteq> v" for u q
    by (rule other) (use that in \<open>simp add: prefix_def\<close>)
  note dirs = dirs_elsewhere [of "volume_key B v" "store w'" "store w", OF other]
  have ok: "volume_ok f B (store w') u \<longleftrightarrow> volume_ok f B (store w) u" if "u \<noteq> v" for u
    using same [OF that, of "[''metadata.json'']"] same [OF that, of "[''data'']"] dirs [of "volume_key B u"] that
    by (simp add: volume_ok_def registered_def is_file_def is_dir_def)
  have "dirs_to (store w') (tempfs_key B)"
    using dirs [of "tempfs_key B"] good by (auto simp: disk_good_def dest: prefix_length_le)
  moreover have "volume_ok f B (store w') u" if "lookup (store w') (volume_key B u) \<noteq> None" for u
    using that new ok [of u] same [of u "[]"] good by (cases "u = v") (simp_all add: disk_good_def)
  ultimately show "disk_good f B w'" using good w' by (simp add: disk_good_def)
  show "disk_view B w' = (disk_view B w)(v := disk_view B w' v)"
    using same [of _ "[''metadata.json'']"] by (auto simp: disk_view_def decoded_def fun_eq_iff)
qed

lemma disk_answers:
  assumes "disk_good f B w" and "works (\<lambda>st. st = store w) m Q" and "state_io_rel keeps_tree m"
    and "\<And>r (w' :: 'x world). Q r (store w') \<Longrightarrow> faultless w' \<Longrightarrow> tree (store w') \<Longrightarrow>
      P r \<and> disk_good f B w' \<and> disk_view B w' = a"
  shows "answers (disk_good f B) (disk_view B) m (w :: 'x world) P a"
proof -
  obtain r w' where run: "run_state m w = (r, w')" by fastforce
  have "faultless w" "tree (store w)" using assms(1) by (simp_all add: disk_good_def)
  with worksD [OF assms(2) _ refl run] state_io_relD [OF assms(3) run] have "Q r (store w')" "faultless w'" "tree (store w')"
    by (simp_all add: keeps_tree_def)
  from assms(4) [OF this] run show ?thesis by (simp add: answers_def)
qed

lemma disk_reads:
  assumes "disk_good f B w" and "works (\<lambda>st. st = store w) m (\<lambda>r st. Q r \<and> st = store w)"
    and "state_io_rel same_store m" and "\<And>r. Q r \<Longrightarrow> P r"
  shows "answers (disk_good f B) (disk_view B) m w P (disk_view B w)"
proof (rule disk_answers [OF assms(1,2) ro_tree [OF assms(3)]], elim conjE)
  fix r and w' :: "'x world"
  assume "Q r" and w': "faultless w'" and eq: "store w' = store w"
  with assms(1,4) show "P r \<and> disk_good f B w' \<and> disk_view B w' = disk_view B w"
    by (simp add: disk_good_def disk_view_def eq fun_eq_iff)
qed

section \<open>Each operation\<close>

lemma ListVolumes_ro: "state_io_rel same_store (ListVolumes f)"
proof -
  have "state_io_rel same_store (list_volumes f vs)" for vs
    by (induction vs) (auto intro!: ro.io_rules frame_intros)
  then show ?thesis unfolding ListVolumes_def fs_ReadDir_def by (intro ro.io_rules frame_intros)
qed

lemma disk_ready:
  assumes "disk_good f B w"
  shows "rel_base f B" "volume_place (store w) B v"
  using assms disk_may_register [OF assms, of v] by (simp_all add: disk_good_def may_register_def)

lemma disk_read:
  assumes "disk_good f B w" and "disk_able f v"
  shows "disk_view B w v = Some c \<Longrightarrow> answers (disk_good f B) (disk_view B) (ReadMetadata msg f v) w
      (\<lambda>r. \<exists>m. r = Inr m \<and> VolumeID m = v \<and> context_of m = c) (disk_view B w)"
    and "disk_view B w v = None \<Longrightarrow> answers (disk_good f B) (disk_view B) (ReadMetadata msg f v) w
      (\<lambda>r. \<exists>e. r = Inl e \<and> errors_Is e ErrNotFound) (disk_view B w)"
proof -
  note b = disk_ready [OF assms(1)]
  have able: "name_comp v" "valid_utf8 (metadataPathForVolumeID f v)" using assms(2) by (simp_all add: disk_able_def)
  show "answers (disk_good f B) (disk_view B) (ReadMetadata msg f v) w
      (\<lambda>r. \<exists>m. r = Inr m \<and> VolumeID m = v \<and> context_of m = c) (disk_view B w)" if c: "disk_view B w v = Some c"
    using assms(1)
  proof (cases rule: disk_cases [where v = v])
    case (there m)
    show ?thesis
      by (rule disk_reads [OF assms(1) ReadMetadata_works [OF b(1) able there(1)] ReadMetadata_ro])
        (use there c in simp)
  qed (use c in simp)
  show "answers (disk_good f B) (disk_view B) (ReadMetadata msg f v) w
      (\<lambda>r. \<exists>e. r = Inl e \<and> errors_Is e ErrNotFound) (disk_view B w)" if c: "disk_view B w v = None"
    using assms(1)
  proof (cases rule: disk_cases [where v = v])
    case absent
    show ?thesis
      by (rule disk_reads [OF assms(1) ReadMetadata_missing_works [OF b(1) able b(2) absent(2)] ReadMetadata_ro])
        (simp add: not_found_wrapped_def ErrNotFound_def)
  qed (use c in simp)
qed

lemma disk_list:
  assumes "disk_good f B w"
  shows "answers (disk_good f B) (disk_view B) (ListVolumes f) w
    (\<lambda>r. \<exists>vs. r = Inr vs \<and> set vs = dom (disk_view B w)) (disk_view B w)"
proof -
  let ?vs = "child_names (store w) (tempfs_key B)"
  have g: "valid_utf8 (tempfsPath f)" "dirs_to (store w) (tempfs_key B)" using assms by (simp_all add: disk_good_def)
  have ok: "volume_ok f B (store w) v" if "v \<in> set ?vs" for v
    using assms that by (simp add: disk_good_def child_names_entries)
  then have all: "all_registered f (store w) B ?vs"
    by (auto simp: all_registered_def volume_ok_def disk_able_def)
  have "lookup (store w) (volume_key B v) \<noteq> None \<longleftrightarrow> disk_view B w v \<noteq> None" for v
    using assms
  proof (cases rule: disk_cases [where v = v])
    case (there m)
    then show ?thesis using dirs_to_is_dir [of "store w" "volume_key B v"] by (auto simp: registered_def is_dir_def)
  next
    case absent
    then show ?thesis by (simp add: fresh_volume_def)
  qed
  then have dom: "set ?vs = dom (disk_view B w)" by (simp add: child_names_entries dom_def)
  show ?thesis
    by (rule disk_reads [OF assms ListVolumes_works [OF disk_ready(1) [OF assms] g all] ListVolumes_ro])
      (use dom in simp)
qed

text \<open>Nothing can be written into a volume that is not there.\<close>

lemma WriteMetadata_missing:
  assumes "rel_base f B" and "name_comp v" and "fresh_volume s0 B v"
  shows "works (\<lambda>st. st = s0) (WriteMetadata f v m) (\<lambda>r st. r \<noteq> None \<and> st = s0)"
proof -
  note n = rel_names [OF assms(1,2)]
  have "dirs_to s0 (tempfs_key B)" "lookup s0 (volume_key B v) = None"
    using assms(3) by (simp_all add: fresh_volume_def)
  then have "namei s0 True (path_string (meta_key B v)) = Inl ENOENT"
    using resolve_dirs [of "tempfs_key B" s0 "[]" True max_links "[v, ''metadata.json'']"] n assms(2)
    by (simp add: namei_path_string name_comp_def plain_comp_def resolve.simps(2))
  then have none: "namei s0 True (rel (meta_key B v)) = Inl ENOENT" using namei_rel [OF n(4)] by simp
  have op: "works (\<lambda>st. st = s0)
      (State (\<lambda>w. run_state (sys_update (st_open_trunc (rel (meta_key B v)) ((pm AND 0x1FF) AND NOT (umask w)))) w))
      (\<lambda>r st. r = Inl ENOENT \<and> st = s0)" for pm
    by (rule works_env [where g = "\<lambda>u. sys_update (st_open_trunc (rel (meta_key B v)) ((pm AND 0x1FF) AND NOT u))"],
        rule works_sys_update) (simp add: st_open_trunc_def none)
  show ?thesis
    unfolding WriteMetadata_def rel_paths(4) [OF assms(1,2)] os_WriteFile_def
    by (rule works_ok [OF op]) (auto intro: works_ret)
qed

lemma WriteMetadata_tree: "state_io_rel keeps_tree (WriteMetadata f v m)"
  unfolding WriteMetadata_def by (rule os_WriteFile_tree)

text \<open>What is registered in a volume is in order afterwards.\<close>

lemma registered_ok:
  assumes "registered st B v m" and "VolumeID m = v" and "utf8_metadata m" and "disk_able f v"
    and "lookup st (data_dir B v) = None \<or> is_dir st (data_dir B v)"
  shows "volume_ok f B st v"
  using assms by (auto simp: volume_ok_def)

lemma stored_facts:
  "utf8_metadata m \<Longrightarrow> VolumeID (stored m) = VolumeID m \<and> context_of (stored m) = context_of m"
  using agrees_stored [of m] by (simp add: agrees_def context_of_def)


lemma only_registered_below:
  "only_registered B v a b \<Longrightarrow> \<not> prefix (volume_key B v) k \<Longrightarrow> lookup b k = lookup a k"
  by (auto simp: only_registered_def prefix_def)

lemma disk_write:
  assumes good: "disk_good f B w" and able: "disk_able f (VolumeID m)" and u: "utf8_metadata m"
    and known: "disk_view B w (VolumeID m) \<noteq> None"
  shows "answers (disk_good f B) (disk_view B) (WriteMetadata f (VolumeID m) m) w (\<lambda>r. r = None)
    ((disk_view B w)(VolumeID m \<mapsto> context_of m))"
  using good
proof (cases rule: disk_cases [where v = "VolumeID m"])
  case (there old)
  let ?v = "VolumeID m"
  have nv: "name_comp ?v" using able by (simp add: disk_able_def)
  have d: "dirs_to (store w) (volume_key B ?v)" and fl: "\<exists>c. is_file (store w) (meta_key B ?v) c"
    using there(1) by (auto simp: registered_def)
  note wr = WriteMetadata_works [OF disk_ready(1) [OF good] nv d u disjI2 [OF fl]]
  show ?thesis
  proof (rule disk_answers [OF good wr WriteMetadata_tree], elim conjE)
    fix r and w' :: "'x world"
    assume r: "r = None" and reg: "registered (store w') B ?v (stored m)"
      and o: "only_at (meta_key B ?v) (store w) (store w')" and w': "faultless w'" "tree (store w')"
    have "lookup (store w') (data_dir B ?v) = lookup (store w) (data_dir B ?v)" using o by (simp add: only_at_def)
    then have "lookup (store w') (data_dir B ?v) = None \<or> is_dir (store w') (data_dir B ?v)"
      using there(5) by (simp add: volume_ok_def is_dir_def)
    from registered_ok [OF reg _ utf8_stored [OF u] able this] stored_facts [OF u]
    have ok: "volume_ok f B (store w') ?v" by simp
    have "only_registered B ?v (store w) (store w')" by (rule only_at_registered [OF o]) simp
    note ch = disk_changed [OF good w' only_registered_below [OF this] ok]
    have "disk_view B w' ?v = Some (context_of m)"
      using decoded_registered [OF reg] stored_facts [OF u] by (simp add: disk_view_def)
    with ch r show "r = None \<and> disk_good f B w' \<and> disk_view B w' = (disk_view B w)(?v \<mapsto> context_of m)"
      by simp
  qed
qed (use known in simp)

lemma disk_register:
  assumes good: "disk_good f B w" and able: "disk_able f (VolumeID m)" and u: "utf8_metadata m"
  shows "answers (disk_good f B) (disk_view B) (RegisterMetadata msg f m) w
    (\<lambda>r. r = Inr (disk_view B w (VolumeID m) \<noteq> Some (context_of m))) ((disk_view B w)(VolumeID m \<mapsto> context_of m))"
proof -
  let ?v = "VolumeID m"
  have nv: "name_comp ?v" "valid_utf8 (metadataPathForVolumeID f ?v)" using able by (simp_all add: disk_able_def)
  have same: "(\<exists>old. registered (store w) B ?v old \<and> agrees m old) \<longleftrightarrow> disk_view B w ?v = Some (context_of m)"
    using good
  proof (cases rule: disk_cases [where v = ?v])
    case (there old)
    have "(\<exists>o'. registered (store w) B ?v o' \<and> agrees m o') \<longleftrightarrow> agrees m old"
      using there(1) registered_unique [OF there(1)] by blast
    then show ?thesis using there(2,4) by (auto simp: agrees_def context_of_def)
  next
    case absent
    then show ?thesis by (auto simp: registered_def is_file_def)
  qed
  have place: "volume_place (store w) B ?v" by (rule disk_ready(2) [OF good])
  note reg = RegisterMetadata_works [OF disk_ready(1) [OF good] refl nv u disk_may_register [OF good], of msg, unfolded same]
  show ?thesis
  proof (rule disk_answers [OF good reg RegisterMetadata_tree], elim conjE exE)
    fix r m' and w' :: "'x world"
    assume o: "only_registered B ?v (store w) (store w')"
      and new: "r = Inr True \<longrightarrow> is_dir (store w') (data_dir B ?v)" and old: "r = Inr False \<longrightarrow> store w' = store w"
      and m': "agrees m m'" "utf8_metadata m'" "registered (store w') B ?v m'"
      and r: "r = Inr (disk_view B w ?v \<noteq> Some (context_of m))" and w': "faultless w'" "tree (store w')"
    have "lookup (store w') (data_dir B ?v) = None \<or> is_dir (store w') (data_dir B ?v)"
      using r new old place by (cases "disk_view B w ?v = Some (context_of m)") (simp_all add: volume_place_def)
    from registered_ok [OF m'(3) _ m'(2) able this] m'(1)
    have ok: "volume_ok f B (store w') ?v" by (simp add: agrees_def)
    note ch = disk_changed [OF good w' only_registered_below [OF o] ok]
    have "disk_view B w' ?v = Some (context_of m)"
      using decoded_registered [OF m'(3)] m'(1) by (simp add: disk_view_def agrees_def context_of_def)
    with ch r show "r = Inr (disk_view B w ?v \<noteq> Some (context_of m)) \<and> disk_good f B w' \<and>
        disk_view B w' = (disk_view B w)(?v \<mapsto> context_of m)"
      by simp
  qed
qed

text \<open>A removal on a relative path does what it does on the absolute one.\<close>

lemma works_alike:
  assumes "alike same_failure m (n :: ('x world, goerror option) state)" and "\<And>st. P st \<Longrightarrow> tree st"
    and "works P n (\<lambda>r st. r = None \<and> Q st)"
  shows "works P m (\<lambda>r st. r = None \<and> Q st)"
proof (rule worksI)
  fix w w' :: "'x world" and r
  assume w: "faultless w" "P (store w)" and run: "run_state m w = (r, w')"
  obtain r' u where run': "run_state n w = (r', u)" by fastforce
  note * = alike_fromD [OF alike_alike_from [OF assms(1) assms(2) [OF w(2)]] run']
  then have "u = w'" "same_failure r r'" using run by auto
  with worksD [OF assms(3) w run'] show "faultless w' \<and> r = None \<and> Q (store w')" by simp
qed

lemma RemoveVolume_works:
  assumes "rel_base f B" and "name_comp v" and "tree s0" and "dirs_to s0 (tempfs_key B)"
  shows "works (\<lambda>st. st = s0) (RemoveVolume f v)
    (\<lambda>r st. r = None \<and> removes (volume_key B v) s0 st \<and> lookup st (volume_key B v) = None)"
proof -
  let ?V = "tempfs_key B @ [v]"
  have V: "?V = volume_key B v" by simp
  have n: "names ?V" using rel_names(2) [OF assms(1,2)] by simp
  have p: "Join [tempfsPath f, v] = rel ?V"
    using rel_paths(2) [OF assms(1,2)] by (simp add: volumePath_def)
  have sep: "path_string ?V = sep # rel ?V" by (simp add: path_string_def)
  have "works (\<lambda>st. st = s0) (os_RemoveAll (path_string ?V) :: ('x world, goerror option) state)
      (\<lambda>r st. r = None \<and> removes ?V s0 st \<and> lookup st ?V = None)"
    by (rule works_conseq [OF works_and [OF os_RemoveAll_works [OF n assms(4)] os_RemoveAll_outcome [OF n assms(4)]]])
      simp_all
  from works_alike [OF os_RemoveAll_alike [OF relative_rel [OF n]] _ this [unfolded sep]]
  have "works (\<lambda>st. st = s0) (os_RemoveAll (rel ?V) :: ('x world, goerror option) state)
      (\<lambda>r st. r = None \<and> removes ?V s0 st \<and> lookup st ?V = None)"
    using assms(3) by simp
  then show ?thesis unfolding RemoveVolume_def p V .
qed

lemma disk_remove:
  assumes good: "disk_good f B w" and able: "disk_able f v"
  shows "answers (disk_good f B) (disk_view B) (RemoveVolume f v) w (\<lambda>r. r = None) ((disk_view B w)(v := None))"
proof -
  have nv: "name_comp v" using able by (simp add: disk_able_def)
  have g: "tree (store w)" "dirs_to (store w) (tempfs_key B)" using good by (simp_all add: disk_good_def)
  have tr: "state_io_rel keeps_tree (RemoveVolume f v)" unfolding RemoveVolume_def by (rule os_RemoveAll_tree)
  show ?thesis
  proof (rule disk_answers [OF good RemoveVolume_works [OF disk_ready(1) [OF good] nv g] tr], elim conjE)
    fix r and w' :: "'x world"
    assume r: "r = None" and rm: "removes (volume_key B v) (store w) (store w')"
      and gone: "lookup (store w') (volume_key B v) = None" and w': "faultless w'" "tree (store w')"
    have good': "disk_good f B w'" by (rule disk_changed(1) [OF good w' removes_other [OF rm]]) (use gone in auto)
    have "disk_view B w' = (disk_view B w)(v := disk_view B w' v)"
      by (rule disk_changed(2) [OF good w' removes_other [OF rm]]) (use gone in auto)
    moreover have "disk_view B w' v = None"
      using good' gone dirs_to_is_dir [of "store w'" "volume_key B v"]
      by (cases rule: disk_cases [where v = v]) (auto simp: registered_def is_dir_def)
    ultimately show "r = None \<and> disk_good f B w' \<and> disk_view B w' = (disk_view B w)(v := None)"
      using r good' by simp
  qed
qed

section \<open>The contract\<close>

lemma disk_storage_contract: "storage_contract (disk_storage msg env f) (disk_good f B) (disk_view B) (disk_able f)"
proof (unfold_locales, goal_cases)
  case (1 w m)
  then show ?case using disk_register [OF 1] by (simp add: disk_storage_def)
next
  case (2 w v c)
  then show ?case using disk_read(1) [OF 2] by (simp add: disk_storage_def)
next
  case (3 w v)
  then show ?case using disk_read(2) [OF 3] by (simp add: disk_storage_def)
next
  case (4 w m)
  then show ?case using disk_write [OF 4] by (simp add: disk_storage_def)
next
  case (5 w v m)
  have nv: "name_comp v" using 5(2) by (simp add: disk_able_def)
  have fr: "fresh_volume (store w) B v"
    using 5(1) by (cases rule: disk_cases [where v = v]) (use 5(3) in simp_all)
  have "answers (disk_good f B) (disk_view B) (WriteMetadata f v m) w (\<lambda>r. r \<noteq> None) (disk_view B w)"
  proof (rule disk_answers [OF 5(1) WriteMetadata_missing [OF disk_ready(1) [OF 5(1)] nv fr] WriteMetadata_tree], elim conjE)
    fix r and w' :: "'a world"
    assume "r \<noteq> None" "faultless w'" and eq: "store w' = store w"
    then show "r \<noteq> None \<and> disk_good f B w' \<and> disk_view B w' = disk_view B w"
      using 5(1) by (simp add: disk_good_def disk_view_def eq fun_eq_iff)
  qed
  then show ?case by (simp add: disk_storage_def)
next
  case (6 w v)
  then show ?case using disk_remove [OF 6] by (simp add: disk_storage_def)
next
  case (7 w)
  then show ?case using disk_list [OF 7] by (simp add: disk_storage_def)
qed

interpretation ds: storage_contract "disk_storage msg env f" "disk_good f B" "disk_view B" "disk_able f"
  for msg env f B
  by (rule disk_storage_contract)

lemma empty_disk:
  assumes "rel_base f B" and "valid_utf8 (tempfsPath f)" and "faultless w" and "tree (store w)"
    and "dirs_to (store w) (tempfs_key B)" and "\<And>v. lookup (store w) (volume_key B v) = None"
  shows "disk_good f B w" "disk_view B w = Map.empty"
proof -
  show good: "disk_good f B w" using assms by (simp add: disk_good_def)
  show "disk_view B w = Map.empty"
  proof
    fix v
    show "disk_view B w v = None"
      using good dirs_to_is_dir [of "store w" "volume_key B v"] assms(6) [of v]
      by (cases rule: disk_cases [where v = v]) (auto simp: registered_def is_dir_def)
  qed
qed

text \<open>
  C15. The store in memory and the store on disk answer alike whatever is asked of them, in any order, from
  empty, and both as the map from volumes to contexts does that \<open>storage_spec\<close> describes, under these
  conditions: the base directory of the store on disk is a relative path and the working directory is the
  root, no system call fails, and the requests are about volumes that the store on disk can keep (the
  identifier names a directory, its paths and the metadata are valid UTF-8).
\<close>

theorem stores_agree:
  assumes "rel_base f B" and "valid_utf8 (tempfsPath f)" and "faultless w" and "tree (store w)"
    and "dirs_to (store w) (tempfs_key B)" and "\<And>v. lookup (store w) (volume_key B v) = None"
    and "\<And>r. r \<in> set rs \<Longrightarrow> may_request (disk_able f) r" and "lists_all ord"
  shows "fst (run_state (serve_requests (disk_storage msg env f) rs) w) = storage_specs rs Map.empty \<and>
    fst (run_state (serve_requests (memory_storage msg ord) rs) NewMemoryFS) = storage_specs rs Map.empty"
proof
  note e = empty_disk [OF assms(1-6)]
  show "fst (run_state (serve_requests (disk_storage msg env f) rs) w) = storage_specs rs Map.empty"
    using ds.serve_requests_spec [OF e(1), of rs msg env] assms(7) e(2) by simp
  have "may_request (\<lambda>_. True) r" if "may_request (disk_able f) r" for r
    using that by (cases r) simp_all
  then show "fst (run_state (serve_requests (memory_storage msg ord) rs) NewMemoryFS) = storage_specs rs Map.empty"
    using storage_contract.serve_requests_spec [OF memory_storage_contract [OF assms(8)] mem_good_new(1), of rs msg]
      assms(7) mem_good_new(2) by simp
qed
theorem stores_agree_witness:
  "fst (run_state (serve_requests (disk_storage (\<lambda>_. '''') env0 relative0)
      [Read_request ''v'', Register_request metadata0, Register_request metadata0, List_request,
       Remove_request ''v'', Write_request ''v'' metadata0]) (world0 tempfs0)) =
    [Missing, Registered True, Registered False, Volumes {''v''}, Done, Failed] \<and>
   fst (run_state (serve_requests (memory_storage (\<lambda>_. '''') id)
      [Read_request ''v'', Register_request metadata0, Register_request metadata0, List_request,
       Remove_request ''v'', Write_request ''v'' metadata0]) NewMemoryFS) =
    [Missing, Registered True, Registered False, Volumes {''v''}, Done, Failed]"
proof -
  let ?rs = "[Read_request ''v'', Register_request metadata0, Register_request metadata0, List_request,
       Remove_request ''v'', Write_request ''v'' metadata0]"
  have nv: "name_comp ''v''" by (simp add: name_comp_def plain_comp_def)
  have v: "VolumeID metadata0 = ''v''" by (simp add: metadata0_def)
  have spec: "storage_specs ?rs Map.empty = [Missing, Registered True, Registered False, Volumes {''v''}, Done, Failed]"
    by (simp add: v)
  have s: "store (world0 tempfs0) = tempfs0" by (simp add: world0_def)
  have t: "tree tempfs0"
    by (rule treeI) (simp add: tempfs0_def is_dir_def lookup_def inode0_def root_dir_def name_comp_def plain_comp_def)
  have d: "dirs_to tempfs0 (tempfs_key [''b''])" "\<And>u. lookup tempfs0 (volume_key [''b''] u) = None"
    by (simp_all add: tempfs0_def is_dir_def lookup_def inode0_def)
  have u: "valid_utf8 (tempfsPath relative0)"
    unfolding rel_paths(1) [OF relative0_base] by code_simp
  have "valid_utf8 (metadataPathForVolumeID relative0 ''v'')"
    unfolding rel_paths(4) [OF relative0_base nv] by code_simp
  moreover have "utf8_metadata metadata0" by code_simp
  ultimately have may: "\<And>r. r \<in> set ?rs \<Longrightarrow> may_request (disk_able relative0) r"
    using nv by (auto simp: disk_able_def v)
  show ?thesis
    using stores_agree [OF relative0_base u faultless0, of tempfs0 ?rs id "\<lambda>_. ''''" env0, unfolded s, OF t d may] spec
    by simp
qed

end
