(* ===== verification/Misplaced.thy ===== *)
theory Misplaced
  imports DiskStorage
begin

text \<open>
  What the store on disk does with a metadata file that does not decode, such as an interrupted
  \<open>os.WriteFile\<close> leaves, on a relative base directory.
\<close>

section \<open>The place of the volume without a name\<close>

abbreviation stray_key :: "string list \<Rightarrow> string list" where
  "stray_key B \<equiv> B @ [''inmemfs'', ''metadata.json'']"

lemma Join_rel_empty: "names p \<Longrightarrow> p \<noteq> [] \<Longrightarrow> Join [rel p, ''''] = rel p"
  using Join_pieces(1) [of p "''''"] by (simp add: no_dotdot_def pieces_def)

lemma stray_path: "rel_base f B \<Longrightarrow> metadataPathForVolumeID f '''' = rel (stray_key B)"
proof -
  assume b: "rel_base f B"
  have T: "names (tempfs_key B)" "tempfs_key B \<noteq> []" using b store_names by (simp_all add: rel_base_def)
  show ?thesis
    unfolding metadataPathForVolumeID_def volumePath_def rel_paths(1) [OF b] Join_rel_empty [OF T]
    using Join_rel [OF T store_names(3)] by simp
qed

text \<open>A file in the place of a volume cannot be listed as one.\<close>

lemma Open_below_file:
  assumes "rel_base f B" and "dirs_to s0 (tempfs_key B)" and "is_file s0 (volume_key B v) c" and "name_comp v"
  shows "works (\<lambda>st. st = s0) (fs_Open (metadataPathForVolumeID f v)) (\<lambda>r st. (\<exists>e. r = Inl e) \<and> st = s0)"
proof -
  note n = rel_names(4) [OF assms(1,4)]
  have "namei s0 True (path_string (meta_key B v)) = Inl ENOTDIR"
    using resolve_dirs [of "tempfs_key B" s0 "[]" True max_links "[v, ''metadata.json'']"] n assms
    by (auto simp: namei_path_string name_comp_def plain_comp_def resolve.simps(2) is_file_def)
  then have "st_get True (root_name (rel (meta_key B v))) s0 = Inl ENOTDIR"
    by (simp add: st_get_def namei_root_name [OF n])
  then show ?thesis
    unfolding fs_Open_def rel_paths(4) [OF assms(1,4)]
    by (auto intro!: works_if works_ret works_map_state works_sys_read simp: lift_err_def)
qed

lemma works_still:
  assumes "state_io_rel same_store m"
  shows "works (\<lambda>st. st = s0) m (\<lambda>r st. st = s0)"
  by (rule works_ensures [OF ro_env [OF assms]])
    (auto simp: ensures_def same_store_def dest: state_io_relD [OF assms])

lemma list_volumes_fails:
  assumes "v \<in> set vs"
    and "works (\<lambda>st. st = s0) (fs_Open (metadataPathForVolumeID f v) :: ('x world, goerror + inode) state)
      (\<lambda>r st. (\<exists>e. r = Inl e) \<and> st = s0)"
  shows "works (\<lambda>st. st = s0) (list_volumes f vs :: ('x world, goerror + string list) state) (\<lambda>r st. \<exists>e. r = Inl e)"
  using assms(1)
proof (induction vs)
  case (Cons u vs)
  show ?case
  proof (cases "u = v")
    case True
    show ?thesis
      unfolding list_volumes.simps True
    proof (rule works_bind [OF assms(2)])
      fix r :: "goerror + inode"
      show "works (\<lambda>st. (\<exists>e. r = Inl e) \<and> st = s0)
          (case r of Inl err \<Rightarrow> ret (Inl err) | Inr x \<Rightarrow> map_state (map_sum id ((#) v)) (list_volumes f vs))
          (\<lambda>r st. \<exists>e. r = Inl e)"
        by (cases r) (auto simp: works_def)
    qed
  next
    case False
    with Cons have IH: "works (\<lambda>st. st = s0) (list_volumes f vs :: ('x world, goerror + string list) state)
        (\<lambda>r st. \<exists>e. r = Inl e)" by simp
    have "works (\<lambda>st. st = s0) (map_state (map_sum id ((#) u)) (list_volumes f vs)
        :: ('x world, goerror + string list) state) (\<lambda>r st. \<exists>e. r = Inl e)"
      by (rule works_map_state, rule works_conseq [OF IH]) auto
    then show ?thesis
      unfolding list_volumes.simps
      by (intro works_bind [OF works_still [OF fs_Open_ro]]) (auto intro: works_ret split: sum.split)
  qed
qed simp

lemma ListVolumes_fails:
  assumes "v \<in> set (child_names s0 (tempfs_key B))" and "rel_base f B" and "dirs_to s0 (tempfs_key B)"
    and "works (\<lambda>st. st = s0) (fs_Open (metadataPathForVolumeID f v) :: ('x world, goerror + inode) state)
      (\<lambda>r st. (\<exists>e. r = Inl e) \<and> st = s0)"
  shows "works (\<lambda>st. st = s0) (ListVolumes f :: ('x world, goerror + string list) state) (\<lambda>r st. \<exists>e. r = Inl e)"
proof (cases "valid_utf8 (tempfsPath f)")
  case True
  show ?thesis
    unfolding ListVolumes_def
    by (rule works_ok [OF ReadDir_works [OF assms(2) True assms(3)]], unfold sum.case,
        rule list_volumes_fails [OF assms(1,4)])
next
  case False
  then have "\<not> ValidPath (tempfsPath f)" by (simp add: ValidPath_def)
  then have "works (\<lambda>st. st = s0) (fs_ReadDir (tempfsPath f) :: ('x world, goerror + string list) state)
      (\<lambda>r st. r = Inl (PathError ''open'' (tempfsPath f) EINVAL) \<and> st = s0)"
    by (simp add: works_def fs_ReadDir_def fs_Open_def)
  then show ?thesis
    unfolding ListVolumes_def by (rule works_ok) (simp add: works_ret)
qed

section \<open>Registering a volume whose metadata is broken\<close>

definition broken_metadata :: "fstore \<Rightarrow> string list \<Rightarrow> string \<Rightarrow> bool" where
  "broken_metadata st B v \<longleftrightarrow> (\<exists>i c. metadata_file st B v i c \<and> Decode c = None)"

lemma broken_cong:
  assumes "broken_metadata a B v" and "lookup b (meta_key B v) = lookup a (meta_key B v)" and "dirs_to b (volume_key B v)"
  shows "broken_metadata b B v"
  using assms by (auto simp: broken_metadata_def metadata_file_def)

lemma write_stray_works:
  assumes "rel_base f B" and "dirs_to s0 (tempfs_key B)"
    and "lookup s0 (stray_key B) = None \<or> (\<exists>c. is_file s0 (stray_key B) c)"
  shows "works (\<lambda>st. st = s0) (WriteMetadata f '''' m)
    (\<lambda>r st. r = None \<and> is_file st (stray_key B) (Marshal m) \<and> only_at (stray_key B) s0 st)"
proof -
  have "names (stray_key B)" using assms(1) store_names by (simp add: rel_base_def)
  then have "file_slot s0 (stray_key B)"
    using assms(2,3) by (auto simp: file_slot_def is_file_def butlast_append)
  from WriteFile_rel_works [OF this] show ?thesis
    unfolding WriteMetadata_def stray_path [OF assms(1)] by simp
qed

lemma RegisterMetadata_broken_works:
  assumes b: "rel_base f B" and nv: "name_comp v" "valid_utf8 (metadataPathForVolumeID f v)" and id: "VolumeID m = v"
    and place: "volume_place s0 B v" and broken: "broken_metadata s0 B v"
    and stray: "lookup s0 (stray_key B) = None \<or> (\<exists>c. is_file s0 (stray_key B) c)" and ctx: "VolumeContext m \<noteq> []"
  shows "works (\<lambda>st. st = s0) (RegisterMetadata msg f m) (\<lambda>r st. r = Inr True \<and> broken_metadata st B v \<and>
    dirs_to st (tempfs_key B) \<and> is_file st (stray_key B) (Marshal (no_metadata\<lparr>VolumeContext := VolumeContext m\<rparr>)))"
proof -
  let ?new = "no_metadata\<lparr>VolumeContext := VolumeContext m\<rparr>"
  obtain i c where f: "metadata_file s0 B v i c" "Decode c = None" using broken by (auto simp: broken_metadata_def)
  let ?e = "WrapError (''reading metadata file: invalid JSON: '' @ msg c) ErrInvalidJSON"
  have read: "works (\<lambda>st. st = s0) (ReadMetadata msg f v) (\<lambda>r st. r = Inl ?e \<and> st = s0)"
    by (rule works_conseq [OF ReadMetadata_file_works [OF b nv f(1)]]) (simp_all add: f(2))
  have e: "\<not> errors_Is ?e ErrNotFound" by (simp add: ErrInvalidJSON_def ErrNotFound_def)
  have ne: "\<not> context_equal (VolumeContext no_metadata) (VolumeContext m)"
    using ctx by (cases "VolumeContext m") (auto simp: context_equal_def no_metadata_def)
  have vstray: "volume_key B v \<noteq> stray_key B"
    using stray f(1) dirs_to_is_dir [of s0 "volume_key B v"] by (auto simp: metadata_file_def is_dir_def is_file_def)
  have wr: "works (\<lambda>st. dirs_to st (volume_key B v) \<and> lookup st (meta_key B v) = lookup s0 (meta_key B v) \<and>
        only_registered B v s0 st) (WriteMetadata f (VolumeID ?new) ?new)
      (\<lambda>r st. r = None \<and> broken_metadata st B v \<and> dirs_to st (tempfs_key B) \<and> is_file st (stray_key B) (Marshal ?new))"
  proof (rule works_any, elim conjE)
    fix s1
    assume d: "dirs_to s1 (volume_key B v)" and l: "lookup s1 (meta_key B v) = lookup s0 (meta_key B v)"
      and o: "only_registered B v s0 s1"
    have "stray_key B \<notin> registration_keys B v" using vstray by simp
    from only_registeredD [OF o this] have st: "lookup s1 (stray_key B) = None \<or> (\<exists>c. is_file s1 (stray_key B) c)"
      using stray by (simp add: is_file_def)
    have dT: "dirs_to s1 (tempfs_key B)" by (rule dirs_to_prefix [OF d]) (simp add: prefix_def)
    have post: "broken_metadata s2 B v \<and> dirs_to s2 (tempfs_key B)" if o2: "only_at (stray_key B) s1 s2" for s2
    proof
      have "dirs_to s2 (volume_key B v)"
        by (rule only_at_dirs [OF o2 d]) (use vstray in \<open>simp add: prefix_def\<close>)
      moreover have "lookup s2 (meta_key B v) = lookup s0 (meta_key B v)" using o2 l by (simp add: only_at_def)
      ultimately show "broken_metadata s2 B v" using broken_cong [OF broken] by blast
      show "dirs_to s2 (tempfs_key B)" by (rule only_at_dirs [OF o2 dT]) (auto dest: prefix_length_le)
    qed
    have id0: "VolumeID ?new = ''''" by (simp add: no_metadata_def)
    show "works (\<lambda>st. st = s1) (WriteMetadata f (VolumeID ?new) ?new)
        (\<lambda>r st. r = None \<and> broken_metadata st B v \<and> dirs_to st (tempfs_key B) \<and> is_file st (stray_key B) (Marshal ?new))"
      unfolding id0 by (rule works_conseq [OF write_stray_works [OF b dT st]]) (use post in auto)
  qed
  have "works (\<lambda>st. st = s0) (ensureVolumeDirectory f v) (\<lambda>r st. r = None \<and> (dirs_to st (volume_key B v) \<and>
      lookup st (meta_key B v) = lookup s0 (meta_key B v) \<and> only_registered B v s0 st))"
    by (rule works_conseq [OF ensureVolumeDirectory_works [OF b nv(1) place]]) auto
  then have "works (\<lambda>st. st = s0) (write_registered f v ?new) (\<lambda>r st. r = Inr True \<and> broken_metadata st B v \<and>
      dirs_to st (tempfs_key B) \<and> is_file st (stray_key B) (Marshal ?new))"
    unfolding write_registered_def
    by (rule works_ok, unfold option.case) (rule works_ok [OF wr], auto intro: works_ret)
  then show ?thesis
    unfolding RegisterMetadata_def id
    by (intro works_ok [OF read]) (simp only: sum.case Let_def e ne if_True if_False simp_thms)
qed

text \<open>
  C39. On a store with a relative base directory, with the root as the working directory and no failing system
  call: when the metadata of a volume does not decode, registering the volume with a context that is not empty
  reports that the metadata was written. But the metadata of the volume stays as it is, so that it still
  cannot be read; what was written is a file in the directory of the volumes, and from then on listing the
  volumes fails.
\<close>

theorem broken_metadata_misplaced:
  assumes "rel_base f B" and "name_comp (VolumeID m)" and "valid_utf8 (metadataPathForVolumeID f (VolumeID m))"
    and "volume_place (store w) B (VolumeID m)" and "broken_metadata (store w) B (VolumeID m)"
    and "lookup (store w) (stray_key B) = None \<or> (\<exists>c. is_file (store w) (stray_key B) c)"
    and "VolumeContext m \<noteq> []" and "faultless w"
  shows "\<exists>w1 e e'. run_state (RegisterMetadata msg f m) w = (Inr True, w1) \<and>
    is_file (store w1) (stray_key B) (Marshal (no_metadata\<lparr>VolumeContext := VolumeContext m\<rparr>)) \<and>
    fst (run_state (ReadMetadata msg f (VolumeID m)) w1) = Inl e \<and> errors_Is e ErrInvalidJSON \<and>
    fst (run_state (ListVolumes f) w1) = Inl e'"
proof -
  let ?v = "VolumeID m"
  obtain r w1 where run: "run_state (RegisterMetadata msg f m) w = (r, w1)" by fastforce
  from worksD [OF RegisterMetadata_broken_works [OF assms(1-3) refl assms(4-7)] assms(8) refl run]
  have w1: "faultless w1" "r = Inr True" "broken_metadata (store w1) B ?v" "dirs_to (store w1) (tempfs_key B)"
      "is_file (store w1) (stray_key B) (Marshal (no_metadata\<lparr>VolumeContext := VolumeContext m\<rparr>))" by simp_all
  obtain i c where f: "metadata_file (store w1) B ?v i c" "Decode c = None" using w1(3) by (auto simp: broken_metadata_def)
  obtain a u where read: "run_state (ReadMetadata msg f ?v) w1 = (a, u)" by fastforce
  have a: "\<exists>e. a = Inl e \<and> errors_Is e ErrInvalidJSON"
    using worksD [OF ReadMetadata_file_works [OF assms(1-3) f(1)] w1(1) refl read] f(2) by (simp add: ErrInvalidJSON_def)
  have stray: "is_file (store w1) (volume_key B ''metadata.json'') (Marshal (no_metadata\<lparr>VolumeContext := VolumeContext m\<rparr>))"
    using w1(5) by simp
  then have "''metadata.json'' \<in> set (child_names (store w1) (tempfs_key B))"
    unfolding child_names_entries by (auto simp: is_file_def)
  note fails = ListVolumes_fails [OF this assms(1) w1(4) Open_below_file [OF assms(1) w1(4) stray store_names(3)]]
  obtain l u' where list: "run_state (ListVolumes f) w1 = (l, u')" by fastforce
  have "\<exists>e. l = Inl e" using worksD [OF fails w1(1) refl list] by simp
  with run w1(2,5) read a list show ?thesis by auto
qed
text \<open>The first registration of a volume, interrupted after the metadata file was made and before it was written.\<close>

definition metadata1 :: Metadata where
  "metadata1 = \<lparr>VolumeID = ''v'', TargetPath = ''/p'', VolumeContext = [(''k'', ''x'')]\<rparr>"

definition interrupted1 :: "unit world" where
  "interrupted1 = snd (run_state (RegisterMetadata (\<lambda>_. '''') relative0 metadata1)
    ((world0 tempfs0)\<lparr>faults := (\<lambda>n. if n = 8 then Some EIO else None)\<rparr>))"

lemma interrupted1_store:
  "store interrupted1 = tempfs0 @
    [([''b'', ''inmemfs'', ''v''], \<lparr>kind = Directory, perm = 0x1A4, uid = 0, gid = 0\<rparr>),
     ([''b'', ''inmemfs'', ''v'', ''data''], \<lparr>kind = Directory, perm = 0x168, uid = 0, gid = 0\<rparr>),
     ([''b'', ''inmemfs'', ''v'', ''metadata.json''], \<lparr>kind = Regular '''', perm = 0x180, uid = 0, gid = 0\<rparr>)]"
  by code_simp

theorem broken_metadata_misplaced_witness:
  "\<exists>w1 e. run_state (RegisterMetadata (\<lambda>_. '''') relative0 metadata1) (interrupted1\<lparr>faults := (\<lambda>_. None)\<rparr>) =
      (Inr True, w1) \<and>
    fst (run_state (ListVolumes relative0) w1) = Inl e"
proof -
  let ?w = "interrupted1\<lparr>faults := (\<lambda>_. None)\<rparr>"
  have v: "VolumeID metadata1 = ''v''" "VolumeContext metadata1 \<noteq> []" by (simp_all add: metadata1_def)
  have nv: "name_comp ''v''" by (simp add: name_comp_def plain_comp_def)
  have u: "valid_utf8 (metadataPathForVolumeID relative0 ''v'')"
    unfolding rel_paths(4) [OF relative0_base nv] by code_simp
  have s: "store ?w = store interrupted1" "faultless ?w" by (simp_all add: faultless_def)
  have d: "dirs_to (store interrupted1) (volume_key [''b''] ''v'')"
    by (simp add: interrupted1_store tempfs0_def is_dir_def lookup_def inode0_def)
  have l: "lookup (store interrupted1) (meta_key [''b''] ''v'') = Some \<lparr>kind = Regular '''', perm = 0x180, uid = 0, gid = 0\<rparr>"
    "is_dir (store interrupted1) (data_dir [''b''] ''v'')" "lookup (store interrupted1) (stray_key [''b'']) = None"
    by (simp_all add: interrupted1_store tempfs0_def is_dir_def lookup_def inode0_def)
  have "Decode '''' = None" by code_simp
  then have broken: "broken_metadata (store interrupted1) [''b''] ''v''"
    using d l(1) by (simp add: broken_metadata_def metadata_file_def)
  have place: "volume_place (store interrupted1) [''b''] ''v''"
    using d l dirs_to_is_dir [OF d] by (simp add: volume_place_def is_file_def)
  show ?thesis
    using broken_metadata_misplaced [OF relative0_base, of metadata1 ?w "\<lambda>_. ''''", unfolded s v(1)]
      nv u place broken l(3) v(2) s(2) by blast
qed

end
