(* ===== verification/DeviceUtils.thy ===== *)
theory DeviceUtils
  imports FileOps Strconv Symlinks
begin

text \<open>
  \<open>mount-manager/device-utils.go\<close>: checking that a device path leads to the disk with the expected serial
  number, and asking udev to repair it when it does not. Programs that are run, \<open>k8s.io/utils/path\<close> and the
  polling of \<open>k8s.io/apimachinery\<close> are a record of operations, given as a parameter.
\<close>

section \<open>Constants\<close>

definition diskSDPath :: string where "diskSDPath = ''/dev/sd''"
definition diskSDPattern :: string where "diskSDPattern = ''/dev/sd*''"
definition diskNvmePath :: string where "diskNvmePath = ''/dev/nvme''"
definition diskNvmePattern :: string where "diskNvmePattern = ''/dev/nvme*''"
definition scsiIdPath :: string where "scsiIdPath = ''/lib/udev_containerized/scsi_id''"
definition nvmeIdPath :: string where "nvmeIdPath = ''/lib/udev_containerized/google_nvme_id''"

text \<open>
  \<open>Command\<close> runs a program with its arguments and gives its combined output. \<open>PathExists\<close> is
  \<open>pathutils.Exists\<close>, following links. \<open>Poll\<close> is \<open>wait.Poll\<close> for the interval and time limit of the source.
\<close>

record 'x dev_tools =
  Command :: "string list \<Rightarrow> ('x world, string \<times> goerror option) state"
  PathExists :: "string \<Rightarrow> ('x world, goerror + bool) state"
  Poll :: "('x world, goerror + bool) state \<Rightarrow> ('x world, goerror option) state"

section \<open>Serial numbers\<close>

text \<open>The class \<open>\s\<close> of Go's regular expressions; unlike \<open>unicode.IsSpace\<close> it has no vertical tab.\<close>

definition re_space :: "char \<Rightarrow> bool" where
  "re_space c = (let n = of_char c :: nat in n = 9 \<or> n = 10 \<or> n = 12 \<or> n = 13 \<or> n = 32)"

definition read_text :: "string \<Rightarrow> string \<Rightarrow> string option" where
  "read_text p s = (if prefix p s then Some (drop (length p) s) else None)"

definition read_spaces :: "string \<Rightarrow> string option" where
  "read_spaces s = (if s \<noteq> '''' \<and> re_space (hd s) then Some (dropWhile re_space s) else None)"

definition serial_of :: "string \<Rightarrow> string" where
  "serial_of s = takeWhile (\<lambda>c. \<not> re_space c) s"

text \<open>The pattern \<open>^0Google\s+PersistentDisk\s+([\S]+)\s*$\<close>.\<close>

definition scsi_match :: "string \<Rightarrow> string option" where
  "scsi_match output = do {
    s \<leftarrow> read_text ''0Google'' output;
    s \<leftarrow> read_spaces s;
    s \<leftarrow> read_text ''PersistentDisk'' s;
    s \<leftarrow> read_spaces s;
    if serial_of s \<noteq> '''' \<and> list_all re_space (drop (length (serial_of s)) s) then Some (serial_of s) else None
  }"

definition parseScsiSerial :: "string \<Rightarrow> goerror + string" where
  "parseScsiSerial output =
    (case scsi_match output of
       None \<Rightarrow> Inl (ErrorString (''scsi_id output cannot be parsed: '' @ Quote output))
     | Some serial \<Rightarrow> Inr serial)"

text \<open>The pattern \<open>ID_SERIAL_SHORT=([\S]+)\s*\<close>, which may match anywhere; the leftmost match is taken.\<close>

definition serial_key :: string where
  "serial_key = ''ID_SERIAL_SHORT=''"

fun nvme_match :: "string \<Rightarrow> string option" where
  "nvme_match [] = None"
| "nvme_match (c # cs) =
    (case read_text serial_key (c # cs) of
       None \<Rightarrow> nvme_match cs
     | Some s \<Rightarrow> if serial_of s \<noteq> '''' then Some (serial_of s) else nvme_match cs)"

definition parseNvmeSerial :: "string \<Rightarrow> goerror + string" where
  "parseNvmeSerial output =
    (case nvme_match output of
       None \<Rightarrow> Inl (ErrorString (''google_nvme_id output cannot be parsed: '' @ Quote output))
     | Some serial \<Rightarrow> Inr serial)"

definition getScsiSerial :: "'x dev_tools \<Rightarrow> string \<Rightarrow> ('x world, goerror + string) state" where
  "getScsiSerial tools devicePath = do {
    (out, err) \<leftarrow> Command tools [scsiIdPath, ''--page=0x83'', ''--whitelisted'', ''--device='' @ devicePath];
    ret (case err of
           Some err \<Rightarrow> Inl (ErrorString (''scsi_id failed for device '' @ Quote devicePath @ '' with output '' @
             out @ '': '' @ error_text err))
         | None \<Rightarrow> parseScsiSerial out)
  }"

text \<open>A byte slice prints with \<open>%v\<close> as its numbers in brackets.\<close>

definition show_bytes :: "string \<Rightarrow> string" where
  "show_bytes s = ''['' @ join_on CHR 0x20 (List.map (\<lambda>c. show_nat (of_char c)) s) @ '']''"

definition getNvmeSerial :: "'x dev_tools \<Rightarrow> string \<Rightarrow> ('x world, goerror + string) state" where
  "getNvmeSerial tools devicePath = do {
    (out, err) \<leftarrow> Command tools [nvmeIdPath, ''-d'' @ devicePath];
    ret (case err of
           Some err \<Rightarrow> Inl (ErrorString (''google_nvme_id failed for device '' @ Quote devicePath @
             '' with output '' @ show_bytes out @ '': '' @ error_text err))
         | None \<Rightarrow> parseNvmeSerial out)
  }"

definition getDevFsSerial :: "'x dev_tools \<Rightarrow> string \<Rightarrow> ('x world, goerror + string) state" where
  "getDevFsSerial tools devFsPath =
    (if HasPrefix devFsPath diskSDPath then getScsiSerial tools devFsPath
     else if HasPrefix devFsPath diskNvmePath then getNvmeSerial tools devFsPath
     else ret (Inr ''''))"

section \<open>Tools\<close>

definition ensureUdevToolExists :: "'x dev_tools \<Rightarrow> string \<Rightarrow> ('x world, goerror option) state" where
  "ensureUdevToolExists tools toolPath = do {
    r \<leftarrow> PathExists tools toolPath;
    ret (case r of
           Inl err \<Rightarrow> Some (ErrorString (''failed to check existence of '' @ Quote toolPath @ '': '' @
             error_text err))
         | Inr e \<Rightarrow>
             if \<not> e then Some (ErrorString (''could not find tool at '' @ Quote nvmeIdPath @
               '', unable to verify device paths''))
             else None)
  }"

definition ensureUdevToolsExist :: "'x dev_tools \<Rightarrow> ('x world, goerror option) state" where
  "ensureUdevToolsExist tools = do {
    e \<leftarrow> ensureUdevToolExists tools scsiIdPath;
    case e of
      Some err \<Rightarrow> ret (Some err)
    | None \<Rightarrow> ensureUdevToolExists tools nvmeIdPath
  }"

section \<open>Repairing a path\<close>

text \<open>
  \<open>filepath.Glob\<close> for a pattern that ends in a star and has no other special character: errors of the
  directory are ignored.
\<close>

definition Glob :: "string \<Rightarrow> ('x world, string list) state" where
  "Glob pattern = (let (d, file) = Split pattern; dir = butlast d in do {
    fi \<leftarrow> os_Stat dir;
    case fi of
      Inl _ \<Rightarrow> ret []
    | Inr i \<Rightarrow>
        if \<not> IsDir i then ret []
        else do {
          r \<leftarrow> readDirNames dir;
          ret (case r of
                 Inl _ \<Rightarrow> []
               | Inr ns \<Rightarrow> List.map (\<lambda>n. Join [dir, n]) (filter (\<lambda>n. HasPrefix n (butlast file)) ns))
        }
  })"

definition findAvailableDevFsPaths :: "('x world, string list) state" where
  "findAvailableDevFsPaths = do {
    diskSDPaths \<leftarrow> Glob diskSDPattern;
    diskNvmePaths \<leftarrow> Glob diskNvmePattern;
    ret (diskSDPaths @ diskNvmePaths)
  }"

definition udevadmChangeToDrive :: "'x dev_tools \<Rightarrow> string \<Rightarrow> ('x world, goerror option) state" where
  "udevadmChangeToDrive tools devFsPath = do {
    (out, err) \<leftarrow> Command tools
      [''udevadm'', ''trigger'', ''--action=change'', ''--property-match=DEVNAME='' @ devFsPath];
    ret (map_option (\<lambda>err. ErrorString (''udevadmChangeToDrive: udevadm trigger failed for drive '' @
      Quote devFsPath @ '' with output '' @ out @ '': '' @ error_text err @ ''.'')) err)
  }"

fun trigger_disk :: "'x dev_tools \<Rightarrow> string \<Rightarrow> string list \<Rightarrow> ('x world, goerror option) state" where
  "trigger_disk tools deviceName [] = ret (Some (ErrorString
    (''udevadm --trigger requested to fix disk '' @ deviceName @ '' but no such disk was found'')))"
| "trigger_disk tools deviceName (devFsPath # rest) = do {
    r \<leftarrow> getDevFsSerial tools devFsPath;
    case r of
      Inl _ \<Rightarrow> trigger_disk tools deviceName rest
    | Inr devFsSerial \<Rightarrow>
        if devFsSerial = '''' then trigger_disk tools deviceName rest
        else if devFsSerial = deviceName then do {
          e \<leftarrow> udevadmChangeToDrive tools devFsPath;
          ret (map_option (\<lambda>err. ErrorString (''failed to fix disk which has serial numberID '' @
            devFsSerial @ '': '' @ error_text err)) e)
        }
        else trigger_disk tools deviceName rest
  }"

definition udevadmTriggerForDiskIfExists :: "'x dev_tools \<Rightarrow> string \<Rightarrow> ('x world, goerror option) state" where
  "udevadmTriggerForDiskIfExists tools deviceName = do {
    devFsPaths \<leftarrow> findAvailableDevFsPaths;
    trigger_disk tools deviceName devFsPaths
  }"

section \<open>Verification\<close>

definition pathExists :: "string \<Rightarrow> ('x world, goerror + bool) state" where
  "pathExists path = do {
    r \<leftarrow> os_Stat path;
    ret (case r of
           Inr _ \<Rightarrow> Inr True
         | Inl err \<Rightarrow> if IsNotExist err then Inr False else Inl err)
  }"

text \<open>A repair, after which the poll goes on.\<close>

definition repair :: "'x dev_tools \<Rightarrow> string \<Rightarrow> string \<Rightarrow> ('x world, goerror + bool) state" where
  "repair tools what deviceName = do {
    e \<leftarrow> udevadmTriggerForDiskIfExists tools deviceName;
    ret (case e of
           Some err \<Rightarrow> Inl (WrapError (''failed to trigger udevadm fix of '' @ what @ '' disk for '' @
             Quote deviceName @ '': '' @ error_text err) err)
         | None \<Rightarrow> Inr False)
  }"

definition check_device ::
  "'x dev_tools \<Rightarrow> string \<Rightarrow> string \<Rightarrow> ('x world, goerror + bool) state" where
  "check_device tools devicePath deviceName = do {
    r \<leftarrow> pathExists devicePath;
    case r of
      Inl err \<Rightarrow> ret (Inl (WrapError (''failed to check for existing device path: '' @ error_text err) err))
    | Inr ok \<Rightarrow>
        if \<not> ok then ret (Inr False)
        else if devicePath = '''' then repair tools ''non existent'' deviceName
        else do {
          l \<leftarrow> EvalSymlinks devicePath;
          case l of
            Inl err \<Rightarrow> ret (Inl (ErrorString (''filepath.EvalSymlinks('' @ Quote devicePath @ '') failed with '' @
              error_text err)))
          | Inr devFsPath \<Rightarrow> do {
              s \<leftarrow> getDevFsSerial tools devFsPath;
              case s of
                Inl err \<Rightarrow> ret (Inl (WrapError (''couldn't get serial number for disk '' @ deviceName @
                  '' at path '' @ devFsPath @ '': '' @ error_text err) err))
              | Inr devFsSerial \<Rightarrow>
                  if devFsSerial \<noteq> '''' \<and> devFsSerial = deviceName then ret (Inr True)
                  else repair tools ''misconfigured'' deviceName
            }
        }
  }"

definition VerifyDevicePath ::
  "'x dev_tools \<Rightarrow> string \<Rightarrow> string \<Rightarrow> ('x world, bool \<times> goerror option) state" where
  "VerifyDevicePath tools devicePath deviceName = do {
    e \<leftarrow> ensureUdevToolsExist tools;
    case e of
      Some err \<Rightarrow> ret (False, Some err)
    | None \<Rightarrow> do {
        e \<leftarrow> Poll tools (check_device tools devicePath deviceName);
        ret (case e of
               Some err \<Rightarrow> (False, Some (WrapError (''failed to find and re-link disk '' @ deviceName @
                 '' with udevadm after retrying for 3s: '' @ error_text err) err))
             | None \<Rightarrow> (True, None))
      }
  }"

definition fake_VerifyDevicePath :: "string \<Rightarrow> string \<Rightarrow> ('x world, bool \<times> goerror option) state" where
  "fake_VerifyDevicePath devicePath diskName = ret (True, None)"

text \<open>The interface, and its two implementations.\<close>

record 'x device_utils =
  du_VerifyDevicePath :: "string \<Rightarrow> string \<Rightarrow> ('x world, bool \<times> goerror option) state"

definition NewDeviceUtils :: "'x dev_tools \<Rightarrow> 'x device_utils" where
  "NewDeviceUtils tools = \<lparr>du_VerifyDevicePath = VerifyDevicePath tools\<rparr>"

definition NewFakeDeviceUtils :: "'x device_utils" where
  "NewFakeDeviceUtils = \<lparr>du_VerifyDevicePath = fake_VerifyDevicePath\<rparr>"

end
