(* ===== verification/DeviceProps.thy ===== *)
theory DeviceProps
  imports DeviceUtils AtomicTheorems
begin

text \<open>
  What the verification of a device path guarantees, what it repairs, and the patterns its parsers match.
\<close>

section \<open>The patterns\<close>

text \<open>The texts that the two regular expressions match, with the serial number they capture.\<close>

definition spaces :: "string \<Rightarrow> bool" where
  "spaces w \<longleftrightarrow> list_all re_space w"

definition serial_text :: "string \<Rightarrow> bool" where
  "serial_text t \<longleftrightarrow> t \<noteq> '''' \<and> list_all (\<lambda>c. \<not> re_space c) t"

definition scsi_output :: "string \<Rightarrow> string \<Rightarrow> bool" where
  "scsi_output s t \<longleftrightarrow> (\<exists>v w x. s = ''0Google'' @ v @ ''PersistentDisk'' @ w @ t @ x \<and>
     spaces v \<and> v \<noteq> '''' \<and> spaces w \<and> w \<noteq> '''' \<and> spaces x \<and> serial_text t)"

definition nvme_at :: "string \<Rightarrow> nat \<Rightarrow> string \<Rightarrow> bool" where
  "nvme_at s n t \<longleftrightarrow> (\<exists>pre rest. s = pre @ serial_key @ t @ rest \<and> length pre = n \<and> serial_text t \<and>
     (rest = '''' \<or> re_space (hd rest)))"

definition nvme_output :: "string \<Rightarrow> string \<Rightarrow> bool" where
  "nvme_output s t \<longleftrightarrow> (\<exists>n. nvme_at s n t \<and> (\<forall>m < n. \<forall>u. \<not> nvme_at s m u))"

lemma read_text_Some: "read_text p s = Some r \<longleftrightarrow> s = p @ r"
  by (auto simp: read_text_def prefix_def)

lemma takeWhile_split:
  "list_all P a \<Longrightarrow> b = [] \<or> \<not> P (hd b) \<Longrightarrow> takeWhile P (a @ b) = a \<and> dropWhile P (a @ b) = b"
  by (induction a) (cases b; auto)+

lemma read_spaces_Some:
  "read_spaces s = Some r \<longleftrightarrow>
    (\<exists>w. s = w @ r \<and> spaces w \<and> w \<noteq> '''' \<and> (r = '''' \<or> \<not> re_space (hd r)))"
proof
  assume "read_spaces s = Some r"
  then have s: "s \<noteq> ''''" "re_space (hd s)" "r = dropWhile re_space s"
    by (simp_all add: read_spaces_def split: if_splits)
  then have "s = takeWhile re_space s @ r" "takeWhile re_space s \<noteq> ''''" "list_all re_space (takeWhile re_space s)"
    by (auto simp: list_all_iff takeWhile_eq_Nil_iff dest: set_takeWhileD)
  moreover have "r = '''' \<or> \<not> re_space (hd r)" using s(3) hd_dropWhile by blast
  ultimately show "\<exists>w. s = w @ r \<and> spaces w \<and> w \<noteq> '''' \<and> (r = '''' \<or> \<not> re_space (hd r))"
    unfolding spaces_def by blast
next
  assume "\<exists>w. s = w @ r \<and> spaces w \<and> w \<noteq> '''' \<and> (r = '''' \<or> \<not> re_space (hd r))"
  then obtain w where w: "s = w @ r" "list_all re_space w" "w \<noteq> ''''" "r = '''' \<or> \<not> re_space (hd r)"
    by (auto simp: spaces_def)
  then show "read_spaces s = Some r"
    using takeWhile_split [OF w(2,4)] by (cases w) (simp_all add: read_spaces_def)
qed

lemma serial_of_text: "serial_of s \<noteq> '''' \<Longrightarrow> serial_text (serial_of s)"
  by (auto simp: serial_text_def serial_of_def list_all_iff dest: set_takeWhileD)

lemma serial_of_append: "serial_text t \<Longrightarrow> r = '''' \<or> re_space (hd r) \<Longrightarrow> serial_of (t @ r) = t"
  using takeWhile_split [of "\<lambda>c. \<not> re_space c" t r] by (simp add: serial_text_def serial_of_def)

lemma serial_of_rest: "s = serial_of s @ drop (length (serial_of s)) s"
  unfolding serial_of_def dropWhile_eq_drop [symmetric] by simp

lemma serial_of_rest_space:
  "drop (length (serial_of s)) s = '''' \<or> re_space (hd (drop (length (serial_of s)) s))"
  unfolding serial_of_def dropWhile_eq_drop [symmetric] by (metis hd_dropWhile)

lemma spaces_hd: "spaces x \<Longrightarrow> x = '''' \<or> re_space (hd x)"
  by (cases x) (simp_all add: spaces_def)

lemma serial_text_hd: "serial_text t \<Longrightarrow> \<not> re_space (hd (t @ r))"
  by (cases t) (simp_all add: serial_text_def)

lemma scsi_match_iff: "scsi_match s = Some t \<longleftrightarrow> scsi_output s t"
proof
  assume "scsi_match s = Some t"
  then obtain a b r where r: "s = ''0Google'' @ a" "read_spaces a = Some (''PersistentDisk'' @ b)"
      "read_spaces b = Some r" "serial_of r \<noteq> ''''" "spaces (drop (length (serial_of r)) r)" "t = serial_of r"
    by (auto simp: scsi_match_def bind_eq_Some_conv read_text_Some spaces_def simp del: append_Cons split: if_splits)
  from r(2,3) obtain v w where "a = v @ ''PersistentDisk'' @ b" "spaces v" "v \<noteq> ''''"
      "b = w @ r" "spaces w" "w \<noteq> ''''"
    unfolding read_spaces_Some by blast
  with r serial_of_text [OF r(4)] show "scsi_output s t"
    unfolding scsi_output_def
    by (intro exI [of _ v] exI [of _ w] exI [of _ "drop (length (serial_of r)) r"])
      (simp flip: serial_of_rest)
next
  assume "scsi_output s t"
  then obtain v w x where s: "s = ''0Google'' @ v @ ''PersistentDisk'' @ w @ t @ x"
      "spaces v" "v \<noteq> ''''" "spaces w" "w \<noteq> ''''" "spaces x" "serial_text t"
    unfolding scsi_output_def by blast
  have "read_spaces (v @ ''PersistentDisk'' @ w @ t @ x) = Some (''PersistentDisk'' @ w @ t @ x)"
    unfolding read_spaces_Some using s by (intro exI [of _ v]) (simp add: re_space_def)
  moreover have "read_spaces (w @ t @ x) = Some (t @ x)"
    unfolding read_spaces_Some using s serial_text_hd by (intro exI [of _ w]) simp
  moreover have "serial_of (t @ x) = t" using s spaces_hd by (intro serial_of_append) simp_all
  moreover have "t \<noteq> ''''" using s(7) by (simp add: serial_text_def)
  moreover have "read_text ''0Google'' s = Some (v @ ''PersistentDisk'' @ w @ t @ x)"
    and "read_text ''PersistentDisk'' (''PersistentDisk'' @ w @ t @ x) = Some (w @ t @ x)"
    by (simp_all only: read_text_Some s(1))
  ultimately show "scsi_match s = Some t"
    using s(6) unfolding scsi_match_def by (simp add: spaces_def)
qed

lemma nvme_at_0:
  "nvme_at s 0 t \<longleftrightarrow> (\<exists>r. read_text serial_key s = Some r \<and> serial_of r = t \<and> t \<noteq> '''')"
proof
  assume "nvme_at s 0 t"
  then obtain rest where "s = serial_key @ t @ rest" "serial_text t" "rest = '''' \<or> re_space (hd rest)"
    unfolding nvme_at_def by auto
  then show "\<exists>r. read_text serial_key s = Some r \<and> serial_of r = t \<and> t \<noteq> ''''"
    by (intro exI [of _ "t @ rest"]) (simp add: read_text_Some serial_of_append serial_text_def)
next
  assume "\<exists>r. read_text serial_key s = Some r \<and> serial_of r = t \<and> t \<noteq> ''''"
  then obtain r where r: "s = serial_key @ r" "serial_of r = t" "t \<noteq> ''''" by (auto simp: read_text_Some)
  then show "nvme_at s 0 t"
    unfolding nvme_at_def
    using serial_of_text [of r] serial_of_rest [of r] serial_of_rest_space [of r]
    by (intro exI [of _ "[]"] exI [of _ "drop (length t) r"]) auto
qed

lemma nvme_at_Suc: "nvme_at (c # cs) (Suc n) t \<longleftrightarrow> nvme_at cs n t"
proof
  assume "nvme_at (c # cs) (Suc n) t"
  then obtain pre rest where p: "c # cs = pre @ serial_key @ t @ rest" "length pre = Suc n" "serial_text t"
      "rest = '''' \<or> re_space (hd rest)"
    unfolding nvme_at_def by blast
  then obtain q where "pre = c # q" "length q = n" by (cases pre) auto
  with p show "nvme_at cs n t" unfolding nvme_at_def by (intro exI [of _ q] exI [of _ rest]) simp
next
  assume "nvme_at cs n t"
  then obtain pre rest where p: "cs = pre @ serial_key @ t @ rest" "length pre = n" "serial_text t"
      "rest = '''' \<or> re_space (hd rest)"
    unfolding nvme_at_def by blast
  then show "nvme_at (c # cs) (Suc n) t"
    unfolding nvme_at_def by (intro exI [of _ "c # pre"] exI [of _ rest]) simp
qed

lemma nvme_at_Nil: "\<not> nvme_at [] n t"
  by (simp add: nvme_at_def serial_key_def)

lemma nvme_match_iff: "nvme_match s = Some t \<longleftrightarrow> nvme_output s t"
proof (induction s)
  case Nil
  show ?case by (simp add: nvme_output_def nvme_at_Nil)
next
  case (Cons c cs)
  show ?case
  proof (cases "\<exists>u. nvme_at (c # cs) 0 u")
    case True
    then obtain r where r: "read_text serial_key (c # cs) = Some r" "serial_of r \<noteq> ''''"
      by (auto simp: nvme_at_0)
    have "nvme_output (c # cs) t \<longleftrightarrow> nvme_at (c # cs) 0 t"
      unfolding nvme_output_def using True by (metis gr0I not_less0)
    with r show ?thesis by (auto simp: nvme_at_0)
  next
    case False
    then have n: "nvme_match (c # cs) = nvme_match cs" by (auto simp: nvme_at_0 split: option.split)
    have "nvme_output (c # cs) t \<longleftrightarrow> nvme_output cs t"
    proof
      assume "nvme_output (c # cs) t"
      then obtain n where n: "nvme_at (c # cs) n t" "\<forall>m < n. \<forall>u. \<not> nvme_at (c # cs) m u"
        unfolding nvme_output_def by blast
      with False obtain k where k: "n = Suc k" by (cases n) auto
      have "\<not> nvme_at cs m u" if "m < k" for m u
        using n(2) that k nvme_at_Suc by (metis Suc_less_eq)
      with n(1) k show "nvme_output cs t" unfolding nvme_output_def nvme_at_Suc by (auto simp: nvme_at_Suc)
    next
      assume "nvme_output cs t"
      then obtain n where n: "nvme_at cs n t" "\<forall>m < n. \<forall>u. \<not> nvme_at cs m u"
        unfolding nvme_output_def by blast
      have "\<not> nvme_at (c # cs) m u" if "m < Suc n" for m u
        using n(2) that False by (cases m) (auto simp: nvme_at_Suc)
      with n(1) show "nvme_output (c # cs) t"
        unfolding nvme_output_def by (intro exI [of _ "Suc n"]) (simp add: nvme_at_Suc)
    qed
    with Cons n show ?thesis by simp
  qed
qed

text \<open>
  C22. The parsers are the regular expressions: a serial number is read from the output of \<open>scsi_id\<close> exactly
  when the whole output has the form of the pattern, and from the output of \<open>google_nvme_id\<close> exactly when
  the leftmost place that matches holds it, with the longest run of characters that are not white space.
\<close>

theorem serial_parsers_match_patterns:
  "(parseScsiSerial s = Inr t \<longleftrightarrow> scsi_output s t) \<and> (parseNvmeSerial s = Inr t \<longleftrightarrow> nvme_output s t)"
  by (simp add: parseScsiSerial_def parseNvmeSerial_def scsi_match_iff [symmetric] nvme_match_iff [symmetric]
      split: option.split)

section \<open>Verification\<close>

text \<open>
  What the documentation says of \<open>wait.Poll\<close>: the condition runs after each interval, at least once, until
  it is true, returns an error or the time is over. \<open>env\<close> is what the rest of the machine, udev above all,
  may do to the world between the runs.
\<close>

inductive polls ::
  "('x world \<Rightarrow> 'x world \<Rightarrow> bool) \<Rightarrow> goerror \<Rightarrow> ('x world, goerror + bool) state \<Rightarrow> 'x world \<Rightarrow>
    goerror option \<Rightarrow> 'x world \<Rightarrow> bool"
  for env timeout cond where
  polls_done: "env w w1 \<Longrightarrow> run_state cond w1 = (Inr True, w2) \<Longrightarrow> polls env timeout cond w None w2"
| polls_error: "env w w1 \<Longrightarrow> run_state cond w1 = (Inl e, w2) \<Longrightarrow> polls env timeout cond w (Some e) w2"
| polls_again: "env w w1 \<Longrightarrow> run_state cond w1 = (Inr False, w2) \<Longrightarrow> polls env timeout cond w2 r w3 \<Longrightarrow>
    polls env timeout cond w r w3"
| polls_timeout: "env w w1 \<Longrightarrow> run_state cond w1 = (Inr False, w2) \<Longrightarrow>
    polls env timeout cond w (Some timeout) w2"

definition poll_law :: "('x world \<Rightarrow> 'x world \<Rightarrow> bool) \<Rightarrow> 'x dev_tools \<Rightarrow> bool" where
  "poll_law env tools \<longleftrightarrow> (\<exists>timeout. \<forall>cond w r w'.
     run_state (Poll tools cond) w = (r, w') \<longrightarrow> polls env timeout cond w r w')"

lemma polls_success:
  "polls env timeout cond w r w' \<Longrightarrow> r = None \<Longrightarrow> \<exists>w1. run_state cond w1 = (Inr True, w')"
  by (induction rule: polls.induct) auto

text \<open>The path leads to a device whose serial number, asked just before the end, is the expected one.\<close>

definition leads_to_disk ::
  "'x dev_tools \<Rightarrow> string \<Rightarrow> string \<Rightarrow> string \<Rightarrow> 'x world \<Rightarrow> bool" where
  "leads_to_disk tools path name dev w' \<longleftrightarrow> (\<exists>w1 w2.
     run_state (EvalSymlinks path) w1 = (Inr dev, w2) \<and>
     run_state (getDevFsSerial tools dev) w2 = (Inr name, w'))"

lemma repair_never_done: "run_state (repair tools what name) w \<noteq> (Inr True, w')"
  by (auto simp: repair_def split: prod.splits option.splits)

lemma serial_prefix:
  "run_state (getDevFsSerial tools dev) w = (Inr t, w') \<Longrightarrow> t \<noteq> '''' \<Longrightarrow>
    HasPrefix dev diskSDPath \<or> HasPrefix dev diskNvmePath"
  by (auto simp: getDevFsSerial_def split: if_splits)

lemma check_device_done:
  assumes "run_state (check_device tools path name) w = (Inr True, w')"
  shows "name \<noteq> '''' \<and> (\<exists>dev. leads_to_disk tools path name dev w' \<and>
    (HasPrefix dev diskSDPath \<or> HasPrefix dev diskNvmePath))"
proof -
  obtain r1 w1 where p: "run_state (pathExists path) w = (r1, w1)" by fastforce
  obtain r2 w2 where l: "run_state (EvalSymlinks path) w1 = (r2, w2)" by fastforce
  have nr: "run_state (repair tools what name) v \<noteq> (Inr True, w')" for what v by (rule repair_never_done)
  have "r1 = Inr True" using assms p nr by (auto simp: check_device_def split: sum.splits if_splits)
  moreover have "path \<noteq> ''''" using assms p nr calculation by (auto simp: check_device_def split: if_splits)
  moreover obtain dev where d: "r2 = Inr dev"
    using assms p l calculation by (cases r2) (auto simp: check_device_def)
  moreover obtain r3 w3 where g: "run_state (getDevFsSerial tools dev) w2 = (r3, w3)" by fastforce
  ultimately have "r3 = Inr name \<and> w3 = w' \<and> name \<noteq> ''''"
    using assms p l nr by (auto simp: check_device_def split: sum.splits if_splits)
  with g have "run_state (getDevFsSerial tools dev) w2 = (Inr name, w')" "name \<noteq> ''''" by auto
  then show ?thesis
    unfolding leads_to_disk_def using l d serial_prefix by blast
qed

text \<open>
  C21. \<open>VerifyDevicePath\<close> reports success only when the path led, in the last check it made, to a device below
  \<open>/dev/sd\<close> or \<open>/dev/nvme\<close> whose serial number is the name asked for; in every other case it returns an error.
\<close>

theorem verified_device_has_serial:
  assumes "poll_law env tools" and "run_state (VerifyDevicePath tools path name) w = (r, w')"
  shows "(r = (True, None) \<and> name \<noteq> '''' \<and> (\<exists>dev. leads_to_disk tools path name dev w' \<and>
      (HasPrefix dev diskSDPath \<or> HasPrefix dev diskNvmePath))) \<or>
    (\<exists>err. r = (False, Some err))"
proof -
  obtain e1 w1 where t: "run_state (ensureUdevToolsExist tools) w = (e1, w1)" by fastforce
  obtain e2 w2 where p: "run_state (Poll tools (check_device tools path name)) w1 = (e2, w2)" by fastforce
  show ?thesis
  proof (cases e1)
    case (Some err)
    then show ?thesis using assms(2) t by (auto simp: VerifyDevicePath_def)
  next
    case e1: None
    show ?thesis
    proof (cases e2)
      case (Some err)
      then show ?thesis using assms(2) t p e1 by (auto simp: VerifyDevicePath_def)
    next
      case None
      have "r = (True, None)" "w' = w2"
        using assms(2) t p e1 None by (auto simp: VerifyDevicePath_def)
      moreover obtain w3 where "run_state (check_device tools path name) w3 = (Inr True, w2)"
        using assms(1) p None polls_success unfolding poll_law_def by metis
      ultimately show ?thesis using check_device_done by blast
    qed
  qed
qed

text \<open>Tools for one SCSI disk, and a poll that runs the condition once.\<close>

definition tools0 :: "unit dev_tools" where
  "tools0 = \<lparr>Command = (\<lambda>args. ret (''0Google PersistentDisk disk-1'', None)), PathExists = (\<lambda>_. ret (Inr True)),
    Poll = (\<lambda>cond. map_state (\<lambda>r. case r of
      Inl e \<Rightarrow> Some e | Inr b \<Rightarrow> if b then None else Some (Sentinel ''timed out waiting for the condition'')) cond)\<rparr>"

lemma poll_law0: "poll_law (=) tools0"
proof -
  have "polls (=) (Sentinel ''timed out waiting for the condition'') cond w r w'"
    if "run_state (Poll tools0 cond) w = (r, w')" for cond and w :: "unit world" and r w'
  proof -
    obtain s v where run: "run_state cond w = (s, v)" by fastforce
    with that show ?thesis
      by (cases s) (auto simp: tools0_def intro: polls.intros split: if_splits)
  qed
  then show ?thesis unfolding poll_law_def by blast
qed

definition devices0 :: fstore where
  "devices0 = [([''dev''], inode0 Directory), ([''dev'', ''sda''], inode0 BlockDevice),
     ([''dev'', ''disk''], inode0 (Symlink ''sda''))]"

lemma verified0:
  "fst (run_state (VerifyDevicePath tools0 ''/dev/disk'' ''disk-1'') (world0 devices0)) = (True, None)"
  by code_simp

theorem verified_device_has_serial_witness:
  "\<exists>w' dev. run_state (VerifyDevicePath tools0 ''/dev/disk'' ''disk-1'') (world0 devices0) = ((True, None), w') \<and>
    leads_to_disk tools0 ''/dev/disk'' ''disk-1'' dev w'"
proof -
  obtain w' where run: "run_state (VerifyDevicePath tools0 ''/dev/disk'' ''disk-1'') (world0 devices0) =
    ((True, None), w')" using verified0 by (metis prod.collapse)
  from verified_device_has_serial [OF poll_law0 run] run show ?thesis by blast
qed

text \<open>
  A path that does not exist is never repaired: the check asks for the path once and runs no program, and
  the branch for an empty path is never taken.
\<close>

theorem missing_path_not_repaired:
  assumes "faults w (calls w) = None" and "st_get True path (store w) = Inl ENOENT"
  shows "run_state (check_device tools path name) w = (Inr False, w\<lparr>calls := Suc (calls w)\<rparr>)"
  using assms by (simp add: check_device_def pathExists_def os_Stat_def sys_read_def lift_err_def)

theorem missing_path_not_repaired_witness:
  "run_state (check_device tools0 '''' ''disk-1'') (world0 devices0) =
    (Inr False, (world0 devices0)\<lparr>calls := 1\<rparr>)"
  using missing_path_not_repaired [of "world0 devices0" "''''" tools0 "''disk-1''"]
  by (simp add: world0_def st_get_def namei_def)

end
