(* ===== verification/Statter.thy ===== *)
theory Statter
  imports FileSystem
begin

unbundle bit_operations_syntax

text \<open>
  \<open>mount-manager/statter.go\<close> and \<open>statter_linux.go\<close>: the space and inodes of a file system, in 64-bit
  integers that wrap around. The two system calls of \<open>golang.org/x/sys/unix\<close> are a record of operations,
  given as a parameter. A word stands for its bits: a conversion between \<open>uint64\<close> and \<open>int64\<close> keeps them,
  and \<open>sint\<close> reads an \<open>int64\<close>.
\<close>

section \<open>System calls\<close>

record Statfs_t =
  Bsize :: "64 word"
  Blocks :: "64 word"
  Bfree :: "64 word"
  Bavail :: "64 word"
  Files :: "64 word"
  Ffree :: "64 word"

record 'x unix_calls =
  Statfs :: "string \<Rightarrow> ('x world, goerror + Statfs_t) state"
  Stat_mode :: "string \<Rightarrow> ('x world, goerror + 32 word) state"

definition S_IFMT :: "32 word" where "S_IFMT = 0xF000"
definition S_IFBLK :: "32 word" where "S_IFBLK = 0x6000"

section \<open>Operations\<close>

record usage =
  available :: "64 word"
  capacity :: "64 word"
  used :: "64 word"
  inodesFree :: "64 word"
  inodes :: "64 word"
  inodesUsed :: "64 word"

definition no_usage :: usage where
  "no_usage = \<lparr>available = 0, capacity = 0, used = 0, inodesFree = 0, inodes = 0, inodesUsed = 0\<rparr>"

definition IsBlockDevice :: "'x unix_calls \<Rightarrow> string \<Rightarrow> ('x world, bool \<times> goerror option) state" where
  "IsBlockDevice unix fullPath = do {
    r \<leftarrow> Stat_mode unix fullPath;
    ret (case r of
           Inl err \<Rightarrow> (False, Some err)
         | Inr mode \<Rightarrow> (mode AND S_IFMT = S_IFBLK, None))
  }"

definition usage_of :: "Statfs_t \<Rightarrow> usage" where
  "usage_of s =
    \<lparr>available = Bavail s * Bsize s,
     capacity = Blocks s * Bsize s,
     used = (Blocks s - Bfree s) * Bsize s,
     inodesFree = Ffree s,
     inodes = Files s,
     inodesUsed = Files s - Ffree s\<rparr>"

definition StatFS :: "'x unix_calls \<Rightarrow> string \<Rightarrow> ('x world, usage \<times> goerror option) state" where
  "StatFS unix path = do {
    r \<leftarrow> Statfs unix path;
    ret (case r of
           Inl err \<Rightarrow> (no_usage, Some (ErrorString (''failed to get fs info on path '' @ path @ '': '' @
             error_text err)))
         | Inr statfs \<Rightarrow> (usage_of statfs, None))
  }"

definition fake_StatFS :: "string \<Rightarrow> ('x world, usage \<times> goerror option) state" where
  "fake_StatFS path =
    ret (\<lparr>available = 1, capacity = 1, used = 1, inodesFree = 1, inodes = 1, inodesUsed = 1\<rparr>, None)"

definition fake_IsBlockDevice :: "string \<Rightarrow> ('x world, bool \<times> goerror option) state" where
  "fake_IsBlockDevice fullPath = ret (False, None)"

section \<open>Bounds\<close>

lemma int64_of_nonneg:
  "0 \<le> z \<Longrightarrow> z < 2 ^ 63 \<Longrightarrow> sint (word_of_int z :: 64 word) = z"
  unfolding sint_sbintrunc' by (simp add: signed_take_bit_int_eq_self_iff)

lemma int64_mult:
  fixes a b :: "64 word"
  assumes "uint a * uint b < 2 ^ 63"
  shows "sint (a * b) = uint a * uint b"
proof -
  have "a * b = word_of_int (uint a * uint b)" by simp
  then show ?thesis using int64_of_nonneg [of "uint a * uint b"] assms by simp
qed

lemma int64_small: "uint (a :: 64 word) < 2 ^ 63 \<Longrightarrow> sint a = uint a"
  using int64_of_nonneg [of "uint a"] by simp

lemma uint_minus: "(b :: 64 word) \<le> a \<Longrightarrow> uint (a - b) = uint a - uint b"
  by (simp add: uint_minus_simple_alt [symmetric])

text \<open>
  C24. The usage of a file system: the identities between the numbers hold whatever the kernel reports, up to
  wrap-around, and the numbers are the exact ones, with neither negative nor inconsistent values, when the
  total size and the number of inodes are below \<open>2\<^sup>6\<^sup>3\<close> and the kernel's counts are consistent.
\<close>

theorem usage_bounds:
  "used (usage_of s) = capacity (usage_of s) - Bfree s * Bsize s \<and>
   inodesUsed (usage_of s) + inodesFree (usage_of s) = inodes (usage_of s) \<and>
   (uint (Blocks s) * uint (Bsize s) < 2 ^ 63 \<and> Bavail s \<le> Bfree s \<and> Bfree s \<le> Blocks s \<longrightarrow>
     sint (capacity (usage_of s)) = uint (Blocks s) * uint (Bsize s) \<and>
     sint (available (usage_of s)) = uint (Bavail s) * uint (Bsize s) \<and>
     sint (used (usage_of s)) = (uint (Blocks s) - uint (Bfree s)) * uint (Bsize s) \<and>
     0 \<le> sint (available (usage_of s)) \<and> 0 \<le> sint (used (usage_of s)) \<and>
     sint (available (usage_of s)) + sint (used (usage_of s)) \<le> sint (capacity (usage_of s))) \<and>
   (uint (Files s) < 2 ^ 63 \<and> Ffree s \<le> Files s \<longrightarrow>
     sint (inodesUsed (usage_of s)) = uint (Files s) - uint (Ffree s) \<and>
     sint (inodesFree (usage_of s)) = uint (Ffree s) \<and> sint (inodes (usage_of s)) = uint (Files s))"
proof (intro conjI impI; (elim conjE)?)
  show "used (usage_of s) = capacity (usage_of s) - Bfree s * Bsize s"
    by (simp add: usage_of_def left_diff_distrib)
  show "inodesUsed (usage_of s) + inodesFree (usage_of s) = inodes (usage_of s)"
    by (simp add: usage_of_def)
next
  assume size: "uint (Blocks s) * uint (Bsize s) < 2 ^ 63" and le: "Bavail s \<le> Bfree s" "Bfree s \<le> Blocks s"
  have small: "uint a * uint (Bsize s) < 2 ^ 63" if "a \<le> Blocks s" for a
    using size mult_right_mono [of "uint a" "uint (Blocks s)" "uint (Bsize s)"] that
    by (simp add: word_le_def)
  have sub: "uint (Blocks s - Bfree s) = uint (Blocks s) - uint (Bfree s)"
    using le(2) by (rule uint_minus)
  have d: "Blocks s - Bfree s \<le> Blocks s" using sub by (simp add: word_le_def)
  show cap: "sint (capacity (usage_of s)) = uint (Blocks s) * uint (Bsize s)"
    using small [OF order_refl] by (simp add: usage_of_def int64_mult)
  show av: "sint (available (usage_of s)) = uint (Bavail s) * uint (Bsize s)"
    using small [OF order_trans [OF le]] by (simp add: usage_of_def int64_mult)
  show us: "sint (used (usage_of s)) = (uint (Blocks s) - uint (Bfree s)) * uint (Bsize s)"
    using small [OF d] by (simp add: usage_of_def int64_mult sub)
  show "0 \<le> sint (available (usage_of s))" unfolding av by simp
  show "0 \<le> sint (used (usage_of s))" unfolding us using le(2) by (simp add: word_le_def)
  have "(uint (Bavail s) + (uint (Blocks s) - uint (Bfree s))) * uint (Bsize s) \<le> uint (Blocks s) * uint (Bsize s)"
    using le(1) by (intro mult_right_mono) (simp_all add: word_le_def)
  then show "sint (available (usage_of s)) + sint (used (usage_of s)) \<le> sint (capacity (usage_of s))"
    unfolding cap av us by (simp add: distrib_right)
next
  assume f: "uint (Files s) < 2 ^ 63" "Ffree s \<le> Files s"
  have sub: "uint (Files s - Ffree s) = uint (Files s) - uint (Ffree s)" using f(2) by (rule uint_minus)
  have "uint (Ffree s) \<le> uint (Files s)" "0 \<le> uint (Ffree s)" using f(2) by (simp_all add: word_le_def)
  with f(1) have l: "uint (Files s - Ffree s) < 2 ^ 63" "uint (Ffree s) < 2 ^ 63"
    unfolding sub by linarith+
  show "sint (inodesUsed (usage_of s)) = uint (Files s) - uint (Ffree s)"
    using int64_small [OF l(1)] sub by (simp add: usage_of_def)
  show "sint (inodesFree (usage_of s)) = uint (Ffree s)" using int64_small [OF l(2)] by (simp add: usage_of_def)
  show "sint (inodes (usage_of s)) = uint (Files s)" using int64_small [OF f(1)] by (simp add: usage_of_def)
qed

theorem usage_bounds_witness:
  "sint (used (usage_of \<lparr>Bsize = 4096, Blocks = 1000, Bfree = 300, Bavail = 250, Files = 50, Ffree = 20\<rparr>)) =
    2867200"
proof -
  let ?s = "\<lparr>Bsize = 4096, Blocks = 1000, Bfree = 300, Bavail = 250, Files = 50, Ffree = 20\<rparr> :: Statfs_t"
  have "uint (Blocks ?s) * uint (Bsize ?s) < 2 ^ 63 \<and> Bavail ?s \<le> Bfree ?s \<and> Bfree ?s \<le> Blocks ?s"
    by simp
  then have "sint (used (usage_of ?s)) = (uint (Blocks ?s) - uint (Bfree ?s)) * uint (Bsize ?s)"
    using usage_bounds [of ?s] by blast
  then show ?thesis by simp
qed

end
