(* ===== verification/CsiProxy.thy ===== *)
theory CsiProxy
  imports MountUtils Strconv
begin

text \<open>
  \<open>mount-manager/safe-mounter-v1_windows.go\<close>, \<open>safe-mounter-v1beta_windows.go\<close> and
  \<open>safe-mounter_windows.go\<close>: mounting on Windows through the csi-proxy service, in two versions of its API, and
  the choice between them. The clients of \<open>github.com/kubernetes-csi/csi-proxy\<close> are records of operations, given
  as parameters: a request's fields are the arguments, and the result is an error or what the code reads of the
  response. A map is the list of its entries in the order of iteration. \<open>None\<close> as a result is a run-time panic.
\<close>

section \<open>Errors and results\<close>

text \<open>Go's \<open>if err != nil { return err }\<close>, after a call without and with a result.\<close>

definition attempt ::
  "('s, goerror option) state \<Rightarrow> ('s, goerror option) state \<Rightarrow> ('s, goerror option) state" where
  "attempt m k = do { e \<leftarrow> m; case e of Some err \<Rightarrow> ret (Some err) | None \<Rightarrow> k }"

definition fetch ::
  "('s, goerror + 'a) state \<Rightarrow> ('a \<Rightarrow> ('s, goerror option) state) \<Rightarrow> ('s, goerror option) state" where
  "fetch m k = do { r \<leftarrow> m; case r of Inl err \<Rightarrow> ret (Some err) | Inr a \<Rightarrow> k a }"

section \<open>The host and the clients\<close>

text \<open>
  The Windows host: \<open>NormalizeWindowsPath\<close> of \<open>k8s.io/mount-utils\<close>, \<open>filepath.Dir\<close> and \<open>os.MkdirAll\<close> as they are
  built for Windows.
\<close>

record 'x windows =
  NormalizeWindowsPath :: "string \<Rightarrow> string"
  win_Dir :: "string \<Rightarrow> string"
  win_MkdirAll :: "string \<Rightarrow> 32 word \<Rightarrow> ('x world, goerror option) state"

record 'x v1_clients =
  fs_Version :: string
  disk_Version :: string
  volume_Version :: string
  CreateSymlink :: "string \<Rightarrow> string \<Rightarrow> ('x world, goerror option) state"
  Rmdir :: "string \<Rightarrow> bool \<Rightarrow> ('x world, goerror option) state"
  IsSymlink :: "string \<Rightarrow> ('x world, goerror + bool) state"
  fs_PathExists :: "string \<Rightarrow> ('x world, goerror + bool) state"
  ListDiskIDs :: "('x world, goerror + (32 word \<times> string) list) state"
  PartitionDisk :: "32 word \<Rightarrow> ('x world, goerror option) state"
  SetDiskState :: "32 word \<Rightarrow> bool \<Rightarrow> ('x world, goerror option) state"
  GetDiskStats :: "32 word \<Rightarrow> ('x world, goerror + 64 word) state"
  GetVolumeIDFromTargetPath :: "string \<Rightarrow> ('x world, goerror + string) state"
  UnmountVolume :: "string \<Rightarrow> string \<Rightarrow> ('x world, goerror option) state"
  GetDiskNumberFromVolumeID :: "string \<Rightarrow> ('x world, goerror + 32 word) state"
  ListVolumesOnDisk :: "32 word \<Rightarrow> ('x world, goerror + string list) state"
  IsVolumeFormatted :: "string \<Rightarrow> ('x world, goerror + bool) state"
  FormatVolume :: "string \<Rightarrow> ('x world, goerror option) state"
  MountVolume :: "string \<Rightarrow> string \<Rightarrow> ('x world, goerror option) state"
  GetVolumeStats :: "string \<Rightarrow> ('x world, goerror + 64 word \<times> 64 word) state"

datatype path_context = POD | PLUGIN

record 'x v1beta_clients =
  b_fs_Version :: string
  b_disk_Version :: string
  b_volume_Version :: string
  b_LinkPath :: "string \<Rightarrow> string \<Rightarrow> ('x world, goerror + string) state"
  b_Rmdir :: "string \<Rightarrow> path_context \<Rightarrow> bool \<Rightarrow> ('x world, goerror option) state"
  b_IsMountPoint :: "string \<Rightarrow> ('x world, goerror + bool) state"
  b_PathExists :: "string \<Rightarrow> ('x world, goerror + bool) state"
  b_ListDiskIDs :: "('x world, goerror + (string \<times> (string \<rightharpoonup> string)) list) state"
  b_PartitionDisk :: "string \<Rightarrow> ('x world, goerror option) state"
  b_SetAttachState :: "string \<Rightarrow> bool \<Rightarrow> ('x world, goerror option) state"
  b_DiskStats :: "string \<Rightarrow> ('x world, goerror + 64 word) state"
  b_GetVolumeIDFromMount :: "string \<Rightarrow> ('x world, goerror + string) state"
  b_DismountVolume :: "string \<Rightarrow> string \<Rightarrow> ('x world, goerror option) state"
  b_GetVolumeDiskNumber :: "string \<Rightarrow> ('x world, goerror + 64 word) state"
  b_ListVolumesOnDisk :: "string \<Rightarrow> ('x world, goerror + string list) state"
  b_IsVolumeFormatted :: "string \<Rightarrow> ('x world, goerror + bool) state"
  b_FormatVolume :: "string \<Rightarrow> ('x world, goerror option) state"
  b_MountVolume :: "string \<Rightarrow> string \<Rightarrow> ('x world, goerror option) state"
  b_VolumeStats :: "string \<Rightarrow> ('x world, goerror + 64 word \<times> 64 word) state"

section \<open>Version 1\<close>

definition v1_GetAPIVersions :: "'x v1_clients \<Rightarrow> string" where
  "v1_GetAPIVersions c = ''API Versions Disk: '' @ disk_Version c @ '', Filesystem: '' @ fs_Version c @
     '', Volume: '' @ volume_Version c"

definition v1_MountSensitive ::
  "'x windows \<Rightarrow> 'x v1_clients \<Rightarrow> string \<Rightarrow> string \<Rightarrow> string \<Rightarrow> string list \<Rightarrow> string list \<Rightarrow>
    ('x world, goerror option) state" where
  "v1_MountSensitive os c source target fstype options sensitiveOptions =
    (let parentDir = win_Dir os target
     in attempt (win_MkdirAll os parentDir 0x1ED)
       (CreateSymlink c (NormalizeWindowsPath os source) (NormalizeWindowsPath os target)))"

definition v1_Mount ::
  "'x windows \<Rightarrow> 'x v1_clients \<Rightarrow> string \<Rightarrow> string \<Rightarrow> string \<Rightarrow> string list \<Rightarrow>
    ('x world, goerror option) state" where
  "v1_Mount os c source target fstype options = v1_MountSensitive os c source target fstype options []"

definition v1_RemovePodDir :: "'x windows \<Rightarrow> 'x v1_clients \<Rightarrow> string \<Rightarrow> ('x world, goerror option) state" where
  "v1_RemovePodDir os c target = Rmdir c (NormalizeWindowsPath os target) True"

definition v1_ExistsPath :: "'x windows \<Rightarrow> 'x v1_clients \<Rightarrow> string \<Rightarrow> ('x world, goerror + bool) state" where
  "v1_ExistsPath os c path = fs_PathExists c (NormalizeWindowsPath os path)"

definition v1_UnmountDevice :: "'x windows \<Rightarrow> 'x v1_clients \<Rightarrow> string \<Rightarrow> ('x world, goerror option) state" where
  "v1_UnmountDevice os c target0 = (let target = NormalizeWindowsPath os target0 in
    fetch (v1_ExistsPath os c target) (\<lambda>there.
    if \<not> there then ret None
    else
      fetch (GetVolumeIDFromTargetPath c target) (\<lambda>volumeId.
      attempt (UnmountVolume c target volumeId)
     (attempt (Rmdir c target True)
     (fetch (GetDiskNumberFromVolumeID c volumeId) (\<lambda>diskNumber.
      SetDiskState c diskNumber False))))))"

definition v1_Unmount :: "'x windows \<Rightarrow> 'x v1_clients \<Rightarrow> string \<Rightarrow> ('x world, goerror option) state" where
  "v1_Unmount os c target = v1_RemovePodDir os c target"

text \<open>Looking for the disk whose page 83 identifier ends in the device name; the index fails on a blank one.\<close>

fun v1_find_disk :: "string \<Rightarrow> (32 word \<times> string) list \<Rightarrow> (string \<times> goerror option) option" where
  "v1_find_disk deviceName [] =
    Some ('''', Some (ErrorString (''could not find disk number for device '' @ deviceName)))"
| "v1_find_disk deviceName ((diskNum, idValue) # disks) =
    (if idValue = '''' then v1_find_disk deviceName disks
     else let ns = Fields idValue
          in if ns = [] then None
             else if last ns = deviceName then Some (show_nat (unat diskNum), None)
             else v1_find_disk deviceName disks)"

definition v1_GetDiskNumber ::
  "'x v1_clients \<Rightarrow> string \<Rightarrow> string \<Rightarrow> string \<Rightarrow> ('x world, (string \<times> goerror option) option) state" where
  "v1_GetDiskNumber c deviceName part volumeKey = do {
    r \<leftarrow> ListDiskIDs c;
    ret (case r of Inl err \<Rightarrow> Some ('''', Some err) | Inr disks \<Rightarrow> v1_find_disk deviceName disks)
  }"

definition v1_FormatAndMount ::
  "'x v1_clients \<Rightarrow> string \<Rightarrow> string \<Rightarrow> string \<Rightarrow> string list \<Rightarrow> ('x world, goerror option) state" where
  "v1_FormatAndMount c source target fstype options =
    fetch (ret (ParseUint source)) (\<lambda>diskNumberUint64.
    let diskNumber = (of_nat diskNumberUint64 :: 32 word) in
    attempt (PartitionDisk c diskNumber)
   (attempt (SetDiskState c diskNumber True)
   (fetch (ListVolumesOnDisk c diskNumber) (\<lambda>volumeIds.
    case volumeIds of
      [] \<Rightarrow> ret (Some (ErrorString ''ListVolumesOnDisk does not return any volumes''))
    | volumeID # _ \<Rightarrow>
        fetch (IsVolumeFormatted c volumeID) (\<lambda>formatted.
        attempt (if \<not> formatted then FormatVolume c volumeID else ret None)
          (MountVolume c volumeID target))))))"

definition v1_GetMountRefs :: "string \<Rightarrow> ('x world, string list \<times> goerror option) state" where
  "v1_GetMountRefs pathname = ret ([], Some (ErrorString ''GetMountRefs not implemented for ProxyMounter''))"

definition v1_IsLikelyNotMountPoint ::
  "'x v1_clients \<Rightarrow> string \<Rightarrow> ('x world, bool \<times> goerror option) state" where
  "v1_IsLikelyNotMountPoint c file = do {
    r \<leftarrow> IsSymlink c file;
    ret (case r of Inl err \<Rightarrow> (True, Some err) | Inr s \<Rightarrow> (\<not> s, None))
  }"

definition v1_List :: "('x world, goerror + mount_point list) state" where
  "v1_List = ret (Inr [])"

definition v1_IsMountPointMatch :: "mount_point \<Rightarrow> string \<Rightarrow> bool" where
  "v1_IsMountPointMatch mp dir \<longleftrightarrow> mp_Path mp = dir"

text \<open>The response is read before the error is tested, and it is nil when there is an error.\<close>

definition v1_GetDiskTotalBytes ::
  "'x v1_clients \<Rightarrow> string \<Rightarrow> ('x world, (64 word \<times> goerror option) option) state" where
  "v1_GetDiskTotalBytes c devicePath =
    (case ParseUint devicePath of
       Inl err \<Rightarrow> ret (Some (0, Some err))
     | Inr diskNumberUint64 \<Rightarrow> do {
         r \<leftarrow> GetDiskStats c (of_nat diskNumberUint64);
         ret (case r of Inl _ \<Rightarrow> None | Inr totalBytes \<Rightarrow> Some (totalBytes, None))
       })"

definition v1_MountSensitiveWithoutSystemd ::
  "string \<Rightarrow> string \<Rightarrow> string \<Rightarrow> string list \<Rightarrow> string list \<Rightarrow> ('x world, goerror option) state" where
  "v1_MountSensitiveWithoutSystemd source target fstype options sensitiveOptions =
    ret (Some (ErrorString ''MountSensitiveWithoutSystemd is not implemented''))"

definition v1_MountSensitiveWithoutSystemdWithMountFlags ::
  "string \<Rightarrow> string \<Rightarrow> string \<Rightarrow> string list \<Rightarrow> string list \<Rightarrow> string list \<Rightarrow>
    ('x world, goerror option) state" where
  "v1_MountSensitiveWithoutSystemdWithMountFlags source target fstype options sensitiveOptions mountFlags =
    ret (Some (ErrorString ''MountSensitiveWithoutSystemd is not implemented''))"

section \<open>Version 1 beta\<close>

definition v1beta_GetAPIVersions :: "'x v1beta_clients \<Rightarrow> string" where
  "v1beta_GetAPIVersions c = ''API Versions Disk: '' @ b_disk_Version c @ '', Filesystem: '' @ b_fs_Version c @
     '', Volume: '' @ b_volume_Version c"

definition v1beta_MountSensitive ::
  "'x windows \<Rightarrow> 'x v1beta_clients \<Rightarrow> string \<Rightarrow> string \<Rightarrow> string \<Rightarrow> string list \<Rightarrow> string list \<Rightarrow>
    ('x world, goerror option) state" where
  "v1beta_MountSensitive os c source target fstype options sensitiveOptions =
    (let parentDir = win_Dir os target
     in attempt (win_MkdirAll os parentDir 0x1ED)
       (fetch (b_LinkPath c (NormalizeWindowsPath os source) (NormalizeWindowsPath os target)) (\<lambda>responseError.
        ret (if responseError \<noteq> '''' then Some (ErrorString responseError) else None))))"

definition v1beta_Mount ::
  "'x windows \<Rightarrow> 'x v1beta_clients \<Rightarrow> string \<Rightarrow> string \<Rightarrow> string \<Rightarrow> string list \<Rightarrow>
    ('x world, goerror option) state" where
  "v1beta_Mount os c source target fstype options = v1beta_MountSensitive os c source target fstype options []"

definition v1beta_RemovePodDir ::
  "'x windows \<Rightarrow> 'x v1beta_clients \<Rightarrow> string \<Rightarrow> ('x world, goerror option) state" where
  "v1beta_RemovePodDir os c target = b_Rmdir c (NormalizeWindowsPath os target) POD True"

definition v1beta_ExistsPath ::
  "'x windows \<Rightarrow> 'x v1beta_clients \<Rightarrow> string \<Rightarrow> ('x world, goerror + bool) state" where
  "v1beta_ExistsPath os c path = b_PathExists c (NormalizeWindowsPath os path)"

definition v1beta_UnmountDevice ::
  "'x windows \<Rightarrow> 'x v1beta_clients \<Rightarrow> string \<Rightarrow> ('x world, goerror option) state" where
  "v1beta_UnmountDevice os c target0 = (let target = NormalizeWindowsPath os target0 in
    fetch (v1beta_ExistsPath os c target) (\<lambda>there.
    if \<not> there then ret None
    else
      fetch (b_GetVolumeIDFromMount c target) (\<lambda>volumeId.
      attempt (b_DismountVolume c target volumeId)
     (attempt (b_Rmdir c target PLUGIN True)
     (fetch (b_GetVolumeDiskNumber c volumeId) (\<lambda>diskId.
      b_SetAttachState c (show_int (sint diskId)) False))))))"

definition v1beta_Unmount ::
  "'x windows \<Rightarrow> 'x v1beta_clients \<Rightarrow> string \<Rightarrow> ('x world, goerror option) state" where
  "v1beta_Unmount os c target = v1beta_RemovePodDir os c target"

fun v1beta_find_disk ::
  "string \<Rightarrow> (string \<times> (string \<rightharpoonup> string)) list \<Rightarrow> (string \<times> goerror option) option" where
  "v1beta_find_disk deviceName [] =
    Some ('''', Some (ErrorString (''could not find disk number for device '' @ deviceName)))"
| "v1beta_find_disk deviceName ((diskNum, identifiers) # disks) =
    (case identifiers ''page83'' of
       None \<Rightarrow> v1beta_find_disk deviceName disks
     | Some idValue \<Rightarrow>
         if idValue = '''' then v1beta_find_disk deviceName disks
         else let ns = Fields idValue
              in if ns = [] then None
                 else if last ns = deviceName then Some (diskNum, None)
                 else v1beta_find_disk deviceName disks)"

definition v1beta_GetDiskNumber ::
  "'x v1beta_clients \<Rightarrow> string \<Rightarrow> string \<Rightarrow> string \<Rightarrow> ('x world, (string \<times> goerror option) option) state" where
  "v1beta_GetDiskNumber c deviceName part volumeKey = do {
    r \<leftarrow> b_ListDiskIDs c;
    ret (case r of Inl err \<Rightarrow> Some ('''', Some err) | Inr disks \<Rightarrow> v1beta_find_disk deviceName disks)
  }"

definition v1beta_FormatAndMount ::
  "'x v1beta_clients \<Rightarrow> string \<Rightarrow> string \<Rightarrow> string \<Rightarrow> string list \<Rightarrow> ('x world, goerror option) state" where
  "v1beta_FormatAndMount c source target fstype options =
    attempt (b_PartitionDisk c source)
   (attempt (b_SetAttachState c source True)
   (fetch (b_ListVolumesOnDisk c source) (\<lambda>volumeIds.
    case volumeIds of
      [] \<Rightarrow> ret (Some (ErrorString ''ListVolumesOnDisk does not return any volumes''))
    | volumeID # _ \<Rightarrow>
        fetch (b_IsVolumeFormatted c volumeID) (\<lambda>formatted.
        attempt (if \<not> formatted then b_FormatVolume c volumeID else ret None)
          (b_MountVolume c volumeID target)))))"

definition v1beta_GetMountRefs :: "string \<Rightarrow> ('x world, string list \<times> goerror option) state" where
  "v1beta_GetMountRefs pathname = ret ([], Some (ErrorString ''GetMountRefs not implemented for ProxyMounter''))"

definition v1beta_IsLikelyNotMountPoint ::
  "'x v1beta_clients \<Rightarrow> string \<Rightarrow> ('x world, bool \<times> goerror option) state" where
  "v1beta_IsLikelyNotMountPoint c file = do {
    r \<leftarrow> b_IsMountPoint c file;
    ret (case r of Inl err \<Rightarrow> (True, Some err) | Inr m \<Rightarrow> (\<not> m, None))
  }"

definition v1beta_List :: "('x world, goerror + mount_point list) state" where
  "v1beta_List = ret (Inr [])"

definition v1beta_IsMountPointMatch :: "mount_point \<Rightarrow> string \<Rightarrow> bool" where
  "v1beta_IsMountPointMatch mp dir \<longleftrightarrow> mp_Path mp = dir"

definition v1beta_GetDiskTotalBytes ::
  "'x v1beta_clients \<Rightarrow> string \<Rightarrow> ('x world, (64 word \<times> goerror option) option) state" where
  "v1beta_GetDiskTotalBytes c devicePath = do {
    r \<leftarrow> b_DiskStats c devicePath;
    ret (case r of Inl _ \<Rightarrow> None | Inr diskSize \<Rightarrow> Some (diskSize, None))
  }"

definition v1beta_MountSensitiveWithoutSystemd ::
  "string \<Rightarrow> string \<Rightarrow> string \<Rightarrow> string list \<Rightarrow> string list \<Rightarrow> ('x world, goerror option) state" where
  "v1beta_MountSensitiveWithoutSystemd source target fstype options sensitiveOptions =
    ret (Some (ErrorString ''MountSensitiveWithoutSystemd is not implemented''))"

definition v1beta_MountSensitiveWithoutSystemdWithMountFlags ::
  "string \<Rightarrow> string \<Rightarrow> string \<Rightarrow> string list \<Rightarrow> string list \<Rightarrow> string list \<Rightarrow>
    ('x world, goerror option) state" where
  "v1beta_MountSensitiveWithoutSystemdWithMountFlags source target fstype options sensitiveOptions mountFlags =
    ret (Some (ErrorString ''MountSensitiveWithoutSystemd is not implemented''))"

section \<open>The common interface and the choice of a version\<close>

text \<open>\<open>CSIProxyMounter\<close>, with the operations of \<open>mount.Interface\<close> that it includes.\<close>

record 'x csi_mounter =
  cm_APIVersions :: string
  cm_RemovePodDir :: "string \<Rightarrow> ('x world, goerror option) state"
  cm_UnmountDevice :: "string \<Rightarrow> ('x world, goerror option) state"
  cm_GetDiskNumber :: "string \<Rightarrow> string \<Rightarrow> string \<Rightarrow> ('x world, (string \<times> goerror option) option) state"
  cm_FormatAndMount :: "string \<Rightarrow> string \<Rightarrow> string \<Rightarrow> string list \<Rightarrow> ('x world, goerror option) state"
  cm_IsMountPointMatch :: "mount_point \<Rightarrow> string \<Rightarrow> bool"
  cm_ExistsPath :: "string \<Rightarrow> ('x world, goerror + bool) state"
  cm_GetDiskTotalBytes :: "string \<Rightarrow> ('x world, (64 word \<times> goerror option) option) state"
  cm_Mount :: "string \<Rightarrow> string \<Rightarrow> string \<Rightarrow> string list \<Rightarrow> ('x world, goerror option) state"
  cm_MountSensitive ::
    "string \<Rightarrow> string \<Rightarrow> string \<Rightarrow> string list \<Rightarrow> string list \<Rightarrow> ('x world, goerror option) state"
  cm_MountSensitiveWithoutSystemd ::
    "string \<Rightarrow> string \<Rightarrow> string \<Rightarrow> string list \<Rightarrow> string list \<Rightarrow> ('x world, goerror option) state"
  cm_Unmount :: "string \<Rightarrow> ('x world, goerror option) state"
  cm_List :: "('x world, goerror + mount_point list) state"
  cm_IsLikelyNotMountPoint :: "string \<Rightarrow> ('x world, bool \<times> goerror option) state"
  cm_GetMountRefs :: "string \<Rightarrow> ('x world, string list \<times> goerror option) state"

definition CSIProxyMounterV1 :: "'x windows \<Rightarrow> 'x v1_clients \<Rightarrow> 'x csi_mounter" where
  "CSIProxyMounterV1 os c =
    \<lparr>cm_APIVersions = v1_GetAPIVersions c, cm_RemovePodDir = v1_RemovePodDir os c,
     cm_UnmountDevice = v1_UnmountDevice os c, cm_GetDiskNumber = v1_GetDiskNumber c,
     cm_FormatAndMount = v1_FormatAndMount c, cm_IsMountPointMatch = v1_IsMountPointMatch,
     cm_ExistsPath = v1_ExistsPath os c, cm_GetDiskTotalBytes = v1_GetDiskTotalBytes c,
     cm_Mount = v1_Mount os c, cm_MountSensitive = v1_MountSensitive os c,
     cm_MountSensitiveWithoutSystemd = v1_MountSensitiveWithoutSystemd, cm_Unmount = v1_Unmount os c,
     cm_List = v1_List, cm_IsLikelyNotMountPoint = v1_IsLikelyNotMountPoint c,
     cm_GetMountRefs = v1_GetMountRefs\<rparr>"

definition CSIProxyMounterV1Beta :: "'x windows \<Rightarrow> 'x v1beta_clients \<Rightarrow> 'x csi_mounter" where
  "CSIProxyMounterV1Beta os c =
    \<lparr>cm_APIVersions = v1beta_GetAPIVersions c, cm_RemovePodDir = v1beta_RemovePodDir os c,
     cm_UnmountDevice = v1beta_UnmountDevice os c, cm_GetDiskNumber = v1beta_GetDiskNumber c,
     cm_FormatAndMount = v1beta_FormatAndMount c, cm_IsMountPointMatch = v1beta_IsMountPointMatch,
     cm_ExistsPath = v1beta_ExistsPath os c, cm_GetDiskTotalBytes = v1beta_GetDiskTotalBytes c,
     cm_Mount = v1beta_Mount os c, cm_MountSensitive = v1beta_MountSensitive os c,
     cm_MountSensitiveWithoutSystemd = v1beta_MountSensitiveWithoutSystemd, cm_Unmount = v1beta_Unmount os c,
     cm_List = v1beta_List, cm_IsLikelyNotMountPoint = v1beta_IsLikelyNotMountPoint c,
     cm_GetMountRefs = v1beta_GetMountRefs\<rparr>"

text \<open>
  Each constructor connects to three services of csi-proxy, file system, disk and volume, and stops at the
  first that fails. \<open>Inl\<close> is the error of a connection.
\<close>

definition new_clients ::
  "('x world, goerror option) state \<Rightarrow> ('x world, goerror option) state \<Rightarrow> ('x world, goerror option) state \<Rightarrow>
    'c \<Rightarrow> ('x world, goerror + 'c) state" where
  "new_clients fs disk volume c = do {
    e \<leftarrow> attempt fs (attempt disk volume);
    ret (case e of Some err \<Rightarrow> Inl err | None \<Rightarrow> Inr c)
  }"

record 'x connections =
  connect_fs :: "('x world, goerror option) state"
  connect_disk :: "('x world, goerror option) state"
  connect_volume :: "('x world, goerror option) state"

definition NewCSIProxyMounterV1 ::
  "'x connections \<Rightarrow> 'x v1_clients \<Rightarrow> ('x world, goerror + 'x v1_clients) state" where
  "NewCSIProxyMounterV1 n c = new_clients (connect_fs n) (connect_disk n) (connect_volume n) c"

definition NewCSIProxyMounterV1Beta ::
  "'x connections \<Rightarrow> 'x v1beta_clients \<Rightarrow> ('x world, goerror + 'x v1beta_clients) state" where
  "NewCSIProxyMounterV1Beta n c = new_clients (connect_fs n) (connect_disk n) (connect_volume n) c"

datatype 'x windows_mounter = MounterV1 "'x v1_clients" | MounterV1Beta "'x v1beta_clients" | OtherMounter

definition NewSafeMounter ::
  "'x connections \<Rightarrow> 'x v1_clients \<Rightarrow> 'x connections \<Rightarrow> 'x v1beta_clients \<Rightarrow>
    ('x world, goerror + 'x windows_mounter) state" where
  "NewSafeMounter n1 c1 nb cb = do {
    r \<leftarrow> NewCSIProxyMounterV1 n1 c1;
    case r of
      Inr c \<Rightarrow> ret (Inr (MounterV1 c))
    | Inl _ \<Rightarrow> do {
        r \<leftarrow> NewCSIProxyMounterV1Beta nb cb;
        ret (case r of Inr c \<Rightarrow> Inr (MounterV1Beta c) | Inl err \<Rightarrow> Inl err)
      }
  }"

text \<open>
  The mounter as the node service sees it, embedded in \<open>SafeFormatAndMount\<close>, whose own method
  \<open>FormatAndMountSensitive\<close> belongs to \<open>k8s.io/mount-utils\<close>.
\<close>

definition safe_mounter ::
  "(string \<Rightarrow> string \<Rightarrow> string \<Rightarrow> string list \<Rightarrow> string list \<Rightarrow> ('x world, goerror option) state) \<Rightarrow>
    'x csi_mounter \<Rightarrow> 'x mounter" where
  "safe_mounter format m =
    \<lparr>IsLikelyNotMountPoint = (\<lambda>file. map_state (\<lambda>(b, e). case e of Some err \<Rightarrow> Inl err | None \<Rightarrow> Inr b)
       (cm_IsLikelyNotMountPoint m file)),
     ListMounts = cm_List m, Unmount = cm_Unmount m, MountSensitive = cm_MountSensitive m,
     MountSensitiveWithoutSystemd = cm_MountSensitiveWithoutSystemd m, FormatAndMountSensitive = format\<rparr>"

section \<open>Statistics\<close>

text \<open>
  \<open>statter_windows.go\<close>. The six numbers are available, capacity, used, and the three of the inodes; \<open>shown\<close>
  is how the value of another mounter prints.
\<close>

type_synonym win_usage = "64 word \<times> 64 word \<times> 64 word \<times> 64 word \<times> 64 word \<times> 64 word"

definition no_win_usage :: win_usage where
  "no_win_usage = (0, 0, 0, 0, 0, 0)"

definition stats_of ::
  "('x world, goerror + string) state \<Rightarrow> (string \<Rightarrow> ('x world, goerror + 64 word \<times> 64 word) state) \<Rightarrow>
    ('x world, win_usage \<times> goerror option) state" where
  "stats_of volume stats = do {
    v \<leftarrow> volume;
    case v of
      Inl err \<Rightarrow> ret (no_win_usage, Some err)
    | Inr volumeID \<Rightarrow> do {
        r \<leftarrow> stats volumeID;
        ret (case r of
               Inl err \<Rightarrow> (no_win_usage, Some err)
             | Inr (total_bytes, used_bytes) \<Rightarrow>
                 ((total_bytes - used_bytes, total_bytes, used_bytes, 0, 0, 0), None))
      }
  }"

definition StatFSV1 :: "'x v1_clients \<Rightarrow> string \<Rightarrow> ('x world, win_usage \<times> goerror option) state" where
  "StatFSV1 proxy path = stats_of (GetVolumeIDFromTargetPath proxy path) (GetVolumeStats proxy)"

definition StatFSV1Beta :: "'x v1beta_clients \<Rightarrow> string \<Rightarrow> ('x world, win_usage \<times> goerror option) state" where
  "StatFSV1Beta proxy path = stats_of (b_GetVolumeIDFromMount proxy path) (b_VolumeStats proxy)"

definition win_StatFS ::
  "string \<Rightarrow> 'x windows_mounter \<Rightarrow> string \<Rightarrow> ('x world, win_usage \<times> goerror option) state" where
  "win_StatFS shown mounter path =
    (case mounter of
       MounterV1 c \<Rightarrow> StatFSV1 c path
     | MounterV1Beta c \<Rightarrow> StatFSV1Beta c path
     | OtherMounter \<Rightarrow> ret (no_win_usage, Some (ErrorString (''Invalid interface type='' @ shown))))"

definition win_IsBlockDevice :: "string \<Rightarrow> ('x world, bool \<times> goerror option) state" where
  "win_IsBlockDevice fullPath = ret (False, None)"

end
