(* ===== verification/Statters.thy ===== *)
theory Statters
  imports Statter CsiProxy
begin

text \<open>
  \<open>mount-manager/statter.go\<close>: the interface for statistics, and its implementations and test doubles on both
  systems. The mounter that a constructor is given is used on Windows only.
\<close>

record 'x statter =
  sf_StatFS :: "string \<Rightarrow> ('x world, usage \<times> goerror option) state"
  sf_IsBlockDevice :: "string \<Rightarrow> ('x world, bool \<times> goerror option) state"

definition linux_NewStatter :: "'x unix_calls \<Rightarrow> 'x statter" where
  "linux_NewStatter unix = \<lparr>sf_StatFS = StatFS unix, sf_IsBlockDevice = IsBlockDevice unix\<rparr>"

definition linux_NewFakeStatter :: "'x statter" where
  "linux_NewFakeStatter = \<lparr>sf_StatFS = fake_StatFS, sf_IsBlockDevice = fake_IsBlockDevice\<rparr>"

text \<open>The six results of the Windows methods, under the names that their signatures give them.\<close>

fun named_usage :: "win_usage \<Rightarrow> usage" where
  "named_usage (a, c, u, ifree, i, iused) =
    \<lparr>available = a, capacity = c, used = u, inodesFree = ifree, inodes = i, inodesUsed = iused\<rparr>"

definition win_NewStatter :: "string \<Rightarrow> 'x windows_mounter \<Rightarrow> 'x statter" where
  "win_NewStatter shown mounter =
    \<lparr>sf_StatFS = (\<lambda>path. map_state (map_prod named_usage id) (win_StatFS shown mounter path)),
     sf_IsBlockDevice = win_IsBlockDevice\<rparr>"

definition win_fake_StatFS :: "string \<Rightarrow> ('x world, win_usage \<times> goerror option) state" where
  "win_fake_StatFS path = ret ((1, 1, 1, 1, 1, 1), None)"

definition win_fake_IsBlockDevice :: "string \<Rightarrow> ('x world, bool \<times> goerror option) state" where
  "win_fake_IsBlockDevice fullPath = ret (False, None)"

definition win_NewFakeStatter :: "'x statter" where
  "win_NewFakeStatter =
    \<lparr>sf_StatFS = (\<lambda>path. map_state (map_prod named_usage id) (win_fake_StatFS path)),
     sf_IsBlockDevice = win_fake_IsBlockDevice\<rparr>"

text \<open>A statter of either system gives no numbers with an error, and the test doubles cannot be told apart.\<close>

lemma linux_error_no_usage:
  "run_state (sf_StatFS (linux_NewStatter unix) path) w = ((u, Some e), w') \<Longrightarrow> u = no_usage"
  by (auto simp: linux_NewStatter_def StatFS_def split_beta split: sum.splits)

lemma win_error_no_usage:
  "run_state (sf_StatFS (win_NewStatter shown m) path) w = ((u, Some e), w') \<Longrightarrow> u = no_usage"
  by (auto simp: win_NewStatter_def win_StatFS_def StatFSV1_def StatFSV1Beta_def stats_of_def no_win_usage_def
      no_usage_def split_beta split: windows_mounter.splits sum.splits)

lemma map_state_ret: "map_state f (ret x) = ret (f x)"
  by (simp add: State_Monad.return_def fun_eq_iff)

lemma fake_statters_alike: "win_NewFakeStatter = (linux_NewFakeStatter :: 'x statter)"
  by (simp add: win_NewFakeStatter_def linux_NewFakeStatter_def fake_StatFS_def fake_IsBlockDevice_def
      win_fake_StatFS_def win_fake_IsBlockDevice_def map_state_ret fun_eq_iff)

end
