(* ===== verification/NodeUtils.thy ===== *)
theory NodeUtils
  imports CsiProxy
begin

text \<open>
  \<open>node/utils_linux.go\<close> and \<open>node/utils_windows.go\<close>: what preparing, mounting, cleaning up and measuring a
  volume is on each system. Operations of \<open>k8s.io/mount-utils\<close> and running a program are parameters. On
  Windows the mounter is cast to \<open>CSIProxyMounter\<close>; \<open>None\<close> stands for a mounter that is not one.
\<close>

section \<open>Linux\<close>

definition linux_formatAndMount ::
  "(string \<Rightarrow> string \<Rightarrow> string \<Rightarrow> string list \<Rightarrow> ('x world, goerror option) state) \<Rightarrow>
    string \<Rightarrow> string \<Rightarrow> string \<Rightarrow> string list \<Rightarrow> ('x world, goerror option) state" where
  "linux_formatAndMount FormatAndMount source target fstype options = FormatAndMount source target fstype options"

definition linux_preparePublishPath :: "string \<Rightarrow> ('x world, goerror option) state" where
  "linux_preparePublishPath path = os_MkdirAll path 0x1E8"

definition linux_cleanupPublishPath ::
  "(string \<Rightarrow> bool \<Rightarrow> ('x world, goerror option) state) \<Rightarrow> string \<Rightarrow> ('x world, goerror option) state" where
  "linux_cleanupPublishPath CleanupMountPoint path = CleanupMountPoint path False"

definition linux_cleanupStagePath ::
  "(string \<Rightarrow> bool \<Rightarrow> ('x world, goerror option) state) \<Rightarrow> string \<Rightarrow> ('x world, goerror option) state" where
  "linux_cleanupStagePath CleanupMountPoint path = linux_cleanupPublishPath CleanupMountPoint path"

definition linux_getBlockSizeBytes ::
  "(string list \<Rightarrow> ('x world, string \<times> goerror option) state) \<Rightarrow> string \<Rightarrow>
    ('x world, int \<times> goerror option) state" where
  "linux_getBlockSizeBytes Command devicePath = do {
    (output, err) \<leftarrow> Command [''blockdev'', ''--getsize64'', devicePath];
    ret (case err of
           Some err \<Rightarrow> (- 1, Some (ErrorString (''error when getting size of block volume at path '' @ devicePath @
             '': output: '' @ output @ '', err: '' @ error_text err)))
         | None \<Rightarrow>
             let strOut = TrimSpace output
             in (case ParseInt strOut of
                   Inl _ \<Rightarrow> (- 1, Some (ErrorString (''failed to parse '' @ strOut @ '' into an int size'')))
                 | Inr gotSizeBytes \<Rightarrow> (gotSizeBytes, None)))
  }"

section \<open>Windows\<close>

definition no_cast :: goerror where
  "no_cast = ErrorString ''could not cast to csi proxy class''"

text \<open>
  \<open>strings.EqualFold\<close> for the name \<open>ntfs\<close>: besides the letters' other case, the long s, U+017F, folds to s.
\<close>

definition lower_ascii :: "char \<Rightarrow> char" where
  "lower_ascii c = (let n = of_char c :: nat in if 65 \<le> n \<and> n \<le> 90 then char_of (n + 32) else c)"

definition EqualFold_ntfs :: "string \<Rightarrow> bool" where
  "EqualFold_ntfs s \<longleftrightarrow> List.map lower_ascii s = ''ntfs'' \<or> List.map lower_ascii s = ''ntf'' @ [CHR 0xC5, CHR 0xBF]"

text \<open>The name \<open>defaultWindowsFsType\<close> that the error prints is declared nowhere: it is a parameter.\<close>

definition win_formatAndMount ::
  "string \<Rightarrow> 'x csi_mounter option \<Rightarrow> string \<Rightarrow> string \<Rightarrow> string \<Rightarrow> string list \<Rightarrow>
    ('x world, goerror option) state" where
  "win_formatAndMount defaultWindowsFsType m source target fstype options =
    (if \<not> EqualFold_ntfs fstype
     then ret (Some (ErrorString (''GCE PD CSI driver can only supports '' @ defaultWindowsFsType @
       '' file system, it does not support '' @ fstype)))
     else (case m of
             None \<Rightarrow> ret (Some no_cast)
           | Some proxy \<Rightarrow> cm_FormatAndMount proxy source target fstype options))"

definition win_preparePublishPath :: "string \<Rightarrow> 'x csi_mounter option \<Rightarrow> ('x world, goerror option) state" where
  "win_preparePublishPath path m =
    (case m of
       None \<Rightarrow> ret (Some no_cast)
     | Some proxy \<Rightarrow> fetch (cm_ExistsPath proxy path) (\<lambda>there.
         if there then cm_RemovePodDir proxy path else ret None))"

definition win_cleanupPublishPath :: "string \<Rightarrow> 'x csi_mounter option \<Rightarrow> ('x world, goerror option) state" where
  "win_cleanupPublishPath path m =
    (case m of None \<Rightarrow> ret (Some no_cast) | Some proxy \<Rightarrow> cm_RemovePodDir proxy path)"

definition win_cleanupStagePath :: "string \<Rightarrow> 'x csi_mounter option \<Rightarrow> ('x world, goerror option) state" where
  "win_cleanupStagePath path m =
    (case m of None \<Rightarrow> ret (Some no_cast) | Some proxy \<Rightarrow> cm_UnmountDevice proxy path)"

definition disableDevice :: "string \<Rightarrow> ('x world, goerror option) state" where
  "disableDevice devicePath = ret None"

definition win_getBlockSizeBytes ::
  "string \<Rightarrow> 'x csi_mounter option \<Rightarrow> ('x world, (64 word \<times> goerror option) option) state" where
  "win_getBlockSizeBytes devicePath m =
    (case m of
       None \<Rightarrow> ret (Some (0, Some no_cast))
     | Some proxy \<Rightarrow> cm_GetDiskTotalBytes proxy devicePath)"

end
