(* ===== verification/CsiProxyProps.thy ===== *)
theory CsiProxyProps
  imports NodeUtils NodeProps
begin

text \<open>
  What the two csi-proxy mounters promise to the node service, as one contract, and what follows from it; how
  far a disk number is trusted, what a failed unmount leaves, and when a volume is formatted.
\<close>

section \<open>Sequences of calls\<close>

lemma run_attempt [simp]:
  "run_state (attempt m k) w = (case run_state m w of (e, w') \<Rightarrow> (case e of None \<Rightarrow> run_state k w' | Some err \<Rightarrow> (Some err, w')))"
  by (simp add: attempt_def split: prod.split option.split)

lemma run_fetch [simp]:
  "run_state (fetch m k) w = (case run_state m w of (r, w') \<Rightarrow> (case r of Inl err \<Rightarrow> (Some err, w') | Inr a \<Rightarrow> run_state (k a) w'))"
  by (simp add: fetch_def split: prod.split sum.split)

lemma fetch_ret: "fetch (ret (Inr a)) k = k a"
  by (simp add: fetch_def)

section \<open>The contract of a mounter\<close>

text \<open>\<open>norm\<close> is the normal form of Windows paths that the mounter sends.\<close>

locale csi_proxy_mounter =
  fixes m :: "'x csi_mounter"
    and norm :: "string \<Rightarrow> string"
  assumes bind_refused: "\<exists>err. \<forall>w. run_state (cm_MountSensitiveWithoutSystemd m s t f o1 o2) w = (Some err, w)"
    and unmount_removes: "cm_Unmount m = cm_RemovePodDir m"
    and lists_nothing: "cm_List m = ret (Inr [])"
    and refs_unknown: "\<exists>err. cm_GetMountRefs m p = ret ([], Some err)"
    and mount_plain: "cm_Mount m s t f opts = cm_MountSensitive m s t f opts []"
    and unmount_missing: "run_state (cm_ExistsPath m (norm p)) w = (Inr False, w1) \<Longrightarrow>
      run_state (cm_UnmountDevice m p) w = (None, w1)"
    and unmount_unknown: "run_state (cm_ExistsPath m (norm p)) w = (Inl err, w1) \<Longrightarrow>
      run_state (cm_UnmountDevice m p) w = (Some err, w1)"
begin

lemma bind_mount_fails:
  "\<exists>err. \<forall>w. run_state (BindMount s t ro (safe_mounter format m)) w = (Some err, w)"
  unfolding BindMount_def safe_mounter_def Let_def using bind_refused by simp

text \<open>Publishing on a mounter that keeps the contract.\<close>

lemma publish_not_mounted:
  assumes "mounter ns = safe_mounter format m"
    and "run_state (isVolumePathMounted ns (pub_TargetPath req)) w = (False, w1)"
  shows "\<exists>c msg. fst (run_state (publish_mount ns req) w) = fail c msg \<and> (c = Internal \<or> c = FailedPrecondition)"
proof -
  obtain err where e: "\<And>v. run_state (BindMount (pub_StagingTargetPath req) (pub_TargetPath req)
      (pub_Readonly req) (mounter ns)) v = (Some err, v)"
    using bind_mount_fails unfolding assms(1) by metis
  show ?thesis
    using assms(2) e by (auto simp: publish_mount_def split: prod.split sum.split)
qed

text \<open>No device is ever found behind a mount, since the list of mounts is empty.\<close>

lemma no_device_found:
  assumes "run_state (GetDeviceFromMount (safe_mounter format m) path) w = (Inr dev, w1)"
  shows "dev = ''''"
  using assms lists_nothing
  by (auto simp: GetDeviceFromMount_def safe_mounter_def first_device_def split: prod.splits sum.splits if_splits)

end

interpretation v1: csi_proxy_mounter "CSIProxyMounterV1 os c" "NormalizeWindowsPath os" for os c
  by unfold_locales
    (auto simp: CSIProxyMounterV1_def v1_MountSensitiveWithoutSystemd_def v1_Unmount_def fun_eq_iff v1_List_def
      v1_GetMountRefs_def v1_Mount_def v1_UnmountDevice_def Let_def)

interpretation v1beta: csi_proxy_mounter "CSIProxyMounterV1Beta os c" "NormalizeWindowsPath os" for os c
  by unfold_locales
    (auto simp: CSIProxyMounterV1Beta_def v1beta_MountSensitiveWithoutSystemd_def v1beta_Unmount_def fun_eq_iff
      v1beta_List_def v1beta_GetMountRefs_def v1beta_Mount_def v1beta_UnmountDevice_def Let_def)

text \<open>
  C26. On Windows, publishing a volume whose target is not mounted yet always fails, with either version of
  csi-proxy: the bind mount is made with the one operation that the mounters do not implement.
\<close>

theorem windows_publish_fails:
  assumes "mounter ns = safe_mounter format (CSIProxyMounterV1 os c) \<or>
      mounter ns = safe_mounter format (CSIProxyMounterV1Beta os cb)"
    and "run_state (isVolumePathMounted ns (pub_TargetPath req)) w = (False, w1)"
  shows "\<exists>c msg. fst (run_state (publish_mount ns req) w) = fail c msg \<and> (c = Internal \<or> c = FailedPrecondition)"
  using assms v1.publish_not_mounted v1beta.publish_not_mounted by blast

text \<open>A host and a service with one disk, number 0, whose only volume is formatted; no path exists on it.\<close>

definition windows0 :: "unit windows" where
  "windows0 = \<lparr>NormalizeWindowsPath = (\<lambda>p. p), win_Dir = (\<lambda>p. p), win_MkdirAll = (\<lambda>_ _. ret None)\<rparr>"

definition clients0 :: "unit v1_clients" where
  "clients0 =
    \<lparr>fs_Version = ''v1'', disk_Version = ''v1'', volume_Version = ''v1'',
     CreateSymlink = (\<lambda>_ _. ret None), Rmdir = (\<lambda>_ _. ret None), IsSymlink = (\<lambda>_. ret (Inr False)),
     fs_PathExists = (\<lambda>_. ret (Inr False)), ListDiskIDs = ret (Inr [(0, ''Google disk-1'')]),
     PartitionDisk = (\<lambda>_. ret None), SetDiskState = (\<lambda>_ _. ret None),
     GetDiskStats = (\<lambda>_. ret (Inl (Sentinel ''no stats''))),
     GetVolumeIDFromTargetPath = (\<lambda>_. ret (Inr ''vol'')), UnmountVolume = (\<lambda>_ _. ret None),
     GetDiskNumberFromVolumeID = (\<lambda>_. ret (Inl (Sentinel ''no disk''))),
     ListVolumesOnDisk = (\<lambda>_. ret (Inr [''vol''])), IsVolumeFormatted = (\<lambda>_. ret (Inr True)),
     FormatVolume = (\<lambda>_. ret None), MountVolume = (\<lambda>_ _. ret None),
     GetVolumeStats = (\<lambda>_. ret (Inr (10, 4)))\<rparr>"

definition windows_server :: "unit Server" where
  "windows_server = demo_server\<lparr>mounter := safe_mounter (\<lambda>_ _ _ _ _. ret None) (CSIProxyMounterV1 windows0 clients0)\<rparr>"

theorem windows_publish_fails_witness:
  "\<exists>c msg. fst (run_state (publish_mount windows_server mount_publish_req) demo_world) = fail c msg"
proof -
  have "run_state (isVolumePathMounted windows_server (pub_TargetPath mount_publish_req)) demo_world =
      (False, demo_world)"
    by (simp add: isVolumePathMounted_def windows_server_def safe_mounter_def CSIProxyMounterV1_def
        v1_IsLikelyNotMountPoint_def clients0_def)
  moreover have "mounter windows_server = safe_mounter (\<lambda>_ _ _ _ _. ret None) (CSIProxyMounterV1 windows0 clients0)"
    by (simp add: windows_server_def)
  ultimately show ?thesis using windows_publish_fails by blast
qed

section \<open>Disk numbers\<close>

text \<open>
  Version 1 keeps only the lowest 32 bits of the disk number it is asked to partition, format and mount: a
  number beyond 32 bits, which csi-proxy cannot know, selects the disk whose number it leaves.
\<close>

theorem format_truncates_disk:
  assumes "n < 2 ^ 64"
  shows "v1_FormatAndMount c (show_nat n) target fstype opts =
    v1_FormatAndMount c (show_nat (n mod 2 ^ 32)) target fstype opts"
proof -
  have "n mod 2 ^ 32 < 2 ^ 64" by (rule less_trans [OF mod_less_divisor]) simp_all
  moreover have "(of_nat n :: 32 word) = of_nat (n mod 2 ^ 32)"
    by (simp add: word_of_nat_eq_iff take_bit_eq_mod)
  ultimately show ?thesis
    using assms unfolding v1_FormatAndMount_def by (simp add: ParseUint_show fetch_ret Let_def)
qed

theorem format_truncates_disk_witness:
  "v1_FormatAndMount clients0 (show_nat 4294967296) ''C:'' '''' [] =
    v1_FormatAndMount clients0 (show_nat 0) ''C:'' '''' []"
  using format_truncates_disk [of 4294967296 clients0 "''C:''" "''''" "[]"] by simp

text \<open>A disk is found by the last word of its page 83 identifier; one whose identifier is blank has none.\<close>

definition names_disk :: "string \<Rightarrow> string \<Rightarrow> bool" where
  "names_disk name ident \<longleftrightarrow> Fields ident \<noteq> [] \<and> last (Fields ident) = name"

definition blank :: "string \<Rightarrow> bool" where
  "blank ident \<longleftrightarrow> ident \<noteq> '''' \<and> Fields ident = []"

lemma Fields_Nil: "Fields '''' = []"
  by (simp add: Fields.simps [of "''''"])

lemma v1_find_disk_eq:
  "v1_find_disk name disks =
    (case dropWhile (\<lambda>(n, ident). \<not> blank ident \<and> \<not> names_disk name ident) disks of
       [] \<Rightarrow> Some ('''', Some (ErrorString (''could not find disk number for device '' @ name)))
     | (n, ident) # _ \<Rightarrow> if blank ident then None else Some (show_nat (unat n), None))"
  by (induction name disks rule: v1_find_disk.induct)
    (auto simp: Let_def names_disk_def blank_def Fields_Nil)

text \<open>
  \<open>GetDiskNumber\<close> takes the first disk, in the order in which the map is iterated, whose identifier is
  blank or ends in the device name: the number of that disk is the result, but a blank identifier makes the
  process panic, and no such disk at all is an error.
\<close>

theorem get_disk_number_spec:
  assumes "run_state (ListDiskIDs c) w = (Inr disks, w')"
  shows "run_state (v1_GetDiskNumber c name part key) w =
    ((case dropWhile (\<lambda>(n, ident). \<not> blank ident \<and> \<not> names_disk name ident) disks of
        [] \<Rightarrow> Some ('''', Some (ErrorString (''could not find disk number for device '' @ name)))
      | (n, ident) # _ \<Rightarrow> if blank ident then None else Some (show_nat (unat n), None)), w')"
  using assms by (simp add: v1_GetDiskNumber_def v1_find_disk_eq)

theorem get_disk_number_spec_witness:
  "fst (run_state (v1_GetDiskNumber (clients0\<lparr>ListDiskIDs := ret (Inr [(3, '' ''), (0, ''Google disk-1'')])\<rparr>)
      ''disk-1'' '''' '''') demo_world) = None \<and>
   fst (run_state (v1_GetDiskNumber clients0 ''disk-1'' '''' '''') demo_world) = Some (''0'', None)"
proof
  have "blank '' ''" by (simp add: blank_def) code_simp
  then show "fst (run_state (v1_GetDiskNumber (clients0\<lparr>ListDiskIDs := ret (Inr [(3, '' ''), (0, ''Google disk-1'')])\<rparr>)
      ''disk-1'' '''' '''') demo_world) = None"
    by (subst get_disk_number_spec [where disks = "[(3, '' ''), (0, ''Google disk-1'')]" and w' = demo_world])
      (simp_all add: clients0_def)
  have "\<not> blank ''Google disk-1''" "names_disk ''disk-1'' ''Google disk-1''" by code_simp+
  moreover have "show_nat 0 = ''0''" by code_simp
  ultimately show "fst (run_state (v1_GetDiskNumber clients0 ''disk-1'' '''' '''') demo_world) = Some (''0'', None)"
    by (subst get_disk_number_spec [where disks = "[(0, ''Google disk-1'')]" and w' = demo_world])
      (simp_all add: clients0_def)
qed

section \<open>Unmounting a device\<close>

text \<open>
  Unmounting a device is not repeatable after a late failure: when the disk number cannot be found, after
  the volume was unmounted and the directory removed, the call fails; the next one finds no path, reports
  success, and never takes the disk offline.
\<close>

theorem unmount_retry_leaves_disk_online:
  assumes "NormalizeWindowsPath os p = p"
    and "run_state (fs_PathExists c p) w = (Inr True, w1)"
    and "run_state (GetVolumeIDFromTargetPath c p) w1 = (Inr volumeId, w2)"
    and "run_state (UnmountVolume c p volumeId) w2 = (None, w3)"
    and "run_state (Rmdir c p True) w3 = (None, w4)"
    and "run_state (GetDiskNumberFromVolumeID c volumeId) w4 = (Inl err, w5)"
    and removed: "run_state (fs_PathExists c p) w5 = (Inr False, w6)"
  shows "run_state (v1_UnmountDevice os c p) w = (Some err, w5) \<and>
    run_state (v1_UnmountDevice os c p) w5 = (None, w6)"
  using assms by (simp add: v1_UnmountDevice_def v1_ExistsPath_def)

text \<open>A service that keeps, in the outside world, whether the path exists.\<close>

definition clients1 :: "bool v1_clients" where
  "clients1 =
    \<lparr>fs_Version = ''v1'', disk_Version = ''v1'', volume_Version = ''v1'',
     CreateSymlink = (\<lambda>_ _. ret None), Rmdir = (\<lambda>_ _. State (\<lambda>w. (None, w\<lparr>ext := False\<rparr>))),
     IsSymlink = (\<lambda>_. ret (Inr False)), fs_PathExists = (\<lambda>_. State (\<lambda>w. (Inr (ext w), w))),
     ListDiskIDs = ret (Inr []), PartitionDisk = (\<lambda>_. ret None), SetDiskState = (\<lambda>_ _. ret None),
     GetDiskStats = (\<lambda>_. ret (Inr 0)), GetVolumeIDFromTargetPath = (\<lambda>_. ret (Inr ''vol'')),
     UnmountVolume = (\<lambda>_ _. ret None),
     GetDiskNumberFromVolumeID = (\<lambda>_. ret (Inl (Sentinel ''service is busy''))),
     ListVolumesOnDisk = (\<lambda>_. ret (Inr [])), IsVolumeFormatted = (\<lambda>_. ret (Inr True)),
     FormatVolume = (\<lambda>_. ret None), MountVolume = (\<lambda>_ _. ret None), GetVolumeStats = (\<lambda>_. ret (Inr (0, 0)))\<rparr>"

definition windows1 :: "bool windows" where
  "windows1 = \<lparr>NormalizeWindowsPath = (\<lambda>p. p), win_Dir = (\<lambda>p. p), win_MkdirAll = (\<lambda>_ _. ret None)\<rparr>"

theorem unmount_retry_leaves_disk_online_witness:
  "\<exists>w5. run_state (v1_UnmountDevice windows1 clients1 ''C:'')
      \<lparr>store = [], umask = 0, faults = (\<lambda>_. None), calls = 0, ext = True\<rparr> =
      (Some (Sentinel ''service is busy''), w5) \<and>
    run_state (v1_UnmountDevice windows1 clients1 ''C:'') w5 = (None, w5)"
  by (intro exI, rule unmount_retry_leaves_disk_online) (auto simp: windows1_def clients1_def)

section \<open>Formatting\<close>

definition keeps :: "('x world \<Rightarrow> bool) \<Rightarrow> ('x world, 'a) state \<Rightarrow> bool" where
  "keeps Q m \<longleftrightarrow> (\<forall>w. Q w \<longrightarrow> Q (snd (run_state m w)))"

lemma keeps_attempt: "keeps Q m \<Longrightarrow> keeps Q k \<Longrightarrow> keeps Q (attempt m k)"
  by (auto simp: keeps_def split: prod.split option.split)

lemma keeps_fetch: "keeps Q m \<Longrightarrow> (\<And>a. keeps Q (k a)) \<Longrightarrow> keeps Q (fetch m k)"
  by (auto simp: keeps_def split: prod.split sum.split)

lemma keeps_ret: "keeps Q (ret x)"
  by (simp add: keeps_def)

lemma keeps_format:
  assumes f: "keeps Q f" "keeps Q mnt"
    and safe: "\<And>w w'. Q w \<Longrightarrow> run_state f w = (Inr False, w') \<Longrightarrow> Q (snd (run_state fmt w'))"
  shows "keeps Q (fetch f (\<lambda>formatted. attempt (if \<not> formatted then fmt else ret None) mnt))"
  unfolding keeps_def
proof (intro allI impI)
  fix w
  assume q: "Q w"
  obtain r w1 where r: "run_state f w = (r, w1)" by fastforce
  then have q1: "Q w1" using f(1) q unfolding keeps_def by fastforce
  show "Q (snd (run_state (fetch f (\<lambda>formatted. attempt (if \<not> formatted then fmt else ret None) mnt)) w))"
  proof (cases "r = Inr False")
    case True
    obtain e w2 where e: "run_state fmt w1 = (e, w2)" by fastforce
    then have "Q w2" using safe [OF q] r True by simp
    with f(2) e r True show ?thesis by (cases e) (simp_all add: keeps_def)
  next
    case False
    with f(2) q1 r show ?thesis by (cases r) (auto simp: keeps_def)
  qed
qed

text \<open>
  C25. Formatting and mounting keeps data: a fact about the disks that every request other than formatting
  keeps, and that formatting keeps when csi-proxy has just reported the volume as not formatted, is kept by
  the whole operation.
\<close>

theorem format_keeps_data:
  assumes "\<And>d. keeps Q (PartitionDisk c d)" and "\<And>d b. keeps Q (SetDiskState c d b)"
    and "\<And>d. keeps Q (ListVolumesOnDisk c d)" and "\<And>v. keeps Q (IsVolumeFormatted c v)"
    and "\<And>v t. keeps Q (MountVolume c v t)"
    and "\<And>v w w'. Q w \<Longrightarrow> run_state (IsVolumeFormatted c v) w = (Inr False, w') \<Longrightarrow>
      Q (snd (run_state (FormatVolume c v) w'))"
  shows "keeps Q (v1_FormatAndMount c source target fstype opts)"
proof -
  have "keeps Q (case volumeIds of
      [] \<Rightarrow> ret (Some (ErrorString ''ListVolumesOnDisk does not return any volumes''))
    | volumeID # _ \<Rightarrow>
        fetch (IsVolumeFormatted c volumeID) (\<lambda>formatted.
        attempt (if \<not> formatted then FormatVolume c volumeID else ret None)
          (MountVolume c volumeID target)))" for volumeIds
    using keeps_format [OF assms(4,5,6)] by (cases volumeIds) (simp_all add: keeps_ret)
  then show ?thesis
    unfolding v1_FormatAndMount_def Let_def by (intro keeps_fetch keeps_attempt keeps_ret assms(1-3))
qed

theorem format_keeps_data_witness:
  "keeps ext (v1_FormatAndMount (clients1\<lparr>IsVolumeFormatted := (\<lambda>_. State (\<lambda>w. (Inr (ext w), w))),
    FormatVolume := (\<lambda>_. State (\<lambda>w. (None, w\<lparr>ext := False\<rparr>)))\<rparr>) ''0'' ''C:'' '''' [])"
  by (rule format_keeps_data) (auto simp: keeps_def clients1_def)

section \<open>The choice of a version\<close>

text \<open>
  Version 1 is taken when all three of its services answer, whatever the other version would do; otherwise
  version 1 beta, and its error, not the one of version 1, is reported when that fails too.
\<close>

lemma new_clients_cases:
  "run_state (new_clients f d v c) w = (r, w') \<Longrightarrow> r = Inr c \<or> (\<exists>err. r = Inl err)"
  by (auto simp: new_clients_def split: option.splits prod.splits)

lemma NewSafeMounter_cases:
  assumes "run_state (NewCSIProxyMounterV1 n1 c1) w = (r1, w1)"
    and "run_state (NewCSIProxyMounterV1Beta nb cb) w1 = (r2, w2)"
  shows "run_state (NewSafeMounter n1 c1 nb cb) w =
    (case r1 of
       Inr c \<Rightarrow> (Inr (MounterV1 c1), w1)
     | Inl _ \<Rightarrow> (case r2 of Inr c \<Rightarrow> (Inr (MounterV1Beta cb), w2) | Inl err \<Rightarrow> (Inl err, w2)))"
proof -
  have r1: "r1 = Inr c1 \<or> (\<exists>err. r1 = Inl err)"
    by (rule new_clients_cases [OF assms(1) [unfolded NewCSIProxyMounterV1_def]])
  have r2: "r2 = Inr cb \<or> (\<exists>err. r2 = Inl err)"
    by (rule new_clients_cases [OF assms(2) [unfolded NewCSIProxyMounterV1Beta_def]])
  from r1 show ?thesis
  proof (elim disjE exE)
    fix err
    assume "r1 = Inl err"
    then show ?thesis using r2 assms by (elim disjE exE) (simp_all add: NewSafeMounter_def)
  qed (use assms in \<open>simp add: NewSafeMounter_def\<close>)
qed

text \<open>A failed request for the size of a disk ends in a panic, and the node service's helper passes it on.\<close>

lemma disk_size_panics:
  assumes "ParseUint path = Inr n" and "run_state (GetDiskStats c (of_nat n)) w = (Inl err, w')"
  shows "run_state (win_getBlockSizeBytes path (Some (CSIProxyMounterV1 os c))) w = (None, w')"
  using assms by (simp add: win_getBlockSizeBytes_def CSIProxyMounterV1_def v1_GetDiskTotalBytes_def)

lemma windows_usage_adds_up:
  assumes "run_state (win_StatFS shown m path) w = (((a, t, u, i1, i2, i3), None), w')"
  shows "a + u = t"
  using assms
  by (auto simp: win_StatFS_def StatFSV1_def StatFSV1Beta_def stats_of_def no_win_usage_def
      split: windows_mounter.splits prod.splits sum.splits)

end
