(* ===== verification/SafeMounters.thy ===== *)
theory SafeMounters
  imports GoErrors "HOL-Library.State_Monad"
begin

text \<open>
  \<open>mount-manager/safe-mounter_linux.go\<close> and \<open>fake-safe-mounter.go\<close>: the constructors of mounters, and the
  mounter of tests whose mounts wait for the test. The mounters of \<open>k8s.io/mount-utils\<close> are parameters:
  \<open>'m\<close> is the state of its fake mounter, which objects hold that are known by their addresses.
\<close>

section \<open>Constructors\<close>

record ('i, 'e) SafeFormatAndMount =
  Interface :: 'i
  Exec :: "'e option"

definition linux_NewSafeMounter ::
  "(string \<Rightarrow> 'i) \<Rightarrow> 'e \<Rightarrow> goerror + ('i, 'e) SafeFormatAndMount" where
  "linux_NewSafeMounter mount_New exec_New =
    (let realMounter = mount_New ''''; realExec = exec_New
     in Inr \<lparr>Interface = realMounter, Exec = Some realExec\<rparr>)"

text \<open>The objects of the package; the first one is the variable \<open>fakeMounter\<close>, which starts empty.\<close>

datatype fake_interface = FakeMounterAt nat | FakeBlockingMounter nat nat

definition fakeMounter :: nat where
  "fakeMounter = 0"

definition package_objects :: "'m \<Rightarrow> 'm list" where
  "package_objects no_mounts = [no_mounts]"

definition NewCustomFakeSafeMounter ::
  "fake_interface \<Rightarrow> 'e \<Rightarrow> (fake_interface, 'e) SafeFormatAndMount" where
  "NewCustomFakeSafeMounter mounter exec = \<lparr>Interface = mounter, Exec = Some exec\<rparr>"

definition NewFakeSafeMounter :: "'e \<Rightarrow> (fake_interface, 'e) SafeFormatAndMount" where
  "NewFakeSafeMounter fakeExec = NewCustomFakeSafeMounter (FakeMounterAt fakeMounter) fakeExec"

definition NewFakeSafeMounterWithCustomExec ::
  "'m \<Rightarrow> 'e \<Rightarrow> ('m list, (fake_interface, 'e) SafeFormatAndMount) state" where
  "NewFakeSafeMounterWithCustomExec no_mounts exec = State (\<lambda>objects.
    (NewCustomFakeSafeMounter (FakeMounterAt (length objects)) exec, objects @ [no_mounts]))"

definition NewFakeSafeBlockingMounter :: "nat \<Rightarrow> (fake_interface, 'e) SafeFormatAndMount" where
  "NewFakeSafeBlockingMounter readyToExecute =
    \<lparr>Interface = FakeBlockingMounter fakeMounter readyToExecute, Exec = None\<rparr>"

fun object_of :: "fake_interface \<Rightarrow> nat" where
  "object_of (FakeMounterAt a) = a"
| "object_of (FakeBlockingMounter a _) = a"

text \<open>
  The mounters without an executor of their own all act on the one object of the package, also the blocking
  ones; only a mounter with its own executor has an object that no other mounter has.
\<close>

theorem fake_mounters_share:
  assumes "0 < length objects"
  shows "object_of (Interface (NewFakeSafeMounter e)) = object_of (Interface (NewFakeSafeBlockingMounter c)) \<and>
    (let (m, objects') = run_state (NewFakeSafeMounterWithCustomExec z e) objects in
      object_of (Interface m) \<noteq> object_of (Interface (NewFakeSafeMounter e)) \<and>
      objects' ! object_of (Interface m) = z \<and> (\<forall>a < length objects. objects' ! a = objects ! a))"
  using assms
  by (simp add: NewFakeSafeMounter_def NewFakeSafeBlockingMounter_def NewFakeSafeMounterWithCustomExec_def
      NewCustomFakeSafeMounter_def fakeMounter_def nth_append)

section \<open>Mounts that wait\<close>

text \<open>
  A call of \<open>Mount\<close> makes a channel of its own, offers it on \<open>ReadyToExecute\<close>, waits on it, and then mounts.
  Channels are not buffered, so each of the two exchanges is one step with the test. \<open>mounted\<close> logs the calls
  in the order in which they mount.
\<close>

record mount_call =
  mc_source :: string
  mc_target :: string
  mc_fstype :: string
  mc_options :: "string list"

datatype mount_phase = Offering | Waiting | Released | Returned "goerror option"

record 'm blocking =
  callers :: "nat \<rightharpoonup> mount_call \<times> mount_phase"
  object :: 'm
  mounted :: "nat list"

inductive blocking_step ::
  "('m \<Rightarrow> mount_call \<Rightarrow> goerror option \<times> 'm) \<Rightarrow> 'm blocking \<Rightarrow> 'm blocking \<Rightarrow> bool" for fake_Mount where
  enter: "callers s i = None \<Longrightarrow> blocking_step fake_Mount s (s\<lparr>callers := (callers s)(i \<mapsto> (c, Offering))\<rparr>)"
| taken: "callers s i = Some (c, Offering) \<Longrightarrow>
    blocking_step fake_Mount s (s\<lparr>callers := (callers s)(i \<mapsto> (c, Waiting))\<rparr>)"
| release: "callers s i = Some (c, Waiting) \<Longrightarrow>
    blocking_step fake_Mount s (s\<lparr>callers := (callers s)(i \<mapsto> (c, Released))\<rparr>)"
| mounts: "callers s i = Some (c, Released) \<Longrightarrow> fake_Mount (object s) c = (r, m) \<Longrightarrow>
    blocking_step fake_Mount s
      (s\<lparr>callers := (callers s)(i \<mapsto> (c, Returned r)), object := m, mounted := mounted s @ [i]\<rparr>)"

definition blocking_start :: "'m \<Rightarrow> 'm blocking" where
  "blocking_start m = \<lparr>callers = Map.empty, object = m, mounted = []\<rparr>"

text \<open>The object after the given mounts.\<close>

definition after_mounts :: "('m \<Rightarrow> mount_call \<Rightarrow> goerror option \<times> 'm) \<Rightarrow> mount_call list \<Rightarrow> 'm \<Rightarrow> 'm" where
  "after_mounts fake_Mount cs m = fold (\<lambda>c m. snd (fake_Mount m c)) cs m"

definition call_of :: "'m blocking \<Rightarrow> nat \<Rightarrow> mount_call" where
  "call_of s i = fst (the (callers s i))"

definition has_returned :: "'m blocking \<Rightarrow> nat \<Rightarrow> bool" where
  "has_returned s i \<longleftrightarrow> (\<exists>c r. callers s i = Some (c, Returned r))"

text \<open>The object is that of the calls that have mounted, each of them once and none before it was released.\<close>

definition mounts_accounted :: "('m \<Rightarrow> mount_call \<Rightarrow> goerror option \<times> 'm) \<Rightarrow> 'm \<Rightarrow> 'm blocking \<Rightarrow> bool" where
  "mounts_accounted fake_Mount m0 s \<longleftrightarrow>
     object s = after_mounts fake_Mount (List.map (call_of s) (mounted s)) m0 \<and>
     distinct (mounted s) \<and> (\<forall>i. i \<in> set (mounted s) \<longleftrightarrow> has_returned s i)"

lemma accounted_other:
  assumes "mounts_accounted fm m0 s" and "\<not> has_returned s i" and "\<And>r. p \<noteq> Returned r"
  shows "mounts_accounted fm m0 (s\<lparr>callers := (callers s)(i \<mapsto> (c, p))\<rparr>)"
proof -
  have "i \<notin> set (mounted s)" using assms(1,2) by (simp add: mounts_accounted_def)
  then have calls: "List.map (call_of (s\<lparr>callers := (callers s)(i \<mapsto> (c, p))\<rparr>)) (mounted s) =
      List.map (call_of s) (mounted s)"
    by (auto simp: call_of_def)
  have "object (s\<lparr>callers := (callers s)(i \<mapsto> (c, p))\<rparr>) =
      after_mounts fm (List.map (call_of (s\<lparr>callers := (callers s)(i \<mapsto> (c, p))\<rparr>)) (mounted s)) m0"
    unfolding calls using assms(1) unfolding mounts_accounted_def by simp
  with assms show ?thesis by (auto simp: mounts_accounted_def has_returned_def)
qed

lemma blocking_step_accounted:
  "blocking_step fm s t \<Longrightarrow> mounts_accounted fm m0 s \<Longrightarrow> mounts_accounted fm m0 t"
proof (induction rule: blocking_step.induct)
  case (mounts s i c r m)
  let ?t = "s\<lparr>callers := (callers s)(i \<mapsto> (c, Returned r)), object := m, mounted := mounted s @ [i]\<rparr>"
  have i: "i \<notin> set (mounted s)" using mounts.hyps(1) mounts.prems
    by (auto simp: mounts_accounted_def has_returned_def)
  then have calls: "List.map (call_of ?t) (mounted s) = List.map (call_of s) (mounted s)"
    by (auto simp: call_of_def)
  have "after_mounts fm (List.map (call_of ?t) (mounted ?t)) m0 =
      snd (fm (after_mounts fm (List.map (call_of ?t) (mounted s)) m0) c)"
    by (simp add: after_mounts_def) (simp add: call_of_def)
  also have "\<dots> = m"
    unfolding calls using mounts.prems mounts.hyps(2) unfolding mounts_accounted_def by simp
  finally have "object ?t = after_mounts fm (List.map (call_of ?t) (mounted ?t)) m0" by simp
  moreover have "\<forall>j. j \<in> set (mounted ?t) \<longleftrightarrow> has_returned ?t j"
    using mounts.prems by (auto simp: mounts_accounted_def has_returned_def)
  ultimately show ?case using i mounts.prems by (simp add: mounts_accounted_def)
qed (rule accounted_other; auto simp: has_returned_def)+

theorem fake_mounts_released:
  assumes "(blocking_step fm)\<^sup>*\<^sup>* (blocking_start m0) s"
  shows "mounts_accounted fm m0 s"
  using assms
proof (induction rule: rtranclp_induct)
  case base
  show ?case by (simp add: mounts_accounted_def blocking_start_def after_mounts_def has_returned_def)
qed (rule blocking_step_accounted)

text \<open>A call that the test has not released has no effect, and it never returns by itself.\<close>

theorem fake_mount_waits:
  assumes "callers s i = Some (c, Offering) \<or> callers s i = Some (c, Waiting)"
    and "blocking_step fm s t"
  shows "\<exists>p. callers t i = Some (c, p) \<and> (\<forall>r. p \<noteq> Returned r)"
  using assms(2,1) by (cases rule: blocking_step.cases) (auto simp: fun_upd_def)

end
