(* ===== verification/Config.thy ===== *)
theory Config
  imports Storage NodeServer
begin

text \<open>
  The options from which a driver is meant to be configured. They name a storage backend, the manager of the
  node service and the mounter; a mounter that is not specified is nil.
\<close>

record ('s, 'x) Options =
  DriverName :: string
  DriverVersion :: string
  opt_NodeID :: string
  Store :: "'s storage_interface"
  NodeManager :: "'x manager"
  opt_Mounter :: "'x mounter option"
  opt_MaxVolumesPerNode :: "64 word"

end
